(* ===== verification/Prelude.thy ===== *)
theory Prelude
  imports Main "HOL-Library.Sublist"
begin

text \<open>
  Shared vocabulary of the development.

  \<^item> \<open>outcome\<close>: the result of a Rust computation that may return \<open>Ok\<close>, return \<open>Err\<close> or panic
    (a failed \<open>assert!\<close>, \<open>expect\<close>, \<open>unwrap\<close>, an index out of range, an overflow in a build with
    overflow checks).
  \<^item> \<open>sm\<close>: methods that take \<open>&mut self\<close> and may fail.  The state survives an \<open>Err\<close>, exactly as a
    Rust value keeps the mutations made before the \<open>?\<close> operator returned.
  \<^item> \<open>triple\<close>: a specification of such a method, with a postcondition for \<open>Ok\<close>, one for \<open>Err\<close>,
    and the promise that it does not panic.
  \<^item> ordered association lists, the model of \<open>std::collections::BTreeMap\<close>, behind the locale
    \<open>finite_map\<close>.
  \<^item> list lemmas shared by the components.
\<close>

named_theorems triple_rules \<open>composition rules of the specification logic\<close>
named_theorems sm_simps \<open>unfolding of the state and error monad\<close>

section \<open>Outcomes\<close>

datatype ('e, 'a) outcome = Ok 'a | Err 'e | Panic

primrec obind :: "('e, 'a) outcome \<Rightarrow> ('a \<Rightarrow> ('e, 'b) outcome) \<Rightarrow> ('e, 'b) outcome" where
  "obind (Ok x) f = f x"
| "obind (Err e) f = Err e"
| "obind Panic f = Panic"

primrec omap_err :: "('e \<Rightarrow> 'f) \<Rightarrow> ('e, 'a) outcome \<Rightarrow> ('f, 'a) outcome" where
  "omap_err f (Ok x) = Ok x"
| "omap_err f (Err e) = Err (f e)"
| "omap_err f Panic = Panic"

text \<open>\<open>Option::expect\<close> and \<open>Option::unwrap\<close>.\<close>

primrec expect :: "'a option \<Rightarrow> ('e, 'a) outcome" where
  "expect None = Panic"
| "expect (Some x) = Ok x"

definition oassert :: "bool \<Rightarrow> ('e, unit) outcome" where
  "oassert b = (if b then Ok () else Panic)"

lemma obind_Ok_iff [simp]: "obind m f = Ok y \<longleftrightarrow> (\<exists>x. m = Ok x \<and> f x = Ok y)"
  by (cases m) auto

lemma obind_Err_iff [simp]:
  "obind m f = Err e \<longleftrightarrow> m = Err e \<or> (\<exists>x. m = Ok x \<and> f x = Err e)"
  by (cases m) auto

lemma obind_Panic_iff [simp]:
  "obind m f = Panic \<longleftrightarrow> m = Panic \<or> (\<exists>x. m = Ok x \<and> f x = Panic)"
  by (cases m) auto

lemma omap_err_Ok_iff [simp]: "omap_err f m = Ok x \<longleftrightarrow> m = Ok x"
  by (cases m) auto

lemma omap_err_Panic_iff [simp]: "omap_err f m = Panic \<longleftrightarrow> m = Panic"
  by (cases m) auto

lemma expect_iff [simp]:
  "expect m = Ok x \<longleftrightarrow> m = Some x" "expect m \<noteq> Err e" "expect m = Panic \<longleftrightarrow> m = None"
  by (cases m; auto)+

lemma oassert_iff [simp]:
  "oassert b = Ok u \<longleftrightarrow> b" "oassert b \<noteq> Err e" "oassert b = Panic \<longleftrightarrow> \<not> b"
  by (auto simp: oassert_def)

section \<open>Methods with state and errors\<close>

type_synonym ('s, 'e, 'a) sm = "'s \<Rightarrow> ('e, 'a) outcome \<times> 's"

definition ret :: "'a \<Rightarrow> ('s, 'e, 'a) sm" where
  "ret x s = (Ok x, s)"

definition throw :: "'e \<Rightarrow> ('s, 'e, 'a) sm" where
  "throw e s = (Err e, s)"

definition crash :: "('s, 'e, 'a) sm" where
  "crash s = (Panic, s)"

definition sbind :: "('s, 'e, 'a) sm \<Rightarrow> ('a \<Rightarrow> ('s, 'e, 'b) sm) \<Rightarrow> ('s, 'e, 'b) sm" where
  "sbind m f s =
     (case m s of
        (Ok x, s') \<Rightarrow> f x s'
      | (Err e, s') \<Rightarrow> (Err e, s')
      | (Panic, s') \<Rightarrow> (Panic, s'))"

definition sthen :: "('s, 'e, 'a) sm \<Rightarrow> ('s, 'e, 'b) sm \<Rightarrow> ('s, 'e, 'b) sm" where
  "sthen m n = sbind m (\<lambda>_. n)"

definition gets :: "('s \<Rightarrow> 'a) \<Rightarrow> ('s, 'e, 'a) sm" where
  "gets f s = (Ok (f s), s)"

definition modify :: "('s \<Rightarrow> 's) \<Rightarrow> ('s, 'e, unit) sm" where
  "modify f s = (Ok (), f s)"

text \<open>Run a pure fallible computation that reads the state.\<close>

definition pure :: "('s \<Rightarrow> ('e, 'a) outcome) \<Rightarrow> ('s, 'e, 'a) sm" where
  "pure f s = (f s, s)"

definition sassert :: "bool \<Rightarrow> ('s, 'e, unit) sm" where
  "sassert b = (if b then ret () else crash)"

text \<open>A \<open>for\<close> loop whose body may return early with \<open>?\<close>.\<close>

primrec sforeach :: "'a list \<Rightarrow> ('a \<Rightarrow> ('s, 'e, unit) sm) \<Rightarrow> ('s, 'e, unit) sm" where
  "sforeach [] f = ret ()"
| "sforeach (x # xs) f = sthen (f x) (sforeach xs f)"

lemmas sm_defs [sm_simps] =
  ret_def throw_def crash_def sbind_def sthen_def gets_def modify_def pure_def sassert_def

text \<open>Every run of a sequence is a run of its first part, followed by the rest when that was \<open>Ok\<close>.\<close>

lemma sbindE:
  assumes "sbind m f s = (r, s')"
  obtains (ok) x s1 where "m s = (Ok x, s1)" "f x s1 = (r, s')"
  | (err) e where "m s = (Err e, s')" "r = Err e"
  | (panic) "m s = (Panic, s')" "r = Panic"
  using assms unfolding sbind_def by (auto split: prod.splits outcome.splits)

lemma sbind_OkE:
  assumes "sbind m f s = (Ok y, s')"
  obtains x s1 where "m s = (Ok x, s1)" "f x s1 = (Ok y, s')"
  using assms by (rule sbindE) (use that in auto)

lemma sthenE:
  assumes "sthen m n s = (r, s')"
  obtains (ok) x s1 where "m s = (Ok x, s1)" "n s1 = (r, s')"
  | (err) e where "m s = (Err e, s')" "r = Err e"
  | (panic) "m s = (Panic, s')" "r = Panic"
  using assms unfolding sthen_def by (rule sbindE) auto

lemma sm_run [simp]:
  "ret x s = (r, s') \<longleftrightarrow> r = Ok x \<and> s' = s"
  "throw e s = (r, s') \<longleftrightarrow> r = Err e \<and> s' = s"
  "crash s = (r, s') \<longleftrightarrow> r = Panic \<and> s' = s"
  "gets f s = (r, s') \<longleftrightarrow> r = Ok (f s) \<and> s' = s"
  "modify h s = (q, s') \<longleftrightarrow> q = Ok () \<and> s' = h s"
  "pure k s = (r, s') \<longleftrightarrow> r = k s \<and> s' = s"
  "sassert b s = (q, s') \<longleftrightarrow> q = (if b then Ok () else Panic) \<and> s' = s"
  by (auto simp: sm_defs)

lemma sthen_modify [simp]: "sthen (modify h) n s = n (h s)"
  by (simp add: sm_defs)

lemma sbind_gets [simp]: "sbind (gets f) k s = k (f s) s"
  by (simp add: sm_defs)

lemma sbind_ret [simp]: "sbind (ret x) k s = k x s"
  by (simp add: sm_defs)

lemma sthen_ret [simp]: "sthen (ret x) n s = n s"
  by (simp add: sm_defs)

lemma sbind_Ok: "m s = (Ok x, s') \<Longrightarrow> sbind m f s = f x s'"
  and sbind_Err: "m s = (Err e, s') \<Longrightarrow> sbind m f s = (Err e, s')"
  and sbind_Panic: "m s = (Panic, s') \<Longrightarrow> sbind m f s = (Panic, s')"
  by (simp_all add: sbind_def)

definition triple ::
  "('s \<Rightarrow> bool) \<Rightarrow> ('s, 'e, 'a) sm \<Rightarrow> ('a \<Rightarrow> 's \<Rightarrow> bool) \<Rightarrow> ('e \<Rightarrow> 's \<Rightarrow> bool) \<Rightarrow> bool" where
  "triple P m Q E \<longleftrightarrow>
     (\<forall>s. P s \<longrightarrow>
        (case m s of (Ok x, s') \<Rightarrow> Q x s' | (Err e, s') \<Rightarrow> E e s' | (Panic, s') \<Rightarrow> False))"

lemma tripleI:
  assumes "\<And>s x s'. P s \<Longrightarrow> m s = (Ok x, s') \<Longrightarrow> Q x s'"
    and "\<And>s e s'. P s \<Longrightarrow> m s = (Err e, s') \<Longrightarrow> E e s'"
    and "\<And>s s'. P s \<Longrightarrow> m s \<noteq> (Panic, s')"
  shows "triple P m Q E"
  unfolding triple_def using assms by (fastforce split: prod.splits outcome.splits)

lemma triple_OkD: "triple P m Q E \<Longrightarrow> P s \<Longrightarrow> m s = (Ok x, s') \<Longrightarrow> Q x s'"
  by (auto simp: triple_def dest!: spec [of _ s])

lemma triple_ErrD: "triple P m Q E \<Longrightarrow> P s \<Longrightarrow> m s = (Err e, s') \<Longrightarrow> E e s'"
  by (auto simp: triple_def dest!: spec [of _ s])

lemma triple_PanicD: "triple P m Q E \<Longrightarrow> P s \<Longrightarrow> m s \<noteq> (Panic, s')"
  by (auto simp: triple_def dest!: spec [of _ s])

lemma triple_no_panic: "triple P m Q E \<Longrightarrow> P s \<Longrightarrow> fst (m s) \<noteq> Panic"
  by (metis prod.collapse triple_PanicD)

lemma triple_ret [triple_rules]: "(\<And>s. P s \<Longrightarrow> Q x s) \<Longrightarrow> triple P (ret x) Q E"
  by (simp add: triple_def ret_def)

lemma triple_throw [triple_rules]: "(\<And>s. P s \<Longrightarrow> E e s) \<Longrightarrow> triple P (throw e) Q E"
  by (simp add: triple_def throw_def)

lemma triple_gets [triple_rules]: "(\<And>s. P s \<Longrightarrow> Q (f s) s) \<Longrightarrow> triple P (gets f) Q E"
  by (simp add: triple_def gets_def)

lemma triple_modify [triple_rules]: "(\<And>s. P s \<Longrightarrow> Q () (f s)) \<Longrightarrow> triple P (modify f) Q E"
  by (simp add: triple_def modify_def)

lemma triple_bind [triple_rules]:
  assumes "triple P m R E" and "\<And>x. triple (R x) (f x) Q E"
  shows "triple P (sbind m f) Q E"
  unfolding triple_def sbind_def
proof (intro allI impI)
  fix s assume "P s"
  obtain r s' where m: "m s = (r, s')" by fastforce
  show "case (case m s of (Ok x, s') \<Rightarrow> f x s' | (Err e, s') \<Rightarrow> (Err e, s') | (Panic, s') \<Rightarrow> (Panic, s')) of
      (Ok x, s') \<Rightarrow> Q x s' | (Err e, s') \<Rightarrow> E e s' | (Panic, s') \<Rightarrow> False"
  proof (cases r)
    case (Ok x)
    then have "R x s'" using triple_OkD [OF assms(1) \<open>P s\<close>] m by simp
    then show ?thesis using assms(2) [of x] Ok m by (auto simp: triple_def)
  next
    case (Err e)
    then show ?thesis using triple_ErrD [OF assms(1) \<open>P s\<close>] m by simp
  next
    case Panic
    then show ?thesis using triple_PanicD [OF assms(1) \<open>P s\<close>, of s'] m by simp
  qed
qed

lemma triple_then [triple_rules]:
  "triple P m (\<lambda>_. R) E \<Longrightarrow> triple R n Q E \<Longrightarrow> triple P (sthen m n) Q E"
  unfolding sthen_def by (rule triple_bind) auto

lemma triple_conseq:
  assumes "triple P' m Q' E'" and "\<And>s. P s \<Longrightarrow> P' s"
    and "\<And>x s. Q' x s \<Longrightarrow> Q x s" and "\<And>e s. E' e s \<Longrightarrow> E e s"
  shows "triple P m Q E"
proof (rule tripleI)
  show "Q x s'" if "P s" "m s = (Ok x, s')" for s x s'
    using that assms triple_OkD by metis
  show "E e s'" if "P s" "m s = (Err e, s')" for s e s'
    using that assms triple_ErrD by metis
  show "m s \<noteq> (Panic, s')" if "P s" for s s'
    using that assms triple_PanicD by metis
qed

lemma triple_foreach:
  assumes "\<And>x. x \<in> set xs \<Longrightarrow> triple I (f x) (\<lambda>_. I) E"
  shows "triple I (sforeach xs f) (\<lambda>_. I) E"
  using assms
proof (induction xs)
  case Nil
  then show ?case by (simp add: triple_ret)
next
  case (Cons x xs)
  then have "triple I (f x) (\<lambda>_. I) E" "triple I (sforeach xs f) (\<lambda>_. I) E" by auto
  then show ?case by (simp add: triple_then)
qed

text \<open>
  The rules for a predicate that every step keeps.  \<open>pure\<close> and \<open>sassert\<close> must be shown not to panic.
\<close>

named_theorems inv_rules \<open>rules for a predicate kept by every step of a method\<close>

lemma inv_bind [inv_rules]:
  "triple I m (\<lambda>_. I) E \<Longrightarrow> (\<And>x. triple I (f x) (\<lambda>_. I) E) \<Longrightarrow> triple I (sbind m f) (\<lambda>_. I) E"
  by (rule triple_bind)

lemma inv_then [inv_rules]:
  "triple I m (\<lambda>_. I) E \<Longrightarrow> triple I n (\<lambda>_. I) E \<Longrightarrow> triple I (sthen m n) (\<lambda>_. I) E"
  by (rule triple_then)

lemma inv_basic [inv_rules]:
  "triple I (ret x) (\<lambda>_. I) E"
  "triple I (gets f) (\<lambda>_. I) E"
  by (simp_all add: triple_def sm_defs)

lemma inv_throw [inv_rules]: "(\<And>s. I s \<Longrightarrow> E e s) \<Longrightarrow> triple I (throw e) (\<lambda>_. I) E"
  by (rule triple_throw)

lemma inv_modify [inv_rules]: "(\<And>s. I s \<Longrightarrow> I (h s)) \<Longrightarrow> triple I (modify h) (\<lambda>_. I) E"
  by (rule triple_modify)

lemma inv_if [inv_rules]:
  "(b \<Longrightarrow> triple I m Q E) \<Longrightarrow> (\<not> b \<Longrightarrow> triple I n Q E) \<Longrightarrow> triple I (if b then m else n) Q E"
  by simp

lemma inv_case_sum [inv_rules]:
  "(\<And>a. triple I (f a) Q E) \<Longrightarrow> (\<And>b. triple I (h b) Q E) \<Longrightarrow> triple I (case x of Inl a \<Rightarrow> f a | Inr b \<Rightarrow> h b) Q E"
  by (cases x) auto

lemma inv_case_option [inv_rules]:
  "triple I m Q E \<Longrightarrow> (\<And>b. triple I (h b) Q E) \<Longrightarrow> triple I (case x of None \<Rightarrow> m | Some b \<Rightarrow> h b) Q E"
  by (cases x) auto

lemma inv_case_bool [inv_rules]:
  "triple I m Q E \<Longrightarrow> triple I n Q E \<Longrightarrow> triple I (case b of True \<Rightarrow> m | False \<Rightarrow> n) Q E"
  by (cases b) auto

text \<open>A predicate kept by every run of a method, panics included.\<close>

named_theorems keeps_rules \<open>rules for a predicate kept by every run of a method\<close>

definition keeps :: "('s \<Rightarrow> bool) \<Rightarrow> ('s, 'e, 'a) sm \<Rightarrow> bool" where
  "keeps I m \<longleftrightarrow> (\<forall>s. I s \<longrightarrow> I (snd (m s)))"

lemma keepsD: "keeps I m \<Longrightarrow> I s \<Longrightarrow> m s = (r, s') \<Longrightarrow> I s'"
  unfolding keeps_def by (metis snd_conv)

lemma keeps_bind [keeps_rules]: "keeps I m \<Longrightarrow> (\<And>x. keeps I (f x)) \<Longrightarrow> keeps I (sbind m f)"
  unfolding keeps_def sbind_def by (force split: prod.split outcome.split)

lemma keeps_then [keeps_rules]: "keeps I m \<Longrightarrow> keeps I n \<Longrightarrow> keeps I (sthen m n)"
  unfolding sthen_def by (rule keeps_bind)

lemma keeps_basic [keeps_rules]:
  "keeps I (ret x)" "keeps I (throw e)" "keeps I crash" "keeps I (gets f)" "keeps I (pure h)" "keeps I (sassert b)"
  by (simp_all add: keeps_def sm_defs)

lemma keeps_modify [keeps_rules]: "(\<And>s. I s \<Longrightarrow> I (h s)) \<Longrightarrow> keeps I (modify h)"
  by (simp add: keeps_def modify_def)

lemma keeps_if [keeps_rules]: "(b \<Longrightarrow> keeps I m) \<Longrightarrow> (\<not> b \<Longrightarrow> keeps I n) \<Longrightarrow> keeps I (if b then m else n)"
  by simp

lemma keeps_case_option [keeps_rules]:
  "keeps I m \<Longrightarrow> (\<And>y. keeps I (h y)) \<Longrightarrow> keeps I (case x of None \<Rightarrow> m | Some y \<Rightarrow> h y)"
  by (cases x) auto

lemma keeps_case_prod [keeps_rules]: "(\<And>a b. keeps I (h a b)) \<Longrightarrow> keeps I (case p of (a, b) \<Rightarrow> h a b)"
  by (cases p) auto

section \<open>Ordered maps\<close>

text \<open>
  \<open>BTreeMap<K, V>\<close> as an association list in key order; \<open>bt_get\<close>, \<open>bt_insert\<close> and \<open>bt_remove\<close> are
  its \<open>get\<close>, \<open>insert\<close> and \<open>remove\<close>, and iteration is iteration over the list.
\<close>

type_synonym ('k, 'v) btree_map = "('k \<times> 'v) list"

definition bt_get :: "('k, 'v) btree_map \<Rightarrow> 'k \<Rightarrow> 'v option" where
  "bt_get m k = map_of m k"

primrec bt_insert :: "('k::linorder, 'v) btree_map \<Rightarrow> 'k \<Rightarrow> 'v \<Rightarrow> ('k, 'v) btree_map" where
  "bt_insert [] k v = [(k, v)]"
| "bt_insert (e # m) k v =
     (if k < fst e then (k, v) # e # m
      else if k = fst e then (k, v) # m
      else e # bt_insert m k v)"

definition bt_remove :: "('k, 'v) btree_map \<Rightarrow> 'k \<Rightarrow> ('k, 'v) btree_map" where
  "bt_remove m k = filter (\<lambda>e. fst e \<noteq> k) m"

primrec bt_upd :: "('k::linorder, 'v) btree_map \<Rightarrow> 'k \<times> 'v option \<Rightarrow> ('k, 'v) btree_map" where
  "bt_upd m (k, v) = (case v of Some w \<Rightarrow> bt_insert m k w | None \<Rightarrow> bt_remove m k)"

definition bt_keys :: "('k, 'v) btree_map \<Rightarrow> 'k list" where
  "bt_keys m = map fst m"

definition bt_ok :: "('k::linorder, 'v) btree_map \<Rightarrow> bool" where
  "bt_ok m \<longleftrightarrow> sorted_wrt (<) (bt_keys m)"

text \<open>The contract a client of a map relies on.\<close>

locale finite_map =
  fixes empty :: "'m"
    and get :: "'m \<Rightarrow> 'k \<Rightarrow> 'v option"
    and insert :: "'m \<Rightarrow> 'k \<Rightarrow> 'v \<Rightarrow> 'm"
    and remove :: "'m \<Rightarrow> 'k \<Rightarrow> 'm"
    and keys :: "'m \<Rightarrow> 'k list"
    and ok :: "'m \<Rightarrow> bool"
  assumes get_empty: "get empty k = None"
    and get_insert: "get (insert m k v) k' = (if k' = k then Some v else get m k')"
    and get_remove: "get (remove m k) k' = (if k' = k then None else get m k')"
    and set_keys: "set (keys m) = {k. get m k \<noteq> None}"
    and ok_empty: "ok empty"
    and ok_insert: "ok m \<Longrightarrow> ok (insert m k v)"
    and ok_remove: "ok m \<Longrightarrow> ok (remove m k)"

text \<open>
  A client that records pending changes, \<open>Some v\<close> to insert and \<open>None\<close> to remove, and applies them
  in sequence, as a stack transaction does.
\<close>

locale map_updates = finite_map +
  fixes upd :: "'a \<Rightarrow> 'b \<times> 'c option \<Rightarrow> 'a"
  assumes upd_Some: "upd m (k, Some v) = insert m k v"
    and upd_None: "upd m (k, None) = remove m k"
begin

lemma get_upd: "get (upd m (k, v)) k' = (if k' = k then v else get m k')"
  by (cases v) (simp_all add: upd_Some upd_None get_insert get_remove)

lemma get_updates_notin:
  "k \<notin> fst ` set us \<Longrightarrow> get (foldl upd m us) k = get m k"
proof (induction us arbitrary: m)
  case (Cons u us)
  then show ?case by (cases u) (auto simp: get_upd)
qed simp

lemma get_updates:
  "distinct (map fst us) \<Longrightarrow>
   get (foldl upd m us) k = (case map_of us k of Some v \<Rightarrow> v | None \<Rightarrow> get m k)"
proof (induction us arbitrary: m)
  case (Cons u us)
  obtain k' v where u: "u = (k', v)" by fastforce
  show ?case
  proof (cases "k' = k")
    case True
    with Cons.prems u have "k \<notin> fst ` set us" by auto
    then show ?thesis using True u by (simp add: get_updates_notin get_upd)
  next
    case False
    then show ?thesis using Cons u by (simp add: get_upd split: option.split)
  qed
qed simp

lemma ok_updates: "ok m \<Longrightarrow> ok (foldl upd m us)"
proof (induction us arbitrary: m)
  case (Cons u us)
  obtain k v where "u = (k, v)" by fastforce
  then show ?case using Cons by (cases v) (simp_all add: upd_Some upd_None ok_insert ok_remove)
qed simp

end

lemma bt_get_Nil [simp]: "bt_get [] k = None"
  by (simp add: bt_get_def)

lemma bt_get_insert [simp]: "bt_get (bt_insert m k v) k' = (if k' = k then Some v else bt_get m k')"
  by (induction m) (auto simp: bt_get_def)

lemma bt_get_remove [simp]: "bt_get (bt_remove m k) k' = (if k' = k then None else bt_get m k')"
  by (induction m) (auto simp: bt_get_def bt_remove_def)

lemma set_bt_keys: "set (bt_keys m) = {k. bt_get m k \<noteq> None}"
  by (auto simp: bt_keys_def bt_get_def map_of_eq_None_iff)

lemma set_bt_keys_insert: "set (bt_keys (bt_insert m k v)) = insert k (set (bt_keys m))"
  by (auto simp: set_bt_keys)

lemma bt_keys_Cons [simp]: "bt_keys (e # m) = fst e # bt_keys m"
  by (simp add: bt_keys_def)

lemma bt_ok_insert: "bt_ok m \<Longrightarrow> bt_ok (bt_insert m k v)"
proof (induction m)
  case (Cons e m)
  then have "bt_ok m" by (simp add: bt_ok_def)
  then have IH: "bt_ok (bt_insert m k v)" by (rule Cons.IH)
  with Cons.prems show ?case
    by (auto simp: bt_ok_def set_bt_keys_insert)
qed (simp add: bt_ok_def bt_keys_def)

lemma bt_ok_remove: "bt_ok m \<Longrightarrow> bt_ok (bt_remove m k)"
  by (induction m) (auto simp: bt_ok_def bt_remove_def bt_keys_def)

lemma bt_ok_distinct: "bt_ok m \<Longrightarrow> distinct (bt_keys m)"
  by (simp add: bt_ok_def strict_sorted_iff)

lemma bt_ok_Nil [simp]: "bt_ok []"
  by (simp add: bt_ok_def bt_keys_def)

interpretation bt: map_updates "[]" bt_get bt_insert bt_remove bt_keys bt_ok bt_upd
  by unfold_locales (auto simp: set_bt_keys bt_ok_insert bt_ok_remove)

text \<open>A loop of insertions is a sequence of updates.\<close>

lemma insert_all_updates:
  "foldl (\<lambda>m e. bt_insert m (f e) (h e)) m es = foldl bt_upd m (map (\<lambda>e. (f e, Some (h e))) es)"
  by (induction es arbitrary: m) auto

lemma bt_ok_insert_all: "bt_ok m \<Longrightarrow> bt_ok (foldl (\<lambda>m e. bt_insert m (f e) (h e)) m es)"
  unfolding insert_all_updates by (rule bt.ok_updates)

lemma bt_get_insert_all:
  "distinct (map f es) \<Longrightarrow>
   bt_get (foldl (\<lambda>m e. bt_insert m (f e) (h e)) m es) k =
     (case map_of (map (\<lambda>e. (f e, h e)) es) k of Some v \<Rightarrow> Some v | None \<Rightarrow> bt_get m k)"
proof -
  have "map_of (map (\<lambda>e. (f e, Some (h e))) es) k = map_option Some (map_of (map (\<lambda>e. (f e, h e)) es) k)"
    by (induction es) auto
  then show "distinct (map f es) \<Longrightarrow> ?thesis"
    unfolding insert_all_updates by (subst bt.get_updates) (auto simp: comp_def split: option.split)
qed

lemma map_of_map_snd: "map_of (map (\<lambda>e. (fst e, f (snd e))) m) k = map_option f (map_of m k)"
  by (induction m) auto

lemma bt_get_insert_const:
  "bt_get (foldl (\<lambda>m k. bt_insert m k v) m ks) k = (if k \<in> set ks then Some v else bt_get m k)"
  by (induction ks arbitrary: m) auto

lemma bt_ok_insert_const: "bt_ok m \<Longrightarrow> bt_ok (foldl (\<lambda>m k. bt_insert m k v) m ks)"
  by (rule bt_ok_insert_all [where f = "\<lambda>k. k"])

text \<open>Maps in order are determined by their lookups.\<close>

lemma bt_ext:
  assumes "bt_ok m" "bt_ok m'" "\<And>k. bt_get m k = bt_get m' k"
  shows "m = m'"
proof -
  have "set (bt_keys m) = set (bt_keys m')" using assms(3) by (simp add: set_bt_keys)
  then have keys: "bt_keys m = bt_keys m'"
    using assms(1,2) by (metis bt_ok_def strict_sorted_equal)
  have "distinct (map fst m)" "distinct (map fst m')"
    using assms(1,2) bt_ok_distinct by (auto simp: bt_keys_def)
  then have sets: "set m = set m'"
    using assms(3) by (metis bt_get_def map_of_eqI map_of_inject_set set_map keys bt_keys_def)
  have "map fst m = map fst m'" using keys by (simp add: bt_keys_def)
  with sets \<open>distinct (map fst m)\<close> \<open>distinct (map fst m')\<close> show ?thesis
    by (metis map_of_inject_set[of m m'] inj_on_map_eq_map distinct_map sup.idem)
qed

section \<open>Lists\<close>

text \<open>\<open>IndexSet\<close>: the elements in the order of their first insertion.\<close>

definition index_set :: "'a list \<Rightarrow> 'a list" where
  "index_set xs = rev (remdups (rev xs))"

lemma set_index_set [simp]: "set (index_set xs) = set xs"
  and distinct_index_set [simp]: "distinct (index_set xs)"
  by (simp_all add: index_set_def)

lemma index_set_distinct [simp]: "distinct xs \<Longrightarrow> index_set xs = xs"
  by (simp add: index_set_def distinct_remdups_id)

text \<open>\<open>Iterator::position\<close>.\<close>

primrec position :: "('a \<Rightarrow> bool) \<Rightarrow> 'a list \<Rightarrow> nat option" where
  "position p [] = None"
| "position p (x # xs) = (if p x then Some 0 else map_option Suc (position p xs))"

lemma position_None_iff [simp]: "position p xs = None \<longleftrightarrow> (\<forall>x\<in>set xs. \<not> p x)"
  by (induction xs) auto

lemma position_SomeD:
  "position p xs = Some i \<Longrightarrow> i < length xs \<and> p (xs ! i) \<and> (\<forall>x\<in>set (take i xs). \<not> p x)"
  by (induction xs arbitrary: i) (auto split: if_splits)

lemma position_eq_nth:
  "distinct xs \<Longrightarrow> i < length xs \<Longrightarrow> position (\<lambda>x. x = xs ! i) xs = Some i"
proof (induction xs arbitrary: i)
  case (Cons x xs)
  then show ?case by (cases i) (auto simp: nth_mem)
qed simp

lemma position_mem: "x \<in> set xs \<Longrightarrow> \<exists>i. position (\<lambda>y. y = x) xs = Some i"
  using position_None_iff [of "\<lambda>y. y = x" xs] by (cases "position (\<lambda>y. y = x) xs") auto

text \<open>\<open>Vec::split_off\<close> at the first element that satisfies a predicate.\<close>

lemma take_position: "position p xs = Some i \<Longrightarrow> take i xs = takeWhile (\<lambda>x. \<not> p x) xs"
  by (induction xs arbitrary: i) (auto split: if_splits)

lemma drop_position: "position p xs = Some i \<Longrightarrow> drop i xs = dropWhile (\<lambda>x. \<not> p x) xs"
  by (induction xs arbitrary: i) (auto split: if_splits)

text \<open>\<open>Vec::remove(pos)\<close> at the position of an element removes that element only.\<close>

definition remove_at :: "nat \<Rightarrow> 'a list \<Rightarrow> 'a list" where
  "remove_at i xs = take i xs @ drop (Suc i) xs"

lemma remove_at_position:
  "position (\<lambda>y. y = x) xs = Some i \<Longrightarrow> remove_at i xs = remove1 x xs"
  unfolding remove_at_def by (induction xs arbitrary: i) (auto split: if_splits)

end
