(* ===== verification/Rust_Std.thy ===== *)
theory Rust_Std
  imports Prelude "HOL-Library.List_Lexorder"
begin

text \<open>
  The parts of Rust's standard library that the modelled code uses: \<open>char\<close> predicates, \<open>str\<close>
  methods, decimal conversion, and \<open>isize\<close>/\<open>usize\<close> arithmetic on a 64-bit target.

  A \<open>char\<close> is its Unicode scalar value and a \<open>str\<close> the list of its characters; \<open>str_len\<close> is its
  length in UTF-8 bytes, which is what \<open>str::len\<close> returns.  The order on strings is the
  lexicographic order of the scalar values, which is the byte order of UTF-8.
\<close>

type_synonym rchar = nat
type_synonym rstring = "rchar list"

definition str :: "string \<Rightarrow> rstring" where
  "str s = map of_char s"

section \<open>Characters\<close>

abbreviation (input) c_nul :: rchar where "c_nul \<equiv> 0"
abbreviation (input) c_newline :: rchar where "c_newline \<equiv> 10"
abbreviation (input) c_return :: rchar where "c_return \<equiv> 13"
abbreviation (input) c_space :: rchar where "c_space \<equiv> 32"
abbreviation (input) c_hash :: rchar where "c_hash \<equiv> 35"
abbreviation (input) c_star :: rchar where "c_star \<equiv> 42"
abbreviation (input) c_plus :: rchar where "c_plus \<equiv> 43"
abbreviation (input) c_dash :: rchar where "c_dash \<equiv> 45"
abbreviation (input) c_dot :: rchar where "c_dot \<equiv> 46"
abbreviation (input) c_slash :: rchar where "c_slash \<equiv> 47"
abbreviation (input) c_colon :: rchar where "c_colon \<equiv> 58"
abbreviation (input) c_question :: rchar where "c_question \<equiv> 63"
abbreviation (input) c_at :: rchar where "c_at \<equiv> 64"
abbreviation (input) c_lbracket :: rchar where "c_lbracket \<equiv> 91"
abbreviation (input) c_backslash :: rchar where "c_backslash \<equiv> 92"
abbreviation (input) c_caret :: rchar where "c_caret \<equiv> 94"
abbreviation (input) c_underscore :: rchar where "c_underscore \<equiv> 95"
abbreviation (input) c_lbrace :: rchar where "c_lbrace \<equiv> 123"
abbreviation (input) c_rbrace :: rchar where "c_rbrace \<equiv> 125"
abbreviation (input) c_tilde :: rchar where "c_tilde \<equiv> 126"
abbreviation (input) c_del :: rchar where "c_del \<equiv> 127"

definition is_ascii :: "rchar \<Rightarrow> bool" where
  "is_ascii c \<longleftrightarrow> c < 128"

definition is_ascii_digit :: "rchar \<Rightarrow> bool" where
  "is_ascii_digit c \<longleftrightarrow> 48 \<le> c \<and> c \<le> 57"

definition is_ascii_upper :: "rchar \<Rightarrow> bool" where
  "is_ascii_upper c \<longleftrightarrow> 65 \<le> c \<and> c \<le> 90"

definition is_ascii_lower :: "rchar \<Rightarrow> bool" where
  "is_ascii_lower c \<longleftrightarrow> 97 \<le> c \<and> c \<le> 122"

definition is_ascii_alphanumeric :: "rchar \<Rightarrow> bool" where
  "is_ascii_alphanumeric c \<longleftrightarrow> is_ascii_digit c \<or> is_ascii_upper c \<or> is_ascii_lower c"

definition is_ascii_hexdigit :: "rchar \<Rightarrow> bool" where
  "is_ascii_hexdigit c \<longleftrightarrow> is_ascii_digit c \<or> 65 \<le> c \<and> c \<le> 70 \<or> 97 \<le> c \<and> c \<le> 102"

text \<open>General category Cc.\<close>

definition is_control :: "rchar \<Rightarrow> bool" where
  "is_control c \<longleftrightarrow> c < 32 \<or> 127 \<le> c \<and> c \<le> 159"

text \<open>The \<open>White_Space\<close> property.\<close>

definition is_whitespace :: "rchar \<Rightarrow> bool" where
  "is_whitespace c \<longleftrightarrow>
     9 \<le> c \<and> c \<le> 13 \<or> c = 32 \<or> c = 133 \<or> c = 160 \<or> c = 5760 \<or> 8192 \<le> c \<and> c \<le> 8202 \<or>
     c = 8232 \<or> c = 8233 \<or> c = 8239 \<or> c = 8287 \<or> c = 12288"

definition is_ascii_whitespace :: "rchar \<Rightarrow> bool" where
  "is_ascii_whitespace c \<longleftrightarrow> c = 9 \<or> c = 10 \<or> c = 12 \<or> c = 13 \<or> c = 32"

definition to_ascii_lowercase :: "rchar \<Rightarrow> rchar" where
  "to_ascii_lowercase c = (if is_ascii_upper c then c + 32 else c)"

lemmas char_class_defs =
  is_ascii_def is_ascii_digit_def is_ascii_upper_def is_ascii_lower_def is_ascii_alphanumeric_def
  is_ascii_hexdigit_def is_control_def is_whitespace_def is_ascii_whitespace_def
  to_ascii_lowercase_def

section \<open>Strings\<close>

definition utf8_len :: "rchar \<Rightarrow> nat" where
  "utf8_len c = (if c < 128 then 1 else if c < 2048 then 2 else if c < 65536 then 3 else 4)"

definition str_len :: "rstring \<Rightarrow> nat" where
  "str_len s = sum_list (map utf8_len s)"

definition eq_ignore_ascii_case :: "rstring \<Rightarrow> rstring \<Rightarrow> bool" where
  "eq_ignore_ascii_case s t \<longleftrightarrow> map to_ascii_lowercase s = map to_ascii_lowercase t"

text \<open>\<open>strip_prefix\<close>, \<open>starts_with\<close>, \<open>strip_suffix\<close>, \<open>ends_with\<close>.\<close>

definition strip_prefix :: "'a list \<Rightarrow> 'a list \<Rightarrow> 'a list option" where
  "strip_prefix p s = (if take (length p) s = p then Some (drop (length p) s) else None)"

definition starts_with :: "'a list \<Rightarrow> 'a list \<Rightarrow> bool" where
  "starts_with s p \<longleftrightarrow> take (length p) s = p"

definition ends_with :: "'a list \<Rightarrow> 'a list \<Rightarrow> bool" where
  "ends_with s p \<longleftrightarrow> length p \<le> length s \<and> drop (length s - length p) s = p"

definition trim_start_matches :: "('a \<Rightarrow> bool) \<Rightarrow> 'a list \<Rightarrow> 'a list" where
  "trim_start_matches p s = dropWhile p s"

definition trim_end_matches :: "('a \<Rightarrow> bool) \<Rightarrow> 'a list \<Rightarrow> 'a list" where
  "trim_end_matches p s = rev (dropWhile p (rev s))"

definition trim_matches :: "('a \<Rightarrow> bool) \<Rightarrow> 'a list \<Rightarrow> 'a list" where
  "trim_matches p s = trim_end_matches p (trim_start_matches p s)"

definition trim :: "rstring \<Rightarrow> rstring" where
  "trim s = trim_matches is_whitespace s"

text \<open>\<open>trim_end_matches\<close> with a non-empty \<open>&str\<close> pattern: remove the suffix repeatedly.\<close>

function trim_end_matches_str :: "'a list \<Rightarrow> 'a list \<Rightarrow> 'a list" where
  "trim_end_matches_str s p =
     (if p \<noteq> [] \<and> ends_with s p then trim_end_matches_str (take (length s - length p) s) p else s)"
  by pat_completeness auto
termination
  by (relation "measure (\<lambda>(s, p). length s)")
    (auto simp: ends_with_def simp flip: length_greater_0_conv)

declare trim_end_matches_str.simps [simp del]

text \<open>\<open>str::split\<close> with a character separator: always at least one piece.\<close>

primrec split_on :: "'a \<Rightarrow> 'a list \<Rightarrow> 'a list list" where
  "split_on c [] = [[]]"
| "split_on c (x # xs) =
     (if x = c then [] # split_on c xs
      else (case split_on c xs of [] \<Rightarrow> [[x]] | w # ws \<Rightarrow> (x # w) # ws))"

text \<open>\<open>str::split_once\<close> with a character and with a predicate.\<close>

definition split_once :: "'a \<Rightarrow> 'a list \<Rightarrow> ('a list \<times> 'a list) option" where
  "split_once c s = map_option (\<lambda>i. (take i s, drop (Suc i) s)) (position (\<lambda>x. x = c) s)"

definition split_once_by :: "('a \<Rightarrow> bool) \<Rightarrow> 'a list \<Rightarrow> ('a list \<times> 'a list) option" where
  "split_once_by P s = map_option (\<lambda>i. (take i s, drop (Suc i) s)) (position P s)"

text \<open>\<open>split_inclusive\<close>: every piece keeps its separator, and there is no last empty piece.\<close>

fun split_inclusive :: "'a \<Rightarrow> 'a list \<Rightarrow> 'a list list" where
  "split_inclusive c [] = []"
| "split_inclusive c (x # xs) =
     (if x = c then [x] # split_inclusive c xs
      else (case split_inclusive c xs of [] \<Rightarrow> [[x]] | w # ws \<Rightarrow> (x # w) # ws))"

text \<open>
  \<open>str::lines\<close>: the pieces between newlines, without a last empty piece; a carriage return right
  before a newline is removed, one that ends the text is kept.
\<close>

definition strip_cr :: "rstring \<Rightarrow> rstring" where
  "strip_cr l = (if l \<noteq> [] \<and> last l = c_return then butlast l else l)"

definition lines :: "rstring \<Rightarrow> rstring list" where
  "lines s =
     (let ps = split_on c_newline s
      in map strip_cr (butlast ps) @ (if last ps = [] then [] else [last ps]))"

section \<open>Decimal numbers\<close>

fun show_nat :: "nat \<Rightarrow> rstring" where
  "show_nat n = (if n < 10 then [48 + n] else show_nat (n div 10) @ [48 + n mod 10])"

declare show_nat.simps [simp del]

definition show_int :: "int \<Rightarrow> rstring" where
  "show_int i = (if i < 0 then c_dash # show_nat (nat (- i)) else show_nat (nat i))"

text \<open>The format \<open>{:+}\<close>.\<close>

definition show_int_signed :: "int \<Rightarrow> rstring" where
  "show_int_signed i = (if i < 0 then show_int i else c_plus # show_int i)"

definition dec_value :: "rstring \<Rightarrow> nat" where
  "dec_value s = foldl (\<lambda>a c. 10 * a + (c - 48)) 0 s"

abbreviation (input) usize_max :: nat where "usize_max \<equiv> 18446744073709551615"
abbreviation (input) isize_max :: int where "isize_max \<equiv> 9223372036854775807"
abbreviation (input) isize_min :: int where "isize_min \<equiv> - 9223372036854775808"

text \<open>\<open>str::parse::<usize>\<close> and \<open>str::parse::<isize>\<close>; \<open>None\<close> is the parse error.\<close>

definition parse_digits :: "rstring \<Rightarrow> nat option" where
  "parse_digits s = (if s \<noteq> [] \<and> list_all is_ascii_digit s then Some (dec_value s) else None)"

definition parse_usize :: "rstring \<Rightarrow> nat option" where
  "parse_usize s =
     (case parse_digits (case s of c # r \<Rightarrow> if c = c_plus then r else s | [] \<Rightarrow> s) of
        Some n \<Rightarrow> if n \<le> usize_max then Some n else None
      | None \<Rightarrow> None)"

definition parse_isize :: "rstring \<Rightarrow> int option" where
  "parse_isize s =
     (case s of
        [] \<Rightarrow> None
      | c # r \<Rightarrow>
          (case parse_digits (if c = c_plus \<or> c = c_dash then r else s) of
             Some n \<Rightarrow>
               (let i = (if c = c_dash then - int n else int n)
                in if isize_min \<le> i \<and> i \<le> isize_max then Some i else None)
           | None \<Rightarrow> None))"

section \<open>Machine integers\<close>

text \<open>
  \<open>usize\<close> values are natural numbers and \<open>isize\<close> values integers, kept in range by the operations.
  The first argument of an unchecked operation says whether the build has overflow checks (debug
  builds: the operation panics) or not (release builds: it wraps).
\<close>

definition isize_ok :: "int \<Rightarrow> bool" where
  "isize_ok i \<longleftrightarrow> isize_min \<le> i \<and> i \<le> isize_max"

definition wrap_isize :: "int \<Rightarrow> int" where
  "wrap_isize i = (i + 9223372036854775808) mod 18446744073709551616 - 9223372036854775808"

definition isize_arith :: "bool \<Rightarrow> int \<Rightarrow> ('e, int) outcome" where
  "isize_arith chk i =
     (if isize_ok i then Ok i else if chk then Panic else Ok (wrap_isize i))"

definition usize_arith :: "bool \<Rightarrow> int \<Rightarrow> ('e, nat) outcome" where
  "usize_arith chk i =
     (if 0 \<le> i \<and> i \<le> int usize_max then Ok (nat i)
      else if chk then Panic else Ok (nat (i mod 18446744073709551616)))"

text \<open>\<open>usize::checked_add_signed\<close>, \<open>isize::checked_add_unsigned\<close>, \<open>isize::checked_sub_unsigned\<close>.\<close>

definition usize_checked_add_signed :: "nat \<Rightarrow> int \<Rightarrow> nat option" where
  "usize_checked_add_signed n i =
     (if 0 \<le> int n + i \<and> int n + i \<le> int usize_max then Some (nat (int n + i)) else None)"

definition isize_checked :: "int \<Rightarrow> int option" where
  "isize_checked i = (if isize_ok i then Some i else None)"

lemma isize_arith_ok [simp]: "isize_ok i \<Longrightarrow> isize_arith chk i = Ok i"
  by (simp add: isize_arith_def)

lemma wrap_isize_range: "isize_ok (wrap_isize i)"
  by (simp add: wrap_isize_def isize_ok_def)

lemma wrap_isize_id: "isize_ok i \<Longrightarrow> wrap_isize i = i"
  by (simp add: wrap_isize_def isize_ok_def)

section \<open>Lemmas on strings\<close>

lemma strip_prefix_Some_iff: "strip_prefix p s = Some r \<longleftrightarrow> s = p @ r"
  by (auto simp: strip_prefix_def) (metis append_take_drop_id)

lemma ends_with_iff: "ends_with s p \<longleftrightarrow> (\<exists>r. s = r @ p)"
  unfolding ends_with_def
  by (auto simp: append_eq_conv_conj) (metis append_take_drop_id)

lemma starts_with_iff: "starts_with s p \<longleftrightarrow> (\<exists>r. s = p @ r)"
  by (auto simp: starts_with_def) (metis append_take_drop_id)

lemma str_len_simps [simp]:
  "str_len [] = 0" "str_len (c # s) = utf8_len c + str_len s" "str_len (s @ t) = str_len s + str_len t"
  by (simp_all add: str_len_def)

lemma utf8_len_pos [simp]: "0 < utf8_len c" "utf8_len c \<noteq> 0"
  by (simp_all add: utf8_len_def)

lemma str_len_0_iff [simp]: "str_len s = 0 \<longleftrightarrow> s = []"
  by (cases s) auto

lemma str_len_take_le: "str_len (take n s) \<le> str_len s"
  by (metis append_take_drop_id le_add1 str_len_simps(3))

lemma trim_end_matches_decomp: "\<exists>r. s = trim_end_matches p s @ r \<and> list_all p r"
proof -
  have "s = rev (dropWhile p (rev s)) @ rev (takeWhile p (rev s))"
    by (metis rev_append rev_rev_ident takeWhile_dropWhile_id)
  moreover have "list_all p (rev (takeWhile p (rev s)))"
    by (simp add: list_all_iff) (meson set_takeWhileD)
  ultimately show ?thesis unfolding trim_end_matches_def by blast
qed

lemma trim_end_matches_last: "trim_end_matches p s \<noteq> [] \<Longrightarrow> \<not> p (last (trim_end_matches p s))"
  unfolding trim_end_matches_def by (simp add: last_rev hd_dropWhile)

lemma trim_start_matches_decomp: "\<exists>l. s = l @ trim_start_matches p s \<and> list_all p l"
  unfolding trim_start_matches_def
  by (metis list_all_iff set_takeWhileD takeWhile_dropWhile_id)

lemma trim_start_matches_hd: "trim_start_matches p s \<noteq> [] \<Longrightarrow> \<not> p (hd (trim_start_matches p s))"
  unfolding trim_start_matches_def by (simp add: hd_dropWhile)

lemma trim_matches_decomp:
  "\<exists>l r. s = l @ trim_matches p s @ r \<and> list_all p l \<and> list_all p r"
  unfolding trim_matches_def
  by (metis trim_end_matches_decomp trim_start_matches_decomp)

lemma trim_matches_ends:
  assumes "trim_matches p s \<noteq> []"
  shows "\<not> p (hd (trim_matches p s))" "\<not> p (last (trim_matches p s))"
proof -
  let ?t = "trim_start_matches p s"
  show "\<not> p (last (trim_matches p s))"
    using assms unfolding trim_matches_def by (rule trim_end_matches_last)
  obtain r where r: "?t = trim_end_matches p ?t @ r" using trim_end_matches_decomp by blast
  have ne: "trim_end_matches p ?t \<noteq> []" using assms by (simp add: trim_matches_def)
  then have "hd ?t = hd (trim_end_matches p ?t)" by (metis hd_append2 r)
  moreover have "?t \<noteq> []" using r ne by auto
  ultimately show "\<not> p (hd (trim_matches p s))"
    unfolding trim_matches_def by (metis trim_start_matches_hd)
qed

lemma trim_end_matches_str_decomp: "\<exists>r. s = trim_end_matches_str s p @ r"
proof (induction s p rule: trim_end_matches_str.induct)
  case (1 s p)
  show ?case
  proof (cases "p \<noteq> [] \<and> ends_with s p")
    case True
    then obtain r where "take (length s - length p) s = trim_end_matches_str (take (length s - length p) s) p @ r"
      using 1 by blast
    then have "s = trim_end_matches_str (take (length s - length p) s) p @ r @ drop (length s - length p) s"
      by (metis append.assoc append_take_drop_id)
    then show ?thesis using True by (subst trim_end_matches_str.simps) auto
  next
    case False
    then show ?thesis by (subst trim_end_matches_str.simps) auto
  qed
qed

lemma trim_end_matches_str_no_suffix:
  "p \<noteq> [] \<Longrightarrow> \<not> ends_with (trim_end_matches_str s p) p"
proof (induction s p rule: trim_end_matches_str.induct)
  case (1 s p)
  show ?case
  proof (cases "ends_with s p")
    case True
    then have "trim_end_matches_str s p = trim_end_matches_str (take (length s - length p) s) p"
      using 1 by (subst trim_end_matches_str.simps) simp
    then show ?thesis using 1 True by simp
  next
    case False
    then show ?thesis by (subst trim_end_matches_str.simps) simp
  qed
qed

lemma split_on_ne [simp]: "split_on c s \<noteq> []"
  by (induction s) (auto split: list.splits)

lemma split_on_set: "w \<in> set (split_on c s) \<Longrightarrow> set w \<subseteq> set s \<and> c \<notin> set w"
proof (induction s arbitrary: w)
  case (Cons x s)
  then show ?case by (cases "split_on c s") (fastforce split: if_splits)+
qed simp

lemma split_on_sublist: "w \<in> set (split_on c s) \<Longrightarrow> sublist w s"
proof -
  have "(\<exists>w ws. split_on c s = w # ws \<and> prefix w s \<and> (\<forall>v\<in>set ws. sublist v s))" for s :: "'a list"
  proof (induction s)
    case (Cons x s)
    then obtain w ws where "split_on c s = w # ws" "prefix w s" "\<forall>v\<in>set ws. sublist v s" by blast
    then show ?case by (auto simp: sublist_Cons_right intro: prefix_imp_sublist)
  qed simp
  then show "w \<in> set (split_on c s) \<Longrightarrow> sublist w s"
    by (metis prefix_imp_sublist set_ConsD)
qed

section \<open>Lemmas on decimal numbers\<close>

lemma show_nat_ne [simp]: "show_nat n \<noteq> []"
  by (subst show_nat.simps) simp

lemma show_nat_digits: "list_all is_ascii_digit (show_nat n)"
proof (induction n rule: show_nat.induct)
  case (1 n)
  then show ?case
    by (cases "n < 10"; subst show_nat.simps) (simp_all add: is_ascii_digit_def [of "48 + _"])
qed

lemma dec_value_snoc [simp]: "dec_value (s @ [c]) = 10 * dec_value s + (c - 48)"
  by (simp add: dec_value_def)

lemma dec_value_show_nat [simp]: "dec_value (show_nat n) = n"
proof (induction n rule: show_nat.induct)
  case (1 n)
  show ?case
  proof (cases "n < 10")
    case True
    then show ?thesis by (subst show_nat.simps) (simp add: dec_value_def)
  next
    case False
    then have "dec_value (show_nat n) = 10 * dec_value (show_nat (n div 10)) + n mod 10"
      by (subst show_nat.simps) simp
    then show ?thesis using 1 False by simp
  qed
qed

lemma show_nat_inject [simp]: "show_nat m = show_nat n \<longleftrightarrow> m = n"
  by (metis dec_value_show_nat)

lemma parse_digits_show_nat [simp]: "parse_digits (show_nat n) = Some n"
  by (simp add: parse_digits_def show_nat_digits)

lemma digit_not_sign: "is_ascii_digit c \<Longrightarrow> c \<noteq> c_plus \<and> c \<noteq> c_dash"
  by (auto simp: is_ascii_digit_def)

lemma show_nat_Cons: "\<exists>c r. show_nat n = c # r \<and> is_ascii_digit c \<and> list_all is_ascii_digit r"
  using show_nat_ne [of n] show_nat_digits [of n] by (cases "show_nat n") auto

lemma parse_usize_show_nat: "n \<le> usize_max \<Longrightarrow> parse_usize (show_nat n) = Some n"
proof -
  assume n: "n \<le> usize_max"
  obtain c r where s: "show_nat n = c # r" "is_ascii_digit c" using show_nat_Cons by blast
  then have "parse_usize (show_nat n) = (case parse_digits (show_nat n) of
      Some n \<Rightarrow> if n \<le> usize_max then Some n else None | None \<Rightarrow> None)"
    unfolding parse_usize_def using digit_not_sign by simp
  then show ?thesis using n by simp
qed

lemma parse_isize_digits:
  assumes "s \<noteq> []" "list_all is_ascii_digit s"
  shows "parse_isize s = (if int (dec_value s) \<le> isize_max then Some (int (dec_value s)) else None)"
    "parse_isize (c_dash # s) = (if - int (dec_value s) \<ge> isize_min then Some (- int (dec_value s)) else None)"
    "parse_isize (c_plus # s) = (if int (dec_value s) \<le> isize_max then Some (int (dec_value s)) else None)"
proof -
  obtain c r where "s = c # r" "is_ascii_digit c" using assms by (cases s) auto
  then have "parse_isize s = (case parse_digits s of
      Some n \<Rightarrow> if int n \<le> isize_max then Some (int n) else None | None \<Rightarrow> None)"
    using digit_not_sign [of c] by (simp add: parse_isize_def split: option.split)
  then show "parse_isize s = (if int (dec_value s) \<le> isize_max then Some (int (dec_value s)) else None)"
    using assms by (simp add: parse_digits_def)
qed (use assms in \<open>auto simp: parse_isize_def parse_digits_def\<close>)

lemma parse_isize_show_int: "isize_ok i \<Longrightarrow> parse_isize (show_int i) = Some i"
  by (cases "i < 0")
    (simp_all add: show_int_def parse_isize_digits show_nat_digits isize_ok_def)

end
