(* ===== verification/Patch_Name.thy ===== *)
theory Patch_Name
  imports Rust_Std
begin

text \<open>
  Patch names: \<open>src/patch/name.rs\<close> and the location enums of \<open>src/patch/mod.rs\<close> and
  \<open>src/patch/constraint.rs\<close>.

  \<open>validate\<close> decides which strings are patch names; \<open>from_str\<close> and \<open>try_from\<close> parse them; \<open>make\<close>
  derives a name from a commit message and \<open>uniquify\<close> makes it differ from the names in use.
  \<open>validate_spec\<close> characterises validity without the scanning loop, \<open>make_panics_iff\<close> says exactly
  when \<open>make\<close> panics, and \<open>uniquify_returns\<close> that the search loop of \<open>uniquify\<close> ends with a usable
  name.
\<close>

section \<open>Types\<close>

datatype patch_name = PatchName (pn_str: rstring)

text \<open>\<open>derive(PartialOrd, Ord)\<close>: the order of the underlying strings.\<close>

instantiation patch_name :: linorder
begin
definition less_eq_patch_name :: "patch_name \<Rightarrow> patch_name \<Rightarrow> bool" where
  "less_eq_patch_name a b \<longleftrightarrow> pn_str a \<le> pn_str b"
definition less_patch_name :: "patch_name \<Rightarrow> patch_name \<Rightarrow> bool" where
  "less_patch_name a b \<longleftrightarrow> pn_str a < pn_str b"
instance
  by standard (auto simp: less_eq_patch_name_def less_patch_name_def patch_name.expand)
end

datatype location_group = LG_Applied | LG_Unapplied | LG_Hidden

datatype location_constraint = LC_All | LC_Visible | LC_Applied | LC_Unapplied | LC_Hidden

datatype range_constraint =
  RC_All | RC_AllWithAppliedBoundary | RC_Visible | RC_VisibleWithAppliedBoundary
| RC_Applied | RC_Unapplied | RC_Hidden

definition use_applied_boundary :: "range_constraint \<Rightarrow> bool" where
  "use_applied_boundary c \<longleftrightarrow> c = RC_AllWithAppliedBoundary \<or> c = RC_VisibleWithAppliedBoundary"

primrec location_of_range :: "range_constraint \<Rightarrow> location_constraint" where
  "location_of_range RC_All = LC_All"
| "location_of_range RC_AllWithAppliedBoundary = LC_All"
| "location_of_range RC_Visible = LC_Visible"
| "location_of_range RC_VisibleWithAppliedBoundary = LC_Visible"
| "location_of_range RC_Applied = LC_Applied"
| "location_of_range RC_Unapplied = LC_Unapplied"
| "location_of_range RC_Hidden = LC_Hidden"

datatype name_reason =
  EmptyName | StartsWithDot | ContainsDotDot | EndsWithDot | ContainsAtBrace
| ContainsWhitespace | ContainsControl | MayNotContain rchar
| EndsWithLock | IsBase | IsAt

datatype name_error =
  InvalidPatchName rstring name_reason
| PatchNotAllowed patch_name location_group

section \<open>Validation\<close>

text \<open>\<open>iter.peek()\<close>.\<close>

definition peek :: "rstring \<Rightarrow> rchar option" where
  "peek s = (case s of [] \<Rightarrow> None | c # _ \<Rightarrow> Some c)"

definition dot_lock :: rstring where "dot_lock = str ''.lock''"
definition base_name :: rstring where "base_name = str ''{base}''"
definition at_name :: rstring where "at_name = str ''@''"

definition forbidden_char :: "rchar \<Rightarrow> bool" where
  "forbidden_char c \<longleftrightarrow>
     c \<in> set [c_tilde, c_caret, c_colon, c_slash, c_backslash, c_question, c_lbracket, c_star, c_del]"

fun validate_chars :: "rstring \<Rightarrow> name_reason option" where
  "validate_chars [] = None"
| "validate_chars (c # cs) =
     (if c = c_dot then
        (if peek cs = Some c_dot then Some ContainsDotDot
         else if peek cs = None then Some EndsWithDot
         else validate_chars cs)
      else if c = c_at \<and> peek cs = Some c_lbrace then Some ContainsAtBrace
      else if is_ascii_whitespace c then Some ContainsWhitespace
      else if is_control c then Some ContainsControl
      else if forbidden_char c then Some (MayNotContain c)
      else validate_chars cs)"

definition validate :: "rstring \<Rightarrow> (name_error, unit) outcome" where
  "validate name =
     (if name = [] then Err (InvalidPatchName name EmptyName)
      else if peek name = Some c_dot then Err (InvalidPatchName name StartsWithDot)
      else (case validate_chars name of
              Some r \<Rightarrow> Err (InvalidPatchName name r)
            | None \<Rightarrow>
                if ends_with name dot_lock then Err (InvalidPatchName name EndsWithLock)
                else if name = base_name then Err (InvalidPatchName name IsBase)
                else if name = at_name then Err (InvalidPatchName name IsAt)
                else Ok ()))"

definition from_str :: "rstring \<Rightarrow> (name_error, patch_name) outcome" where
  "from_str name0 =
     (let name = (if starts_with name0 [c_backslash, c_dash] then drop 1 name0 else name0)
      in obind (validate name) (\<lambda>_. Ok (PatchName name)))"

text \<open>\<open>String::remove(0)\<close>.\<close>

definition try_from :: "rstring \<Rightarrow> (name_error, patch_name) outcome" where
  "try_from name0 =
     (let name = (if starts_with name0 [c_backslash, c_dash] then remove_at 0 name0 else name0)
      in obind (validate name) (\<lambda>_. Ok (PatchName name)))"

definition pn_len :: "patch_name \<Rightarrow> nat" where
  "pn_len p = str_len (pn_str p)"

definition collides :: "patch_name \<Rightarrow> patch_name \<Rightarrow> bool" where
  "collides a b \<longleftrightarrow> eq_ignore_ascii_case (pn_str a) (pn_str b)"

fun constrain_group ::
  "location_constraint \<Rightarrow> location_group \<Rightarrow> patch_name \<Rightarrow> (name_error, patch_name) outcome" where
  "constrain_group LC_All _ pn = Ok pn"
| "constrain_group LC_Visible LG_Applied pn = Ok pn"
| "constrain_group LC_Visible LG_Unapplied pn = Ok pn"
| "constrain_group LC_Applied LG_Applied pn = Ok pn"
| "constrain_group LC_Unapplied LG_Unapplied pn = Ok pn"
| "constrain_group LC_Hidden LG_Hidden pn = Ok pn"
| "constrain_group _ g pn = Err (PatchNotAllowed pn g)"

section \<open>Making a name from a message\<close>

definition default_name :: rstring where "default_name = str ''patch''"

definition make_base :: "rstring \<Rightarrow> rstring" where
  "make_base raw =
     (case find (\<lambda>l. l \<noteq> []) (map trim (lines raw)) of Some l \<Rightarrow> l | None \<Rightarrow> default_name)"

text \<open>
  The character loop; the first argument is \<open>prev\<close>.  The source's test
  \<open>c.is_alphanumeric() || c == '_' || !c.is_ascii()\<close> needs Unicode tables for no character: a
  character above ASCII passes the last disjunct.
\<close>

primrec make_chars :: "rchar \<Rightarrow> rstring \<Rightarrow> rstring" where
  "make_chars prev [] = []"
| "make_chars prev (c # cs) =
     (if is_whitespace c \<or> is_control c then
        (if prev \<noteq> c_dash then c_dash # make_chars c_dash cs else make_chars prev cs)
      else if is_ascii_alphanumeric c \<or> c = c_underscore \<or> \<not> is_ascii c then c # make_chars c cs
      else if c = c_dash \<or> c = c_dot then
        (if prev \<noteq> c_dash \<and> prev \<noteq> c_dot then c # make_chars c cs else make_chars prev cs)
      else if prev \<noteq> c_dash \<and> prev \<noteq> c_dot then c_dash # make_chars c_dash cs
      else make_chars prev cs)"

definition is_dash_dot :: "rchar \<Rightarrow> bool" where
  "is_dash_dot c \<longleftrightarrow> c = c_dash \<or> c = c_dot"

definition strip_round :: "rstring \<Rightarrow> rstring" where
  "strip_round s = trim_matches is_dash_dot (trim_end_matches_str s dot_lock)"

lemma strip_round_decomp: "\<exists>l r. s = l @ strip_round s @ r"
  unfolding strip_round_def
  by (metis append.assoc trim_end_matches_str_decomp trim_matches_decomp)

lemma strip_round_len: "str_len (strip_round s) \<le> str_len s"
  by (metis le_add1 le_add2 le_trans str_len_simps(3) strip_round_decomp)

function strip_loop :: "rstring \<Rightarrow> rstring" where
  "strip_loop candidate =
     (let c = strip_round candidate
      in if str_len c = str_len candidate then c else strip_loop c)"
  by pat_completeness auto
termination
  by (relation "measure str_len") (auto simp: le_neq_implies_less strip_round_len)

declare strip_loop.simps [simp del]

definition name_words :: "rstring \<Rightarrow> rstring list" where
  "name_words candidate =
     filter (\<lambda>w. w \<noteq> []) (map (trim_matches (\<lambda>c. c = c_dot)) (split_on c_dash candidate))"

primrec add_words :: "nat \<Rightarrow> rstring \<Rightarrow> rstring list \<Rightarrow> rstring" where
  "add_words len_limit short [] = short"
| "add_words len_limit short (w # ws) =
     (if str_len short + 1 + str_len w \<le> len_limit
      then add_words len_limit (short @ [c_dash] @ w) ws
      else short)"

definition shorten :: "nat \<Rightarrow> rstring \<Rightarrow> rstring" where
  "shorten len_limit candidate =
     (case name_words candidate of
        [] \<Rightarrow> add_words len_limit default_name []
      | w # ws \<Rightarrow> add_words len_limit w ws)"

text \<open>The candidate before the length limit; \<open>to_lower\<close> stands for \<open>str::to_lowercase\<close>.\<close>

definition make_candidate :: "(rstring \<Rightarrow> rstring) \<Rightarrow> rstring \<Rightarrow> bool \<Rightarrow> rstring" where
  "make_candidate to_lower raw lower =
     (let name = make_chars c_nul (make_base raw);
          name = (if lower then to_lower name else name);
          candidate = strip_loop name
      in if candidate = [] then default_name else candidate)"

definition over_limit :: "nat option \<Rightarrow> rstring \<Rightarrow> bool" where
  "over_limit len_limit candidate =
     (case len_limit of Some limit \<Rightarrow> limit > 0 \<and> str_len candidate > limit | None \<Rightarrow> False)"

primrec expect_ok :: "('f, 'a) outcome \<Rightarrow> ('e, 'a) outcome" where
  "expect_ok (Ok x) = Ok x"
| "expect_ok (Err e) = Panic"
| "expect_ok Panic = Panic"

definition make ::
  "(rstring \<Rightarrow> rstring) \<Rightarrow> rstring \<Rightarrow> bool \<Rightarrow> nat option \<Rightarrow> (name_error, patch_name) outcome" where
  "make to_lower raw lower len_limit =
     (let candidate = make_candidate to_lower raw lower
      in if over_limit len_limit candidate
         then expect_ok (try_from (shorten (the len_limit) candidate))
         else expect_ok (from_str candidate))"

text \<open>\<open>get_length_limit\<close>; the argument is the \<open>stgit.namelength\<close> setting, if any.\<close>

definition get_length_limit :: "int option \<Rightarrow> nat option" where
  "get_length_limit cfg =
     (case cfg of
        Some n \<Rightarrow> if 0 \<le> n \<and> n \<le> int usize_max then Some (nat n) else Some 30
      | None \<Rightarrow> Some 30)"

section \<open>Making a name unique\<close>

definition next_candidate :: "bool \<Rightarrow> patch_name \<Rightarrow> (name_error, patch_name) outcome" where
  "next_candidate chk candidate =
     (let inner = pn_str candidate;
          base = trim_end_matches is_ascii_digit inner;
          num_digits = str_len inner - str_len base
      in if num_digits > 0 then
           obind (expect (parse_usize (drop (length base) inner))) (\<lambda>n.
           obind (usize_arith chk (int n + 1)) (\<lambda>n.
           Ok (PatchName (base @ show_nat n))))
         else Ok (PatchName (base @ str ''-1'')))"

definition usable :: "patch_name list \<Rightarrow> patch_name list \<Rightarrow> patch_name \<Rightarrow> bool" where
  "usable allow disallow candidate \<longleftrightarrow>
     list_ex (\<lambda>pn. pn = candidate) allow \<or> list_all (\<lambda>pn. \<not> collides candidate pn) disallow"

partial_function (option) uniquify ::
  "bool \<Rightarrow> patch_name list \<Rightarrow> patch_name list \<Rightarrow> patch_name \<Rightarrow> (name_error, patch_name) outcome option" where
  "uniquify chk allow disallow candidate =
     (if usable allow disallow candidate then Some (Ok candidate)
      else (case next_candidate chk candidate of
              Ok c \<Rightarrow> uniquify chk allow disallow c
            | Err e \<Rightarrow> Some (Err e)
            | Panic \<Rightarrow> Some Panic))"

section \<open>Validity without the loop\<close>

definition valid :: "rstring \<Rightarrow> bool" where
  "valid s \<longleftrightarrow> validate s = Ok ()"

definition name_char :: "rchar \<Rightarrow> bool" where
  "name_char c \<longleftrightarrow> \<not> is_ascii_whitespace c \<and> \<not> is_control c \<and> \<not> forbidden_char c"

lemma sublist2_Cons:
  "sublist [a, b] (x # xs) \<longleftrightarrow> x = a \<and> (\<exists>r. xs = b # r) \<or> sublist [a, b] xs"
  by (auto simp: sublist_Cons_right prefix_def)

lemma sublist_setD: "sublist s t \<Longrightarrow> set s \<subseteq> set t"
  by (auto simp: sublist_def)

lemma sublist2_append:
  "sublist [a, b] (xs @ ys) \<longleftrightarrow>
     sublist [a, b] xs \<or> sublist [a, b] ys \<or> (xs \<noteq> [] \<and> last xs = a \<and> ys \<noteq> [] \<and> hd ys = b)"
proof (induction xs)
  case (Cons x xs)
  then show ?case by (cases xs; cases ys) (auto simp: sublist2_Cons)
qed simp

lemma peek_iff: "peek s = Some c \<longleftrightarrow> (\<exists>r. s = c # r)" "peek s = None \<longleftrightarrow> s = []"
  by (auto simp: peek_def split: list.splits)

lemma validate_chars_None_iff:
  "validate_chars s = None \<longleftrightarrow>
     list_all name_char s \<and> \<not> sublist [c_dot, c_dot] s \<and> \<not> sublist [c_at, c_lbrace] s \<and>
     (s \<noteq> [] \<longrightarrow> last s \<noteq> c_dot)"
proof (induction s)
  case (Cons c s)
  have dot: "name_char c_dot"
    by (simp add: name_char_def char_class_defs forbidden_char_def)
  have step: "validate_chars (c # s) = None \<longleftrightarrow>
      name_char c \<and> \<not> (c = c_dot \<and> (s = [] \<or> (\<exists>r. s = c_dot # r))) \<and>
      \<not> (c = c_at \<and> (\<exists>r. s = c_lbrace # r)) \<and> validate_chars s = None"
  proof (cases "c = c_dot")
    case True
    then show ?thesis using dot by (cases s) (auto simp: peek_def)
  next
    case False
    then show ?thesis by (auto simp: peek_iff name_char_def)
  qed
  show ?case unfolding step Cons.IH by (cases s) (auto simp: sublist2_Cons)
qed simp

lemma valid_iff:
  "valid s \<longleftrightarrow>
     s \<noteq> [] \<and> hd s \<noteq> c_dot \<and> last s \<noteq> c_dot \<and> list_all name_char s \<and>
     \<not> sublist [c_dot, c_dot] s \<and> \<not> sublist [c_at, c_lbrace] s \<and>
     \<not> ends_with s dot_lock \<and> s \<noteq> base_name \<and> s \<noteq> at_name"
proof (cases "s = [] \<or> peek s = Some c_dot")
  case True
  then show ?thesis by (cases s) (auto simp: valid_def validate_def peek_def)
next
  case False
  then have "hd s \<noteq> c_dot" by (cases s) (auto simp: peek_iff)
  with False show ?thesis
    using validate_chars_None_iff [of s]
    by (auto simp: valid_def validate_def split: option.splits)
qed

lemma validate_not_Panic [simp]: "validate s \<noteq> Panic"
  by (auto simp: validate_def split: option.splits)

lemma valid_no_backslash: "valid s \<Longrightarrow> \<not> starts_with s [c_backslash, c_dash]"
  by (auto simp: valid_iff starts_with_iff name_char_def forbidden_char_def)

lemma from_str_valid: "valid s \<Longrightarrow> from_str s = Ok (PatchName s)"
  by (auto simp: from_str_def valid_no_backslash) (auto simp: valid_def)

lemma from_str_Ok_valid: "from_str s = Ok p \<Longrightarrow> valid (pn_str p)"
  by (auto simp: from_str_def valid_def Let_def)

lemma try_from_eq_from_str: "try_from s = from_str s"
  by (auto simp: try_from_def from_str_def remove_at_def)

text \<open>A name that is made, or found in a stack, is one that the parser accepts and gives back.\<close>

lemma from_str_roundtrip: "from_str s = Ok p \<Longrightarrow> from_str (pn_str p) = Ok p"
  by (cases p) (metis from_str_Ok_valid from_str_valid patch_name.sel)

section \<open>Making names\<close>

text \<open>
  What \<open>str::to_lowercase\<close> does: every character is replaced by a non-empty piece, an ASCII
  character by its ASCII lower case, and a character above ASCII that is neither white space nor
  a control character by letters of the same kind or by ASCII letters (the Kelvin sign becomes
  \<open>k\<close>).
\<close>

definition word_char :: "rchar \<Rightarrow> bool" where
  "word_char c \<longleftrightarrow>
     is_ascii_alphanumeric c \<or> c = c_underscore \<or> \<not> is_ascii c \<and> \<not> is_whitespace c \<and> \<not> is_control c"

definition lower_piece :: "rchar \<Rightarrow> rstring \<Rightarrow> bool" where
  "lower_piece c p \<longleftrightarrow>
     (if is_ascii c then p = [to_ascii_lowercase c]
      else p \<noteq> [] \<and> (word_char c \<longrightarrow> list_all word_char p))"

definition lowering :: "(rstring \<Rightarrow> rstring) \<Rightarrow> bool" where
  "lowering to_lower \<longleftrightarrow> (\<forall>s. \<exists>ps. to_lower s = concat ps \<and> list_all2 lower_piece s ps)"

text \<open>What the character loop leaves in a name.\<close>

definition clean :: "rstring \<Rightarrow> bool" where
  "clean s \<longleftrightarrow> list_all (\<lambda>c. word_char c \<or> is_dash_dot c) s \<and> \<not> sublist [c_dot, c_dot] s"

lemma clean_append_sub: "clean (l @ s @ r) \<Longrightarrow> clean s"
  by (auto simp: clean_def) (meson sublist_appendI sublist_order.order_trans)

lemma clean_sublist: "sublist s t \<Longrightarrow> clean t \<Longrightarrow> clean s"
  by (metis clean_append_sub sublist_def)

lemma word_char_name_char: "word_char c \<or> is_dash_dot c \<Longrightarrow> name_char c \<and> c \<noteq> c_at \<and> c \<noteq> c_lbrace"
  by (auto simp: word_char_def name_char_def char_class_defs forbidden_char_def is_dash_dot_def)

lemma clean_valid:
  assumes "clean s" "s \<noteq> []" "hd s \<noteq> c_dot" "last s \<noteq> c_dot"
  shows "valid s \<longleftrightarrow> \<not> ends_with s dot_lock"
proof -
  have chars: "\<And>c. c \<in> set s \<Longrightarrow> name_char c \<and> c \<noteq> c_at \<and> c \<noteq> c_lbrace"
    using assms(1) word_char_name_char by (auto simp: clean_def list_all_iff)
  have "\<not> sublist [c_at, c_lbrace] s" using chars by (metis list.set_intros(1) sublist_setD subsetD)
  moreover have "s \<noteq> base_name" "s \<noteq> at_name"
    using chars [of c_lbrace] chars [of c_at] by (auto simp: base_name_def at_name_def str_def)
  ultimately show ?thesis
    using assms chars by (auto simp: valid_iff clean_def list_all_iff)
qed

lemma make_chars_clean:
  "list_all (\<lambda>c. word_char c \<or> is_dash_dot c) (make_chars prev s)"
  "\<not> sublist [c_dot, c_dot] (prev # make_chars prev s)"
proof (induction s arbitrary: prev)
  case (Cons c s)
  { case 1 show ?case using Cons.IH(1) by (auto simp: word_char_def is_dash_dot_def) }
  { case 2
    have "is_ascii_alphanumeric c \<or> c = c_underscore \<or> \<not> is_ascii c \<Longrightarrow> c \<noteq> c_dot"
      by (auto simp: char_class_defs)
    then show ?case
      using Cons.IH(2) [of prev] Cons.IH(2) [of c] Cons.IH(2) [of c_dash]
      by (auto simp: sublist2_Cons) }
qed (auto simp: sublist2_Cons)

lemma clean_make_chars: "clean (make_chars prev s)"
  using make_chars_clean [of prev s] by (auto simp: clean_def sublist2_Cons)

lemma word_char_no_dot: "word_char c \<Longrightarrow> c \<noteq> c_dot"
  by (auto simp: word_char_def char_class_defs)

lemma lower_piece_clean:
  assumes "lower_piece c p" "word_char c \<or> is_dash_dot c"
  shows "p \<noteq> []" "list_all (\<lambda>c. word_char c \<or> is_dash_dot c) p" "c \<noteq> c_dot \<Longrightarrow> c_dot \<notin> set p"
    "c = c_dot \<Longrightarrow> p = [c_dot]"
proof -
  show "p \<noteq> []" using assms by (auto simp: lower_piece_def split: if_splits)
  show "list_all (\<lambda>c. word_char c \<or> is_dash_dot c) p"
  proof (cases "is_ascii c")
    case True
    then have "p = [to_ascii_lowercase c]" using assms by (simp add: lower_piece_def)
    then show ?thesis using assms(2) True
      by (auto simp: word_char_def is_dash_dot_def char_class_defs)
  next
    case False
    then have "word_char c" using assms(2) by (auto simp: is_dash_dot_def is_ascii_def)
    then show ?thesis using assms(1) False by (auto simp: lower_piece_def list_all_iff)
  qed
  show "c = c_dot \<Longrightarrow> p = [c_dot]"
    using assms by (simp add: lower_piece_def char_class_defs)
  assume c: "c \<noteq> c_dot"
  show "c_dot \<notin> set p"
  proof (cases "is_ascii c")
    case True
    then show ?thesis using assms c by (auto simp: lower_piece_def char_class_defs)
  next
    case False
    then have "word_char c" using assms(2) by (auto simp: is_dash_dot_def is_ascii_def)
    then show ?thesis using assms(1) False word_char_no_dot
      by (auto simp: lower_piece_def list_all_iff)
  qed
qed

lemma clean_lower_pieces:
  "list_all2 lower_piece s ps \<Longrightarrow> clean s \<Longrightarrow>
   clean (concat ps) \<and> (concat ps \<noteq> [] \<longrightarrow> hd (concat ps) = c_dot \<longrightarrow> s \<noteq> [] \<and> hd s = c_dot)"
proof (induction s ps rule: list_all2_induct)
  case (Cons c s p ps)
  have cs: "clean s" "word_char c \<or> is_dash_dot c"
    using Cons.prems by (auto simp: clean_def sublist2_Cons)
  note p = lower_piece_clean [OF Cons.hyps(1) cs(2)]
  define q where "q = concat ps"
  have IH: "clean q" "q \<noteq> [] \<Longrightarrow> hd q = c_dot \<Longrightarrow> s \<noteq> [] \<and> hd s = c_dot"
    using Cons.IH [OF cs(1)] unfolding q_def by blast+
  have nodd: "\<not> sublist [c_dot, c_dot] (p @ q)"
  proof (cases "c = c_dot")
    case True
    then have "\<not> (s \<noteq> [] \<and> hd s = c_dot)"
      using Cons.prems by (cases s) (auto simp: clean_def sublist2_Cons)
    then have "\<not> (q \<noteq> [] \<and> hd q = c_dot)" using IH(2) by blast
    then show ?thesis using True p(4) IH(1) by (auto simp: clean_def sublist2_Cons)
  next
    case False
    then have "\<not> sublist [c_dot, c_dot] p" "last p \<noteq> c_dot"
      using p(1,3) sublist_setD last_in_set by (fastforce, metis)
    then show ?thesis using IH(1) p(1) by (auto simp: clean_def sublist2_append)
  qed
  have "hd (p @ q) = c_dot \<Longrightarrow> c = c_dot"
    using p(1,3) by (metis hd_append2 hd_in_set)
  with nodd p(1,2) IH(1) show ?case unfolding concat.simps q_def [symmetric] by (auto simp: clean_def)
qed (simp add: clean_def)

lemma clean_lower: "lowering to_lower \<Longrightarrow> clean s \<Longrightarrow> clean (to_lower s)"
  unfolding lowering_def using clean_lower_pieces by metis

lemma strip_loop_props:
  shows "\<exists>l r. s = l @ strip_loop s @ r" (is ?decomp)
    and "\<not> ends_with (strip_loop s) dot_lock" (is ?lock)
    and "strip_loop s \<noteq> [] \<Longrightarrow> \<not> is_dash_dot (hd (strip_loop s)) \<and> \<not> is_dash_dot (last (strip_loop s))"
proof (induction s rule: strip_loop.induct)
  case (1 s)
  let ?c = "strip_round s"
  have fix_: "?c = s" if "str_len ?c = str_len s"
  proof -
    obtain l r where s: "s = l @ ?c @ r" using strip_round_decomp by blast
    then have "str_len s = str_len l + (str_len ?c + str_len r)" by (metis str_len_simps(3))
    then have "l = []" "r = []" using that by auto
    with s show ?thesis by simp
  qed
  have ends: "?c \<noteq> [] \<Longrightarrow> \<not> is_dash_dot (hd ?c) \<and> \<not> is_dash_dot (last ?c)"
    unfolding strip_round_def using trim_matches_ends by blast
  have lock: "\<not> ends_with s dot_lock" if "?c = s"
  proof
    assume "ends_with s dot_lock"
    obtain r where r: "s = trim_end_matches_str s dot_lock @ r"
      using trim_end_matches_str_decomp by blast
    obtain l r' where "trim_end_matches_str s dot_lock = l @ ?c @ r'"
      unfolding strip_round_def using trim_matches_decomp by blast
    with r that have "s = l @ s @ r' @ r" by simp
    then have "length s = length l + (length s + (length r' + length r))"
      by (metis length_append)
    then have "r = []" by simp
    with r have "trim_end_matches_str s dot_lock = s" by simp
    moreover have "dot_lock \<noteq> []" by (simp add: dot_lock_def str_def)
    ultimately show False
      using \<open>ends_with s dot_lock\<close> trim_end_matches_str_no_suffix by metis
  qed
  have unf: "strip_loop s = (if str_len ?c = str_len s then ?c else strip_loop ?c)"
    by (subst strip_loop.simps) (simp add: Let_def)
  { case 1 show ?case
    proof (cases "str_len ?c = str_len s")
      case True
      then show ?thesis using unf strip_round_decomp [of s] by simp
    next
      case False
      then obtain l r where "?c = l @ strip_loop ?c @ r" using "1.IH"(1) by blast
      moreover obtain l' r' where "s = l' @ ?c @ r'" using strip_round_decomp by blast
      ultimately have "s = (l' @ l) @ strip_loop ?c @ (r @ r')" by (metis append.assoc)
      then show ?thesis using False unf by metis
    qed }
  { case 2 show ?case using unf fix_ lock "1.IH"(2) by auto }
  { case 3 then show ?case using unf ends "1.IH"(3) by (auto split: if_splits) }
qed

lemma clean_default: "clean default_name" "default_name \<noteq> []" "hd default_name \<noteq> c_dot"
  "last default_name \<noteq> c_dot" "\<not> ends_with default_name dot_lock"
  by (simp_all add: default_name_def dot_lock_def str_def clean_def sublist2_Cons word_char_def
      char_class_defs ends_with_def)

lemma make_candidate_clean:
  assumes "lowering to_lower"
  shows "clean (make_candidate to_lower raw lower)" "make_candidate to_lower raw lower \<noteq> []"
    "hd (make_candidate to_lower raw lower) \<noteq> c_dot" "last (make_candidate to_lower raw lower) \<noteq> c_dot"
    "\<not> ends_with (make_candidate to_lower raw lower) dot_lock"
proof -
  define n where "n = make_chars c_nul (make_base raw)"
  define m where "m = (if lower then to_lower n else n)"
  have "clean n" unfolding n_def by (rule clean_make_chars)
  then have "clean m" unfolding m_def using assms clean_lower by simp
  moreover obtain l r where "m = l @ strip_loop m @ r" using strip_loop_props(1) by blast
  ultimately have c: "clean (strip_loop m)" by (metis clean_append_sub)
  have mc: "make_candidate to_lower raw lower = (if strip_loop m = [] then default_name else strip_loop m)"
    by (simp add: make_candidate_def Let_def n_def m_def)
  show "clean (make_candidate to_lower raw lower)" "make_candidate to_lower raw lower \<noteq> []"
    "hd (make_candidate to_lower raw lower) \<noteq> c_dot" "last (make_candidate to_lower raw lower) \<noteq> c_dot"
    "\<not> ends_with (make_candidate to_lower raw lower) dot_lock"
    using c strip_loop_props(2,3) [of m] clean_default by (auto simp: mc is_dash_dot_def)
qed

lemma name_words_clean:
  assumes "clean s" "w \<in> set (name_words s)"
  shows "clean w" "w \<noteq> []" "hd w \<noteq> c_dot" "last w \<noteq> c_dot"
proof -
  obtain v where v: "v \<in> set (split_on c_dash s)" "w = trim_matches (\<lambda>c. c = c_dot) v" "w \<noteq> []"
    using assms(2) by (auto simp: name_words_def)
  have "clean v" using clean_sublist [OF split_on_sublist [OF v(1)] assms(1)] .
  then show "clean w" unfolding v(2) by (metis clean_append_sub trim_matches_decomp)
  show "w \<noteq> []" "hd w \<noteq> c_dot" "last w \<noteq> c_dot"
    using v trim_matches_ends [of "\<lambda>c. c = c_dot" v] by auto
qed

definition good_short :: "rstring \<Rightarrow> bool" where
  "good_short s \<longleftrightarrow> clean s \<and> s \<noteq> [] \<and> hd s \<noteq> c_dot \<and> last s \<noteq> c_dot"

lemma add_words_good:
  "good_short s \<Longrightarrow> list_all good_short ws \<Longrightarrow> good_short (add_words limit s ws)"
proof (induction ws arbitrary: s)
  case (Cons w ws)
  have "good_short (s @ c_dash # w)"
    using Cons.prems by (auto simp: good_short_def clean_def sublist2_append sublist2_Cons is_dash_dot_def)
  then show ?case using Cons by simp
qed simp

lemma add_words_len: "str_len s \<le> limit \<Longrightarrow> str_len (add_words limit s ws) \<le> limit"
  by (induction ws arbitrary: s) (auto simp: utf8_len_def)

lemma shorten_good: "clean s \<Longrightarrow> good_short (shorten limit s)"
proof (cases "name_words s")
  case (Cons w ws)
  assume "clean s"
  then have "list_all good_short (name_words s)"
    using name_words_clean by (auto simp: list_all_iff good_short_def)
  then show ?thesis using add_words_good Cons by (auto simp: shorten_def)
qed (simp add: shorten_def good_short_def clean_default)

lemma make_result:
  fixes to_lower raw lower limit
  assumes "lowering to_lower"
  defines "c \<equiv> make_candidate to_lower raw lower"
  defines "s \<equiv> shorten (the limit) c"
  shows "make to_lower raw lower limit =
    (if over_limit limit c then (if ends_with s dot_lock then Panic else Ok (PatchName s))
     else Ok (PatchName c))"
    and "over_limit limit c \<Longrightarrow> \<not> ends_with s dot_lock \<Longrightarrow> valid s"
    and "valid c"
proof -
  note c = make_candidate_clean [OF assms(1), of raw lower, folded c_def]
  show vc: "valid c" using clean_valid c by blast
  have gs: "good_short s" unfolding s_def using shorten_good c(1) by blast
  have vs: "valid s \<longleftrightarrow> \<not> ends_with s dot_lock"
    using clean_valid gs by (auto simp: good_short_def)
  show "over_limit limit c \<Longrightarrow> \<not> ends_with s dot_lock \<Longrightarrow> valid s" using vs by simp
  have nb: "\<not> starts_with s [c_backslash, c_dash]"
    using gs word_char_name_char [of c_backslash]
    by (auto simp: good_short_def clean_def starts_with_iff name_char_def forbidden_char_def)
  have "(expect_ok (try_from s) :: (name_error, patch_name) outcome) = (if ends_with s dot_lock then Panic else Ok (PatchName s))"
  proof (cases "ends_with s dot_lock")
    case True
    then have "validate s \<noteq> Ok ()" using vs by (simp add: valid_def)
    then show ?thesis using True nb by (cases "validate s") (auto simp: try_from_def Let_def)
  next
    case False
    then show ?thesis using vs from_str_valid by (simp add: try_from_eq_from_str)
  qed
  then show "make to_lower raw lower limit =
    (if over_limit limit c then (if ends_with s dot_lock then Panic else Ok (PatchName s))
     else Ok (PatchName c))"
    using from_str_valid [OF vc] by (simp add: make_def Let_def c_def s_def)
qed

section \<open>Unique names\<close>

lemma collides_refl [simp]: "collides p p"
  and collides_sym: "collides p q \<Longrightarrow> collides q p"
  and collides_trans: "collides p q \<Longrightarrow> collides q r \<Longrightarrow> collides p r"
  by (auto simp: collides_def eq_ignore_ascii_case_def)

lemma lower_digit: "is_ascii_digit c \<Longrightarrow> to_ascii_lowercase c = c"
  by (auto simp: char_class_defs)

lemma map_lower_digits: "list_all is_ascii_digit s \<Longrightarrow> map to_ascii_lowercase s = s"
  by (induction s) (auto simp: lower_digit)

lemma digit_lower: "is_ascii_digit (to_ascii_lowercase c) \<longleftrightarrow> is_ascii_digit c"
  by (auto simp: char_class_defs)

lemma digits_suffix_unique:
  assumes "b @ x = c @ y" "list_all is_ascii_digit x" "list_all is_ascii_digit y"
    "b = [] \<or> \<not> is_ascii_digit (last b)" "c = [] \<or> \<not> is_ascii_digit (last c)"
  shows "b = c \<and> x = y"
proof -
  have key: "r = []" if "b = c @ r" "y = r @ x" "list_all is_ascii_digit y" "b = [] \<or> \<not> is_ascii_digit (last b)"
    for b c r x y :: rstring
    using that by (cases r rule: rev_cases) (auto simp: list_all_iff)
  from assms(1) consider r where "b = c @ r" "y = r @ x" | r where "c = b @ r" "x = r @ y"
    unfolding append_eq_append_conv2 by metis
  then show ?thesis
  proof cases
    case 1
    then have "r = []" using key assms(3,4) by metis
    with 1 show ?thesis by simp
  next
    case 2
    then have "r = []" using key assms(2,5) by metis
    with 2 show ?thesis by simp
  qed
qed

text \<open>The names the loop tries: a stem that does not end in a digit, and a number.\<close>

definition numbered :: "rstring \<Rightarrow> nat \<Rightarrow> patch_name" where
  "numbered stem n = PatchName (stem @ show_nat n)"

definition stem_ok :: "rstring \<Rightarrow> bool" where
  "stem_ok stem \<longleftrightarrow> stem = [] \<or> \<not> is_ascii_digit (last stem)"

lemma numbered_collides: "stem_ok stem \<Longrightarrow> collides (numbered stem m) (numbered stem n) \<Longrightarrow> m = n"
  using digits_suffix_unique [of "map to_ascii_lowercase stem" "show_nat m" "map to_ascii_lowercase stem" "show_nat n"]
  by (auto simp: collides_def eq_ignore_ascii_case_def numbered_def map_lower_digits show_nat_digits)

lemma trim_digits:
  "stem_ok stem \<Longrightarrow> list_all is_ascii_digit ds \<Longrightarrow> trim_end_matches is_ascii_digit (stem @ ds) = stem"
  by (cases stem rule: rev_cases)
    (auto simp: stem_ok_def trim_end_matches_def dropWhile_append list_all_iff)

lemma str_len_digits: "list_all is_ascii_digit ds \<Longrightarrow> ds \<noteq> [] \<Longrightarrow> 0 < str_len ds"
  by (cases ds) auto

lemma next_candidate_digits:
  assumes "stem_ok stem" "list_all is_ascii_digit ds" "ds \<noteq> []" "dec_value ds < usize_max"
  shows "next_candidate chk (PatchName (stem @ ds)) = Ok (numbered stem (Suc (dec_value ds)))"
proof -
  have "parse_usize ds = Some (dec_value ds)"
    using assms digit_not_sign by (cases ds) (auto simp: parse_usize_def parse_digits_def)
  then show ?thesis
    using assms str_len_digits [of ds]
    by (simp add: next_candidate_def Let_def trim_digits usize_arith_def numbered_def nat_add_distrib)
qed

lemma next_candidate_numbered:
  "stem_ok stem \<Longrightarrow> n < usize_max \<Longrightarrow> next_candidate chk (numbered stem n) = Ok (numbered stem (Suc n))"
  using next_candidate_digits [of stem "show_nat n"] by (simp add: numbered_def show_nat_digits)

text \<open>The names in use that the rest of the search can still run into.\<close>

definition ahead :: "rstring \<Rightarrow> nat \<Rightarrow> patch_name list \<Rightarrow> patch_name set" where
  "ahead stem n disallow = {d \<in> set disallow. \<exists>m\<ge>n. collides (numbered stem m) d}"

lemma ahead_step:
  assumes "stem_ok stem" "d \<in> set disallow" "collides (numbered stem n) d"
  shows "card (ahead stem (Suc n) disallow) < card (ahead stem n disallow)"
proof (rule psubset_card_mono)
  show "finite (ahead stem n disallow)" by (simp add: ahead_def)
  have "d \<in> ahead stem n disallow" using assms by (auto simp: ahead_def)
  moreover have "d \<notin> ahead stem (Suc n) disallow"
  proof
    assume "d \<in> ahead stem (Suc n) disallow"
    then obtain m where "Suc n \<le> m" "collides (numbered stem m) d" by (auto simp: ahead_def)
    then have "collides (numbered stem n) (numbered stem m)"
      using assms(3) collides_sym collides_trans by blast
    then show False using numbered_collides [OF assms(1)] \<open>Suc n \<le> m\<close> by fastforce
  qed
  moreover have "ahead stem (Suc n) disallow \<subseteq> ahead stem n disallow"
    by (auto simp: ahead_def) (meson Suc_leD)
  ultimately show "ahead stem (Suc n) disallow \<subset> ahead stem n disallow" by blast
qed

lemma uniquify_numbered:
  assumes "stem_ok stem" "card (ahead stem n disallow) + n < usize_max"
  shows "\<exists>k. n \<le> k \<and> k \<le> n + card (ahead stem n disallow) \<and>
     uniquify chk allow disallow (numbered stem n) = Some (Ok (numbered stem k)) \<and>
     usable allow disallow (numbered stem k)"
  using assms(2)
proof (induction "card (ahead stem n disallow)" arbitrary: n rule: less_induct)
  case less
  show ?case
  proof (cases "usable allow disallow (numbered stem n)")
    case True
    then show ?thesis by (subst uniquify.simps) auto
  next
    case False
    then obtain d where "d \<in> set disallow" "collides (numbered stem n) d"
      by (auto simp: usable_def list_all_iff)
    then have lt: "card (ahead stem (Suc n) disallow) < card (ahead stem n disallow)"
      using ahead_step assms(1) by blast
    then have bound: "card (ahead stem (Suc n) disallow) + Suc n < usize_max"
      using less.prems by linarith
    obtain k where "Suc n \<le> k" "k \<le> Suc n + card (ahead stem (Suc n) disallow)"
      "uniquify chk allow disallow (numbered stem (Suc n)) = Some (Ok (numbered stem k))"
      "usable allow disallow (numbered stem k)"
      using less.hyps [OF lt bound] by blast
    moreover have "n < usize_max" using less.prems by linarith
    then have "uniquify chk allow disallow (numbered stem n) =
        uniquify chk allow disallow (numbered stem (Suc n))"
      unfolding uniquify.simps [of chk allow disallow "numbered stem n"]
      by (simp only: False next_candidate_numbered [OF assms(1)] if_False outcome.case)
    moreover have "n \<le> k" "k \<le> n + card (ahead stem n disallow)"
      using calculation(1,2) lt by linarith+
    ultimately show ?thesis by metis
  qed
qed

text \<open>The number at the end of a name, 0 when there is none.\<close>

definition trailing_number :: "patch_name \<Rightarrow> nat" where
  "trailing_number p =
     dec_value (drop (length (trim_end_matches is_ascii_digit (pn_str p))) (pn_str p))"

lemma valid_numbered:
  assumes "valid (stem @ ds)" "list_all is_ascii_digit ds"
  shows "valid (stem @ (if ds = [] then [c_dash] else []) @ show_nat n)"
proof -
  obtain d r where d: "show_nat n = d # r" "is_ascii_digit d" "list_all is_ascii_digit r"
    using show_nat_Cons by blast
  have last_digit: "is_ascii_digit (last (show_nat n))"
    using show_nat_digits [of n] by (auto simp: list_all_iff)
  have dig: "name_char c \<and> c \<noteq> c_dot \<and> c \<noteq> c_at \<and> c \<noteq> c_lbrace \<and> c \<noteq> c_rbrace" if "is_ascii_digit c" for c
    using that by (auto simp: name_char_def char_class_defs forbidden_char_def)
  let ?t = "stem @ (if ds = [] then [c_dash] else []) @ show_nat n"
  have "last ?t = last (show_nat n)" using show_nat_ne by (metis append_is_Nil_conv last_append)
  then have l: "is_ascii_digit (last ?t)" using last_digit by simp
  have nolock: "\<not> ends_with ?t dot_lock"
  proof
    assume "ends_with ?t dot_lock"
    then obtain r where "?t = r @ dot_lock" by (auto simp: ends_with_iff)
    then have "last ?t = last dot_lock" by (simp only: last_append) (simp add: dot_lock_def str_def)
    then show False using l by (simp add: dot_lock_def str_def is_ascii_digit_def)
  qed
  have pair: "\<not> sublist [a, b] (show_nat n)" if "\<not> is_ascii_digit a" for a b
    using that show_nat_digits [of n] sublist_setD by (fastforce simp: list_all_iff)
  have chars: "list_all name_char ?t"
  proof -
    have "list_all name_char (show_nat n)" using show_nat_digits [of n] dig by (auto simp: list_all_iff)
    moreover have "list_all name_char stem" using assms(1) by (simp add: valid_iff)
    moreover have "name_char c_dash" by (simp add: name_char_def char_class_defs forbidden_char_def)
    ultimately show ?thesis by simp
  qed
  have stem: "\<not> sublist [c_dot, c_dot] stem" "\<not> sublist [c_at, c_lbrace] stem"
    using assms(1) by (auto simp: valid_iff sublist2_append)
  have hd: "hd ?t \<noteq> c_dot"
    using assms(1) d dig [OF d(2)] by (cases stem) (auto simp: valid_iff)
  have "\<not> sublist [c_dot, c_dot] ?t" "\<not> sublist [c_at, c_lbrace] ?t"
    using stem pair [of c_dot] pair [of c_at] d dig [OF d(2)]
    by (auto simp: sublist2_append sublist2_Cons is_ascii_digit_def)
  moreover have "?t \<noteq> base_name" "?t \<noteq> at_name"
  proof -
    have "is_ascii_digit (last base_name) = False" "is_ascii_digit (last at_name) = False"
      by (simp_all add: base_name_def at_name_def str_def is_ascii_digit_def)
    then show "?t \<noteq> base_name" "?t \<noteq> at_name" using l by metis+
  qed
  ultimately show ?thesis
    using chars hd nolock l dig by (auto simp: valid_iff)
qed

lemma card_ahead: "card (ahead stem n disallow) \<le> length disallow"
proof -
  have "ahead stem n disallow \<subseteq> set disallow" by (auto simp: ahead_def)
  then show ?thesis by (meson List.finite_set card_length card_mono le_trans)
qed

lemma name_split:
  obtains stem ds where "pn_str p = stem @ ds" "stem_ok stem" "list_all is_ascii_digit ds"
    "trailing_number p = dec_value ds"
proof -
  obtain ds where ds: "pn_str p = trim_end_matches is_ascii_digit (pn_str p) @ ds" "list_all is_ascii_digit ds"
    using trim_end_matches_decomp by blast
  have "drop (length (trim_end_matches is_ascii_digit (pn_str p))) (pn_str p) = ds"
    using ds(1) by (metis append_eq_conv_conj)
  then show ?thesis
    using that [of "trim_end_matches is_ascii_digit (pn_str p)" ds] ds trim_end_matches_last [of is_ascii_digit "pn_str p"]
    by (auto simp: stem_ok_def trailing_number_def)
qed

lemma next_candidate_stem:
  assumes "pn_str p = stem @ ds" "stem_ok stem" "list_all is_ascii_digit ds" "dec_value ds < usize_max"
  shows "next_candidate chk p =
     Ok (numbered (stem @ (if ds = [] then [c_dash] else [])) (if ds = [] then 1 else Suc (dec_value ds)))"
proof (cases "ds = []")
  case True
  then have "trim_end_matches is_ascii_digit (pn_str p) = pn_str p"
    using trim_digits [OF assms(2), of "[]"] assms(1) by simp
  moreover have "str ''-1'' = c_dash # show_nat 1" by (simp add: str_def show_nat.simps)
  ultimately show ?thesis using True assms(1) by (simp add: next_candidate_def numbered_def)
next
  case False
  then show ?thesis using next_candidate_digits [OF assms(2,3) False assms(4)] assms(1)
    by (metis append_Nil2 patch_name.collapse)
qed

abbreviation ascii_lower :: "rstring \<Rightarrow> rstring" where
  "ascii_lower s \<equiv> map to_ascii_lowercase s"

lemma lowering_ascii: "lowering ascii_lower"
proof -
  have piece: "lower_piece c [to_ascii_lowercase c]" for c
    by (auto simp: lower_piece_def to_ascii_lowercase_def is_ascii_upper_def is_ascii_def)
  have "\<exists>ps. ascii_lower s = concat ps \<and> list_all2 lower_piece s ps" for s
  proof (intro exI conjI)
    show "ascii_lower s = concat (map (\<lambda>c. [to_ascii_lowercase c]) s)" by (induction s) auto
    show "list_all2 lower_piece s (map (\<lambda>c. [to_ascii_lowercase c]) s)"
      by (induction s) (auto simp: piece)
  qed
  then show ?thesis by (simp add: lowering_def)
qed

section \<open>Properties\<close>

text \<open>
  C39: A string is accepted as a patch name exactly when it is non-empty, does not start or end
  with a dot, has no white space, control character or character with a meaning in git revisions,
  contains neither two dots in a row nor an at sign before an opening brace, does not end in \<open>.lock\<close> and is not one of the
  reserved words \<open>{base}\<close> and \<open>@\<close>.
\<close>

theorem validate_spec:
  "validate s = Ok () \<longleftrightarrow>
     s \<noteq> [] \<and> hd s \<noteq> c_dot \<and> last s \<noteq> c_dot \<and> list_all name_char s \<and>
     \<not> sublist [c_dot, c_dot] s \<and> \<not> sublist [c_at, c_lbrace] s \<and>
     \<not> ends_with s dot_lock \<and> s \<noteq> base_name \<and> s \<noteq> at_name"
  using valid_iff [of s] by (simp add: valid_def)

text \<open>
  A parsed patch name is valid and parses back to itself, and parsing from a borrowed and from
  an owned string agree.
\<close>

theorem from_str_parses_back:
  assumes "from_str s = Ok p"
  shows "valid (pn_str p) \<and> from_str (pn_str p) = Ok p \<and> try_from s = Ok p"
  using assms from_str_Ok_valid from_str_roundtrip by (simp add: try_from_eq_from_str)

theorem from_str_parses_back_witness:
  "from_str (c_backslash # str ''-patch'') = Ok (PatchName (str ''-patch'')) \<and>
   from_str (str ''-patch'') = Ok (PatchName (str ''-patch''))"
proof -
  have h: "from_str (c_backslash # str ''-patch'') = Ok (PatchName (str ''-patch''))" 
    by (simp add: str_def char_class_defs ends_with_def dot_lock_def from_str_def starts_with_def
        validate_def peek_def forbidden_char_def base_name_def at_name_def)
  show ?thesis using h from_str_parses_back [OF h] by simp
qed

text \<open>
  C37: \<open>PatchName::make\<close> returns a valid name, or panics; it panics exactly when the candidate exceeds
  the length limit and the shortened candidate ends in \<open>.lock\<close>.
\<close>

theorem make_panics_iff:
  assumes "lowering to_lower"
  shows "(make to_lower raw lower limit = Panic \<longleftrightarrow>
      over_limit limit (make_candidate to_lower raw lower) \<and>
      ends_with (shorten (the limit) (make_candidate to_lower raw lower)) dot_lock) \<and>
    (\<forall>p. make to_lower raw lower limit = Ok p \<longrightarrow> valid (pn_str p)) \<and>
    (\<forall>e. make to_lower raw lower limit \<noteq> Err e)"
  using make_result(1,2) [OF assms, where raw = raw and lower = lower and limit = limit]
    make_result(3) [OF assms, where raw = raw and lower = lower] by auto

theorem make_panics_iff_witness:
  "make ascii_lower (str ''Fix it'') True (Some 30) = Ok (PatchName (str ''fix-it'')) \<and>
   valid (str ''fix-it'')"
proof -
  have 1: "make_base (str ''Fix it'') = str ''Fix it''"
    by (simp add: make_base_def lines_def str_def trim_def trim_matches_def trim_end_matches_def
        trim_start_matches_def is_whitespace_def)
  have 2: "make_chars c_nul (str ''Fix it'') = str ''Fix-it''" by (simp add: str_def char_class_defs)
  have 3: "strip_loop (ascii_lower (str ''Fix-it'')) = str ''fix-it''" "str ''fix-it'' \<noteq> []"
    "str_len (str ''fix-it'') = 6" "from_str (str ''fix-it'') = Ok (PatchName (str ''fix-it''))"
    by code_simp+
  have "make ascii_lower (str ''Fix it'') True (Some 30) = Ok (PatchName (str ''fix-it''))"
    by (simp add: make_def make_candidate_def over_limit_def 1 2 3)
  then show ?thesis
    using make_panics_iff [OF lowering_ascii, of "str ''Fix it''" True "Some 30"] by simp
qed

text \<open>
  With the default length limit of 30, \<open>make\<close> panics on the commit message
  \<open>Update dependencies Cargo.lock now\<close>: the words that fit end in \<open>cargo.lock\<close>, which is not a valid
  name, and the \<open>expect\<close> on the result of \<open>try_from\<close> fails.
\<close>

theorem make_panics_on_lock:
  "make ascii_lower (str ''Update dependencies Cargo.lock now'') True (get_length_limit None) = Panic"
proof -
  have 1: "make_base (str ''Update dependencies Cargo.lock now'') = str ''Update dependencies Cargo.lock now''"
    by (simp add: make_base_def lines_def str_def trim_def trim_matches_def trim_end_matches_def
        trim_start_matches_def is_whitespace_def)
  have 2: "make_chars c_nul (str ''Update dependencies Cargo.lock now'') = str ''Update-dependencies-Cargo.lock-now''"
    by (simp add: str_def char_class_defs)
  have 3: "ascii_lower (str ''Update-dependencies-Cargo.lock-now'') = str ''update-dependencies-cargo.lock-now''"
    by code_simp
  have 4: "strip_loop (str ''update-dependencies-cargo.lock-now'') = str ''update-dependencies-cargo.lock-now''"
    by code_simp
  have 5: "shorten 30 (str ''update-dependencies-cargo.lock-now'') = str ''update-dependencies-cargo.lock''"
    by code_simp
  have 6: "try_from (str ''update-dependencies-cargo.lock'') =
      Err (InvalidPatchName (str ''update-dependencies-cargo.lock'') EndsWithLock)"
    by code_simp
  have 7: "str_len (str ''update-dependencies-cargo.lock-now'') = 34" "str ''update-dependencies-cargo.lock-now'' \<noteq> []"
    by code_simp+
  show ?thesis
    by (simp add: make_def make_candidate_def get_length_limit_def over_limit_def 1 2 3 4 5 6 7)
qed

text \<open>
  C38: A name made under a limit of at least five bytes is within the limit when each word of the
  candidate is.
\<close>

theorem make_within_limit:
  assumes "lowering to_lower" "0 < limit" "make to_lower raw lower (Some limit) = Ok p"
    "\<forall>w\<in>set (name_words (make_candidate to_lower raw lower)). str_len w \<le> limit"
    "5 \<le> limit"
  shows "pn_len p \<le> limit"
proof -
  let ?c = "make_candidate to_lower raw lower"
  have short: "str_len (shorten limit ?c) \<le> limit"
    using assms(4,5) add_words_len
    by (auto simp: shorten_def default_name_def str_def utf8_len_def split: list.split)
  show ?thesis
    using make_result(1) [OF assms(1), where raw = raw and lower = lower and limit = "Some limit"] assms(2,3) short
    by (auto simp: pn_len_def over_limit_def split: if_splits)
qed

theorem make_within_limit_witness:
  "pn_len (PatchName (str ''super'')) \<le> 8"
proof -
  have 1: "make_base (str ''super-longname'') = str ''super-longname''"
    by (simp add: make_base_def lines_def str_def trim_def trim_matches_def trim_end_matches_def
        trim_start_matches_def is_whitespace_def)
  have 2: "make_chars c_nul (str ''super-longname'') = str ''super-longname''" by (simp add: str_def char_class_defs)
  have 3: "strip_loop (str ''super-longname'') = str ''super-longname''" "str ''super-longname'' \<noteq> []"
    "str_len (str ''super-longname'') = 14" "shorten 8 (str ''super-longname'') = str ''super''"
    "try_from (str ''super'') = Ok (PatchName (str ''super''))"
    "name_words (str ''super-longname'') = [str ''super'', str ''longname'']"
    "str_len (str ''super'') = 5" "str_len (str ''longname'') = 8"
    by code_simp+
  have c: "make_candidate ascii_lower (str ''super-longname'') False = str ''super-longname''"
    by (simp add: make_candidate_def 1 2 3)
  have m: "make ascii_lower (str ''super-longname'') False (Some 8) = Ok (PatchName (str ''super''))"
    by (simp add: make_def over_limit_def c 3)
  show ?thesis
    by (rule make_within_limit [OF lowering_ascii _ m]) (simp_all add: c 3)
qed

lemma uniquify_ends:
  assumes "valid (pn_str p)" "trailing_number p + length disallow + 2 \<le> usize_max"
  shows "\<exists>q. uniquify chk allow disallow p = Some (Ok q) \<and> valid (pn_str q) \<and>
     (q \<in> set allow \<or> (\<forall>d\<in>set disallow. \<not> collides q d))"
proof (cases "usable allow disallow p")
  case True
  then have "uniquify chk allow disallow p = Some (Ok p)" by (simp add: uniquify.simps)
  with True assms(1) show ?thesis by (auto simp: usable_def list_ex_iff list_all_iff)
next
  case False
  obtain stem ds where p: "pn_str p = stem @ ds" "stem_ok stem" "list_all is_ascii_digit ds"
    "trailing_number p = dec_value ds" by (rule name_split)
  let ?stem = "stem @ (if ds = [] then [c_dash] else [])" and ?n = "if ds = [] then 1 else Suc (dec_value ds)"
  have "dec_value ds < usize_max" using assms(2) p(4) by linarith
  then have step: "uniquify chk allow disallow p = uniquify chk allow disallow (numbered ?stem ?n)"
    using False next_candidate_stem [OF p(1-3), of chk] by (subst uniquify.simps) simp
  have "stem_ok ?stem" using p(2) by (auto simp: stem_ok_def is_ascii_digit_def)
  moreover have "card (ahead ?stem ?n disallow) + ?n < usize_max"
    using card_ahead [of ?stem ?n disallow] assms(2) p(4) by (auto split: if_splits)
  ultimately obtain k where k: "uniquify chk allow disallow (numbered ?stem ?n) = Some (Ok (numbered ?stem k))"
    "usable allow disallow (numbered ?stem k)"
    using uniquify_numbered by blast
  have "valid (pn_str (numbered ?stem k))"
    using valid_numbered [of stem ds k] assms(1) p(1,3) by (simp add: numbered_def)
  then show ?thesis using k step by (auto simp: usable_def list_ex_iff list_all_iff)
qed

text \<open>
  C36: The search loop of \<open>uniquify\<close> ends, whether or not the build checks for overflow: from a valid
  name whose trailing number leaves room for one more than the names in use, it returns a valid
  name that is allowed or collides with none of them, case ignored.
\<close>

theorem uniquify_returns:
  assumes "valid (pn_str p)" "trailing_number p + length disallow + 2 \<le> usize_max"
  shows "\<exists>q. uniquify chk allow disallow p = Some (Ok q) \<and> valid (pn_str q) \<and>
     (q \<in> set allow \<or> (\<forall>d\<in>set disallow. \<not> collides q d))"
  by (rule uniquify_ends [OF assms])

theorem uniquify_returns_witness:
  "\<exists>q. uniquify True [] [PatchName (str ''p'')] (PatchName (str ''p'')) = Some (Ok q) \<and>
     valid (pn_str q) \<and> \<not> collides q (PatchName (str ''p''))"
proof -
  have "valid (pn_str (PatchName (str ''p'')))" "trailing_number (PatchName (str ''p'')) = 0"
    by (simp_all add: valid_def validate_def str_def peek_def char_class_defs forbidden_char_def
        ends_with_def dot_lock_def base_name_def at_name_def trailing_number_def
        trim_end_matches_def dec_value_def)
  then show ?thesis
    using uniquify_returns [of "PatchName (str ''p'')" "[PatchName (str ''p'')]" True "[]"] by simp
qed

end
