(* ===== verification/Repository.thy ===== *)
theory Repository
  imports Patch_Name
begin

text \<open>
  The repository a stack lives in: commits, references, and the boundary to git.

  The object database, the references and the values StGit reads from a commit are data of the
  model.  What git itself computes (object ids, applying and merging trees, checking out, writing
  the index) is not under \<open>src/\<close>: it is the parameter \<open>git\<close>, a record of functions over a temporary
  index \<open>'x\<close> and over the main index and work tree \<open>'w\<close>, both abstract.  The wrappers of
  \<open>src/ext/commit.rs\<close>, \<open>src/ext/repository.rs\<close> and \<open>src/stupid/context.rs\<close> around them are modelled.
\<close>

section \<open>Objects\<close>

type_synonym oid = nat
type_synonym git_error = rstring

record signature =
  sig_name :: rstring
  sig_email :: rstring
  sig_time :: int

text \<open>\<open>gix::Commit\<close>: an id and the decoded fields of the object.\<close>

record commit =
  c_id :: oid
  c_parents :: "oid list"
  c_tree :: oid
  c_author :: signature
  c_committer :: signature
  c_message :: rstring

text \<open>
  Trees are kept by what StGit reads of them: the \<open>patches\<close> tree of a stack state, the entries of the
  tree of a stack state, and the text of the blob \<open>meta\<close> of a state of version 4.  \<open>note_copies\<close> records the calls of \<open>notes_copy\<close>, whose failure the code ignores.
\<close>

datatype ref_target = Direct oid | Symbolic rstring

text \<open>
  \<open>gix::refs::transaction\<close>: edits of references, with the value a reference must have before the edit.
\<close>

datatype prev_value = PV_Any | PV_MustNotExist | PV_ExistingMustMatch ref_target | PV_MustExistAndMatch ref_target

datatype ref_change = RefUpdate prev_value ref_target | RefDelete prev_value

record ref_edit =
  re_name :: rstring
  re_change :: ref_change

record 'w repository =
  objects :: "oid \<rightharpoonup> commit"
  blobs :: "oid \<rightharpoonup> rstring"
  patch_trees :: "oid \<rightharpoonup> (rstring \<times> oid) list"
  state_trees :: "oid \<rightharpoonup> oid \<times> oid"
  meta_blobs :: "oid \<rightharpoonup> rstring"
  refs :: "(rstring, ref_target) btree_map"
  note_copies :: "(oid \<times> oid) list"
  work :: 'w

text \<open>
  The JSON document of a stack state, as the derived (de)serializers of \<open>serde\<close> read and write it.
\<close>

record json_state =
  js_version :: int
  js_prev :: "rstring option"
  js_head :: rstring
  js_applied :: "patch_name list"
  js_unapplied :: "patch_name list"
  js_hidden :: "patch_name list"
  js_patches :: "(patch_name, rstring) btree_map"

text \<open>
  The boundary to git, gitoxide and \<open>serde_json\<close>.  The \<open>g_write\<close> functions and the two functions for
  commit ids give the id of the written object, or an error; \<open>g_json\<close> and \<open>g_unjson\<close> print and parse
  the text of a JSON document, \<open>g_hex\<close> and \<open>g_unhex\<close> an object id.  \<open>g_edit_refs\<close> is the failure of a
  group of reference edits, with the number of edits that were written before it.
\<close>

record ('x, 'w) git =
  g_object_id :: "signature \<Rightarrow> signature \<Rightarrow> rstring \<Rightarrow> oid \<Rightarrow> oid list \<Rightarrow> git_error + oid"
  g_state_object_id :: "signature \<Rightarrow> signature \<Rightarrow> rstring \<Rightarrow> oid \<Rightarrow> oid list \<Rightarrow> git_error + oid"
  g_write_blob :: "rstring \<Rightarrow> git_error + oid"
  g_write_patches_tree :: "(rstring \<times> oid) list \<Rightarrow> git_error + oid"
  g_write_state_tree :: "oid \<Rightarrow> oid \<Rightarrow> git_error + oid"
  g_json :: "json_state \<Rightarrow> rstring"
  g_unjson :: "rstring \<Rightarrow> git_error + json_state"
  g_hex :: "oid \<Rightarrow> rstring"
  g_unhex :: "rstring \<Rightarrow> oid option"
  g_date :: "signature \<Rightarrow> rstring"
  g_author_strict :: "commit \<Rightarrow> git_error + signature"
  g_committer :: "git_error + signature"
  g_author :: "git_error + signature"
  g_edit_refs :: "ref_edit list \<Rightarrow> (nat \<times> git_error) option"
  g_allow_conflicts :: "bool option"
  g_autoimerge :: "bool option"
  x_new :: "git_error + 'x"
  x_read_tree :: "oid \<Rightarrow> 'x \<Rightarrow> git_error + 'x"
  x_apply :: "oid \<Rightarrow> oid \<Rightarrow> bool \<Rightarrow> 'x \<Rightarrow> (git_error + bool) \<times> 'x"
  x_write_tree :: "'x \<Rightarrow> git_error + oid"
  w_checkout :: "oid \<Rightarrow> oid \<Rightarrow> 'w \<Rightarrow> (git_error + unit) \<times> 'w"
  w_checkout_hard :: "oid \<Rightarrow> 'w \<Rightarrow> (git_error + unit) \<times> 'w"
  w_refresh :: "'w \<Rightarrow> (git_error + unit) \<times> 'w"
  w_merge :: "oid \<Rightarrow> oid \<Rightarrow> oid \<Rightarrow> 'w \<Rightarrow> (git_error + bool) \<times> 'w"
  w_mergetool :: "'w \<Rightarrow> (git_error + bool) \<times> 'w"
  w_write_tree :: "'w \<Rightarrow> git_error + oid"
  w_status :: "'w \<Rightarrow> git_error + nat list"

section \<open>Errors\<close>

text \<open>
  \<open>transaction::Error\<close>, and every other \<open>anyhow::Error\<close> by its message.  Only the first kind lets a
  transaction proceed.
\<close>

datatype trans_error =
  TransactionHalt (halt_msg: rstring) (halt_conflicts: bool)
| CheckoutConflicts rstring
| OtherError rstring

primrec of_sum :: "('a \<Rightarrow> 'e) \<Rightarrow> 'a + 'b \<Rightarrow> ('e, 'b) outcome" where
  "of_sum f (Inl a) = Err (f a)"
| "of_sum f (Inr b) = Ok b"

lemma of_sum_iff [simp]:
  "of_sum f x = Ok y \<longleftrightarrow> x = Inr y" "of_sum f x \<noteq> Panic"
  by (cases x; auto)+

section \<open>Wrappers around git\<close>

text \<open>
  \<open>CommitExtended::get_parent_commit\<close>.  Here and below an error message leaves out the object ids
  that it prints.
\<close>

definition get_parent_commit :: "'w repository \<Rightarrow> commit \<Rightarrow> (trans_error, commit) outcome" where
  "get_parent_commit repo c =
     (case c_parents c of
        [] \<Rightarrow> Err (OtherError (str ''commit does not have a parent''))
      | p # _ \<Rightarrow>
          (case objects repo p of
             Some pc \<Rightarrow> Ok pc
           | None \<Rightarrow> Err (OtherError (str ''object not found''))))"

text \<open>\<open>CommitExtended::is_no_change\<close>.\<close>

definition is_no_change :: "'w repository \<Rightarrow> commit \<Rightarrow> (trans_error, bool) outcome" where
  "is_no_change repo c =
     (case c_parents c of
        [p] \<Rightarrow>
          (case objects repo p of
             Some pc \<Rightarrow> Ok (c_tree pc = c_tree c)
           | None \<Rightarrow> Err (OtherError (str ''object not found'')))
      | _ \<Rightarrow> Ok False)"

definition find_commit :: "'w repository \<Rightarrow> oid \<Rightarrow> (trans_error, commit) outcome" where
  "find_commit repo i =
     (case objects repo i of
        Some c \<Rightarrow> Ok c
      | None \<Rightarrow> Err (OtherError (str ''object not found'')))"

text \<open>
  \<open>commit_with_options\<close> writes a commit object and returns its id; the parameter is the id that git or
  gitoxide gives the object under the options, or the error of a failed write or signature.
\<close>

definition commit_with_options ::
  "(signature \<Rightarrow> signature \<Rightarrow> rstring \<Rightarrow> oid \<Rightarrow> oid list \<Rightarrow> git_error + oid) \<Rightarrow>
     signature \<Rightarrow> signature \<Rightarrow> rstring \<Rightarrow> oid \<Rightarrow> oid list \<Rightarrow>
     'w repository \<Rightarrow> (trans_error, oid) outcome \<times> 'w repository" where
  "commit_with_options idf author committer message tree parents repo =
     (case idf author committer message tree parents of
        Inl e \<Rightarrow> (Err (OtherError e), repo)
      | Inr i \<Rightarrow>
          (Ok i,
           repo\<lparr>objects := (objects repo)(i \<mapsto>
             \<lparr>c_id = i, c_parents = parents, c_tree = tree, c_author = author,
              c_committer = committer, c_message = message\<rparr>)\<rparr>))"

definition commit_ex ::
  "('x, 'w) git \<Rightarrow> signature \<Rightarrow> signature \<Rightarrow> rstring \<Rightarrow> oid \<Rightarrow> oid list \<Rightarrow>
     'w repository \<Rightarrow> (trans_error, oid) outcome \<times> 'w repository" where
  "commit_ex g = commit_with_options (g_object_id g)"

section \<open>References\<close>

definition expected_ok :: "(rstring, ref_target) btree_map \<Rightarrow> ref_edit \<Rightarrow> bool" where
  "expected_ok rs e =
     (let pv = (case re_change e of RefUpdate pv _ \<Rightarrow> pv | RefDelete pv \<Rightarrow> pv);
          now = bt_get rs (re_name e)
      in case pv of
           PV_Any \<Rightarrow> True
         | PV_MustNotExist \<Rightarrow> now = None
         | PV_ExistingMustMatch old \<Rightarrow> now = None \<or> now = Some old
         | PV_MustExistAndMatch old \<Rightarrow> now = Some old)"

definition apply_edit ::
  "(rstring, ref_target) btree_map \<Rightarrow> ref_edit \<Rightarrow> (rstring, ref_target) btree_map" where
  "apply_edit rs e =
     (case re_change e of
        RefUpdate _ new \<Rightarrow> bt_insert rs (re_name e) new
      | RefDelete _ \<Rightarrow> bt_remove rs (re_name e))"

text \<open>
  \<open>Repository::edit_references\<close>: the expected values of all edits are tested before the first one is
  written.
\<close>

definition edit_references ::
  "('x, 'w) git \<Rightarrow> ref_edit list \<Rightarrow> 'w repository \<Rightarrow> (trans_error, unit) outcome \<times> 'w repository" where
  "edit_references g edits repo =
     (if \<not> (distinct (map re_name edits) \<and> list_all (expected_ok (refs repo)) edits) then
        (Err (OtherError (str ''reference has an unexpected value'')), repo)
      else
        (case g_edit_refs g edits of
           None \<Rightarrow> (Ok (), repo\<lparr>refs := foldl apply_edit (refs repo) edits\<rparr>)
         | Some (k, e) \<Rightarrow> (Err (OtherError e), repo\<lparr>refs := foldl apply_edit (refs repo) (take k edits)\<rparr>)))"

text \<open>
  Symbolic references are followed at most four times, as gitoxide does; the result is the name of
  the reference at the end and its object.
\<close>

primrec follow :: "nat \<Rightarrow> (rstring, ref_target) btree_map \<Rightarrow> rstring \<Rightarrow> (rstring \<times> oid) option" where
  "follow 0 rs name = None"
| "follow (Suc n) rs name =
     (case bt_get rs name of
        Some (Direct i) \<Rightarrow> Some (name, i)
      | Some (Symbolic target) \<Rightarrow> follow n rs target
      | None \<Rightarrow> None)"

abbreviation (input) max_follow :: nat where "max_follow \<equiv> 5"

text \<open>\<open>repo.find_reference(name)?.peel_to_commit()?\<close>.\<close>

definition peel_reference :: "'w repository \<Rightarrow> rstring \<Rightarrow> (trans_error, commit) outcome" where
  "peel_reference repo name =
     (case follow max_follow (refs repo) name of
        None \<Rightarrow> Err (OtherError (str ''reference not found''))
      | Some (_, i) \<Rightarrow> find_commit repo i)"

text \<open>\<open>Reference::delete\<close>: the reference must still have the value it was found with.\<close>

definition delete_reference ::
  "('x, 'w) git \<Rightarrow> rstring \<Rightarrow> ref_target \<Rightarrow> 'w repository \<Rightarrow> (trans_error, unit) outcome \<times> 'w repository" where
  "delete_reference g name target =
     edit_references g [\<lparr>re_name = name, re_change = RefDelete (PV_MustExistAndMatch target)\<rparr>]"

section \<open>Notes, indexes and merges\<close>

text \<open>\<open>StupidContext::notes_copy\<close>, called as \<open>notes_copy(..).ok()\<close>.\<close>

definition notes_copy :: "oid \<Rightarrow> oid \<Rightarrow> 'w repository \<Rightarrow> 'w repository" where
  "notes_copy old new repo = repo\<lparr>note_copies := note_copies repo @ [(old, new)]\<rparr>"

text \<open>\<open>StupidContext::apply_treediff_to_index\<close>: equal trees need no call to git.\<close>

definition apply_treediff_to_index ::
  "('x, 'w) git \<Rightarrow> oid \<Rightarrow> oid \<Rightarrow> bool \<Rightarrow> 'x \<Rightarrow> (git_error + bool) \<times> 'x" where
  "apply_treediff_to_index g tree1 tree2 want_3way x =
     (if tree1 = tree2 then (Inr True, x) else x_apply g tree1 tree2 want_3way x)"

text \<open>\<open>StupidContext::merge_recursive_or_mergetool\<close>.\<close>

definition merge_recursive_or_mergetool ::
  "('x, 'w) git \<Rightarrow> oid \<Rightarrow> oid \<Rightarrow> oid \<Rightarrow> bool \<Rightarrow> 'w \<Rightarrow> (git_error + bool) \<times> 'w" where
  "merge_recursive_or_mergetool g base ours theirs use_mergetool w =
     (case w_merge g base ours theirs w of
        (Inl e, w') \<Rightarrow> (Inl e, w')
      | (Inr True, w') \<Rightarrow> (Inr True, w')
      | (Inr False, w') \<Rightarrow> if use_mergetool then w_mergetool g w' else (Inr False, w'))"

section \<open>Lemmas\<close>

lemma edit_references_cases:
  assumes "edit_references g es repo = (r, repo')"
  obtains (done_all) "r = Ok ()" "repo' = repo\<lparr>refs := foldl apply_edit (refs repo) es\<rparr>"
  | (failed) e k where "r = Err (OtherError e)" "repo' = repo\<lparr>refs := foldl apply_edit (refs repo) (take k es)\<rparr>"
proof (cases "distinct (map re_name es) \<and> list_all (expected_ok (refs repo)) es")
  case False
  then show ?thesis
    by (intro failed [of _ 0]) (use assms in \<open>auto simp: edit_references_def\<close>)
next
  case True
  then show ?thesis
    using assms done_all failed
    by (cases "g_edit_refs g es") (auto simp: edit_references_def)
qed

text \<open>The value of a reference after a group of edits.\<close>

definition edit_value :: "ref_edit \<Rightarrow> ref_target option" where
  "edit_value e = (case re_change e of RefUpdate _ new \<Rightarrow> Some new | RefDelete _ \<Rightarrow> None)"

lemma apply_edit_upd: "apply_edit rs e = bt_upd rs (re_name e, edit_value e)"
  by (simp add: apply_edit_def edit_value_def split: ref_change.split)

lemma foldl_apply_edit: "foldl apply_edit rs es = foldl bt_upd rs (map (\<lambda>e. (re_name e, edit_value e)) es)"
  by (induction es arbitrary: rs) (simp_all add: apply_edit_upd)

lemma get_edits_notin: "n \<notin> re_name ` set es \<Longrightarrow> bt_get (foldl apply_edit rs es) n = bt_get rs n"
  unfolding foldl_apply_edit by (rule bt.get_updates_notin) auto

lemma get_edits_in:
  assumes "distinct (map re_name es)" "e \<in> set es"
  shows "bt_get (foldl apply_edit rs es) (re_name e) = edit_value e"
  using assms by (induction es arbitrary: rs) (auto simp: get_edits_notin apply_edit_upd split: option.split)

lemma get_parent_commit_no_panic [simp]: "get_parent_commit repo c \<noteq> Panic"
  by (simp add: get_parent_commit_def split: list.split option.split)

lemma is_no_change_no_panic [simp]: "is_no_change repo c \<noteq> Panic"
  by (simp add: is_no_change_def split: list.split option.split)

lemma find_commit_iff [simp]: "find_commit repo i = Ok c \<longleftrightarrow> objects repo i = Some c"
  by (simp add: find_commit_def split: option.split)

lemma find_commit_no_panic [simp]: "find_commit repo i \<noteq> Panic"
  by (simp add: find_commit_def split: option.split)

text \<open>
  An object database that only maps an id to the commit with this id.  \<open>commit_ex\<close> keeps it so.
\<close>

definition odb_ok :: "'w repository \<Rightarrow> bool" where
  "odb_ok repo \<longleftrightarrow> (\<forall>i c. objects repo i = Some c \<longrightarrow> c_id c = i)"

lemma odb_okD: "odb_ok repo \<Longrightarrow> objects repo i = Some c \<Longrightarrow> c_id c = i"
  by (simp add: odb_ok_def)

lemma odb_ok_cong [simp]:
  "odb_ok (repo\<lparr>work := w\<rparr>) = odb_ok repo" "odb_ok (repo\<lparr>refs := r\<rparr>) = odb_ok repo"
  "odb_ok (notes_copy a b repo) = odb_ok repo"
  by (simp_all add: odb_ok_def notes_copy_def)

lemma notes_copy_sel [simp]:
  "objects (notes_copy a b repo) = objects repo" "refs (notes_copy a b repo) = refs repo"
  "work (notes_copy a b repo) = work repo"
  by (simp_all add: notes_copy_def)

lemma get_parent_commit_OkD:
  assumes "get_parent_commit repo c = Ok p"
  shows "c_parents c \<noteq> []" and "objects repo (hd (c_parents c)) = Some p"
  using assms by (auto simp: get_parent_commit_def split: list.splits option.splits)

lemma commit_with_options_cases:
  assumes "commit_with_options idf a c m t ps repo = (r, repo')"
  obtains (written) i where "r = Ok i" "idf a c m t ps = Inr i"
      "repo' = repo\<lparr>objects := (objects repo)(i \<mapsto>
         \<lparr>c_id = i, c_parents = ps, c_tree = t, c_author = a, c_committer = c, c_message = m\<rparr>)\<rparr>"
      "odb_ok repo \<Longrightarrow> odb_ok repo'"
  | (failed) e where "r = Err (OtherError e)" "repo' = repo"
proof (cases "idf a c m t ps")
  case (Inl e)
  show ?thesis
    by (rule failed [of e]) (use assms Inl in \<open>auto simp: commit_with_options_def\<close>)
next
  case (Inr i)
  show ?thesis
    by (rule written [of i]) (use assms Inr in \<open>auto simp: commit_with_options_def odb_ok_def split: if_splits\<close>)
qed

lemma commit_ex_cases:
  assumes "commit_ex g a c m t ps repo = (r, repo')"
  obtains (written) i where "r = Ok i"
      "objects repo' i = Some \<lparr>c_id = i, c_parents = ps, c_tree = t, c_author = a, c_committer = c, c_message = m\<rparr>"
      "odb_ok repo \<Longrightarrow> odb_ok repo'"
  | (failed) e where "r = Err (OtherError e)" "repo' = repo"
  using assms unfolding commit_ex_def
  by (cases rule: commit_with_options_cases) (auto intro: that)

end
