(* ===== verification/Stack_State.thy ===== *)
theory Stack_State
  imports Repository
begin

text \<open>
  Stack state and uniform access to it: \<open>src/stack/state.rs\<close> (the data and the accessors),
  \<open>src/stack/access.rs\<close>, \<open>src/stack/iter.rs\<close> and the \<open>Stack\<close> record of \<open>src/stack/stack.rs\<close>.

  The trait \<open>StackStateAccess\<close> has three implementors (\<open>StackState\<close>, \<open>Stack\<close>, \<open>StackTransaction\<close>).  Each
  provides its required methods as a \<open>stack_view\<close>; the trait's default methods are functions of the
  view.  The locale \<open>stack_access\<close> is the contract between an implementor and the code that resolves
  patch names: its interpretations are in the theories of the implementors.
\<close>

section \<open>State\<close>

record patch_state =
  ps_commit :: commit

record stack_state =
  st_prev :: "commit option"
  st_head :: commit
  st_applied :: "patch_name list"
  st_unapplied :: "patch_name list"
  st_hidden :: "patch_name list"
  st_patches :: "(patch_name, patch_state) btree_map"

record stack =
  sk_branch_name :: rstring
  sk_branch_refname :: rstring
  sk_branch_head :: commit
  sk_stack_refname :: rstring
  sk_base :: commit
  sk_state :: stack_state
  sk_is_initialized :: bool

definition new_state :: "commit \<Rightarrow> stack_state" where
  "new_state head =
     \<lparr>st_prev = None, st_head = head, st_applied = [], st_unapplied = [], st_hidden = [],
      st_patches = []\<rparr>"

definition advance_head :: "stack_state \<Rightarrow> commit \<Rightarrow> commit \<Rightarrow> stack_state" where
  "advance_head st new_head prev_state = st\<lparr>st_prev := Some prev_state, st_head := new_head\<rparr>"

text \<open>Indexing \<open>self.patches[patchname]\<close> panics on an unknown name.\<close>

definition st_top :: "stack_state \<Rightarrow> ('e, commit) outcome" where
  "st_top st =
     (if st_applied st = [] then Ok (st_head st)
      else obind (expect (bt_get (st_patches st) (last (st_applied st)))) (\<lambda>p. Ok (ps_commit p)))"

section \<open>Access\<close>

record stack_view =
  v_applied :: "patch_name list"
  v_unapplied :: "patch_name list"
  v_hidden :: "patch_name list"
  v_get :: "patch_name \<Rightarrow> patch_state option"

definition state_view :: "stack_state \<Rightarrow> stack_view" where
  "state_view st =
     \<lparr>v_applied = st_applied st, v_unapplied = st_unapplied st, v_hidden = st_hidden st,
      v_get = bt_get (st_patches st)\<rparr>"

abbreviation stack_view_of :: "stack \<Rightarrow> stack_view" where
  "stack_view_of sk \<equiv> state_view (sk_state sk)"

definition all_patches :: "stack_view \<Rightarrow> patch_name list" where
  "all_patches v = v_applied v @ v_unapplied v @ v_hidden v"

definition applied_and_unapplied :: "stack_view \<Rightarrow> patch_name list" where
  "applied_and_unapplied v = v_applied v @ v_unapplied v"

definition has_patch :: "stack_view \<Rightarrow> patch_name \<Rightarrow> bool" where
  "has_patch v pn \<longleftrightarrow> v_get v pn \<noteq> None"

definition get_patch_commit :: "stack_view \<Rightarrow> patch_name \<Rightarrow> ('e, commit) outcome" where
  "get_patch_commit v pn = obind (expect (v_get v pn)) (\<lambda>p. Ok (ps_commit p))"

text \<open>\<open>StackStateAccess::collides\<close>.\<close>

definition stack_collides :: "stack_view \<Rightarrow> patch_name \<Rightarrow> patch_name option" where
  "stack_collides v pn = find (\<lambda>q. collides pn q) (all_patches v)"

definition is_applied :: "stack_view \<Rightarrow> patch_name \<Rightarrow> bool" where
  "is_applied v pn \<longleftrightarrow> pn \<in> set (v_applied v)"

definition is_unapplied :: "stack_view \<Rightarrow> patch_name \<Rightarrow> bool" where
  "is_unapplied v pn \<longleftrightarrow> pn \<in> set (v_unapplied v)"

definition is_hidden :: "stack_view \<Rightarrow> patch_name \<Rightarrow> bool" where
  "is_hidden v pn \<longleftrightarrow> pn \<in> set (v_hidden v)"

definition index_of :: "stack_view \<Rightarrow> patch_name \<Rightarrow> ('e, nat) outcome" where
  "index_of v pn = expect (position (\<lambda>q. q = pn) (all_patches v))"

text \<open>
  \<open>distance_from\<close>: the iterator that found the first of the two patches goes on to look for the
  other, and a position found in the rest is relative to the start of the stack.
\<close>

definition find_from :: "nat \<Rightarrow> patch_name \<Rightarrow> patch_name list \<Rightarrow> nat option" where
  "find_from i pn ps = map_option (\<lambda>k. i + k) (position (\<lambda>q. q = pn) (drop i ps))"

definition distance_from ::
  "stack_view \<Rightarrow> patch_name \<Rightarrow> patch_name option \<Rightarrow> ('e, int) outcome" where
  "distance_from v pn ref =
     (if Some pn = ref then Ok 0
      else
        let ps = all_patches v in
        obind (expect (position (\<lambda>q. q = pn \<or> Some q = ref) ps)) (\<lambda>index0.
          if ps ! index0 = pn then
            (case ref of
               Some r \<Rightarrow> obind (expect (find_from (Suc index0) r ps)) (\<lambda>index1. Ok (- (int index1 - int index0)))
             | None \<Rightarrow> Ok (int index0 + 1))
          else obind (expect (find_from (Suc index0) pn ps)) (\<lambda>index1. Ok (int index1 - int index0))))"

definition location_group_of :: "stack_view \<Rightarrow> patch_name \<Rightarrow> ('e, location_group) outcome" where
  "location_group_of v pn =
     (if pn \<in> set (v_applied v) then Ok LG_Applied
      else if pn \<in> set (v_unapplied v) then Ok LG_Unapplied
      else if pn \<in> set (v_hidden v) then Ok LG_Hidden
      else Panic)"

primrec get_allowed :: "stack_view \<Rightarrow> location_constraint \<Rightarrow> patch_name list" where
  "get_allowed v LC_All = all_patches v"
| "get_allowed v LC_Visible = applied_and_unapplied v"
| "get_allowed v LC_Applied = v_applied v"
| "get_allowed v LC_Unapplied = v_unapplied v"
| "get_allowed v LC_Hidden = v_hidden v"

text \<open>\<open>PatchName::constrain\<close>.\<close>

definition constrain ::
  "stack_view \<Rightarrow> location_constraint \<Rightarrow> patch_name \<Rightarrow> (name_error, patch_name) outcome" where
  "constrain v c pn = obind (location_group_of v pn) (\<lambda>g. constrain_group c g pn)"

section \<open>Well-formed views\<close>

text \<open>
  Each patch is in exactly one of the three lists, once, and the patches with a state are the
  patches in the lists.
\<close>

definition view_ok :: "stack_view \<Rightarrow> bool" where
  "view_ok v \<longleftrightarrow> distinct (all_patches v) \<and> (\<forall>pn. has_patch v pn \<longleftrightarrow> pn \<in> set (all_patches v))"

definition state_ok :: "stack_state \<Rightarrow> bool" where
  "state_ok st \<longleftrightarrow> view_ok (state_view st) \<and> bt_ok (st_patches st)"

definition stack_ok :: "stack \<Rightarrow> bool" where
  "stack_ok sk \<longleftrightarrow> state_ok (sk_state sk)"

lemma view_ok_distinct: "view_ok v \<Longrightarrow> distinct (all_patches v)"
  and view_ok_has: "view_ok v \<Longrightarrow> has_patch v pn \<longleftrightarrow> pn \<in> set (all_patches v)"
  by (auto simp: view_ok_def)

lemma set_all_patches:
  "set (all_patches v) = set (v_applied v) \<union> set (v_unapplied v) \<union> set (v_hidden v)"
  by (auto simp: all_patches_def)

text \<open>The contract of the trait, and what its default methods give to a client.\<close>

locale stack_access =
  fixes view :: "'s \<Rightarrow> stack_view"
    and ok :: "'s \<Rightarrow> bool"
  assumes ok_view: "ok s \<Longrightarrow> view_ok (view s)"
begin

lemma get_patch_commit_known:
  assumes "ok s" "pn \<in> set (all_patches (view s))"
  shows "\<exists>c. get_patch_commit (view s) pn = Ok c"
proof -
  have "has_patch (view s) pn" using assms view_ok_has [OF ok_view] by simp
  then show ?thesis by (auto simp: has_patch_def get_patch_commit_def)
qed

lemma index_of_nth:
  assumes "ok s" "i < length (all_patches (view s))"
  shows "index_of (view s) (all_patches (view s) ! i) = Ok i"
  using position_eq_nth [OF view_ok_distinct [OF ok_view [OF assms(1)]] assms(2)]
  by (simp add: index_of_def)

lemma location_group_known:
  assumes "ok s" "pn \<in> set (all_patches (view s))"
  shows "\<exists>g. location_group_of (view s) pn = Ok g"
  using assms by (auto simp: location_group_of_def set_all_patches)

text \<open>A constraint lets through exactly the patches of the lists it names.\<close>

lemma constrain_iff:
  assumes "ok s" "pn \<in> set (all_patches (view s))"
  shows "constrain (view s) c pn = Ok q \<longleftrightarrow> q = pn \<and> pn \<in> set (get_allowed (view s) c)"
    and "constrain (view s) c pn \<noteq> Panic"
proof -
  have d: "distinct (all_patches (view s))" by (rule view_ok_distinct [OF ok_view [OF assms(1)]])
  show "constrain (view s) c pn = Ok q \<longleftrightarrow> q = pn \<and> pn \<in> set (get_allowed (view s) c)"
    using assms(2) d
    by (cases c) (auto simp: constrain_def location_group_of_def all_patches_def applied_and_unapplied_def)
  show "constrain (view s) c pn \<noteq> Panic"
    using assms(2) by (cases c) (auto simp: constrain_def location_group_of_def all_patches_def)
qed

lemma get_allowed_subset: "set (get_allowed (view s) c) \<subseteq> set (all_patches (view s))"
  by (cases c) (auto simp: all_patches_def applied_and_unapplied_def)

lemma get_allowed_distinct: "ok s \<Longrightarrow> distinct (get_allowed (view s) c)"
  using view_ok_distinct [OF ok_view [of s]]
  by (cases c) (auto simp: all_patches_def applied_and_unapplied_def)

end

interpretation view_acc: stack_access "\<lambda>v. v" view_ok
  by unfold_locales

interpretation state_acc: stack_access state_view state_ok
  by unfold_locales (simp add: state_ok_def)

interpretation stack_acc: stack_access stack_view_of stack_ok
  by unfold_locales (simp add: stack_ok_def state_ok_def)

lemma new_state_ok: "state_ok (new_state head)"
  by (simp add: state_ok_def view_ok_def new_state_def state_view_def all_patches_def has_patch_def)

lemma advance_head_ok: "state_ok st \<Longrightarrow> state_ok (advance_head st h p)"
  by (simp add: state_ok_def advance_head_def state_view_def)

end
