(* ===== verification/Trans_Ui.thy ===== *)
theory Trans_Ui
  imports Stack_State
begin

text \<open>
  The user interface of a transaction, \<open>src/stack/transaction/ui.rs\<close>.

  A \<open>TransactionUserInterface\<close> is the text written so far and the flag that a topmost patch was
  announced.  Colours are left out, and writing to the stream succeeds.
\<close>

datatype push_status = PS_New | PS_AlreadyMerged | PS_Conflict | PS_Empty | PS_Modified | PS_Unmodified

record ui =
  ui_out :: rstring
  ui_printed_top :: bool

definition ui_new :: ui where
  "ui_new = \<lparr>ui_out = [], ui_printed_top = False\<rparr>"

definition ui_write :: "rstring \<Rightarrow> ui \<Rightarrow> ui" where
  "ui_write s u = u\<lparr>ui_out := ui_out u @ s\<rparr>"

definition writeln :: "rstring \<Rightarrow> ui \<Rightarrow> ui" where
  "writeln s u = ui_write (s @ [c_newline]) u"

text \<open>The range \<open>first..last\<close> of a non-empty list of names, or its single name.\<close>

definition name_range :: "patch_name list \<Rightarrow> rstring" where
  "name_range ps =
     pn_str (hd ps) @ (if length ps > 1 then str ''..'' @ pn_str (ps ! (length ps - 1)) else [])"

definition print_merged :: "patch_name list \<Rightarrow> ui \<Rightarrow> ui" where
  "print_merged merged =
     writeln (str ''Found '' @ show_nat (length merged) @ str '' patch''
              @ (if length merged = 1 then [] else str ''es'') @ str '' merged upstream'')"

definition print_rename :: "patch_name \<Rightarrow> patch_name \<Rightarrow> ui \<Rightarrow> ui" where
  "print_rename old new = writeln (pn_str old @ str '' => '' @ pn_str new)"

text \<open>\<open>print_committed\<close> indexes \<open>committed[0]\<close> without a test.\<close>

definition print_committed :: "patch_name list \<Rightarrow> ui \<Rightarrow> ('e, ui) outcome" where
  "print_committed committed u =
     (if committed = [] then Panic else Ok (writeln (str ''$ '' @ name_range committed) u))"

definition print_uncommitted :: "patch_name list \<Rightarrow> ui \<Rightarrow> ui" where
  "print_uncommitted uncommitted u =
     (if uncommitted \<noteq> [] then
        (if length uncommitted = 1 then writeln (str ''+ '' @ pn_str (hd uncommitted)) u
         else writeln (str ''+ '' @ pn_str (hd uncommitted) @ str ''..'' @ pn_str (last uncommitted)) u)
      else u)"

definition print_deleted :: "patch_name list \<Rightarrow> ui \<Rightarrow> ui" where
  "print_deleted deleted u =
     (if deleted \<noteq> [] then writeln (str ''# '' @ name_range deleted) u else u)"

definition print_hidden :: "patch_name list \<Rightarrow> ui \<Rightarrow> ui" where
  "print_hidden hidden u = foldl (\<lambda>u pn. writeln (str ''! '' @ pn_str pn) u) u hidden"

definition print_unhidden :: "patch_name list \<Rightarrow> ui \<Rightarrow> ui" where
  "print_unhidden unhidden u = foldl (\<lambda>u pn. writeln (str ''- '' @ pn_str pn) u) u unhidden"

definition print_popped :: "patch_name list \<Rightarrow> ui \<Rightarrow> ui" where
  "print_popped popped u =
     (if popped \<noteq> [] then writeln (str ''- '' @ name_range popped) u else u)"

primrec status_str :: "push_status \<Rightarrow> rstring" where
  "status_str PS_New = str ''(new)''"
| "status_str PS_AlreadyMerged = str ''(merged)''"
| "status_str PS_Conflict = str ''(conflict)''"
| "status_str PS_Empty = str ''(empty)''"
| "status_str PS_Modified = str ''(modified)''"
| "status_str PS_Unmodified = []"

definition print_pushed :: "patch_name \<Rightarrow> push_status \<Rightarrow> bool \<Rightarrow> ui \<Rightarrow> ui" where
  "print_pushed pn status is_last u =
     (let u1 = ui_write ((if is_last then str ''> '' else str ''+ '') @ pn_str pn) u;
          u2 = (if status_str status = [] then writeln [] u1
                else writeln (str '' '' @ status_str status) u1)
      in if is_last then u2\<lparr>ui_printed_top := True\<rparr> else u2)"

definition print_top :: "patch_name \<Rightarrow> ui \<Rightarrow> ui" where
  "print_top pn = writeln (str ''> '' @ pn_str pn)"

definition print_rolled_back :: "patch_name option \<Rightarrow> ui \<Rightarrow> ui" where
  "print_rolled_back pn =
     writeln (str ''@ '' @ (case pn of Some p \<Rightarrow> pn_str p | None \<Rightarrow> str ''{base}'')
              @ str '' (rolled back)'')"

text \<open>The position of the patch among the applied ones only selects a colour.\<close>

definition print_updated :: "patch_name \<Rightarrow> patch_name list \<Rightarrow> ui \<Rightarrow> ui" where
  "print_updated pn applied = writeln (str ''& '' @ pn_str pn)"

lemma print_committed_iff [simp]:
  "print_committed ps u = Panic \<longleftrightarrow> ps = []" "print_committed ps u \<noteq> Err e"
  by (simp_all add: print_committed_def)

end
