(* ===== verification/Transaction.thy ===== *)
theory Transaction
  imports Trans_Ui
begin

text \<open>
  Stack transactions: \<open>src/stack/transaction/mod.rs\<close> (the methods of \<open>StackTransaction\<close>) and
  \<open>options.rs\<close>.

  A transaction records the new order of the patches and the changed patches; the stack it started
  from stays as it was until \<open>execute\<close> (theory \<open>Execute\<close>).  The repository is part of the record
  because the methods write commits to it and push conflicts to the work tree.  A method
  is a function of type \<open>sm\<close>: the transaction survives an error, since a transaction that
  halts is still executed.
\<close>

section \<open>Data\<close>

datatype conflict_mode = CM_Disallow | CM_Allow | CM_AllowIfSameTop

record trans_options =
  o_conflict_mode :: conflict_mode
  o_allow_push_conflicts :: "bool option"
  o_discard_changes :: bool
  o_use_index_and_worktree :: bool
  o_set_head :: bool
  o_allow_bad_head :: bool
  o_committer_date_is_author_date :: bool

definition default_options :: trans_options where
  "default_options =
     \<lparr>o_conflict_mode = CM_Disallow, o_allow_push_conflicts = None, o_discard_changes = False,
      o_use_index_and_worktree = False, o_set_head = True, o_allow_bad_head = False,
      o_committer_date_is_author_date = False\<rparr>"

record 'w transaction =
  tr_stack :: stack
  tr_ui :: ui
  tr_options :: trans_options
  tr_applied :: "patch_name list"
  tr_unapplied :: "patch_name list"
  tr_hidden :: "patch_name list"
  tr_updated_patches :: "(patch_name, patch_state option) btree_map"
  tr_updated_head :: "commit option"
  tr_updated_base :: "commit option"
  tr_current_tree_id :: oid
  tr_error :: "trans_error option"
  tr_repo :: "'w repository"

type_synonym ('w, 'a) tm = "('w transaction, trans_error, 'a) sm"

section \<open>Access\<close>

text \<open>
  \<open>get_patch\<close> and \<open>has_patch\<close>: an entry of \<open>updated_patches\<close> comes before the original stack; a
  deleted patch (\<open>Some None\<close>) and an unknown one are both absent.
\<close>

definition trans_get :: "'w transaction \<Rightarrow> patch_name \<Rightarrow> patch_state option" where
  "trans_get t pn =
     (case bt_get (tr_updated_patches t) pn of
        Some maybe_patch \<Rightarrow> maybe_patch
      | None \<Rightarrow> bt_get (st_patches (sk_state (tr_stack t))) pn)"

definition trans_view :: "'w transaction \<Rightarrow> stack_view" where
  "trans_view t =
     \<lparr>v_applied = tr_applied t, v_unapplied = tr_unapplied t, v_hidden = tr_hidden t,
      v_get = trans_get t\<rparr>"

definition t_base :: "'w transaction \<Rightarrow> commit" where
  "t_base t = (case tr_updated_base t of Some c \<Rightarrow> c | None \<Rightarrow> sk_base (tr_stack t))"

definition t_top :: "'w transaction \<Rightarrow> (trans_error, commit) outcome" where
  "t_top t =
     (if tr_applied t = [] then Ok (t_base t)
      else get_patch_commit (trans_view t) (last (tr_applied t)))"

definition t_head :: "'w transaction \<Rightarrow> (trans_error, commit) outcome" where
  "t_head t = (case tr_updated_head t of Some c \<Rightarrow> Ok c | None \<Rightarrow> t_top t)"

section \<open>Building blocks\<close>

definition print :: "(ui \<Rightarrow> ui) \<Rightarrow> ('w, unit) tm" where
  "print f = modify (\<lambda>t. t\<lparr>tr_ui := f (tr_ui t)\<rparr>)"

definition set_patch :: "patch_name \<Rightarrow> patch_state option \<Rightarrow> ('w, unit) tm" where
  "set_patch pn p = modify (\<lambda>t. t\<lparr>tr_updated_patches := bt_insert (tr_updated_patches t) pn p\<rparr>)"

definition on_repo ::
  "('w repository \<Rightarrow> (trans_error, 'a) outcome \<times> 'w repository) \<Rightarrow> ('w, 'a) tm" where
  "on_repo f t = (case f (tr_repo t) of (r, repo) \<Rightarrow> (r, t\<lparr>tr_repo := repo\<rparr>))"

definition patch_commit_of :: "patch_name \<Rightarrow> ('w, commit) tm" where
  "patch_commit_of pn = pure (\<lambda>t. get_patch_commit (trans_view t) pn)"

definition parent_of :: "commit \<Rightarrow> ('w, commit) tm" where
  "parent_of c = pure (\<lambda>t. get_parent_commit (tr_repo t) c)"

definition commit_of_id :: "oid \<Rightarrow> ('w, commit) tm" where
  "commit_of_id i = pure (\<lambda>t. find_commit (tr_repo t) i)"

text \<open>The committer of a rewritten patch, with the date of its author when the option asks so.\<close>

definition dated_committer :: "trans_options \<Rightarrow> signature \<Rightarrow> signature \<Rightarrow> signature" where
  "dated_committer opts author default_committer =
     (if o_committer_date_is_author_date opts then default_committer\<lparr>sig_time := sig_time author\<rparr>
      else default_committer)"

section \<open>Changing patches\<close>

definition update_patch :: "patch_name \<Rightarrow> oid \<Rightarrow> ('w, unit) tm" where
  "update_patch pn commit_id =
     sbind (commit_of_id commit_id) (\<lambda>commit.
     sbind (patch_commit_of pn) (\<lambda>old_commit.
     sthen (modify (\<lambda>t. t\<lparr>tr_repo := notes_copy (c_id old_commit) commit_id (tr_repo t)\<rparr>))
    (sthen (set_patch pn (Some \<lparr>ps_commit = commit\<rparr>))
    (sbind (gets tr_applied) (\<lambda>applied. print (print_updated pn applied))))))"

text \<open>\<open>parent_ids().next().unwrap()\<close> panics on a commit without parents.\<close>

definition new_applied :: "patch_name \<Rightarrow> oid \<Rightarrow> ('w, unit) tm" where
  "new_applied pn i =
     sbind (commit_of_id i) (\<lambda>commit.
     sbind (pure t_top) (\<lambda>top.
     sthen (sassert (c_parents commit \<noteq> [] \<and> hd (c_parents commit) = c_id top))
    (sthen (modify (\<lambda>t. t\<lparr>tr_applied := tr_applied t @ [pn]\<rparr>))
    (sthen (set_patch pn (Some \<lparr>ps_commit = commit\<rparr>))
           (print (print_pushed pn PS_New True))))))"

text \<open>\<open>Vec::insert\<close> panics when the position is past the end.\<close>

definition new_unapplied :: "patch_name \<Rightarrow> oid \<Rightarrow> nat \<Rightarrow> ('w, unit) tm" where
  "new_unapplied pn commit_id insert_pos =
     sbind (commit_of_id commit_id) (\<lambda>commit.
     sbind (gets tr_unapplied) (\<lambda>un.
     sthen (sassert (insert_pos \<le> length un))
    (sthen (modify (\<lambda>t. t\<lparr>tr_unapplied := take insert_pos un @ pn # drop insert_pos un\<rparr>))
    (sthen (set_patch pn (Some \<lparr>ps_commit = commit\<rparr>))
           (print (print_popped [pn]))))))"

text \<open>
  The tail of \<open>push_tree\<close> and \<open>push_patch\<close>: the patch leaves the unapplied or the hidden list, or
  neither, and becomes the topmost applied one.
\<close>

definition take_out :: "patch_name \<Rightarrow> 'w transaction \<Rightarrow> 'w transaction" where
  "take_out pn t =
     (case position (\<lambda>q. q = pn) (tr_unapplied t) of
        Some pos \<Rightarrow> t\<lparr>tr_unapplied := remove_at pos (tr_unapplied t)\<rparr>
      | None \<Rightarrow>
          (case position (\<lambda>q. q = pn) (tr_hidden t) of
             Some pos \<Rightarrow> t\<lparr>tr_hidden := remove_at pos (tr_hidden t)\<rparr>
           | None \<Rightarrow> t))"

definition make_applied :: "patch_name \<Rightarrow> ('w, unit) tm" where
  "make_applied pn = modify (\<lambda>t. (take_out pn t)\<lparr>tr_applied := tr_applied t @ [pn]\<rparr>)"

definition recommit ::
  "('x, 'w) git \<Rightarrow> commit \<Rightarrow> signature \<Rightarrow> signature \<Rightarrow> oid \<Rightarrow> oid \<Rightarrow> ('w, commit) tm" where
  "recommit g patch_commit author default_committer tree parent =
     sbind (gets tr_options) (\<lambda>opts.
     sbind (on_repo (commit_ex g author (dated_committer opts author default_committer)
              (c_message patch_commit) tree [parent])) (\<lambda>i.
     sbind (commit_of_id i) (\<lambda>commit.
     sthen (modify (\<lambda>t. t\<lparr>tr_repo := notes_copy (c_id patch_commit) i (tr_repo t)\<rparr>))
           (ret commit))))"

definition author_of :: "('x, 'w) git \<Rightarrow> commit \<Rightarrow> ('w, signature) tm" where
  "author_of g c = pure (\<lambda>_. of_sum OtherError (g_author_strict g c))"

definition committer_of :: "('x, 'w) git \<Rightarrow> ('w, signature) tm" where
  "committer_of g = pure (\<lambda>_. of_sum OtherError (g_committer g))"

definition push_tree :: "('x, 'w) git \<Rightarrow> patch_name \<Rightarrow> bool \<Rightarrow> ('w, unit) tm" where
  "push_tree g pn is_last =
     sbind (patch_commit_of pn) (\<lambda>patch_commit.
     sbind (parent_of patch_commit) (\<lambda>parent.
     sbind (pure t_top) (\<lambda>top.
     sbind (if hd (c_parents patch_commit) = c_id top then ret PS_Unmodified
            else
              sbind (author_of g patch_commit) (\<lambda>author.
              sbind (committer_of g) (\<lambda>default_committer.
              sbind (recommit g patch_commit author default_committer (c_tree patch_commit) (c_id top)) (\<lambda>commit.
              sthen (set_patch pn (Some \<lparr>ps_commit = commit\<rparr>)) (ret PS_Modified))))) (\<lambda>status.
     sbind (gets (\<lambda>t. pn \<in> set (tr_unapplied t) \<or> pn \<in> set (tr_hidden t))) (\<lambda>found.
     sthen (sassert found)
    (sthen (make_applied pn)
           (print (print_pushed pn
              (if c_tree parent = c_tree patch_commit then PS_Empty else status) is_last))))))))"

primrec push_tree_patches :: "('x, 'w) git \<Rightarrow> patch_name list \<Rightarrow> ('w, unit) tm" where
  "push_tree_patches g [] = ret ()"
| "push_tree_patches g (pn # pns) = sthen (push_tree g pn (pns = [])) (push_tree_patches g pns)"

text \<open>
  \<open>repair_appliedness\<close> panics when the new lists are not a rearrangement of the old ones: each new
  name is taken from the set of old names, which must be empty in the end.
\<close>

primrec shift_take_all :: "patch_name list \<Rightarrow> patch_name list \<Rightarrow> patch_name list option" where
  "shift_take_all old [] = Some old"
| "shift_take_all old (pn # pns) =
     (if pn \<in> set old then shift_take_all (remove1 pn old) pns else None)"

definition repair_appliedness ::
  "patch_name list \<Rightarrow> patch_name list \<Rightarrow> patch_name list \<Rightarrow> ('w, unit) tm" where
  "repair_appliedness applied unapplied hidden =
     sbind (gets (\<lambda>t. index_set (all_patches (trans_view t)))) (\<lambda>old.
     sthen (modify (\<lambda>t. t\<lparr>tr_applied := applied, tr_unapplied := unapplied, tr_hidden := hidden\<rparr>))
           (sassert (shift_take_all old (applied @ unapplied @ hidden) = Some [])))"

section \<open>Popping and deleting\<close>

text \<open>\<open>position\<close> and \<open>split_off\<close> of the first patch the closure selects.\<close>

definition split_at_first :: "('a \<Rightarrow> bool) \<Rightarrow> 'a list \<Rightarrow> 'a list \<times> 'a list" where
  "split_at_first p xs =
     (case position p xs of Some i \<Rightarrow> (take i xs, drop i xs) | None \<Rightarrow> (xs, []))"

definition pop_patches :: "(patch_name \<Rightarrow> bool) \<Rightarrow> ('w, patch_name list) tm" where
  "pop_patches should_pop =
     sbind (gets tr_applied) (\<lambda>ap.
     let (kept, all_popped) = split_at_first should_pop ap;
         incidental = filter (\<lambda>pn. \<not> should_pop pn) all_popped;
         requested = filter should_pop all_popped
     in
     sthen (modify (\<lambda>t. t\<lparr>tr_applied := kept,
                          tr_unapplied := incidental @ requested @ tr_unapplied t\<rparr>))
    (sthen (print (print_popped all_popped))
           (ret incidental)))"

text \<open>
  The three loops of \<open>delete_patches\<close> carry the group of deleted names that is still to be printed.
\<close>

definition mark_deleted ::
  "patch_name \<Rightarrow> patch_name list \<times> 'w transaction \<Rightarrow> patch_name list \<times> 'w transaction" where
  "mark_deleted pn = (\<lambda>(group, t).
     (group @ [pn], t\<lparr>tr_updated_patches := bt_insert (tr_updated_patches t) pn None\<rparr>))"

definition delete_popped_step ::
  "(patch_name \<Rightarrow> bool) \<Rightarrow> patch_name list \<times> 'w transaction \<Rightarrow> patch_name \<Rightarrow> patch_name list \<times> 'w transaction" where
  "delete_popped_step should_delete gt pn =
     (if should_delete pn then mark_deleted pn gt
      else if fst gt \<noteq> [] then ([], (snd gt)\<lparr>tr_ui := print_deleted (fst gt) (tr_ui (snd gt))\<rparr>)
      else gt)"

definition delete_unapplied_step ::
  "(patch_name \<Rightarrow> bool) \<Rightarrow> patch_name list \<times> 'w transaction \<Rightarrow> patch_name \<Rightarrow> patch_name list \<times> 'w transaction" where
  "delete_unapplied_step should_delete gt pn =
     (if should_delete pn then mark_deleted pn gt
      else ([], (snd gt)\<lparr>tr_ui := print_deleted (fst gt) (tr_ui (snd gt)),
                         tr_unapplied := tr_unapplied (snd gt) @ [pn]\<rparr>))"

function delete_hidden_loop ::
  "(patch_name \<Rightarrow> bool) \<Rightarrow> nat \<Rightarrow> patch_name list \<times> 'w transaction \<Rightarrow> patch_name list \<times> 'w transaction" where
  "delete_hidden_loop should_delete i gt =
     (let t = snd gt in
      if i < length (tr_hidden t) then
        (if should_delete (tr_hidden t ! i) then
           delete_hidden_loop should_delete i
             (mark_deleted (tr_hidden t ! i) (fst gt, t\<lparr>tr_hidden := remove_at i (tr_hidden t)\<rparr>))
         else
           delete_hidden_loop should_delete (Suc i)
             ([], t\<lparr>tr_ui := print_deleted (fst gt) (tr_ui t)\<rparr>))
      else gt)"
  by pat_completeness auto
termination
  by (relation "measure (\<lambda>(p, i, gt). length (tr_hidden (snd gt)) - i)")
     (auto simp: mark_deleted_def remove_at_def)

declare delete_hidden_loop.simps [simp del]

definition delete_patches :: "(patch_name \<Rightarrow> bool) \<Rightarrow> ('w, patch_name list) tm" where
  "delete_patches should_delete =
     sbind (gets tr_applied) (\<lambda>ap.
     let (kept, all_popped) = split_at_first should_delete ap;
         incidental = filter (\<lambda>pn. \<not> should_delete pn) all_popped
     in
     sbind (gets tr_unapplied) (\<lambda>unapplied.
     sthen (modify (\<lambda>t. t\<lparr>tr_applied := kept, tr_unapplied := incidental\<rparr>))
    (sthen (print (print_popped all_popped))
    (sthen (modify (\<lambda>t.
       let gt = foldl (delete_popped_step should_delete) ([], t) all_popped;
           gt = foldl (delete_unapplied_step should_delete) gt unapplied;
           gt = delete_hidden_loop should_delete 0 gt
       in (snd gt)\<lparr>tr_ui := print_deleted (fst gt) (tr_ui (snd gt))\<rparr>))
           (ret incidental)))))"

end
