(* ===== verification/Trans_Push.thy ===== *)
theory Trans_Push
  imports Transaction
begin

text \<open>
  Pushing patches and the operations composed of pops and pushes:
  \<open>push_patches\<close>, \<open>push_patch\<close>, \<open>check_merged\<close>, \<open>reset_to_state\<close>, \<open>reset_to_state_partially\<close>,
  \<open>reorder_patches\<close>, \<open>commit_patches\<close>, \<open>uncommit_patches\<close>, \<open>hide_patches\<close>, \<open>unhide_patches\<close> and
  \<open>rename_patch\<close> of \<open>src/stack/transaction/mod.rs\<close>.

  While patches are pushed the state is the transaction with the temporary index and
  \<open>temp_index_tree_id\<close>, the tree the code believes the index to hold.
\<close>

section \<open>Pushing one patch\<close>

type_synonym ('x, 'w) pushing = "'w transaction \<times> 'x \<times> oid option"

definition lift_t :: "('w, 'a) tm \<Rightarrow> (('x, 'w) pushing, trans_error, 'a) sm" where
  "lift_t m = (\<lambda>(t, x). case m t of (r, t') \<Rightarrow> (r, (t', x)))"

definition halt :: "rstring \<Rightarrow> bool \<Rightarrow> ('s, trans_error, 'a) sm" where
  "halt msg conflicts = throw (TransactionHalt msg conflicts)"

text \<open>Read a tree into the temporary index unless it is the recorded one.\<close>

definition temp_read :: "('x, 'w) git \<Rightarrow> oid \<Rightarrow> (('x, 'w) pushing, trans_error, unit) sm" where
  "temp_read g tree = (\<lambda>(t, x, i).
     if i \<noteq> Some tree then
       (case x_read_tree g tree x of
          Inl e \<Rightarrow> (Err (OtherError e), (t, x, i))
        | Inr x' \<Rightarrow> (Ok (), (t, x', Some tree)))
     else (Ok (), (t, x, i)))"

definition temp_apply ::
  "('x, 'w) git \<Rightarrow> oid \<Rightarrow> oid \<Rightarrow> (('x, 'w) pushing, trans_error, oid option) sm" where
  "temp_apply g base theirs = (\<lambda>(t, x, i).
     case apply_treediff_to_index g base theirs True x of
       (Inl e, x') \<Rightarrow> (Err (OtherError e), (t, x', i))
     | (Inr ok, x') \<Rightarrow>
         (Ok (if ok then (case x_write_tree g x' of Inr tree \<Rightarrow> Some tree | Inl _ \<Rightarrow> None) else None),
          (t, x', i)))"

definition on_work :: "('w \<Rightarrow> 'a \<times> 'w) \<Rightarrow> ('w, 'a) tm" where
  "on_work f t =
     (case f (work (tr_repo t)) of (r, w) \<Rightarrow> (Ok r, t\<lparr>tr_repo := (tr_repo t)\<lparr>work := w\<rparr>\<rparr>))"

text \<open>The push does not apply in the temporary index: fall back to a merge in the work tree.\<close>

definition push_conflict ::
  "('x, 'w) git \<Rightarrow> patch_name \<Rightarrow> oid \<Rightarrow> oid \<Rightarrow> oid \<Rightarrow> ('w, oid \<times> push_status) tm" where
  "push_conflict g pn base ours theirs =
     sbind (gets tr_options) (\<lambda>opts.
     if \<not> o_use_index_and_worktree opts then
       halt (pn_str pn @ str '' does not apply cleanly'') False
     else if \<not> (case o_allow_push_conflicts opts of
                  Some allow \<Rightarrow> allow
                | None \<Rightarrow> (case g_allow_conflicts g of Some b \<Rightarrow> b | None \<Rightarrow> True)) then
       halt (str ''pushing patch `'' @ pn_str pn @
             str ''` would result in conflicts and push conflicts are disallowed'') False
     else
       sbind (gets tr_current_tree_id) (\<lambda>current.
       sbind (on_work (w_checkout g current ours)) (\<lambda>r.
       case r of
         Inl e \<Rightarrow> halt (str ''index/worktree dirty'') False
       | Inr _ \<Rightarrow>
           sthen (modify (\<lambda>t. t\<lparr>tr_current_tree_id := ours\<rparr>))
          (sbind (on_work (merge_recursive_or_mergetool g base ours theirs
                   (case g_autoimerge g of Some b \<Rightarrow> b | None \<Rightarrow> False))) (\<lambda>m.
           case m of
             Inl e \<Rightarrow> halt e False
           | Inr True \<Rightarrow>
               sbind (gets (\<lambda>t. w_write_tree g (work (tr_repo t)))) (\<lambda>w.
               case w of
                 Inl e \<Rightarrow> halt (str ''conflicting merge'') False
               | Inr tree \<Rightarrow>
                   sthen (modify (\<lambda>t. t\<lparr>tr_current_tree_id := tree\<rparr>)) (ret (tree, PS_Modified)))
           | Inr False \<Rightarrow> ret (ours, PS_Conflict))))))"

text \<open>The tree of the pushed patch.\<close>

definition push_merge ::
  "('x, 'w) git \<Rightarrow> patch_name \<Rightarrow> bool \<Rightarrow> commit \<Rightarrow> commit \<Rightarrow> commit \<Rightarrow>
     (('x, 'w) pushing, trans_error, oid \<times> push_status) sm" where
  "push_merge g pn already_merged patch_commit old_parent new_parent =
     (if already_merged then ret (c_tree new_parent, PS_AlreadyMerged)
      else if c_tree old_parent = c_tree new_parent then ret (c_tree patch_commit, PS_Unmodified)
      else if c_tree old_parent = c_tree patch_commit then ret (c_tree new_parent, PS_Unmodified)
      else if c_tree new_parent = c_tree patch_commit then ret (c_tree patch_commit, PS_Unmodified)
      else
        sbind (gets (\<lambda>(t, x, i). i)) (\<lambda>i.
        let swapped = (i = Some (c_tree patch_commit));
            ours = (if swapped then c_tree patch_commit else c_tree new_parent);
            theirs = (if swapped then c_tree new_parent else c_tree patch_commit);
            base = c_tree old_parent
        in
        sthen (temp_read g ours)
       (sbind (temp_apply g base theirs) (\<lambda>maybe_tree.
        case maybe_tree of
          Some tree \<Rightarrow> ret (tree, PS_Unmodified)
        | None \<Rightarrow> lift_t (push_conflict g pn base ours theirs)))))"

text \<open>The commit of the pushed patch: rewritten only when its tree or its parent changes.\<close>

definition push_commit ::
  "('x, 'w) git \<Rightarrow> patch_name \<Rightarrow> signature \<Rightarrow> commit \<Rightarrow> commit \<Rightarrow> commit \<Rightarrow> oid \<Rightarrow> push_status \<Rightarrow>
     ('w, push_status) tm" where
  "push_commit g pn default_committer patch_commit old_parent new_parent new_tree status =
     (if new_tree \<noteq> c_tree patch_commit \<or> c_id new_parent \<noteq> c_id old_parent then
        sbind (author_of g patch_commit) (\<lambda>author.
        sbind (recommit g patch_commit author default_committer new_tree (c_id new_parent)) (\<lambda>commit.
        sthen (modify (\<lambda>t. if status = PS_Conflict then t\<lparr>tr_updated_head := Some commit\<rparr> else t))
       (sthen (set_patch pn (Some \<lparr>ps_commit = commit\<rparr>))
              (ret (if status \<noteq> PS_Conflict \<and> status \<noteq> PS_AlreadyMerged \<and> new_tree = c_tree new_parent
                    then PS_Empty else status)))))
      else ret status)"

definition conflict_msg :: rstring where
  "conflict_msg =
     str ''merge conflicts; resolve conflicts manually then refresh or undo the operation with `stg undo --hard`.''"

definition push_finish :: "patch_name \<Rightarrow> bool \<Rightarrow> push_status \<Rightarrow> ('w, unit) tm" where
  "push_finish pn is_last status =
     sthen (modify (\<lambda>t.
       if status = PS_Conflict then t\<lparr>tr_options := (tr_options t)\<lparr>o_conflict_mode := CM_Allow\<rparr>\<rparr> else t))
    (sthen (make_applied pn)
    (sthen (print (print_pushed pn status is_last))
           (if status = PS_Conflict then halt conflict_msg True else ret ())))"

definition push_patch ::
  "('x, 'w) git \<Rightarrow> patch_name \<Rightarrow> bool \<Rightarrow> bool \<Rightarrow> (('x, 'w) pushing, trans_error, unit) sm" where
  "push_patch g pn already_merged is_last =
     sbind (lift_t (committer_of g)) (\<lambda>default_committer.
     sbind (lift_t (patch_commit_of pn)) (\<lambda>patch_commit.
     sbind (lift_t (parent_of patch_commit)) (\<lambda>old_parent.
     sbind (lift_t (pure t_top)) (\<lambda>new_parent.
     sbind (push_merge g pn already_merged patch_commit old_parent new_parent) (\<lambda>(tree, status).
     lift_t (sbind (push_commit g pn default_committer patch_commit old_parent new_parent tree status)
              (push_finish pn is_last)))))))"

section \<open>Pushing several patches\<close>

text \<open>
  \<open>check_merged\<close>: undo the patches, last first, in the tree of the branch head; those whose reverse
  applies are already there.
\<close>

definition check_merged_step ::
  "('x, 'w) git \<Rightarrow> patch_name \<Rightarrow> patch_name list \<Rightarrow> (('x, 'w) pushing, trans_error, patch_name list) sm" where
  "check_merged_step g pn merged =
     sbind (lift_t (patch_commit_of pn)) (\<lambda>c.
     sbind (lift_t (pure (\<lambda>t. is_no_change (tr_repo t) c))) (\<lambda>no_change.
     if no_change then ret merged
     else
       sbind (lift_t (parent_of c)) (\<lambda>parent.
       (\<lambda>(t, x, i).
         case apply_treediff_to_index g (c_tree c) (c_tree parent) False x of
           (Inl e, x') \<Rightarrow> (Err (OtherError e), (t, x', i))
         | (Inr True, x') \<Rightarrow> (Ok (merged @ [pn]), (t, x', None))
         | (Inr False, x') \<Rightarrow> (Ok merged, (t, x', i))))))"

primrec check_merged_loop ::
  "('x, 'w) git \<Rightarrow> patch_name list \<Rightarrow> patch_name list \<Rightarrow> (('x, 'w) pushing, trans_error, patch_name list) sm" where
  "check_merged_loop g [] merged = ret merged"
| "check_merged_loop g (pn # pns) merged =
     sbind (check_merged_step g pn merged) (check_merged_loop g pns)"

definition check_merged ::
  "('x, 'w) git \<Rightarrow> patch_name list \<Rightarrow> (('x, 'w) pushing, trans_error, patch_name list) sm" where
  "check_merged g pns =
     sbind (lift_t (gets (\<lambda>t. c_tree (sk_branch_head (tr_stack t))))) (\<lambda>head_tree.
     sthen (temp_read g head_tree)
    (sbind (check_merged_loop g (rev pns) []) (\<lambda>merged.
     sthen (lift_t (print (print_merged merged))) (ret merged))))"

primrec push_loop ::
  "('x, 'w) git \<Rightarrow> patch_name list \<Rightarrow> patch_name list \<Rightarrow> (('x, 'w) pushing, trans_error, unit) sm" where
  "push_loop g merged [] = ret ()"
| "push_loop g merged (pn # pns) =
     sthen (push_patch g pn (pn \<in> set merged) (pns = [])) (push_loop g merged pns)"

definition push_patches :: "('x, 'w) git \<Rightarrow> patch_name list \<Rightarrow> bool \<Rightarrow> ('w, unit) tm" where
  "push_patches g pns want_check_merged t =
     (case x_new g of
        Inl e \<Rightarrow> (Err (OtherError e), t)
      | Inr x \<Rightarrow>
          (case sbind (if want_check_merged then check_merged g pns else ret [])
                  (\<lambda>merged. push_loop g merged pns) (t, x, None) of
             (r, (t', _)) \<Rightarrow> (r, t')))"

section \<open>Composite operations\<close>

definition reset_to_state :: "stack_state \<Rightarrow> ('w, unit) tm" where
  "reset_to_state st =
     sthen (modify (\<lambda>t. t\<lparr>tr_updated_patches :=
       foldl (\<lambda>m pn. bt_insert m pn None) (tr_updated_patches t) (all_patches (trans_view t))\<rparr>))
    (sbind (case st_applied st of
              [] \<Rightarrow> ret (st_head st)
            | pn # _ \<Rightarrow>
                sbind (pure (\<lambda>_. expect (bt_get (st_patches st) pn))) (\<lambda>p. parent_of (ps_commit p)))
     (\<lambda>base.
     modify (\<lambda>t. t\<lparr>tr_updated_base := Some base,
                   tr_updated_head := Some (st_head st),
                   tr_updated_patches :=
                     foldl (\<lambda>m e. bt_insert m (fst e) (Some (snd e))) (tr_updated_patches t) (st_patches st),
                   tr_applied := st_applied st,
                   tr_unapplied := st_unapplied st,
                   tr_hidden := st_hidden st\<rparr>)))"

definition common_prefix_len :: "'a list \<Rightarrow> 'a list \<Rightarrow> nat" where
  "common_prefix_len xs ys = length (takeWhile (\<lambda>(old, new). old = new) (zip xs ys))"

definition reorder_applied :: "('x, 'w) git \<Rightarrow> patch_name list \<Rightarrow> ('w, unit) tm" where
  "reorder_applied g applied =
     sbind (gets tr_applied) (\<lambda>old.
     let num_common = common_prefix_len old applied;
         to_pop = drop num_common old;
         to_push = drop num_common applied
     in
     sthen (pop_patches (\<lambda>pn. pn \<in> set to_pop))
    (sthen (push_patches g to_push False)
    (sbind (gets tr_applied) (\<lambda>now.
     sthen (sassert (now = applied))
           (if to_push = [] \<and> applied \<noteq> [] then print (print_pushed (last applied) PS_Unmodified True)
            else ret ())))))"

definition reorder_patches ::
  "('x, 'w) git \<Rightarrow> patch_name list option \<Rightarrow> patch_name list option \<Rightarrow> patch_name list option \<Rightarrow> ('w, unit) tm" where
  "reorder_patches g applied unapplied hidden =
     sthen (case applied of Some ap \<Rightarrow> reorder_applied g ap | None \<Rightarrow> ret ())
    (sthen (modify (\<lambda>t. case unapplied of Some un \<Rightarrow> t\<lparr>tr_unapplied := un\<rparr> | None \<Rightarrow> t))
           (modify (\<lambda>t. case hidden of Some hi \<Rightarrow> t\<lparr>tr_hidden := hi\<rparr> | None \<Rightarrow> t)))"

text \<open>\<open>split_off\<close> panics when the index is past the end.\<close>

definition commit_patches :: "('x, 'w) git \<Rightarrow> patch_name list \<Rightarrow> ('w, unit) tm" where
  "commit_patches g to_commit =
     sbind (gets tr_applied) (\<lambda>ap.
     let num_common = common_prefix_len ap to_commit in
     sbind (if num_common < length to_commit then
              let to_push = filter (\<lambda>pn. pn \<notin> set to_commit) (drop num_common ap) in
              sthen (pop_patches (\<lambda>pn. pn \<in> set to_push))
             (sthen (push_patches g (drop num_common to_commit) False)
                    (ret to_push))
            else ret []) (\<lambda>to_push.
     sbind (pure (\<lambda>t. print_committed to_commit (tr_ui t))) (\<lambda>u.
     sthen (modify (\<lambda>t. t\<lparr>tr_ui := u\<rparr>))
    (sbind (patch_commit_of (last to_commit)) (\<lambda>base.
     sthen (modify (\<lambda>t. t\<lparr>tr_updated_base := Some base,
       tr_updated_patches := foldl (\<lambda>m pn. bt_insert m pn None) (tr_updated_patches t) to_commit\<rparr>))
    (sbind (gets tr_applied) (\<lambda>now.
     sthen (sassert (length to_commit \<le> length now))
    (sthen (modify (\<lambda>t. t\<lparr>tr_applied := drop (length to_commit) now\<rparr>))
           (push_patches g to_push False)))))))))"

primrec uncommit_loop :: "(patch_name \<times> oid) list \<Rightarrow> ('w, unit) tm" where
  "uncommit_loop [] = ret ()"
| "uncommit_loop (e # es) =
     sbind (commit_of_id (snd e)) (\<lambda>commit.
     sthen (set_patch (fst e) (Some \<lparr>ps_commit = commit\<rparr>)) (uncommit_loop es))"

definition uncommit_patches :: "(patch_name \<times> oid) list \<Rightarrow> ('w, unit) tm" where
  "uncommit_patches patches =
     sthen (uncommit_loop patches)
    (sthen (print (print_uncommitted (map fst patches)))
           (modify (\<lambda>t. t\<lparr>tr_applied := map fst patches @ tr_applied t\<rparr>)))"

definition hide_patches :: "('x, 'w) git \<Rightarrow> patch_name list \<Rightarrow> ('w, unit) tm" where
  "hide_patches g to_hide =
     sbind (gets (\<lambda>t. (filter (\<lambda>pn. pn \<notin> set to_hide) (tr_applied t),
                       filter (\<lambda>pn. pn \<notin> set to_hide) (tr_unapplied t),
                       to_hide @ tr_hidden t))) (\<lambda>(applied, unapplied, hidden).
     sthen (reorder_patches g (Some applied) (Some unapplied) (Some hidden))
           (print (print_hidden to_hide)))"

definition unhide_patches :: "('x, 'w) git \<Rightarrow> patch_name list \<Rightarrow> ('w, unit) tm" where
  "unhide_patches g to_unhide =
     sbind (gets (\<lambda>t. (tr_unapplied t @ to_unhide,
                       filter (\<lambda>pn. pn \<notin> set to_unhide) (tr_hidden t)))) (\<lambda>(unapplied, hidden).
     sthen (reorder_patches g None (Some unapplied) (Some hidden))
           (print (print_unhidden to_unhide)))"

text \<open>Replace the first occurrence of a name, in the first of the three lists that has it.\<close>

definition rename_in :: "patch_name \<Rightarrow> patch_name \<Rightarrow> patch_name list \<Rightarrow> patch_name list option" where
  "rename_in old new pns = map_option (\<lambda>pos. pns[pos := new]) (position (\<lambda>q. q = old) pns)"

definition rename_lists :: "patch_name \<Rightarrow> patch_name \<Rightarrow> ('w, unit) tm" where
  "rename_lists old new t =
     (case rename_in old new (tr_applied t) of
        Some ap \<Rightarrow> (Ok (), t\<lparr>tr_applied := ap\<rparr>)
      | None \<Rightarrow>
          (case rename_in old new (tr_unapplied t) of
             Some un \<Rightarrow> (Ok (), t\<lparr>tr_unapplied := un\<rparr>)
           | None \<Rightarrow>
               (case rename_in old new (tr_hidden t) of
                  Some hi \<Rightarrow> (Ok (), t\<lparr>tr_hidden := hi\<rparr>)
                | None \<Rightarrow> (Panic, t))))"

text \<open>The state that moves to the new name: the updated one of this transaction, or the original.\<close>

definition rename_source :: "patch_name \<Rightarrow> 'w transaction \<Rightarrow> (trans_error, patch_state) outcome" where
  "rename_source old t =
     (case bt_get (tr_updated_patches t) old of
        Some (Some p) \<Rightarrow> Ok p
      | _ \<Rightarrow> expect (bt_get (st_patches (sk_state (tr_stack t))) old))"

definition rename_patch :: "patch_name \<Rightarrow> patch_name \<Rightarrow> ('w, unit) tm" where
  "rename_patch old new =
     (if new = old then ret ()
      else
        sbind (gets (\<lambda>t. case stack_collides (stack_view_of (tr_stack t)) new of
                 Some q \<Rightarrow> if q \<noteq> old \<and> bt_get (tr_updated_patches t) q \<noteq> None then Some q else None
               | None \<Rightarrow> None)) (\<lambda>colliding.
        case colliding of
          Some q \<Rightarrow> throw (OtherError (str ''new patch name `'' @ pn_str new @ str ''` collides with `''
                       @ pn_str q @ str ''`''))
        | None \<Rightarrow>
            sbind (gets (\<lambda>t. has_patch (stack_view_of (tr_stack t)) old)) (\<lambda>known.
            if \<not> known then throw (OtherError (str ''patch `'' @ pn_str old @ str ''` does not exist''))
            else
              sthen (rename_lists old new)
             (sbind (pure (rename_source old)) (\<lambda>p.
              sthen (set_patch old None)
             (sthen (set_patch new (Some p))
                    (print (print_rename old new))))))))"

definition reset_one :: "stack_state \<Rightarrow> patch_name list \<Rightarrow> patch_name list \<Rightarrow> patch_name \<Rightarrow> ('w, unit) tm" where
  "reset_one st existing matching pn =
     (if pn \<in> set existing \<and> pn \<in> set matching then ret ()
      else
        sthen (modify (\<lambda>t.
          if pn \<in> set existing then t
          else if pn \<in> set (st_hidden st) then t\<lparr>tr_hidden := tr_hidden t @ [pn]\<rparr>
          else t\<lparr>tr_unapplied := tr_unapplied t @ [pn]\<rparr>))
       (sbind (pure (\<lambda>_. expect (bt_get (st_patches st) pn))) (\<lambda>p.
        sthen (set_patch pn (Some p))
       (sbind (gets tr_applied) (\<lambda>applied. print (print_updated pn applied))))))"

definition reset_to_state_partially ::
  "('x, 'w) git \<Rightarrow> stack_state \<Rightarrow> patch_name list \<Rightarrow> ('w, unit) tm" where
  "reset_to_state_partially g st patchnames t0 =
     (let only = index_set patchnames;
          to_reset = filter (\<lambda>pn. pn \<in> set only) (index_set (all_patches (state_view st)));
          existing = index_set (all_patches (trans_view t0));
          original_applied = tr_applied t0;
          to_delete = filter (\<lambda>pn. pn \<in> set only) (filter (\<lambda>pn. pn \<notin> set to_reset) existing);
          matching = index_set (map fst (filter (\<lambda>e. case trans_get t0 (fst e) of
                       Some p \<Rightarrow> c_id (ps_commit p) = c_id (ps_commit (snd e)) | None \<Rightarrow> False) (st_patches st)))
      in
      sthen (pop_patches (\<lambda>pn.
               if pn \<notin> set only then False
               else if pn \<notin> set to_delete then True
               else pn \<notin> set matching))
     (sthen (delete_patches (\<lambda>pn. pn \<in> set to_delete))
     (sthen (sforeach to_reset (reset_one st existing matching))
     (sbind (gets (\<lambda>t. filter (\<lambda>pn. pn \<in> set (tr_unapplied t) \<or> pn \<in> set (tr_hidden t)) original_applied))
        (\<lambda>to_push. push_patches g to_push False)))) t0)"

end
