(* ===== verification/Trans_Inv.thy ===== *)
theory Trans_Inv
  imports Trans_Push "HOL-Library.Multiset"
begin

text \<open>
  Correctness of the transaction methods.

  \<open>trans_ok\<close> is the invariant a transaction keeps: each patch is in one of the three lists, once;
  the patches with a commit are those in the lists; an entry that deletes a patch names a patch of
  the original stack (so that the assertions at the start of \<open>execute\<close> hold).  \<open>chain_ok\<close> says
  that the applied patches are a linear history on top of the stack base.
\<close>

section \<open>Invariants\<close>

definition trans_ok :: "'w transaction \<Rightarrow> bool" where
  "trans_ok t \<longleftrightarrow>
     stack_ok (tr_stack t) \<and> view_ok (trans_view t) \<and> bt_ok (tr_updated_patches t) \<and> odb_ok (tr_repo t) \<and>
     (\<forall>pn. bt_get (tr_updated_patches t) pn = Some None \<longrightarrow> has_patch (stack_view_of (tr_stack t)) pn)"

fun chained :: "commit \<Rightarrow> commit list \<Rightarrow> bool" where
  "chained b [] \<longleftrightarrow> True"
| "chained b (c # cs) \<longleftrightarrow> c_parents c \<noteq> [] \<and> hd (c_parents c) = c_id b \<and> chained c cs"

definition commits_of :: "(patch_name \<Rightarrow> patch_state option) \<Rightarrow> patch_name list \<Rightarrow> commit list" where
  "commits_of get pns = map (\<lambda>pn. ps_commit (the (get pn))) pns"

definition chain_ok :: "'w transaction \<Rightarrow> bool" where
  "chain_ok t \<longleftrightarrow> chained (t_base t) (commits_of (trans_get t) (tr_applied t))"

interpretation trans_acc: stack_access trans_view trans_ok
  by unfold_locales (simp add: trans_ok_def)

section \<open>Views of a transaction\<close>

lemma trans_view_sel [simp]:
  "v_applied (trans_view t) = tr_applied t" "v_unapplied (trans_view t) = tr_unapplied t"
  "v_hidden (trans_view t) = tr_hidden t" "v_get (trans_view t) = trans_get t"
  by (simp_all add: trans_view_def)

lemma has_patch_trans [simp]: "has_patch (trans_view t) pn \<longleftrightarrow> trans_get t pn \<noteq> None"
  by (simp add: has_patch_def)

lemma all_patches_trans [simp]:
  "all_patches (trans_view t) = tr_applied t @ tr_unapplied t @ tr_hidden t"
  by (simp add: all_patches_def)

lemma view_ok_trans:
  "view_ok (trans_view t) \<longleftrightarrow>
     distinct (tr_applied t @ tr_unapplied t @ tr_hidden t) \<and>
     (\<forall>pn. trans_get t pn \<noteq> None \<longleftrightarrow> pn \<in> set (tr_applied t @ tr_unapplied t @ tr_hidden t))"
  unfolding view_ok_def has_patch_trans all_patches_trans ..

text \<open>Only the stack and \<open>updated_patches\<close> matter to a lookup.\<close>

lemma trans_get_cong:
  assumes "tr_stack t' = tr_stack t" "tr_updated_patches t' = tr_updated_patches t"
  shows "trans_get t' = trans_get t"
  using assms by (simp add: trans_get_def fun_eq_iff split: option.split)

lemma trans_get_insert:
  assumes "tr_stack t' = tr_stack t" "tr_updated_patches t' = bt_insert (tr_updated_patches t) pn p"
  shows "trans_get t' = (trans_get t)(pn := p)"
  using assms by (auto simp: trans_get_def fun_eq_iff split: option.split)

lemma trans_get_upd [simp]:
  "trans_get (t\<lparr>tr_applied := a\<rparr>) = trans_get t"
  "trans_get (t\<lparr>tr_unapplied := a\<rparr>) = trans_get t"
  "trans_get (t\<lparr>tr_hidden := a\<rparr>) = trans_get t"
  "trans_get (t\<lparr>tr_ui := u\<rparr>) = trans_get t"
  "trans_get (t\<lparr>tr_options := v\<rparr>) = trans_get t"
  "trans_get (t\<lparr>tr_repo := r\<rparr>) = trans_get t"
  "trans_get (t\<lparr>tr_updated_head := h\<rparr>) = trans_get t"
  "trans_get (t\<lparr>tr_updated_base := h\<rparr>) = trans_get t"
  "trans_get (t\<lparr>tr_current_tree_id := i\<rparr>) = trans_get t"
  "trans_get (t\<lparr>tr_error := e\<rparr>) = trans_get t"
  "trans_get (t\<lparr>tr_updated_patches := bt_insert (tr_updated_patches t) pn p\<rparr>) = (trans_get t)(pn := p)"
  by (auto simp: trans_get_def fun_eq_iff split: option.split)

lemma t_base_upd [simp]:
  "t_base (t\<lparr>tr_applied := a\<rparr>) = t_base t"
  "t_base (t\<lparr>tr_unapplied := a\<rparr>) = t_base t"
  "t_base (t\<lparr>tr_hidden := a\<rparr>) = t_base t"
  "t_base (t\<lparr>tr_ui := u\<rparr>) = t_base t"
  "t_base (t\<lparr>tr_options := v\<rparr>) = t_base t"
  "t_base (t\<lparr>tr_repo := r\<rparr>) = t_base t"
  "t_base (t\<lparr>tr_updated_head := h\<rparr>) = t_base t"
  "t_base (t\<lparr>tr_current_tree_id := i\<rparr>) = t_base t"
  "t_base (t\<lparr>tr_updated_patches := m\<rparr>) = t_base t"
  by (simp_all add: t_base_def split: option.split)

lemma trans_okD:
  assumes "trans_ok t"
  shows trans_ok_distinct: "distinct (tr_applied t @ tr_unapplied t @ tr_hidden t)"
    and trans_ok_get: "trans_get t pn \<noteq> None \<longleftrightarrow> pn \<in> set (tr_applied t @ tr_unapplied t @ tr_hidden t)"
    and trans_ok_stack: "stack_ok (tr_stack t)"
    and trans_ok_odb: "odb_ok (tr_repo t)"
    and trans_ok_bt: "bt_ok (tr_updated_patches t)"
    and trans_ok_deleted: "bt_get (tr_updated_patches t) pn = Some None \<Longrightarrow> has_patch (stack_view_of (tr_stack t)) pn"
  using assms by (auto simp: trans_ok_def view_ok_trans)

lemma t_top_ok:
  assumes "trans_ok t"
  shows "t_top t = Ok (last (t_base t # commits_of (trans_get t) (tr_applied t)))"
proof (cases "tr_applied t = []")
  case False
  then have "last (tr_applied t) \<in> set (tr_applied t @ tr_unapplied t @ tr_hidden t)" by simp
  then obtain p where "trans_get t (last (tr_applied t)) = Some p"
    using trans_ok_get [OF assms] by fastforce
  then show ?thesis
    using False by (simp add: t_top_def get_patch_commit_def commits_of_def last_map)
qed (simp add: t_top_def commits_of_def)

lemma commits_of_cong:
  assumes "\<And>pn. pn \<in> set pns \<Longrightarrow> f pn = h pn"
  shows "commits_of f pns = commits_of h pns"
  using assms by (simp add: commits_of_def)

lemma commits_of_simps [simp]:
  "commits_of f [] = []"
  "commits_of f (pn # pns) = ps_commit (the (f pn)) # commits_of f pns"
  "commits_of f (pns @ qns) = commits_of f pns @ commits_of f qns"
  "pn \<notin> set pns \<Longrightarrow> commits_of (f(pn := p)) pns = commits_of f pns"
  by (auto simp: commits_of_def)

lemma chained_append [simp]:
  "chained b (cs @ ds) \<longleftrightarrow> chained b cs \<and> chained (last (b # cs)) ds"
  by (induction b cs rule: chained.induct) auto

section \<open>Popping\<close>

lemma split_at_first_eq:
  "split_at_first p xs = (takeWhile (\<lambda>x. \<not> p x) xs, dropWhile (\<lambda>x. \<not> p x) xs)"
proof (cases "position p xs")
  case None
  then have eqs: "takeWhile (\<lambda>x. \<not> p x) xs = xs" "dropWhile (\<lambda>x. \<not> p x) xs = []"
    unfolding takeWhile_eq_all_conv dropWhile_eq_Nil_conv position_None_iff by auto
  show ?thesis unfolding split_at_first_def None eqs by simp
next
  case (Some i)
  then show ?thesis by (simp add: split_at_first_def take_position drop_position)
qed

definition popped_of :: "(patch_name \<Rightarrow> bool) \<Rightarrow> 'w transaction \<Rightarrow> patch_name list" where
  "popped_of p t = dropWhile (\<lambda>pn. \<not> p pn) (tr_applied t)"

definition popped :: "(patch_name \<Rightarrow> bool) \<Rightarrow> 'w transaction \<Rightarrow> 'w transaction" where
  "popped p t =
     t\<lparr>tr_applied := takeWhile (\<lambda>pn. \<not> p pn) (tr_applied t),
       tr_unapplied := filter (\<lambda>pn. \<not> p pn) (popped_of p t) @ filter p (popped_of p t) @ tr_unapplied t,
       tr_ui := print_popped (popped_of p t) (tr_ui t)\<rparr>"

lemma pop_patches_run:
  "pop_patches p t = (Ok (filter (\<lambda>pn. \<not> p pn) (popped_of p t)), popped p t)"
  by (simp add: pop_patches_def split_at_first_eq popped_def popped_of_def print_def sm_defs Let_def)

lemma takeWhile_append_dropWhile:
  "tr_applied (popped p t) @ popped_of p t = tr_applied t"
  by (simp add: popped_def popped_of_def)

lemma mset_split_pop:
  "mset (tr_applied (popped p t) @ tr_unapplied (popped p t)) = mset (tr_applied t @ tr_unapplied t)"
proof -
  have "mset (popped_of p t) = mset (filter (\<lambda>pn. \<not> p pn) (popped_of p t)) + mset (filter p (popped_of p t))"
    by (metis mset_filter multiset_partition union_commute)
  then have "mset (tr_applied (popped p t) @ tr_unapplied (popped p t)) =
      mset ((tr_applied (popped p t) @ popped_of p t) @ tr_unapplied t)"
    by (simp add: popped_def)
  then show ?thesis by (simp only: takeWhile_append_dropWhile)
qed

lemma popped_sel [simp]:
  "tr_stack (popped p t) = tr_stack t" "tr_updated_patches (popped p t) = tr_updated_patches t"
  "tr_hidden (popped p t) = tr_hidden t" "tr_repo (popped p t) = tr_repo t"
  "tr_updated_base (popped p t) = tr_updated_base t" "tr_updated_head (popped p t) = tr_updated_head t"
  "tr_options (popped p t) = tr_options t"
  "trans_get (popped p t) = trans_get t" "t_base (popped p t) = t_base t"
  by (simp_all add: popped_def)

text \<open>Rearranging the lists of a transaction keeps the invariant.\<close>

lemma trans_ok_rearrange:
  assumes ok: "trans_ok t"
    and m: "mset (tr_applied t' @ tr_unapplied t' @ tr_hidden t') =
            mset (tr_applied t @ tr_unapplied t @ tr_hidden t)"
    and sel: "tr_stack t' = tr_stack t" "tr_updated_patches t' = tr_updated_patches t" "odb_ok (tr_repo t')"
  shows "trans_ok t'"
proof -
  have "distinct (tr_applied t' @ tr_unapplied t' @ tr_hidden t')"
    using m trans_ok_distinct [OF ok] by (metis mset_eq_imp_distinct_iff)
  moreover have "set (tr_applied t' @ tr_unapplied t' @ tr_hidden t') =
      set (tr_applied t @ tr_unapplied t @ tr_hidden t)"
    using m mset_eq_setD by blast
  ultimately show ?thesis
    using ok sel trans_get_cong [OF sel(1,2)] unfolding trans_ok_def view_ok_trans by simp
qed

lemma popped_ok:
  assumes "trans_ok t"
  shows "trans_ok (popped p t)"
proof (rule trans_ok_rearrange [OF assms])
  show "mset (tr_applied (popped p t) @ tr_unapplied (popped p t) @ tr_hidden (popped p t)) =
      mset (tr_applied t @ tr_unapplied t @ tr_hidden t)"
    using mset_split_pop [of p t] by (simp add: union_assoc [symmetric] del: union_assoc)
qed (simp_all add: trans_ok_odb [OF assms])

lemma popped_chain:
  assumes "chain_ok t"
  shows "chain_ok (popped p t)"
proof -
  have "tr_applied t = tr_applied (popped p t) @ popped_of p t"
    by (simp add: takeWhile_append_dropWhile)
  with assms show ?thesis
    unfolding chain_ok_def by (metis chained_append commits_of_simps(3) popped_sel(8,9))
qed

section \<open>Deleting\<close>

text \<open>
  What the three loops of \<open>delete_patches\<close> have done after they have visited the patches \<open>seen\<close>:
  apart from the output and the lists, which are described separately, only entries of the deleted
  patches were added.
\<close>

definition marked ::
  "(patch_name \<Rightarrow> bool) \<Rightarrow> patch_name set \<Rightarrow> 'w transaction \<Rightarrow> 'w transaction \<Rightarrow> bool" where
  "marked p seen t t' \<longleftrightarrow>
     (\<forall>pn. bt_get (tr_updated_patches t') pn =
        (if pn \<in> seen \<and> p pn then Some None else bt_get (tr_updated_patches t) pn)) \<and>
     (bt_ok (tr_updated_patches t) \<longrightarrow> bt_ok (tr_updated_patches t')) \<and>
     tr_stack t' = tr_stack t \<and> tr_repo t' = tr_repo t \<and> tr_options t' = tr_options t \<and>
     tr_updated_base t' = tr_updated_base t \<and> tr_updated_head t' = tr_updated_head t \<and>
     tr_current_tree_id t' = tr_current_tree_id t \<and> tr_error t' = tr_error t \<and>
     tr_applied t' = tr_applied t"

lemma marked_refl: "marked p {} t t"
  by (simp add: marked_def)

lemma marked_trans: "marked p A t t1 \<Longrightarrow> marked p B t1 t2 \<Longrightarrow> marked p (A \<union> B) t t2"
  unfolding marked_def by auto

lemma delete_popped_loop:
  assumes "foldl (delete_popped_step p) (g, t) pns = (g', t')"
  shows "marked p (set pns) t t' \<and> tr_unapplied t' = tr_unapplied t \<and> tr_hidden t' = tr_hidden t"
  using assms
proof (induction pns arbitrary: g t)
  case Nil
  then show ?case by (simp add: marked_refl)
next
  case (Cons pn pns)
  obtain g1 t1 where s: "delete_popped_step p (g, t) pn = (g1, t1)" by fastforce
  have m: "marked p {pn} t t1" "tr_unapplied t1 = tr_unapplied t" "tr_hidden t1 = tr_hidden t"
    using s by (auto simp: delete_popped_step_def mark_deleted_def marked_def bt_ok_insert split: if_splits)
  have "marked p (set pns) t1 t' \<and> tr_unapplied t' = tr_unapplied t1 \<and> tr_hidden t' = tr_hidden t1"
    using Cons s by simp
  then show ?case using m marked_trans [OF m(1)] by fastforce
qed

lemma delete_unapplied_loop:
  assumes "foldl (delete_unapplied_step p) (g, t) pns = (g', t')"
  shows "marked p (set pns) t t' \<and> tr_unapplied t' = tr_unapplied t @ filter (\<lambda>pn. \<not> p pn) pns \<and>
         tr_hidden t' = tr_hidden t"
  using assms
proof (induction pns arbitrary: g t)
  case Nil
  then show ?case by (simp add: marked_refl)
next
  case (Cons pn pns)
  obtain g1 t1 where s: "delete_unapplied_step p (g, t) pn = (g1, t1)" by fastforce
  have m: "marked p {pn} t t1" "tr_unapplied t1 = tr_unapplied t @ (if p pn then [] else [pn])"
    "tr_hidden t1 = tr_hidden t"
    using s by (auto simp: delete_unapplied_step_def mark_deleted_def marked_def bt_ok_insert split: if_splits)
  have "marked p (set pns) t1 t' \<and> tr_unapplied t' = tr_unapplied t1 @ filter (\<lambda>pn. \<not> p pn) pns \<and>
      tr_hidden t' = tr_hidden t1"
    using Cons s by simp
  then show ?case using m marked_trans [OF m(1)] by fastforce
qed

lemma delete_hidden_loop_run:
  assumes "delete_hidden_loop p i (g, t) = (g', t')"
  shows "marked p (set (drop i (tr_hidden t))) t t' \<and> tr_unapplied t' = tr_unapplied t \<and>
         tr_hidden t' = take i (tr_hidden t) @ filter (\<lambda>pn. \<not> p pn) (drop i (tr_hidden t))"
  using assms
proof (induction p i "(g, t)" arbitrary: g t rule: delete_hidden_loop.induct)
  case (1 p i g t)
  let ?h = "tr_hidden t"
  show ?case
  proof (cases "i < length ?h")
    case False
    then have "(g', t') = (g, t)" using 1(3) delete_hidden_loop.simps [of p i "(g, t)"] by simp
    then show ?thesis using False by (simp add: marked_refl)
  next
    case i: True
    then have d: "drop i ?h = ?h ! i # drop (Suc i) ?h" by (simp add: Cons_nth_drop_Suc)
    show ?thesis
    proof (cases "p (?h ! i)")
      case True
      define t1 where "t1 = t\<lparr>tr_hidden := remove_at i ?h,
        tr_updated_patches := bt_insert (tr_updated_patches t) (?h ! i) None\<rparr>"
      have "delete_hidden_loop p i (g @ [?h ! i], t1) = (g', t')"
        using 1(3) delete_hidden_loop.simps [of p i "(g, t)"] i True
        by (simp add: mark_deleted_def t1_def)
      then have IH: "marked p (set (drop i (tr_hidden t1))) t1 t' \<and> tr_unapplied t' = tr_unapplied t1 \<and>
          tr_hidden t' = take i (tr_hidden t1) @ filter (\<lambda>pn. \<not> p pn) (drop i (tr_hidden t1))"
        using 1(1) [of t "g @ [?h ! i]" t1] i True by (simp add: mark_deleted_def t1_def)
      have h1: "drop i (tr_hidden t1) = drop (Suc i) ?h" "take i (tr_hidden t1) = take i ?h"
        using i by (simp_all add: t1_def remove_at_def)
      have "marked p {?h ! i} t t1" using True by (simp add: marked_def t1_def bt_ok_insert)
      with IH marked_trans [of p "{?h ! i}" t t1] h1 d True show ?thesis
        by (simp add: t1_def)
    next
      case False
      define t1 where "t1 = t\<lparr>tr_ui := print_deleted g (tr_ui t)\<rparr>"
      have "delete_hidden_loop p (Suc i) ([], t1) = (g', t')"
        using 1(3) delete_hidden_loop.simps [of p i "(g, t)"] i False by (simp add: t1_def)
      then have IH: "marked p (set (drop (Suc i) (tr_hidden t1))) t1 t' \<and> tr_unapplied t' = tr_unapplied t1 \<and>
          tr_hidden t' = take (Suc i) (tr_hidden t1) @ filter (\<lambda>pn. \<not> p pn) (drop (Suc i) (tr_hidden t1))"
        using 1(2) [of t] i False by (simp add: t1_def)
      have "marked p {?h ! i} t t1" using False by (simp add: marked_def t1_def)
      with IH marked_trans [of p "{?h ! i}" t t1] d False i show ?thesis
        by (simp add: t1_def take_Suc_conv_app_nth)
    qed
  qed
qed

text \<open>The result of \<open>delete_patches\<close>.\<close>

lemma delete_patches_run:
  obtains t' where "delete_patches p t = (Ok (filter (\<lambda>pn. \<not> p pn) (popped_of p t)), t')"
    and "tr_applied t' = takeWhile (\<lambda>pn. \<not> p pn) (tr_applied t)"
    and "tr_unapplied t' = filter (\<lambda>pn. \<not> p pn) (popped_of p t) @ filter (\<lambda>pn. \<not> p pn) (tr_unapplied t)"
    and "tr_hidden t' = filter (\<lambda>pn. \<not> p pn) (tr_hidden t)"
    and "marked p (set (tr_applied t) \<union> set (tr_unapplied t) \<union> set (tr_hidden t))
           (t\<lparr>tr_applied := tr_applied t'\<rparr>) t'"
proof -
  let ?pop = "popped_of p t" and ?keep = "takeWhile (\<lambda>pn. \<not> p pn) (tr_applied t)"
  define t0 where "t0 = t\<lparr>tr_applied := ?keep, tr_unapplied := filter (\<lambda>pn. \<not> p pn) ?pop,
    tr_ui := print_popped ?pop (tr_ui t)\<rparr>"
  obtain g1 t1 where 1: "foldl (delete_popped_step p) ([], t0) ?pop = (g1, t1)" by fastforce
  obtain g2 t2 where 2: "foldl (delete_unapplied_step p) (g1, t1) (tr_unapplied t) = (g2, t2)" by fastforce
  obtain g3 t3 where 3: "delete_hidden_loop p 0 (g2, t2) = (g3, t3)" by fastforce
  define t4 where "t4 = t3\<lparr>tr_ui := print_deleted g3 (tr_ui t3)\<rparr>"
  note m = delete_popped_loop [OF 1] delete_unapplied_loop [OF 2] delete_hidden_loop_run [OF 3]
  have run: "delete_patches p t = (Ok (filter (\<lambda>pn. \<not> p pn) ?pop), t4)"
    using 1 2 3
    by (simp add: delete_patches_def split_at_first_eq popped_of_def print_def sm_defs Let_def t0_def t4_def)
  have "marked p (set ?pop \<union> set (tr_unapplied t) \<union> set (tr_hidden t2)) t0 t3"
    by (rule marked_trans [OF marked_trans [of p "set ?pop" t0 t1 "set (tr_unapplied t)" t2]]) (use m in simp_all)
  then have mk: "marked p (set ?pop \<union> set (tr_unapplied t) \<union> set (tr_hidden t)) t0 t3"
    using m by (simp add: t0_def)
  have seen: "pn \<in> set ?pop \<and> p pn \<longleftrightarrow> pn \<in> set (tr_applied t) \<and> p pn" for pn
  proof -
    have "set (tr_applied t) = set ?keep \<union> set ?pop"
      by (metis popped_of_def set_append takeWhile_dropWhile_id)
    then show ?thesis by (auto dest: set_takeWhileD)
  qed
  show ?thesis
  proof
    show "delete_patches p t = (Ok (filter (\<lambda>pn. \<not> p pn) ?pop), t4)" by (rule run)
    show "tr_applied t4 = ?keep" using mk by (simp add: t4_def t0_def marked_def)
    show "tr_unapplied t4 = filter (\<lambda>pn. \<not> p pn) ?pop @ filter (\<lambda>pn. \<not> p pn) (tr_unapplied t)"
      using m by (simp add: t4_def t0_def)
    show "tr_hidden t4 = filter (\<lambda>pn. \<not> p pn) (tr_hidden t)"
      using m by (simp add: t4_def t0_def)
    show "marked p (set (tr_applied t) \<union> set (tr_unapplied t) \<union> set (tr_hidden t))
        (t\<lparr>tr_applied := tr_applied t4\<rparr>) t4"
      using mk seen unfolding marked_def t4_def t0_def by simp blast
  qed
qed

lemma filter_takeWhile_popped:
  "filter (\<lambda>pn. \<not> p pn) (tr_applied t) =
   takeWhile (\<lambda>pn. \<not> p pn) (tr_applied t) @ filter (\<lambda>pn. \<not> p pn) (popped_of p t)"
proof -
  have "filter (\<lambda>pn. \<not> p pn) (takeWhile (\<lambda>pn. \<not> p pn) (tr_applied t)) =
      takeWhile (\<lambda>pn. \<not> p pn) (tr_applied t)"
    by (rule filter_True) (auto dest: set_takeWhileD)
  then show ?thesis
    by (metis filter_append popped_of_def takeWhile_dropWhile_id)
qed

lemma delete_patches_ok:
  assumes ok: "trans_ok t"
    and orig: "\<And>pn. p pn \<Longrightarrow> trans_get t pn \<noteq> None \<Longrightarrow> has_patch (stack_view_of (tr_stack t)) pn"
    and run: "delete_patches p t = (r, t')"
  shows "trans_ok t'"
proof -
  let ?all = "tr_applied t @ tr_unapplied t @ tr_hidden t"
  from run obtain s where s: "s = t'"
    "tr_applied s = takeWhile (\<lambda>pn. \<not> p pn) (tr_applied t)"
    "tr_unapplied s = filter (\<lambda>pn. \<not> p pn) (popped_of p t) @ filter (\<lambda>pn. \<not> p pn) (tr_unapplied t)"
    "tr_hidden s = filter (\<lambda>pn. \<not> p pn) (tr_hidden t)"
    "marked p (set ?all) (t\<lparr>tr_applied := tr_applied s\<rparr>) s"
    using delete_patches_run [of p t] by (auto simp: Un_assoc)
  then have lists: "tr_applied t' @ tr_unapplied t' @ tr_hidden t' = filter (\<lambda>pn. \<not> p pn) ?all"
    using filter_takeWhile_popped [of p t] by simp
  have get: "trans_get t' pn = (if pn \<in> set ?all \<and> p pn then None else trans_get t pn)" for pn
    using s(1,5) by (simp add: trans_get_def marked_def split: option.split)
  have "distinct (filter (\<lambda>pn. \<not> p pn) ?all)" using trans_ok_distinct [OF ok] by (rule distinct_filter)
  moreover have "trans_get t' pn \<noteq> None \<longleftrightarrow> pn \<in> set (filter (\<lambda>pn. \<not> p pn) ?all)" for pn
    using trans_ok_get [OF ok, of pn] by (auto simp: get)
  ultimately have "view_ok (trans_view t')" unfolding view_ok_trans lists by blast
  moreover have "has_patch (stack_view_of (tr_stack t)) pn"
    if "bt_get (tr_updated_patches t') pn = Some None" for pn
  proof (cases "pn \<in> set ?all \<and> p pn")
    case True
    then show ?thesis using orig trans_ok_get [OF ok] by blast
  next
    case False
    then have "bt_get (tr_updated_patches t) pn = Some None"
      using that s(1,5) by (auto simp: marked_def split: if_splits)
    then show ?thesis by (rule trans_ok_deleted [OF ok])
  qed
  ultimately show ?thesis
    using s(1,5) trans_okD [OF ok] by (simp add: trans_ok_def marked_def)
qed

end
