(* ===== verification/Push_Inv.thy ===== *)
theory Push_Inv
  imports Trans_Inv
begin

text \<open>
  What a push does to a transaction, on every outcome.  \<open>worked\<close> is the frame of the merge part
  (only the work tree and \<open>current_tree_id\<close> change); \<open>pushed\<close> is the effect of a push that moved the
  patch, \<open>same_patches\<close> the one of a push that failed before that.
\<close>

section \<open>Frames\<close>

definition same_patches :: "'w transaction \<Rightarrow> 'w transaction \<Rightarrow> bool" where
  "same_patches t t' \<longleftrightarrow>
     tr_applied t' = tr_applied t \<and> tr_unapplied t' = tr_unapplied t \<and> tr_hidden t' = tr_hidden t \<and>
     tr_updated_patches t' = tr_updated_patches t \<and> tr_stack t' = tr_stack t \<and>
     tr_updated_base t' = tr_updated_base t \<and> tr_updated_head t' = tr_updated_head t"

definition worked :: "'w transaction \<Rightarrow> 'w transaction \<Rightarrow> bool" where
  "worked t t' \<longleftrightarrow>
     same_patches t t' \<and> tr_options t' = tr_options t \<and> tr_ui t' = tr_ui t \<and> tr_error t' = tr_error t \<and>
     objects (tr_repo t') = objects (tr_repo t) \<and> refs (tr_repo t') = refs (tr_repo t) \<and>
     note_copies (tr_repo t') = note_copies (tr_repo t)"

definition top_commit :: "'w transaction \<Rightarrow> commit" where
  "top_commit t = last (t_base t # commits_of (trans_get t) (tr_applied t))"

definition pushed :: "patch_name \<Rightarrow> 'w transaction \<Rightarrow> 'w transaction \<Rightarrow> bool" where
  "pushed pn t t' \<longleftrightarrow>
     tr_applied t' = tr_applied t @ [pn] \<and>
     tr_unapplied t' = remove1 pn (tr_unapplied t) \<and> tr_hidden t' = remove1 pn (tr_hidden t) \<and>
     tr_stack t' = tr_stack t \<and> tr_updated_base t' = tr_updated_base t \<and>
     (\<exists>c. trans_get t' = (trans_get t)(pn \<mapsto> \<lparr>ps_commit = c\<rparr>) \<and> c_parents c \<noteq> [] \<and>
          hd (c_parents c) = c_id (top_commit t) \<and>
          (tr_updated_head t' = tr_updated_head t \<or> tr_updated_head t' = Some c))"

lemma same_patches_refl: "same_patches t t"
  by (simp add: same_patches_def)

lemma same_patches_trans: "same_patches t t1 \<Longrightarrow> same_patches t1 t2 \<Longrightarrow> same_patches t t2"
  by (simp add: same_patches_def)

lemma worked_refl: "worked t t"
  by (simp add: worked_def same_patches_refl)

lemma worked_trans: "worked t t1 \<Longrightarrow> worked t1 t2 \<Longrightarrow> worked t t2"
  by (simp add: worked_def same_patches_def)

lemma worked_odb: "worked t t' \<Longrightarrow> odb_ok (tr_repo t') = odb_ok (tr_repo t)"
  by (simp add: worked_def odb_ok_def)

lemma worked_same: "worked t t' \<Longrightarrow> same_patches t t'"
  by (simp add: worked_def)

lemma trans_ok_same:
  assumes "trans_ok t" "same_patches t t'" "odb_ok (tr_repo t')"
  shows "trans_ok t'"
  by (rule trans_ok_rearrange [OF assms(1)]) (use assms(2,3) in \<open>simp_all add: same_patches_def\<close>)

lemma same_patches_get: "same_patches t t' \<Longrightarrow> trans_get t' = trans_get t"
  by (rule trans_get_cong) (simp_all add: same_patches_def)

lemma same_patches_base: "same_patches t t' \<Longrightarrow> t_base t' = t_base t"
  by (simp add: same_patches_def t_base_def split: option.split)

lemma same_patches_top: "same_patches t t' \<Longrightarrow> top_commit t' = top_commit t"
  by (simp add: top_commit_def same_patches_get same_patches_base) (simp add: same_patches_def)

lemma same_patches_chain: "same_patches t t' \<Longrightarrow> chain_ok t' \<longleftrightarrow> chain_ok t"
  by (simp add: chain_ok_def same_patches_get same_patches_base) (simp add: same_patches_def)

section \<open>The merge\<close>

lemma on_work_worked:
  assumes "on_work f t = (r, t')"
  shows "worked t t'" and "r \<noteq> Panic" and "r \<noteq> Err e"
  using assms by (auto simp: on_work_def worked_def same_patches_def split: prod.splits)

lemma set_tree_worked: "worked t (t\<lparr>tr_current_tree_id := i\<rparr>)"
  by (simp add: worked_def same_patches_def)

lemma triple_on_work: "triple (worked t) (on_work f) (\<lambda>_. worked t) E"
  by (rule tripleI) (auto dest: on_work_worked intro: worked_trans)

lemma push_conflict_worked:
  "triple (worked t) (push_conflict g pn base ours theirs) (\<lambda>_. worked t)
     (\<lambda>e s. worked t s \<and> (\<exists>m. e = TransactionHalt m False))"
  unfolding push_conflict_def halt_def
  by (intro inv_rules triple_on_work) (auto intro: worked_trans set_tree_worked)

text \<open>The same for the state of the push loop.\<close>

definition worked_p :: "'w transaction \<Rightarrow> ('x, 'w) pushing \<Rightarrow> bool" where
  "worked_p t s \<longleftrightarrow> worked t (fst s)"

definition no_conflict :: "trans_error \<Rightarrow> bool" where
  "no_conflict e \<longleftrightarrow> (\<forall>m. e \<noteq> TransactionHalt m True)"

lemma lift_t_run: "lift_t m (t, x) = (r, s) \<longleftrightarrow> (\<exists>t'. m t = (r, t') \<and> s = (t', x))"
  by (auto simp: lift_t_def split: prod.splits)

lemma triple_lift_t:
  assumes "triple P m Q E"
  shows "triple (\<lambda>s. P (fst s)) (lift_t m) (\<lambda>r s. Q r (fst s)) (\<lambda>e s. E e (fst s))"
  using assms by (auto simp: triple_def lift_t_def split: prod.splits outcome.splits)

lemma push_merge_worked:
  "triple (worked_p t) (push_merge g pn merged pc op np) (\<lambda>_. worked_p t)
     (\<lambda>e s. worked_p t s \<and> no_conflict e)"
proof -
  have read: "triple (worked_p t) (temp_read g tree) (\<lambda>_. worked_p t)
      (\<lambda>e s. worked_p t s \<and> no_conflict e)" for tree
    by (auto simp: triple_def temp_read_def worked_p_def no_conflict_def split: sum.splits)
  have appl: "triple (worked_p t) (temp_apply g base theirs) (\<lambda>_. worked_p t)
      (\<lambda>e s. worked_p t s \<and> no_conflict e)" for base theirs
    by (auto simp: triple_def temp_apply_def worked_p_def no_conflict_def split: sum.splits prod.splits)
  have conf: "triple (worked_p t) (lift_t (push_conflict g pn base ours theirs)) (\<lambda>_. worked_p t)
      (\<lambda>e s. worked_p t s \<and> no_conflict e)" for base ours theirs
    using triple_lift_t [OF push_conflict_worked]
    by (rule triple_conseq) (auto simp: worked_p_def no_conflict_def)
  show ?thesis
    unfolding push_merge_def Let_def by (intro inv_rules read appl conf)
qed

section \<open>The commit\<close>

lemma recommit_cases:
  assumes run: "recommit g pc author dc tree parent t = (r, t')" and odb: "odb_ok (tr_repo t)"
  obtains (written) c repo where "r = Ok c" "t' = t\<lparr>tr_repo := repo\<rparr>" "odb_ok repo"
      "c_parents c = [parent]" "c_tree c = tree" "c_message c = c_message pc"
  | (failed) e where "r = Err (OtherError e)" "t' = t"
proof -
  obtain q repo where c: "commit_ex g author (dated_committer (tr_options t) author dc)
      (c_message pc) tree [parent] (tr_repo t) = (q, repo)" by fastforce
  then show ?thesis
  proof (cases rule: commit_ex_cases)
    case (written i)
    then show ?thesis
      using that(1) run c odb
      by (auto simp: recommit_def on_repo_def commit_of_id_def sm_defs find_commit_def)
  next
    case (failed e)
    then show ?thesis
      using that(2) run c by (auto simp: recommit_def on_repo_def sm_defs)
  qed
qed

lemma author_of_run: "author_of g c t = (r, t') \<Longrightarrow> t' = t \<and> r \<noteq> Panic \<and> (\<forall>e. r = Err e \<longrightarrow> no_conflict e)"
  by (cases "g_author_strict g c") (auto simp: author_of_def no_conflict_def)

lemma committer_of_run: "committer_of g t = (r, t') \<Longrightarrow> t' = t \<and> r \<noteq> Panic \<and> (\<forall>e. r = Err e \<longrightarrow> no_conflict e)"
  by (cases "g_committer g") (auto simp: committer_of_def no_conflict_def)

definition with_commit :: "patch_name \<Rightarrow> commit \<Rightarrow> 'w transaction \<Rightarrow> 'w transaction \<Rightarrow> bool" where
  "with_commit pn c t t' \<longleftrightarrow>
     tr_applied t' = tr_applied t \<and> tr_unapplied t' = tr_unapplied t \<and> tr_hidden t' = tr_hidden t \<and>
     tr_stack t' = tr_stack t \<and> tr_updated_base t' = tr_updated_base t \<and> odb_ok (tr_repo t') \<and>
     (tr_updated_head t' = tr_updated_head t \<or> tr_updated_head t' = Some c) \<and>
     bt_ok (tr_updated_patches t') \<and> trans_get t' = (trans_get t)(pn \<mapsto> \<lparr>ps_commit = c\<rparr>) \<and>
     (\<forall>q. bt_get (tr_updated_patches t') q = Some None \<longrightarrow> bt_get (tr_updated_patches t) q = Some None)"

lemma push_commit_cases:
  assumes run: "push_commit g pn dc pc op np tree st t = (r, t')"
    and ok: "trans_ok t" and get: "trans_get t pn = Some \<lparr>ps_commit = pc\<rparr>"
    and parent: "c_parents pc \<noteq> []" "c_id op = hd (c_parents pc)"
  obtains (rewritten) c st' where "r = Ok st'" "(st' = PS_Conflict) = (st = PS_Conflict)"
      "with_commit pn c t t'" "c_parents c \<noteq> []" "hd (c_parents c) = c_id np"
  | (failed) e where "r = Err e" "no_conflict e" "t' = t"
proof (cases "tree \<noteq> c_tree pc \<or> c_id np \<noteq> c_id op")
  case False
  have "(trans_get t)(pn \<mapsto> \<lparr>ps_commit = pc\<rparr>) = trans_get t" using get by (simp add: fun_upd_idem)
  then have "with_commit pn pc t t" using trans_okD [OF ok] by (simp add: with_commit_def)
  with False show ?thesis using run parent that(1) by (simp add: push_commit_def)
next
  case True
  obtain a where a: "author_of g pc t = (a, t)" by (simp add: author_of_def)
  show ?thesis
  proof (cases a)
    case (Ok author)
    obtain q t1 where q: "recommit g pc author dc tree (c_id np) t = (q, t1)" by fastforce
    from q trans_ok_odb [OF ok] show ?thesis
    proof (cases rule: recommit_cases)
      case (written c repo)
      have "with_commit pn c t t'"
        using run True a Ok q written trans_ok_bt [OF ok]
        by (auto simp: push_commit_def sm_defs set_patch_def with_commit_def bt_ok_insert
             split: if_splits intro!: trans_get_insert)
      moreover have "\<exists>st'. r = outcome.Ok st' \<and> (st' = PS_Conflict) = (st = PS_Conflict)"
        using run True a Ok q written by (auto simp: push_commit_def sm_defs set_patch_def)
      ultimately show ?thesis using that(1) written by auto
    next
      case (failed e)
      then show ?thesis using that(2) run True a Ok q
        by (auto simp: push_commit_def sm_defs no_conflict_def)
    qed
  next
    case (Err e)
    then show ?thesis using that(2) run True a author_of_run [OF a] by (auto simp: push_commit_def sm_defs)
  next
    case Panic
    then show ?thesis using author_of_run [OF a] by simp
  qed
qed

lemma take_out_lists:
  assumes "distinct (tr_unapplied t @ tr_hidden t)"
  shows "tr_unapplied (take_out pn t) = remove1 pn (tr_unapplied t)"
    and "tr_hidden (take_out pn t) = remove1 pn (tr_hidden t)"
proof -
  have "tr_unapplied (take_out pn t) = remove1 pn (tr_unapplied t) \<and>
      tr_hidden (take_out pn t) = remove1 pn (tr_hidden t)"
  proof (cases "position (\<lambda>q. q = pn) (tr_unapplied t)")
    case None
    then show ?thesis
      by (cases "position (\<lambda>q. q = pn) (tr_hidden t)")
         (auto simp: take_out_def remove_at_position remove1_idem split: option.split
           dest!: position_SomeD [of _ "tr_unapplied t"])
  next
    case (Some i)
    then have "pn \<in> set (tr_unapplied t)" using position_SomeD by fastforce
    then have "pn \<notin> set (tr_hidden t)" using assms by auto
    with Some show ?thesis by (simp add: take_out_def remove_at_position remove1_idem)
  qed
  then show "tr_unapplied (take_out pn t) = remove1 pn (tr_unapplied t)"
    and "tr_hidden (take_out pn t) = remove1 pn (tr_hidden t)" by auto
qed

lemma take_out_sel [simp]:
  "tr_applied (take_out pn t) = tr_applied t" "tr_stack (take_out pn t) = tr_stack t"
  "tr_updated_patches (take_out pn t) = tr_updated_patches t" "tr_repo (take_out pn t) = tr_repo t"
  "tr_updated_base (take_out pn t) = tr_updated_base t" "tr_updated_head (take_out pn t) = tr_updated_head t"
  "tr_options (take_out pn t) = tr_options t" "tr_ui (take_out pn t) = tr_ui t"
  "trans_get (take_out pn t) = trans_get t"
  by (auto simp: take_out_def split: option.split)

text \<open>Giving a patch of the lists another commit and moving it to the top keeps the invariant.\<close>

lemma moved_ok:
  assumes ok: "trans_ok t" and pn: "pn \<in> set (tr_unapplied t) \<union> set (tr_hidden t)"
    and w: "with_commit pn c t t1"
    and t': "tr_applied t' = tr_applied t1 @ [pn]" "tr_unapplied t' = remove1 pn (tr_unapplied t1)"
      "tr_hidden t' = remove1 pn (tr_hidden t1)" "tr_stack t' = tr_stack t1"
      "tr_updated_patches t' = tr_updated_patches t1" "odb_ok (tr_repo t')"
  shows "trans_ok t'"
proof -
  have d: "distinct (tr_applied t @ tr_unapplied t @ tr_hidden t)" by (rule trans_ok_distinct [OF ok])
  have lists: "tr_applied t1 = tr_applied t" "tr_unapplied t1 = tr_unapplied t" "tr_hidden t1 = tr_hidden t"
    using w by (auto simp: with_commit_def)
  have "set (tr_applied t' @ tr_unapplied t' @ tr_hidden t') = set (tr_applied t @ tr_unapplied t @ tr_hidden t)"
    using d pn by (auto simp: t' lists)
  moreover have "distinct (tr_applied t' @ tr_unapplied t' @ tr_hidden t')"
    using d pn by (auto simp: t' lists)
  moreover have "trans_get t' = (trans_get t)(pn \<mapsto> \<lparr>ps_commit = c\<rparr>)"
    using w trans_get_cong [of t' t1] t'(4,5) by (simp add: with_commit_def)
  ultimately have "view_ok (trans_view t')"
    unfolding view_ok_trans using trans_ok_get [OF ok] pn by auto
  then show ?thesis
    using w t' trans_okD [OF ok] by (simp add: trans_ok_def with_commit_def)
qed

section \<open>One push\<close>

lemma push_finish_run:
  assumes "distinct (tr_unapplied t @ tr_hidden t)" and "push_finish pn l st t = (r, t')"
  shows "r = (if st = PS_Conflict then Err (TransactionHalt conflict_msg True) else Ok ()) \<and>
    tr_applied t' = tr_applied t @ [pn] \<and> tr_unapplied t' = remove1 pn (tr_unapplied t) \<and>
    tr_hidden t' = remove1 pn (tr_hidden t) \<and> tr_stack t' = tr_stack t \<and>
    tr_updated_patches t' = tr_updated_patches t \<and> tr_repo t' = tr_repo t \<and>
    tr_updated_base t' = tr_updated_base t \<and> tr_updated_head t' = tr_updated_head t \<and>
    tr_options t' = (if st = PS_Conflict then (tr_options t)\<lparr>o_conflict_mode := CM_Allow\<rparr> else tr_options t)"
proof -
  define t1 where "t1 = (if st = PS_Conflict then t\<lparr>tr_options := (tr_options t)\<lparr>o_conflict_mode := CM_Allow\<rparr>\<rparr> else t)"
  have d: "distinct (tr_unapplied t1 @ tr_hidden t1)" using assms(1) by (simp add: t1_def)
  have "t' = (take_out pn t1)\<lparr>tr_applied := tr_applied t1 @ [pn], tr_ui := print_pushed pn st l (tr_ui t1)\<rparr>"
    and "r = (if st = PS_Conflict then Err (TransactionHalt conflict_msg True) else Ok ())"
    using assms(2) by (auto simp: push_finish_def make_applied_def print_def halt_def sm_defs t1_def)
  then show ?thesis using take_out_lists [OF d] by (simp add: t1_def)
qed

lemma pushed_same: "same_patches t t1 \<Longrightarrow> pushed pn t1 t' \<Longrightarrow> pushed pn t t'"
  using same_patches_get [of t t1] same_patches_top [of t t1] by (auto simp: pushed_def same_patches_def)

text \<open>The part of a push after the merge.\<close>

lemma push_tail_cases:
  assumes run: "sbind (push_commit g pn d pc op (top_commit t) tree st) (push_finish pn l) t = (r, t')"
    and ok: "trans_ok t" and pn: "pn \<in> set (tr_unapplied t) \<union> set (tr_hidden t)"
    and get: "trans_get t pn = Some \<lparr>ps_commit = pc\<rparr>"
    and parent: "c_parents pc \<noteq> []" "c_id op = hd (c_parents pc)"
  obtains (pushed) "r = Ok ()" "trans_ok t'" "pushed pn t t'"
  | (conflict) "r = Err (TransactionHalt conflict_msg True)" "trans_ok t'" "pushed pn t t'"
      "o_conflict_mode (tr_options t') = CM_Allow"
  | (failed) e where "r = Err e" "no_conflict e" "t' = t"
proof -
  obtain q t2 where q: "push_commit g pn d pc op (top_commit t) tree st t = (q, t2)" by fastforce
  from q ok get parent show ?thesis
  proof (cases rule: push_commit_cases)
    case (failed e)
    then have "r = Err e \<and> t' = t" using run q by (simp add: sbind_def)
    then show ?thesis using that(3) failed(2) by blast
  next
    case (rewritten c st')
    obtain r3 t3 where f: "push_finish pn l st' t2 = (r3, t3)" by fastforce
    have d2: "distinct (tr_unapplied t2 @ tr_hidden t2)"
      using trans_ok_distinct [OF ok] rewritten(3) by (simp add: with_commit_def)
    note fin = push_finish_run [OF d2 f]
    have ok3: "trans_ok t3"
      by (rule moved_ok [OF ok pn rewritten(3)]) (use fin rewritten(3) in \<open>auto simp: with_commit_def\<close>)
    have "trans_get t3 = (trans_get t)(pn \<mapsto> \<lparr>ps_commit = c\<rparr>)"
      using fin rewritten(3) trans_get_cong [of t3 t2] by (simp add: with_commit_def)
    then have "pushed pn t t3"
      unfolding pushed_def using fin rewritten(3-5) by (auto simp: with_commit_def intro!: exI [of _ c])
    moreover have "r = r3 \<and> t' = t3" using run q rewritten(1) f by (simp add: sbind_def)
    ultimately show ?thesis using that(1,2) fin ok3 by (cases "st' = PS_Conflict") auto
  qed
qed

text \<open>The part before it: the commits that take part.\<close>

lemma push_patch_start:
  assumes run: "push_patch g pn m l (t, x, i) = (r, s')" and ok: "trans_ok t"
    and pn: "pn \<in> set (tr_unapplied t) \<union> set (tr_hidden t)"
  obtains (started) d pc op where "trans_get t pn = Some \<lparr>ps_commit = pc\<rparr>"
      "c_parents pc \<noteq> []" "c_id op = hd (c_parents pc)" "objects (tr_repo t) (hd (c_parents pc)) = Some op"
      "sbind (push_merge g pn m pc op (top_commit t)) (\<lambda>(tree, st). lift_t (sbind
         (push_commit g pn d pc op (top_commit t) tree st) (push_finish pn l))) (t, x, i) = (r, s')"
  | (failed) e where "s' = (t, x, i)" "r = Err e" "no_conflict e"
proof -
  from pn obtain pc where get: "trans_get t pn = Some \<lparr>ps_commit = pc\<rparr>"
    using trans_ok_get [OF ok, of pn] by (metis UnE UnI2 option.exhaust_sel patch_state.cases set_append)
  have pc: "(get_patch_commit (trans_view t) pn :: (trans_error, commit) outcome) = Ok pc" using get by (simp add: get_patch_commit_def)
  obtain dcr where dc: "committer_of g t = (dcr, t)" by (simp add: committer_of_def pure_def)
  note dcr = committer_of_run [OF dc]
  have steps: "(r, s') = sbind (\<lambda>s. (dcr, s)) (\<lambda>d. sbind (\<lambda>s. (get_parent_commit (tr_repo t) pc, s))
      (\<lambda>op. sbind (push_merge g pn m pc op (top_commit t)) (\<lambda>(tree, st). lift_t (sbind
         (push_commit g pn d pc op (top_commit t) tree st) (push_finish pn l))))) (t, x, i)"
    using run dc pc t_top_ok [OF ok]
    by (cases dcr; cases "get_parent_commit (tr_repo t) pc")
       (simp_all add: push_patch_def sbind_def lift_t_def patch_commit_of_def parent_of_def pure_def top_commit_def)
  show ?thesis
  proof (cases "\<exists>d op. dcr = Ok d \<and> get_parent_commit (tr_repo t) pc = Ok op")
    case True
    then obtain d op where "dcr = Ok d" and op: "get_parent_commit (tr_repo t) pc = Ok op" by blast
    then show ?thesis
      using that(1) [OF get, of op d] steps get_parent_commit_OkD [OF op] odb_okD [OF trans_ok_odb [OF ok]]
      by (simp add: sbind_def)
  next
    case False
    have "no_conflict e" if "get_parent_commit (tr_repo t) pc = Err e" for e
      using that by (auto simp: get_parent_commit_def no_conflict_def split: list.splits option.splits)
    with False dcr steps that(2) show ?thesis
      by (cases dcr; cases "get_parent_commit (tr_repo t) pc") (auto simp: sbind_def)
  qed
qed

lemma push_patch_cases:
  assumes run: "push_patch g pn m l (t, x, i) = (r, s')" and ok: "trans_ok t"
    and pn: "pn \<in> set (tr_unapplied t) \<union> set (tr_hidden t)"
  obtains (pushed) t' z where "s' = (t', z)" "r = Ok ()" "trans_ok t'" "pushed pn t t'"
  | (conflict) t' z where "s' = (t', z)" "r = Err (TransactionHalt conflict_msg True)" "trans_ok t'"
      "pushed pn t t'" "o_conflict_mode (tr_options t') = CM_Allow"
  | (failed) t' z e where "s' = (t', z)" "r = Err e" "no_conflict e" "trans_ok t'" "same_patches t t'"
  using run ok pn
proof (cases rule: push_patch_start)
  case (failed e)
  then show ?thesis using that(3) [OF _ _ _ ok same_patches_refl] by blast
next
  case (started d pc op)
  let ?merge = "push_merge g pn m pc op (top_commit t)"
  let ?tail = "\<lambda>tree st. sbind (push_commit g pn d pc op (top_commit t) tree st) (push_finish pn l)"
  obtain mr t1 z where mg: "?merge (t, x, i) = (mr, (t1, z))" by (metis prod.exhaust)
  have w0: "worked_p t (t, x, i)" by (simp add: worked_p_def worked_refl)
  note mt = triple_OkD [OF push_merge_worked w0] triple_ErrD [OF push_merge_worked w0]
    triple_no_panic [OF push_merge_worked w0, of g pn m pc op "top_commit t"]
  have w1: "worked t t1"
  proof (cases mr)
    case (Ok ts)
    then show ?thesis using mt(1) [OF mg [unfolded Ok]] by (simp add: worked_p_def)
  next
    case (Err e)
    then show ?thesis using mt(2) [OF mg [unfolded Err]] by (simp add: worked_p_def)
  next
    case Panic
    then show ?thesis using mt(3) mg by simp
  qed
  note same = worked_same [OF w1]
  have ok1: "trans_ok t1" using trans_ok_same [OF ok same] worked_odb [OF w1] trans_ok_odb [OF ok] by simp
  show ?thesis
  proof (cases mr)
    case Panic
    then show ?thesis using mt(3) mg by simp
  next
    case (Err e)
    then have "no_conflict e" using mt(2) mg by blast
    moreover have "s' = (t1, z) \<and> r = Err e" using started(5) mg Err by (simp add: sbind_def)
    ultimately show ?thesis using that(3) ok1 same by blast
  next
    case (Ok ts)
    obtain tree st where ts: "ts = (tree, st)" by fastforce
    obtain q t2 where q: "?tail tree st t1 = (q, t2)" by fastforce
    have r: "r = q \<and> s' = (t2, z)" using started(5) mg Ok ts q by (simp add: sbind_def lift_t_def)
    have get1: "trans_get t1 pn = Some \<lparr>ps_commit = pc\<rparr>" using started(1) same_patches_get [OF same] by simp
    have pn1: "pn \<in> set (tr_unapplied t1) \<union> set (tr_hidden t1)" using pn same by (simp add: same_patches_def)
    have q1: "sbind (push_commit g pn d pc op (top_commit t1) tree st) (push_finish pn l) t1 = (q, t2)"
      using q same_patches_top [OF same] by simp
    from q1 ok1 pn1 get1 started(2,3) show ?thesis
    proof (cases rule: push_tail_cases)
      case pushed
      then show ?thesis using that(1) r pushed_same [OF same] by blast
    next
      case conflict
      then show ?thesis using that(2) r pushed_same [OF same] by blast
    next
      case (failed e)
      then show ?thesis using that(3) r ok1 same by blast
    qed
  qed
qed

end
