(* ===== verification/Push_List.thy ===== *)
theory Push_List
  imports Push_Inv
begin

text \<open>
  Pushing a list of patches: what \<open>push_patches\<close> has done when it succeeds, when it halts
  with a conflict and when it fails.  The chain of commits is kept in every case.
\<close>

section \<open>Already merged patches\<close>

definition kept :: "'w transaction \<Rightarrow> ('x, 'w) pushing \<Rightarrow> bool" where
  "kept t s \<longleftrightarrow> same_patches t (fst s) \<and> tr_repo (fst s) = tr_repo t"

abbreviation stopped :: "'w transaction \<Rightarrow> trans_error \<Rightarrow> ('x, 'w) pushing \<Rightarrow> bool" where
  "stopped t e s \<equiv> kept t s \<and> no_conflict e"

lemma is_no_change_err: "is_no_change repo c = Err e \<Longrightarrow> no_conflict e"
  by (auto simp: is_no_change_def no_conflict_def split: list.splits option.splits)

lemma get_parent_err: "get_parent_commit repo c = Err e \<Longrightarrow> no_conflict e"
  by (auto simp: get_parent_commit_def no_conflict_def split: list.splits option.splits)

lemma kept_pure:
  assumes "\<And>u. same_patches t u \<Longrightarrow> f u \<noteq> Panic" and "\<And>u e. f u = Err e \<Longrightarrow> no_conflict e"
  shows "triple (kept t) (lift_t (pure f)) (\<lambda>_. kept t) (stopped t)"
  unfolding triple_def lift_t_def pure_def kept_def
  using assms by (auto split: outcome.split)

lemma check_merged_step_kept:
  assumes "trans_get t pn \<noteq> None"
  shows "triple (kept t) (check_merged_step g pn merged) (\<lambda>_. kept t) (stopped t)"
proof -
  have known: "triple (kept t) (lift_t (patch_commit_of pn)) (\<lambda>_. kept t) (stopped t)"
    unfolding patch_commit_of_def
    by (rule kept_pure) (use assms in \<open>auto simp: same_patches_get get_patch_commit_def\<close>)
  have same: "triple (kept t) (lift_t (pure (\<lambda>t. is_no_change (tr_repo t) c))) (\<lambda>_. kept t) (stopped t)" for c
    by (rule kept_pure) (auto dest: is_no_change_err)
  have parent: "triple (kept t) (lift_t (parent_of c)) (\<lambda>_. kept t) (stopped t)" for c
    unfolding parent_of_def by (rule kept_pure) (auto dest: get_parent_err)
  show ?thesis
    unfolding check_merged_step_def
    by (intro inv_rules known same parent)
       (auto simp: triple_def kept_def no_conflict_def split: prod.splits sum.splits bool.splits)
qed

lemma check_merged_loop_kept:
  "(\<And>pn. pn \<in> set pns \<Longrightarrow> trans_get t pn \<noteq> None) \<Longrightarrow>
   triple (kept t) (check_merged_loop g pns merged) (\<lambda>_. kept t) (stopped t)"
proof (induction pns arbitrary: merged)
  case (Cons pn pns)
  then show ?case by (auto intro!: inv_bind check_merged_step_kept)
qed (simp add: inv_rules)

lemma check_merged_kept:
  assumes "\<And>pn. pn \<in> set pns \<Longrightarrow> trans_get t pn \<noteq> None"
  shows "triple (kept t) (check_merged g pns) (\<lambda>_. kept t) (stopped t)"
proof -
  have read: "triple (kept t) (temp_read g tree) (\<lambda>_. kept t) (stopped t)" for tree
    by (auto simp: triple_def temp_read_def kept_def no_conflict_def split: sum.splits)
  have head: "triple (kept t) (lift_t (gets f)) (\<lambda>_. kept t) (stopped t)" for f
    by (rule tripleI) (auto simp: lift_t_run)
  have out: "triple (kept t) (lift_t (print f)) (\<lambda>_. kept t) (stopped t)" for f
    by (rule tripleI) (auto simp: lift_t_run print_def kept_def same_patches_def)
  show ?thesis
    unfolding check_merged_def
    by (intro inv_rules read head out check_merged_loop_kept) (use assms in auto)
qed

section \<open>A list of pushes\<close>

fun pushed_list :: "patch_name list \<Rightarrow> 'w transaction \<Rightarrow> 'w transaction \<Rightarrow> bool" where
  "pushed_list [] t t' \<longleftrightarrow> same_patches t t'"
| "pushed_list (pn # pns) t t' \<longleftrightarrow> (\<exists>t1. pushed pn t t1 \<and> pushed_list pns t1 t')"

lemma pushed_list_same: "same_patches t t1 \<Longrightarrow> pushed_list pns t1 t' \<Longrightarrow> pushed_list pns t t'"
  by (cases pns) (auto intro: same_patches_trans pushed_same)

lemma pushed_chain:
  assumes "pushed pn t t'" "chain_ok t" "pn \<notin> set (tr_applied t)"
  shows "chain_ok t'"
proof -
  have "t_base t' = t_base t" using assms(1) by (simp add: pushed_def t_base_def split: option.split)
  then show ?thesis
    using assms by (auto simp: pushed_def chain_ok_def top_commit_def)
qed

lemma pushed_list_sel:
  assumes "pushed_list pns t t'"
  shows "tr_applied t' = tr_applied t @ pns \<and> tr_unapplied t' = foldl (\<lambda>l pn. remove1 pn l) (tr_unapplied t) pns \<and>
    tr_hidden t' = foldl (\<lambda>l pn. remove1 pn l) (tr_hidden t) pns \<and> tr_stack t' = tr_stack t \<and>
    tr_updated_base t' = tr_updated_base t \<and> (\<forall>pn. pn \<notin> set pns \<longrightarrow> trans_get t' pn = trans_get t pn)"
  using assms
proof (induction pns arbitrary: t)
  case Nil
  then show ?case using same_patches_get [of t t'] by (simp add: same_patches_def)
next
  case (Cons pn pns)
  then obtain t1 where p: "pushed pn t t1" and l: "pushed_list pns t1 t'" by auto
  from Cons.IH [OF l] p show ?case by (auto simp: pushed_def)
qed

lemma pushed_list_chain:
  assumes "pushed_list pns t t'" "chain_ok t" "distinct (tr_applied t @ pns)"
  shows "chain_ok t'"
  using assms
proof (induction pns arbitrary: t)
  case Nil
  then show ?case using same_patches_chain by auto
next
  case (Cons pn pns)
  then obtain t1 where p: "pushed pn t t1" and l: "pushed_list pns t1 t'" by auto
  have "chain_ok t1" using pushed_chain [OF p] Cons.prems by simp
  moreover have "distinct (tr_applied t1 @ pns)" using p Cons.prems by (auto simp: pushed_def)
  ultimately show ?case using Cons.IH [OF l] by blast
qed

lemma remove1_list: "distinct l \<Longrightarrow> foldl (\<lambda>l pn. remove1 pn l) l pns = filter (\<lambda>q. q \<notin> set pns) l"
proof (induction pns arbitrary: l)
  case (Cons pn pns)
  have "foldl (\<lambda>l pn. remove1 pn l) (remove1 pn l) pns = filter (\<lambda>q. q \<notin> set pns) (remove1 pn l)"
    using Cons by (simp add: distinct_remove1)
  moreover have "remove1 pn l = filter (\<lambda>q. q \<noteq> pn) l"
    using Cons.prems by (simp add: distinct_remove1_removeAll removeAll_filter_not_eq neq_commute [of pn])
  ultimately show ?case by (auto intro: filter_cong)
qed simp

definition pushable :: "'w transaction \<Rightarrow> patch_name list \<Rightarrow> bool" where
  "pushable t pns \<longleftrightarrow> distinct pns \<and> set pns \<subseteq> set (tr_unapplied t) \<union> set (tr_hidden t)"

lemma pushable_tl:
  assumes "pushable t (pn # pns)" "pushed pn t t1" "trans_ok t"
  shows "pushable t1 pns"
proof -
  have "distinct (tr_unapplied t)" "distinct (tr_hidden t)" using trans_ok_distinct [OF assms(3)] by auto
  then show ?thesis using assms(1,2) by (auto simp: pushable_def pushed_def)
qed

lemma pushable_same: "pushable t pns \<Longrightarrow> same_patches t t' \<Longrightarrow> pushable t' pns"
  by (simp add: pushable_def same_patches_def)

text \<open>
  The outcomes of pushing a list: all of it; a first part, the last of which conflicts; or a
  first part, after which the next patch could not be pushed at all.
\<close>

definition push_outcome ::
  "patch_name list \<Rightarrow> (trans_error, unit) outcome \<Rightarrow> 'w transaction \<Rightarrow> 'w transaction \<Rightarrow> bool" where
  "push_outcome pns r t t' \<longleftrightarrow>
     trans_ok t' \<and>
     (r = Ok () \<and> pushed_list pns t t' \<or>
      (\<exists>k<length pns. r = Err (TransactionHalt conflict_msg True) \<and> pushed_list (take (Suc k) pns) t t' \<and>
         o_conflict_mode (tr_options t') = CM_Allow) \<or>
      (\<exists>k\<le>length pns. \<exists>e. r = Err e \<and> no_conflict e \<and> pushed_list (take k pns) t t'))"

lemma push_outcome_step:
  assumes "pushed pn t t1" "push_outcome pns r t1 t'"
  shows "push_outcome (pn # pns) r t t'"
proof -
  from assms(2) have ok: "trans_ok t'" by (simp add: push_outcome_def)
  from assms(2) consider "r = Ok ()" "pushed_list pns t1 t'"
    | k where "k < length pns" "r = Err (TransactionHalt conflict_msg True)" "pushed_list (take (Suc k) pns) t1 t'"
        "o_conflict_mode (tr_options t') = CM_Allow"
    | k e where "k \<le> length pns" "r = Err e" "no_conflict e" "pushed_list (take k pns) t1 t'"
    by (auto simp: push_outcome_def)
  then show ?thesis
  proof cases
    case 1
    then show ?thesis using ok assms(1) by (auto simp: push_outcome_def)
  next
    case 2
    then have "pushed_list (take (Suc (Suc k)) (pn # pns)) t t'" using assms(1) by auto
    with 2 ok show ?thesis unfolding push_outcome_def by (metis Suc_mono length_Cons)
  next
    case 3
    then have "pushed_list (take (Suc k) (pn # pns)) t t'" using assms(1) by auto
    with 3 ok show ?thesis unfolding push_outcome_def by (metis Suc_le_mono length_Cons)
  qed
qed

lemma push_loop_outcome:
  assumes "push_loop g merged pns (t, x, i) = (r, (t', z))" "trans_ok t" "pushable t pns"
  shows "push_outcome pns r t t'"
  using assms
proof (induction pns arbitrary: t x i)
  case Nil
  then show ?case by (auto simp: push_outcome_def same_patches_refl)
next
  case (Cons pn pns)
  obtain q s1 where q: "push_patch g pn (pn \<in> set merged) (pns = []) (t, x, i) = (q, s1)" by (meson surj_pair)
  have pn: "pn \<in> set (tr_unapplied t) \<union> set (tr_hidden t)" using Cons.prems(3) by (simp add: pushable_def)
  have r: "(case q of Ok u \<Rightarrow> push_loop g merged pns s1 | Err e \<Rightarrow> (Err e, s1) | Panic \<Rightarrow> (Panic, s1)) = (r, (t', z))"
    using Cons.prems(1) q by (simp add: sthen_def sbind_def)
  from q Cons.prems(2) pn show ?case
  proof (cases rule: push_patch_cases)
    case (pushed t1 z1)
    obtain x1 i1 where "z1 = (x1, i1)" by fastforce
    then have "push_outcome pns r t1 t'"
      using Cons.IH [of t1 x1 i1] r pushed pushable_tl [OF Cons.prems(3) pushed(4) Cons.prems(2)] by simp
    then show ?thesis by (rule push_outcome_step [OF pushed(4)])
  next
    case (conflict t1 z1)
    then have "t1 = t'" "r = Err (TransactionHalt conflict_msg True)" using r by auto
    moreover have "pushed_list (take (Suc 0) (pn # pns)) t t'"
      using conflict(4) \<open>t1 = t'\<close> same_patches_refl by auto
    ultimately show ?thesis unfolding push_outcome_def using conflict(3,5) by (metis length_Cons zero_less_Suc)
  next
    case (failed t1 z1 e)
    then have "t1 = t'" "r = Err e" using r by auto
    moreover have "pushed_list (take 0 (pn # pns)) t t'" using failed(5) \<open>t1 = t'\<close> by simp
    ultimately show ?thesis unfolding push_outcome_def using failed(3,4) by blast
  qed
qed

end
