(* ===== verification/Trans_Ops.thy ===== *)
theory Trans_Ops
  imports Push_List
begin

text \<open>
  The operations composed of pops and pushes: what they do when every push succeeds, and that they
  keep the invariants when one does not.
\<close>

section \<open>Pushing\<close>

lemma push_patches_outcome:
  assumes run: "push_patches g pns cm t = (r, t')" and ok: "trans_ok t" and pns: "pushable t pns"
  shows "push_outcome pns r t t'"
proof (cases "x_new g")
  case (Inl e)
  then have "r = Err (OtherError e)" "t' = t" using run by (auto simp: push_patches_def)
  moreover have "pushed_list (take 0 pns) t t" by (simp add: same_patches_refl)
  ultimately show ?thesis using ok unfolding push_outcome_def no_conflict_def by blast
next
  case (Inr x)
  have known: "trans_get t pn \<noteq> None" if "pn \<in> set pns" for pn
    using that pns trans_ok_get [OF ok, of pn] by (auto simp: pushable_def)
  obtain q u x1 i1 where q: "(if cm then check_merged g pns else ret []) (t, x, None) = (q, (u, x1, i1))"
    by (metis surj_pair)
  have T: "triple (kept t) (if cm then check_merged g pns else ret []) (\<lambda>_. kept t) (stopped t)"
    using check_merged_kept [of pns t g] known by (simp add: inv_rules)
  have k0: "kept t (t, x, None)" by (simp add: kept_def same_patches_refl)
  have m: "q = Ok a \<Longrightarrow> kept t (u, x1, i1)" "q = Err e \<Longrightarrow> stopped t e (u, x1, i1)" "q \<noteq> Panic" for a e
    using q triple_OkD [OF T k0] triple_ErrD [OF T k0] triple_PanicD [OF T k0] by blast+
  obtain s where s: "sbind (if cm then check_merged g pns else ret []) (\<lambda>merged. push_loop g merged pns)
      (t, x, None) = (r, (t', s))"
    using run Inr by (auto simp: push_patches_def split: prod.splits)
  show ?thesis
  proof (cases q)
    case (Ok merged)
    then have k: "same_patches t u" "tr_repo u = tr_repo t" using m(1) by (auto simp: kept_def)
    have ok1: "trans_ok u" using trans_ok_same [OF ok k(1)] k(2) trans_ok_odb [OF ok] by simp
    have "push_loop g merged pns (u, x1, i1) = (r, (t', s))" using s q Ok by (simp add: sbind_def)
    then have "push_outcome pns r u t'"
      using push_loop_outcome ok1 pushable_same [OF pns k(1)] by (metis surj_pair)
    then show ?thesis unfolding push_outcome_def using pushed_list_same [OF k(1)] by blast
  next
    case (Err e)
    then have "same_patches t u" "tr_repo u = tr_repo t" "no_conflict e" using m(2) by (auto simp: kept_def)
    moreover have "r = Err e" "t' = u" using s q Err by (auto simp: sbind_def)
    moreover have "trans_ok u" using trans_ok_same [OF ok] calculation(1,2) trans_ok_odb [OF ok] by simp
    moreover have "pushed_list (take 0 pns) t u" using calculation(1) by simp
    ultimately show ?thesis unfolding push_outcome_def by blast
  qed (use m(3) in simp)
qed

lemma push_outcome_ok: "push_outcome pns r t t' \<Longrightarrow> trans_ok t'"
  by (simp add: push_outcome_def)

lemma push_outcome_no_panic: "push_outcome pns r t t' \<Longrightarrow> r \<noteq> Panic"
  by (auto simp: push_outcome_def)

lemma push_outcome_list:
  assumes "push_outcome pns r t t'"
  obtains k where "pushed_list (take k pns) t t'" "r = Ok () \<Longrightarrow> take k pns = pns"
proof -
  from assms consider "r = Ok ()" "pushed_list pns t t'" | k e where "r = Err e" "pushed_list (take k pns) t t'"
    by (auto simp: push_outcome_def)
  then show ?thesis using that [of "length pns"] that by cases auto
qed

lemma push_outcome_chain:
  assumes out: "push_outcome pns r t t'" and ch: "chain_ok t" and ok: "trans_ok t" and pns: "pushable t pns"
  shows "chain_ok t'"
proof -
  from out obtain k where k: "pushed_list (take k pns) t t'" by (rule push_outcome_list)
  have "distinct (take k pns)" "set (take k pns) \<subseteq> set (tr_unapplied t) \<union> set (tr_hidden t)"
    using pns by (auto simp: pushable_def dest: in_set_takeD)
  then have "distinct (tr_applied t @ take k pns)" using trans_ok_distinct [OF ok] by auto
  then show ?thesis by (rule pushed_list_chain [OF k ch])
qed

lemma pushed_list_lists:
  assumes "pushed_list pns t t'" "trans_ok t"
  shows "tr_applied t' = tr_applied t @ pns"
    and "tr_unapplied t' = filter (\<lambda>q. q \<notin> set pns) (tr_unapplied t)"
    and "tr_hidden t' = filter (\<lambda>q. q \<notin> set pns) (tr_hidden t)"
    and "tr_stack t' = tr_stack t" and "t_base t' = t_base t"
    and "pn \<notin> set pns \<Longrightarrow> trans_get t' pn = trans_get t pn"
  using pushed_list_sel [OF assms(1)] trans_ok_distinct [OF assms(2)]
  by (auto simp: remove1_list t_base_def split: option.split)

section \<open>Reordering\<close>

lemma common_prefix_len:
  shows "take (common_prefix_len xs ys) xs = take (common_prefix_len xs ys) ys"
    and "common_prefix_len xs ys \<le> length xs" and "common_prefix_len xs ys \<le> length ys"
proof -
  let ?n = "common_prefix_len xs ys"
  have n: "?n \<le> length (zip xs ys)" unfolding common_prefix_len_def by (rule length_takeWhile_le)
  then show "?n \<le> length xs" "?n \<le> length ys" by auto
  show "take ?n xs = take ?n ys"
  proof (rule nth_equalityI)
    show "length (take ?n xs) = length (take ?n ys)" using n by auto
    fix i assume "i < length (take ?n xs)"
    then have i: "i < ?n" by simp
    then have "zip xs ys ! i = takeWhile (\<lambda>(old, new). old = new) (zip xs ys) ! i"
      by (simp add: common_prefix_len_def takeWhile_nth)
    moreover have "(\<lambda>(old, new). old = new) (takeWhile (\<lambda>(old, new). old = new) (zip xs ys) ! i)"
      using i unfolding common_prefix_len_def by (meson nth_mem set_takeWhileD)
    ultimately have "(\<lambda>(old, new). old = new) (zip xs ys ! i)" by simp
    then show "take ?n xs ! i = take ?n ys ! i" using i n by simp
  qed
qed

text \<open>Popping everything from a position on.\<close>

lemma popped_from:
  assumes "distinct (tr_applied t)"
  shows "tr_applied (popped (\<lambda>pn. pn \<in> set (drop n (tr_applied t))) t) = take n (tr_applied t)"
    and "popped_of (\<lambda>pn. pn \<in> set (drop n (tr_applied t))) t = drop n (tr_applied t)"
proof -
  let ?p = "\<lambda>pn. pn \<in> set (drop n (tr_applied t))"
  have d: "set (take n (tr_applied t)) \<inter> set (drop n (tr_applied t)) = {}"
    using assms by (metis append_take_drop_id distinct_append)
  have "takeWhile (\<lambda>pn. \<not> ?p pn) (take n (tr_applied t) @ drop n (tr_applied t)) = take n (tr_applied t)"
    using d by (subst takeWhile_append2) (auto simp: takeWhile_eq_Nil_iff dest: hd_in_set)
  moreover have "dropWhile (\<lambda>pn. \<not> ?p pn) (take n (tr_applied t) @ drop n (tr_applied t)) = drop n (tr_applied t)"
    using d by (subst dropWhile_append2) (auto simp: dropWhile_eq_self_iff)
  ultimately show "tr_applied (popped ?p t) = take n (tr_applied t)"
    and "popped_of ?p t = drop n (tr_applied t)"
    by (simp_all add: popped_def popped_of_def)
qed

lemma filter_all_in: "filter (\<lambda>x. x \<notin> set xs) xs = []" "filter (\<lambda>x. x \<in> set xs) xs = xs"
  by (simp_all add: filter_empty_conv filter_id_conv)

lemma filter_out_disjoint: "set xs \<inter> set ys = {} \<Longrightarrow> filter (\<lambda>x. x \<notin> set xs) ys = ys"
  by (auto simp: filter_id_conv)

lemma filter_out_prefix: "set xs \<inter> set ys = {} \<Longrightarrow> filter (\<lambda>x. x \<notin> set xs) (xs @ ys) = ys"
  by (simp add: filter_all_in filter_out_disjoint)

definition reordered :: "patch_name list \<Rightarrow> 'w transaction \<Rightarrow> 'w transaction \<Rightarrow> bool" where
  "reordered ap t t' \<longleftrightarrow>
     tr_applied t' = ap \<and>
     tr_unapplied t' = filter (\<lambda>q. q \<notin> set ap)
       (drop (common_prefix_len (tr_applied t) ap) (tr_applied t) @ tr_unapplied t) \<and>
     tr_hidden t' = filter (\<lambda>q. q \<notin> set ap) (tr_hidden t) \<and>
     tr_stack t' = tr_stack t \<and> t_base t' = t_base t \<and>
     (\<forall>pn. pn \<notin> set ap \<longrightarrow> trans_get t' pn = trans_get t pn)"

lemma reorder_prefix_pushable:
  fixes t :: "'w transaction"
  assumes ok: "trans_ok t" and ap: "distinct ap" "set ap \<subseteq> set (all_patches (trans_view t))"
  defines "n \<equiv> common_prefix_len (tr_applied t) ap"
  defines "p \<equiv> \<lambda>pn. pn \<in> set (drop n (tr_applied t))"
  shows "pushable (popped p t) (drop n ap)"
    and "tr_applied (popped p t) = take n ap"
    and "tr_unapplied (popped p t) = drop n (tr_applied t) @ tr_unapplied t"
proof -
  have d: "distinct (tr_applied t)" using trans_ok_distinct [OF ok] by simp
  note pop = popped_from [OF d, of n]
  show a: "tr_applied (popped p t) = take n ap"
    using pop(1) common_prefix_len(1) [of "tr_applied t" ap] by (simp add: p_def n_def)
  show u: "tr_unapplied (popped p t) = drop n (tr_applied t) @ tr_unapplied t"
    using pop(2) by (simp add: popped_def p_def filter_all_in)
  have "set (drop n ap) \<inter> set (take n ap) = {}"
    using ap(1) by (metis append_take_drop_id distinct_append inf_commute)
  moreover have "take n ap = take n (tr_applied t)" by (simp add: n_def common_prefix_len(1))
  moreover have "set (tr_applied t) = set (take n (tr_applied t)) \<union> set (drop n (tr_applied t))"
    by (metis append_take_drop_id set_append)
  moreover have "set (drop n ap) \<subseteq> set (tr_applied t) \<union> set (tr_unapplied t) \<union> set (tr_hidden t)"
    using ap(2) by (auto dest: in_set_dropD)
  ultimately have "set (drop n ap) \<subseteq> set (drop n (tr_applied t)) \<union> set (tr_unapplied t) \<union> set (tr_hidden t)"
    by auto
  then show "pushable (popped p t) (drop n ap)" using ap(1) by (auto simp: pushable_def u)
qed

lemma reorder_pushed:
  assumes ok: "trans_ok t" and ap: "distinct ap" "set ap \<subseteq> set (all_patches (trans_view t))"
    and l: "pushed_list (drop (common_prefix_len (tr_applied t) ap) ap)
      (popped (\<lambda>pn. pn \<in> set (drop (common_prefix_len (tr_applied t) ap) (tr_applied t))) t) t2"
  shows "reordered ap t t2"
proof -
  let ?n = "common_prefix_len (tr_applied t) ap"
  note pre = reorder_prefix_pushable [OF ok ap]
  note f = pushed_list_lists [OF l popped_ok [OF ok]]
  have same: "q \<notin> set (drop ?n ap) \<longleftrightarrow> q \<notin> set ap"
    if "q \<in> set (drop ?n (tr_applied t) @ tr_unapplied t) \<union> set (tr_hidden t)" for q
  proof -
    have "set ap = set (take ?n (tr_applied t)) \<union> set (drop ?n ap)"
      by (metis append_take_drop_id common_prefix_len(1) set_append)
    moreover have "q \<notin> set (take ?n (tr_applied t))"
      using that trans_ok_distinct [OF ok]
      by (metis Un_iff append_take_drop_id disjoint_iff distinct_append in_set_takeD set_append)
    ultimately show ?thesis by auto
  qed
  have "tr_unapplied t2 = filter (\<lambda>q. q \<notin> set ap) (drop ?n (tr_applied t) @ tr_unapplied t)"
    unfolding f(2) pre(3) using same by (intro filter_cong) auto
  moreover have "tr_hidden t2 = filter (\<lambda>q. q \<notin> set ap) (tr_hidden t)"
    unfolding f(3) using same by (simp cong: filter_cong)
  moreover have "\<forall>pn. pn \<notin> set ap \<longrightarrow> trans_get t2 pn = trans_get t pn"
    using f(6) by (auto dest: in_set_dropD)
  ultimately show ?thesis using f(1,4,5) pre(2) by (simp add: reordered_def)
qed

lemma reorder_applied_outcome:
  assumes run: "reorder_applied g ap t = (r, t')" and ok: "trans_ok t"
    and ap: "distinct ap" "set ap \<subseteq> set (all_patches (trans_view t))"
  shows "r \<noteq> Panic" and "trans_ok t'" and "chain_ok t \<Longrightarrow> chain_ok t'"
    and "r = Ok () \<Longrightarrow> reordered ap t t'"
proof -
  let ?n = "common_prefix_len (tr_applied t) ap"
  let ?p = "\<lambda>pn. pn \<in> set (drop ?n (tr_applied t))"
  let ?t1 = "popped ?p t"
  note pre = reorder_prefix_pushable [OF ok ap]
  have ok1: "trans_ok ?t1" by (rule popped_ok [OF ok])
  obtain q t2 where q: "push_patches g (drop ?n ap) False ?t1 = (q, t2)" by fastforce
  have out: "push_outcome (drop ?n ap) q ?t1 t2" by (rule push_patches_outcome [OF q ok1 pre(1)])
  have ok2: "trans_ok t2" by (rule push_outcome_ok [OF out])
  have ch2: "chain_ok t2" if "chain_ok t"
    by (rule push_outcome_chain [OF out popped_chain [OF that] ok1 pre(1)])
  have now: "reordered ap t t2" if "q = Ok ()"
    using out that reorder_pushed [OF ok ap] by (auto simp: push_outcome_def)
  have step: "reorder_applied g ap t = (case q of
      Ok _ \<Rightarrow> sthen (sassert (tr_applied t2 = ap)) (if drop ?n ap = [] \<and> ap \<noteq> []
           then print (print_pushed (last ap) PS_Unmodified True) else ret ()) t2
    | Err e \<Rightarrow> (Err e, t2) | Panic \<Rightarrow> (Panic, t2))"
    using q by (cases q) (simp_all add: reorder_applied_def Let_def pop_patches_run sthen_def sbind_def gets_def)
  have "(r = Ok () \<and> reordered ap t t2 \<and> (t' = t2 \<or> (\<exists>u. t' = t2\<lparr>tr_ui := u\<rparr>))) \<or> (\<exists>e. r = Err e \<and> t' = t2)"
  proof (cases q)
    case (Ok u)
    then have re: "reordered ap t t2" using now by simp
    then have "tr_applied t2 = ap" by (simp add: reordered_def)
    then show ?thesis using run step Ok re
      by (auto simp: sthen_def sbind_def sassert_def ret_def print_def modify_def split: if_splits)
  next
    case (Err e)
    then show ?thesis using run step by auto
  qed (use push_outcome_no_panic [OF out] in simp)
  moreover have "trans_ok (t2\<lparr>tr_ui := u\<rparr>)" for u
    by (rule trans_ok_same [OF ok2]) (simp_all add: same_patches_def trans_ok_odb [OF ok2])
  moreover have "chain_ok (t2\<lparr>tr_ui := u\<rparr>) = chain_ok t2" for u by (simp add: chain_ok_def)
  moreover have "reordered ap t (t2\<lparr>tr_ui := u\<rparr>) = reordered ap t t2" for u by (simp add: reordered_def)
  ultimately show "r \<noteq> Panic" "trans_ok t'" "chain_ok t \<Longrightarrow> chain_ok t'" "r = Ok () \<Longrightarrow> reordered ap t t'"
    using ok2 ch2 by auto
qed

lemma trans_ok_relist:
  assumes ok: "trans_ok t" and ok1: "trans_ok t1"
    and get: "\<And>pn. trans_get t1 pn \<noteq> None \<longleftrightarrow> trans_get t pn \<noteq> None"
    and m: "mset (tr_applied t1 @ un @ hi) = mset (all_patches (trans_view t))"
  shows "trans_ok (t1\<lparr>tr_unapplied := un, tr_hidden := hi\<rparr>)"
proof (rule trans_ok_rearrange [OF ok1])
  have "set (tr_applied t1 @ tr_unapplied t1 @ tr_hidden t1) = set (all_patches (trans_view t))"
    using trans_ok_get [OF ok] trans_ok_get [OF ok1] get by (simp add: set_eq_iff)
  then have "mset (tr_applied t1 @ tr_unapplied t1 @ tr_hidden t1) = mset (all_patches (trans_view t))"
    using trans_ok_distinct [OF ok] trans_ok_distinct [OF ok1]
    by (metis all_patches_trans set_eq_iff_mset_eq_distinct)
  with m show "mset (tr_applied (t1\<lparr>tr_unapplied := un, tr_hidden := hi\<rparr>) @
      tr_unapplied (t1\<lparr>tr_unapplied := un, tr_hidden := hi\<rparr>) @
      tr_hidden (t1\<lparr>tr_unapplied := un, tr_hidden := hi\<rparr>)) =
      mset (tr_applied t1 @ tr_unapplied t1 @ tr_hidden t1)" by simp
qed (simp_all add: trans_ok_odb [OF ok1])

text \<open>\<open>reorder_patches\<close> with lists that rearrange the patches of the stack.\<close>

lemma reorder_patches_outcome:
  assumes run: "reorder_patches g ap (Some un) (Some hi) t = (r, t')" and ok: "trans_ok t"
    and m: "mset ((case ap of Some a \<Rightarrow> a | None \<Rightarrow> tr_applied t) @ un @ hi) = mset (all_patches (trans_view t))"
  shows "r \<noteq> Panic" and "trans_ok t'" and "chain_ok t \<Longrightarrow> chain_ok t'"
    and "r = Ok () \<Longrightarrow> tr_applied t' = (case ap of Some a \<Rightarrow> a | None \<Rightarrow> tr_applied t) \<and>
           tr_unapplied t' = un \<and> tr_hidden t' = hi \<and> tr_stack t' = tr_stack t \<and> t_base t' = t_base t \<and>
           (\<forall>pn. pn \<notin> set (case ap of Some a \<Rightarrow> a | None \<Rightarrow> []) \<longrightarrow> trans_get t' pn = trans_get t pn)"
proof -
  let ?a = "case ap of Some a \<Rightarrow> a | None \<Rightarrow> tr_applied t"
  have d: "distinct (?a @ un @ hi)"
    using m trans_ok_distinct [OF ok] by (metis all_patches_trans mset_eq_imp_distinct_iff)
  have sub: "set ?a \<subseteq> set (all_patches (trans_view t))"
    using m by (metis Un_upper1 mset_eq_setD set_append)
  let ?first = "case ap of Some a \<Rightarrow> reorder_applied g a | None \<Rightarrow> ret ()"
  obtain q t1 where q: "?first t = (q, t1)" by fastforce
  have f: "q \<noteq> Panic \<and> trans_ok t1 \<and> (chain_ok t \<longrightarrow> chain_ok t1) \<and>
      (q = Ok () \<longrightarrow> tr_applied t1 = ?a \<and> tr_stack t1 = tr_stack t \<and> t_base t1 = t_base t \<and>
        (\<forall>pn. pn \<notin> set (case ap of Some a \<Rightarrow> a | None \<Rightarrow> []) \<longrightarrow> trans_get t1 pn = trans_get t pn))"
  proof (cases ap)
    case None
    then show ?thesis using q ok by auto
  next
    case (Some a)
    then have "reorder_applied g a t = (q, t1)" using q by simp
    from reorder_applied_outcome [OF this ok] d sub Some show ?thesis by (simp add: reordered_def)
  qed
  have r: "(r, t') = (case q of Ok _ \<Rightarrow> (Ok (), t1\<lparr>tr_unapplied := un, tr_hidden := hi\<rparr>)
      | Err e \<Rightarrow> (Err e, t1) | Panic \<Rightarrow> (Panic, t1))"
    using run q by (cases q) (auto simp: reorder_patches_def sthen_def sbind_def modify_def)
  have ok': "trans_ok (t1\<lparr>tr_unapplied := un, tr_hidden := hi\<rparr>)" if "q = Ok ()"
  proof (rule trans_ok_relist [OF ok])
    show "trans_ok t1" using f by simp
    show "mset (tr_applied t1 @ un @ hi) = mset (all_patches (trans_view t))" using f that m by simp
    show "trans_get t1 pn \<noteq> None \<longleftrightarrow> trans_get t pn \<noteq> None" for pn
    proof (cases "pn \<in> set ?a")
      case True
      then have "pn \<in> set (tr_applied t1)" "pn \<in> set (all_patches (trans_view t))" using f that sub by auto
      then show ?thesis using trans_ok_get [of t1 pn] trans_ok_get [OF ok, of pn] f by auto
    next
      case False
      then have "pn \<notin> set (case ap of Some a \<Rightarrow> a | None \<Rightarrow> [])" by (auto split: option.splits)
      then show ?thesis using f that by simp
    qed
  qed
  have "q = Ok () \<or> (\<exists>e. q = Err e)" using f by (cases q) auto
  then show "r \<noteq> Panic" "trans_ok t'" "chain_ok t \<Longrightarrow> chain_ok t'"
    "r = Ok () \<Longrightarrow> tr_applied t' = ?a \<and> tr_unapplied t' = un \<and> tr_hidden t' = hi \<and> tr_stack t' = tr_stack t \<and>
       t_base t' = t_base t \<and> (\<forall>pn. pn \<notin> set (case ap of Some a \<Rightarrow> a | None \<Rightarrow> []) \<longrightarrow> trans_get t' pn = trans_get t pn)"
    using r f ok' by (auto simp: chain_ok_def)
qed

section \<open>Committing\<close>

text \<open>
  The names given to \<open>commit_patches\<close> are in stack order, as \<open>stg commit\<close> sorts them.  Then
  the first patch after the common prefix is not to be committed, and popping starts there.
\<close>

lemma commit_prefix:
  assumes d: "distinct (ap @ un)" and tc: "tc = filter P (ap @ un)"
    and n: "n = common_prefix_len ap tc"
  shows "takeWhile (\<lambda>pn. pn \<notin> set (filter (\<lambda>pn. pn \<notin> set tc) (drop n ap))) ap = take n ap"
proof -
  let ?tp = "filter (\<lambda>pn. pn \<notin> set tc) (drop n ap)"
  have pre: "take n ap = take n tc" unfolding n by (rule common_prefix_len(1))
  have le: "n \<le> length ap" "n \<le> length tc" unfolding n by (rule common_prefix_len(2,3))+
  have a: "\<forall>x\<in>set (take n ap). x \<notin> set ?tp" using pre by (auto dest: in_set_takeD)
  have b: "drop n ap = [] \<or> hd (drop n ap) \<in> set ?tp"
  proof (cases "drop n ap")
    case (Cons x xs)
    have "x \<notin> set tc"
    proof
      assume "x \<in> set tc"
      then have "P x" by (auto simp: tc)
      have "filter P (take n ap) = take n ap"
        unfolding pre by (rule filter_True) (auto simp: tc dest: in_set_takeD)
      moreover have "tc = filter P (take n ap) @ filter P (drop n ap @ un)"
        unfolding tc by (metis append.assoc append_take_drop_id filter_append)
      ultimately have "tc = take n ap @ x # filter P (xs @ un)" using Cons \<open>P x\<close> by simp
      moreover have "length (take n ap) = n" using le by simp
      ultimately have "n < length tc" "tc ! n = x" by (metis length_append less_add_same_cancel1 length_greater_0_conv list.discI, metis nth_append_length)
      moreover have "n < length ap" "ap ! n = x"
        using Cons le by (metis drop_eq_Nil linorder_not_less list.discI, metis hd_drop_conv_nth Cons drop_eq_Nil linorder_not_less list.discI list.sel(1))
      ultimately have "n < length (zip ap tc)" "(\<lambda>(old, new). old = new) (zip ap tc ! n)" by auto
      then show False
        using nth_length_takeWhile [of "\<lambda>(old, new). old = new" "zip ap tc"] n
        unfolding common_prefix_len_def by simp
    qed
    then show ?thesis using Cons by simp
  qed simp
  have "takeWhile (\<lambda>pn. pn \<notin> set ?tp) (take n ap @ drop n ap) = take n ap @ takeWhile (\<lambda>pn. pn \<notin> set ?tp) (drop n ap)"
    using a by (subst takeWhile_append2) auto
  moreover have "takeWhile (\<lambda>pn. pn \<notin> set ?tp) (drop n ap) = []"
    using b by (auto simp: takeWhile_eq_Nil_iff)
  ultimately show ?thesis by simp
qed

definition commit_first :: "('x, 'w) git \<Rightarrow> patch_name list \<Rightarrow> patch_name list \<Rightarrow> ('w, patch_name list) tm" where
  "commit_first g ap tc =
     (if common_prefix_len ap tc < length tc then
        let to_push = filter (\<lambda>pn. pn \<notin> set tc) (drop (common_prefix_len ap tc) ap) in
        sthen (pop_patches (\<lambda>pn. pn \<in> set to_push))
       (sthen (push_patches g (drop (common_prefix_len ap tc) tc) False)
              (ret to_push))
      else ret [])"

text \<open>After the first stage the patches to commit are at the bottom of the stack.\<close>

definition at_bottom :: "patch_name list \<Rightarrow> patch_name list \<Rightarrow> 'w transaction \<Rightarrow> 'w transaction \<Rightarrow> bool" where
  "at_bottom tc tp t t1 \<longleftrightarrow>
     (\<exists>rest. tr_applied t1 = tc @ rest \<and> rest @ tp = filter (\<lambda>pn. pn \<notin> set tc) (tr_applied t)) \<and>
     tr_unapplied t1 = tp @ filter (\<lambda>pn. pn \<notin> set tc) (tr_unapplied t) \<and>
     tr_hidden t1 = tr_hidden t \<and> tr_stack t1 = tr_stack t"

lemma commit_first_pushed:
  fixes t :: "'w transaction"
  assumes ok: "trans_ok t" and tc: "tc = filter P (tr_applied t @ tr_unapplied t)"
  defines "n \<equiv> common_prefix_len (tr_applied t) tc"
  defines "tp \<equiv> filter (\<lambda>pn. pn \<notin> set tc) (drop n (tr_applied t))"
  defines "t1 \<equiv> popped (\<lambda>pn. pn \<in> set tp) t"
  shows "pushable t1 (drop n tc)" and "pushed_list (drop n tc) t1 t2 \<Longrightarrow> at_bottom tc tp t t2"
proof -
  let ?ap = "tr_applied t" and ?un = "tr_unapplied t"
  have D: "distinct (?ap @ ?un @ tr_hidden t)" by (rule trans_ok_distinct [OF ok])
  then have d: "distinct (?ap @ ?un)" by auto
  have pre: "take n ?ap = take n tc" unfolding n_def by (rule common_prefix_len(1))
  have tw: "takeWhile (\<lambda>pn. pn \<notin> set tp) ?ap = take n ?ap"
    unfolding tp_def by (rule commit_prefix [OF d tc]) (simp add: n_def)
  then have dw: "dropWhile (\<lambda>pn. pn \<notin> set tp) ?ap = drop n ?ap"
    by (metis append_take_drop_id same_append_eq takeWhile_dropWhile_id)
  have ap1: "tr_applied t1 = take n tc" using tw pre by (simp add: t1_def popped_def)
  have un1: "tr_unapplied t1 = filter (\<lambda>pn. pn \<notin> set tp) (drop n ?ap) @ filter (\<lambda>pn. pn \<in> set tp) (drop n ?ap) @ ?un"
    using dw by (simp add: t1_def popped_def popped_of_def)
  have tp: "filter (\<lambda>pn. pn \<in> set tp) (drop n ?ap) = tp"
    unfolding tp_def by (rule filter_cong) auto
  have dtc: "distinct tc" unfolding tc by (rule distinct_filter [OF d])
  have disj: "set (take n tc) \<inter> set (drop n tc) = {}" using dtc by (metis append_take_drop_id distinct_append)
  have split_ap: "set ?ap = set (take n tc) \<union> set (drop n ?ap)" using pre by (metis append_take_drop_id set_append)
  have sub: "set tc \<subseteq> set ?ap \<union> set ?un" using tc by auto
  have split_tc: "set tc = set (take n tc) \<union> set (drop n tc)" by (metis append_take_drop_id set_append)
  have un1_set: "set (tr_unapplied t1) = set (drop n ?ap) \<union> set ?un" unfolding un1 by auto
  show p: "pushable t1 (drop n tc)"
    unfolding pushable_def un1_set using dtc sub split_ap split_tc disj by auto
  assume l: "pushed_list (drop n tc) t1 t2"
  note f = pushed_list_lists [OF l popped_ok [OF ok, of "\<lambda>pn. pn \<in> set tp", folded t1_def]]
  have out: "x \<notin> set (drop n tc) \<longleftrightarrow> x \<notin> set tc" if "x \<in> set (drop n ?ap @ ?un @ tr_hidden t)" for x
  proof -
    have "x \<notin> set (take n ?ap)"
      using that D by (metis append.assoc append_take_drop_id disjoint_iff distinct_append set_append)
    then show ?thesis using split_tc pre by auto
  qed
  have "filter (\<lambda>x. x \<notin> set (drop n tc)) (tr_unapplied t1) = tp @ filter (\<lambda>pn. pn \<notin> set tc) ?un"
  proof -
    have "filter (\<lambda>x. x \<notin> set (drop n tc)) (tr_unapplied t1) = filter (\<lambda>x. x \<notin> set tc) (tr_unapplied t1)"
      using out un1_set by (intro filter_cong) auto
    also have "\<dots> = tp @ filter (\<lambda>pn. pn \<notin> set tc) ?un"
      unfolding un1 tp by (auto simp: filter_empty_conv tp_def)
    finally show ?thesis .
  qed
  moreover have "filter (\<lambda>x. x \<notin> set (drop n tc)) (tr_hidden t) = tr_hidden t"
    using D sub split_tc by (intro filter_True) auto
  moreover have "tr_applied t2 = tc" using f(1) ap1 by simp
  moreover have "tp = filter (\<lambda>pn. pn \<notin> set tc) ?ap"
  proof -
    have "filter (\<lambda>pn. pn \<notin> set tc) (take n ?ap) = []" using pre by (auto simp: filter_empty_conv dest: in_set_takeD)
    then show ?thesis unfolding tp_def by (metis append_Nil append_take_drop_id filter_append)
  qed
  ultimately show "at_bottom tc tp t t2"
    using f(2-4) by (simp add: at_bottom_def t1_def)
qed

lemma commit_first_outcome:
  assumes run: "commit_first g (tr_applied t) tc t = (q, t1)" and ok: "trans_ok t"
    and tc: "tc = filter P (tr_applied t @ tr_unapplied t)"
  shows "q \<noteq> Panic" and "trans_ok t1" and "chain_ok t \<Longrightarrow> chain_ok t1" and "q = Ok tp \<Longrightarrow> at_bottom tc tp t t1"
proof -
  let ?n = "common_prefix_len (tr_applied t) tc"
  let ?tp = "filter (\<lambda>pn. pn \<notin> set tc) (drop ?n (tr_applied t))"
  let ?t0 = "popped (\<lambda>pn. pn \<in> set ?tp) t"
  have "q \<noteq> Panic \<and> trans_ok t1 \<and> (chain_ok t \<longrightarrow> chain_ok t1) \<and> (q = Ok tp \<longrightarrow> at_bottom tc tp t t1)"
  proof (cases "?n < length tc")
    case True
    note pre = commit_first_pushed [OF ok tc]
    obtain a t2 where a: "push_patches g (drop ?n tc) False ?t0 = (a, t2)" by fastforce
    note out = push_patches_outcome [OF a popped_ok [OF ok] pre(1)]
    have r: "(q, t1) = (case a of Ok _ \<Rightarrow> (Ok ?tp, t2) | Err e \<Rightarrow> (Err e, t2) | Panic \<Rightarrow> (Panic, t2))"
      using run a True by (cases a) (auto simp: commit_first_def Let_def pop_patches_run sthen_def sbind_def ret_def)
    have "a = Ok () \<or> (\<exists>e. a = Err e)" using push_outcome_no_panic [OF out] by (cases a) auto
    moreover have "a = Ok () \<Longrightarrow> at_bottom tc ?tp t t2" using out pre(2) by (auto simp: push_outcome_def)
    moreover have "trans_ok t2" by (rule push_outcome_ok [OF out])
    moreover have "chain_ok t \<Longrightarrow> chain_ok t2"
      by (rule push_outcome_chain [OF out popped_chain popped_ok [OF ok] pre(1)])
    ultimately show ?thesis using r by auto
  next
    case False
    then have n: "?n = length tc" using common_prefix_len(3) [of "tr_applied t" tc] by simp
    then have "take (length tc) (tr_applied t) = tc" using common_prefix_len(1) [of "tr_applied t" tc] by simp
    then have ap: "tr_applied t = tc @ drop (length tc) (tr_applied t)" by (metis append_take_drop_id)
    have d: "distinct (tr_applied t @ tr_unapplied t)" using trans_ok_distinct [OF ok] by auto
    have "filter (\<lambda>pn. pn \<notin> set tc) (tr_applied t) = drop (length tc) (tr_applied t)"
    proof -
      have "set tc \<inter> set (drop (length tc) (tr_applied t)) = {}"
        using d ap by (metis distinct_append)
      then have "filter (\<lambda>pn. pn \<notin> set tc) (tc @ drop (length tc) (tr_applied t)) = drop (length tc) (tr_applied t)"
        by (auto simp: filter_empty_conv filter_id_conv)
      then show ?thesis using ap by simp
    qed
    moreover have "filter (\<lambda>pn. pn \<notin> set tc) (tr_unapplied t) = tr_unapplied t"
      using d ap by (intro filter_True) (metis Un_iff disjoint_iff distinct_append set_append)
    ultimately have "at_bottom tc [] t t" unfolding at_bottom_def using ap by auto
    then show ?thesis using run False ok by (auto simp: commit_first_def)
  qed
  then show "q \<noteq> Panic" "trans_ok t1" "chain_ok t \<Longrightarrow> chain_ok t1" "q = Ok tp \<Longrightarrow> at_bottom tc tp t t1" by auto
qed

text \<open>Turning the bottommost patches into plain commits.\<close>

definition finalized :: "patch_name list \<Rightarrow> commit \<Rightarrow> ui \<Rightarrow> 'w transaction \<Rightarrow> 'w transaction" where
  "finalized tc base u t =
     t\<lparr>tr_ui := u, tr_updated_base := Some base,
       tr_updated_patches := foldl (\<lambda>m pn. bt_insert m pn None) (tr_updated_patches t) tc,
       tr_applied := drop (length tc) (tr_applied t)\<rparr>"

lemma finalized_get: "trans_get (finalized tc base u t) pn = (if pn \<in> set tc then None else trans_get t pn)"
  by (simp add: trans_get_def finalized_def bt_get_insert_const split: option.split)

lemma finalized_ok:
  assumes ok: "trans_ok t" and ap: "tr_applied t = tc @ rest"
    and orig: "\<forall>pn\<in>set tc. has_patch (stack_view_of (tr_stack t)) pn"
  shows "trans_ok (finalized tc base u t)"
proof -
  let ?t = "finalized tc base u t"
  have lists: "tr_applied ?t = rest" "tr_unapplied ?t = tr_unapplied t" "tr_hidden ?t = tr_hidden t"
    using ap by (simp_all add: finalized_def)
  have d: "distinct (tc @ rest @ tr_unapplied t @ tr_hidden t)" using trans_ok_distinct [OF ok] ap by simp
  moreover have "trans_get ?t pn \<noteq> None \<longleftrightarrow> pn \<in> set (rest @ tr_unapplied t @ tr_hidden t)" for pn
    using trans_ok_get [OF ok, of pn] d ap by (auto simp: finalized_get)
  ultimately have "view_ok (trans_view ?t)" unfolding view_ok_trans lists by auto
  moreover have "has_patch (stack_view_of (tr_stack t)) pn"
    if "bt_get (tr_updated_patches ?t) pn = Some None" for pn
    using that orig trans_ok_deleted [OF ok, of pn] by (auto simp: finalized_def bt_get_insert_const split: if_splits)
  ultimately show ?thesis
    using trans_okD [OF ok] by (simp add: trans_ok_def) (simp add: finalized_def bt_ok_insert_const)
qed

lemma finalized_chain:
  assumes ch: "chain_ok t" and ap: "tr_applied t = tc @ rest" and tc: "tc \<noteq> []"
    and d: "distinct (tr_applied t)" and base: "base = ps_commit (the (trans_get t (last tc)))"
  shows "chain_ok (finalized tc base u t)"
proof -
  have "commits_of (trans_get (finalized tc base u t)) rest = commits_of (trans_get t) rest"
    using d ap by (intro commits_of_cong) (auto simp: finalized_get)
  moreover have "last (t_base t # commits_of (trans_get t) tc) = base"
    using tc by (simp add: commits_of_def last_map base)
  moreover have "t_base (finalized tc base u t) = base" by (simp add: finalized_def t_base_def)
  moreover have "tr_applied (finalized tc base u t) = rest" using ap by (simp add: finalized_def)
  moreover have "chained (last (t_base t # commits_of (trans_get t) tc)) (commits_of (trans_get t) rest)"
    using ch ap by (simp add: chain_ok_def del: last.simps)
  ultimately show ?thesis by (simp add: chain_ok_def)
qed

text \<open>The whole of \<open>commit_patches\<close>.\<close>

lemma commit_patches_unfold:
  "commit_patches g tc t =
     sbind (commit_first g (tr_applied t) tc) (\<lambda>to_push.
     sbind (pure (\<lambda>t. print_committed tc (tr_ui t))) (\<lambda>u.
     sthen (modify (\<lambda>t. t\<lparr>tr_ui := u\<rparr>))
    (sbind (patch_commit_of (last tc)) (\<lambda>base.
     sthen (modify (\<lambda>t. t\<lparr>tr_updated_base := Some base,
       tr_updated_patches := foldl (\<lambda>m pn. bt_insert m pn None) (tr_updated_patches t) tc\<rparr>))
    (sbind (gets tr_applied) (\<lambda>now.
     sthen (sassert (length tc \<le> length now))
    (sthen (modify (\<lambda>t. t\<lparr>tr_applied := drop (length tc) now\<rparr>))
           (push_patches g to_push False)))))))) t"
  by (simp add: commit_patches_def commit_first_def Let_def)

lemma commit_patches_last:
  assumes first: "commit_first g (tr_applied t) tc t = (Ok tp, t1)"
    and ap: "tr_applied t1 = tc @ rest" and tc: "tc \<noteq> []" and get: "trans_get t1 (last tc) = Some p"
  shows "\<exists>u. commit_patches g tc t = push_patches g tp False (finalized tc (ps_commit p) u t1)"
proof -
  obtain u :: ui where u: "(print_committed tc (tr_ui t1) :: (trans_error, ui) outcome) = Ok u"
    using tc by (simp add: print_committed_def)
  have "trans_get (t1\<lparr>tr_ui := u\<rparr>) (last tc) = Some p" using get by simp
  then have c: "patch_commit_of (last tc) (t1\<lparr>tr_ui := u\<rparr>) = (Ok (ps_commit p), t1\<lparr>tr_ui := u\<rparr>)"
    by (simp add: patch_commit_of_def get_patch_commit_def)
  have "commit_patches g tc t = push_patches g tp False (finalized tc (ps_commit p) u t1)"
    unfolding commit_patches_unfold sbind_Ok [of "commit_first g (tr_applied t) tc", OF first]
    using u c ap by (simp add: sbind_def sthen_def pure_def modify_def gets_def sassert_def ret_def finalized_def)
  then show ?thesis ..
qed

lemma commit_patches_outcome:
  assumes run: "commit_patches g tc t = (r, t')" and ok: "trans_ok t"
    and tc: "tc = filter P (tr_applied t @ tr_unapplied t)" "tc \<noteq> []"
    and orig: "\<forall>pn\<in>set tc. has_patch (stack_view_of (tr_stack t)) pn"
  shows "r \<noteq> Panic" and "trans_ok t'" and "chain_ok t \<Longrightarrow> chain_ok t'"
    and "r = Ok () \<Longrightarrow> tr_applied t' = filter (\<lambda>pn. pn \<notin> set tc) (tr_applied t) \<and>
           tr_unapplied t' = filter (\<lambda>pn. pn \<notin> set tc) (tr_unapplied t) \<and> tr_hidden t' = tr_hidden t \<and>
           (\<forall>pn\<in>set tc. trans_get t' pn = None)"
proof -
  obtain q t1 where q: "commit_first g (tr_applied t) tc t = (q, t1)" by fastforce
  note first = commit_first_outcome [OF q ok tc(1)]
  have "r \<noteq> Panic \<and> trans_ok t' \<and> (chain_ok t \<longrightarrow> chain_ok t') \<and> (r = Ok () \<longrightarrow>
           tr_applied t' = filter (\<lambda>pn. pn \<notin> set tc) (tr_applied t) \<and>
           tr_unapplied t' = filter (\<lambda>pn. pn \<notin> set tc) (tr_unapplied t) \<and> tr_hidden t' = tr_hidden t \<and>
           (\<forall>pn\<in>set tc. trans_get t' pn = None))"
  proof (cases q)
    case (Err e)
    then have "r = Err e \<and> t' = t1" using run q by (auto simp: commit_patches_unfold sbind_def)
    then show ?thesis using first by simp
  next
    case (Ok tp)
    then have b: "at_bottom tc tp t t1" using first(4) by simp
    then obtain rest where ap: "tr_applied t1 = tc @ rest" "rest @ tp = filter (\<lambda>pn. pn \<notin> set tc) (tr_applied t)"
      by (auto simp: at_bottom_def)
    have d: "distinct (tr_applied t1 @ tr_unapplied t1 @ tr_hidden t1)" by (rule trans_ok_distinct [OF first(2)])
    have "last tc \<in> set (tr_applied t1)" using tc(2) ap(1) by simp
    then obtain p where p: "trans_get t1 (last tc) = Some p" using trans_ok_get [OF first(2), of "last tc"] by auto
    obtain u where u: "commit_patches g tc t = push_patches g tp False (finalized tc (ps_commit p) u t1)"
      using commit_patches_last [OF q [unfolded Ok] ap(1) tc(2) p] by blast
    let ?t2 = "finalized tc (ps_commit p) u t1"
    have ok2: "trans_ok ?t2"
      by (rule finalized_ok [OF first(2) ap(1)]) (use orig b in \<open>simp add: at_bottom_def\<close>)
    have ch2: "chain_ok ?t2" if "chain_ok t"
      by (rule finalized_chain [OF first(3) [OF that] ap(1) tc(2)]) (use d p in auto)
    have lists: "tr_applied ?t2 = rest" "tr_unapplied ?t2 = tp @ filter (\<lambda>pn. pn \<notin> set tc) (tr_unapplied t)"
      "tr_hidden ?t2 = tr_hidden t"
      using ap(1) b by (simp_all add: finalized_def at_bottom_def)
    have pb: "pushable ?t2 tp" using d b unfolding pushable_def lists by (auto simp: at_bottom_def)
    note out = push_patches_outcome [OF run [unfolded u] ok2 pb]
    have "set tp \<subseteq> set (filter (\<lambda>pn. pn \<notin> set tc) (tr_applied t))" unfolding ap(2) [symmetric] by simp
    then have tp_out: "set tp \<inter> set tc = {}" by auto
    have "tr_applied t' = filter (\<lambda>pn. pn \<notin> set tc) (tr_applied t) \<and>
           tr_unapplied t' = filter (\<lambda>pn. pn \<notin> set tc) (tr_unapplied t) \<and> tr_hidden t' = tr_hidden t \<and>
           (\<forall>pn\<in>set tc. trans_get t' pn = None)" if "r = outcome.Ok ()"
    proof -
      from out that have l: "pushed_list tp ?t2 t'" by (auto simp: push_outcome_def)
      note f = pushed_list_lists [OF l ok2]
      have "distinct (tp @ filter (\<lambda>pn. pn \<notin> set tc) (tr_unapplied t) @ tr_hidden t)"
        using trans_ok_distinct [OF ok2] unfolding lists by auto
      then have disj: "set tp \<inter> set (filter (\<lambda>pn. pn \<notin> set tc) (tr_unapplied t)) = {}"
        "set tp \<inter> set (tr_hidden t) = {}" by (simp_all only: distinct_append set_append) blast+
      note filter_out_prefix [OF disj(1)] filter_out_disjoint [OF disj(2)]
      moreover have "trans_get t' pn = None" if "pn \<in> set tc" for pn
        using f(6) [of pn] tp_out that by (simp add: finalized_get disjoint_iff) blast
      ultimately show ?thesis using f(1-3) lists ap(2) by simp
    qed
    then show ?thesis
      using push_outcome_no_panic [OF out] push_outcome_ok [OF out] push_outcome_chain [OF out ch2 ok2 pb] by blast
  qed (use first(1) in simp)
  then show "r \<noteq> Panic" "trans_ok t'" "chain_ok t \<Longrightarrow> chain_ok t'"
    "r = Ok () \<Longrightarrow> tr_applied t' = filter (\<lambda>pn. pn \<notin> set tc) (tr_applied t) \<and>
           tr_unapplied t' = filter (\<lambda>pn. pn \<notin> set tc) (tr_unapplied t) \<and> tr_hidden t' = tr_hidden t \<and>
           (\<forall>pn\<in>set tc. trans_get t' pn = None)" by auto
qed

section \<open>Pushing back what was popped\<close>

text \<open>A patch whose parent is the top of the stack is pushed without a merge and without a new commit.\<close>

definition retop :: "patch_name \<Rightarrow> bool \<Rightarrow> 'w transaction \<Rightarrow> 'w transaction" where
  "retop pn l t =
     (take_out pn t)\<lparr>tr_applied := tr_applied t @ [pn], tr_ui := print_pushed pn PS_Unmodified l (tr_ui t)\<rparr>"

lemma retop_sel [simp]:
  "tr_applied (retop pn l t) = tr_applied t @ [pn]" "tr_stack (retop pn l t) = tr_stack t"
  "tr_updated_patches (retop pn l t) = tr_updated_patches t" "tr_repo (retop pn l t) = tr_repo t"
  "trans_get (retop pn l t) = trans_get t" "t_base (retop pn l t) = t_base t"
  "tr_updated_head (retop pn l t) = tr_updated_head t"
  by (simp_all add: retop_def t_base_def split: option.split)

lemma push_patch_unchanged:
  assumes g: "g_committer g = Inr dc" and ok: "trans_ok t" and get: "trans_get t pn = Some \<lparr>ps_commit = c\<rparr>"
    and c: "c_parents c \<noteq> []" "hd (c_parents c) = c_id (top_commit t)"
    and obj: "objects (tr_repo t) (c_id (top_commit t)) = Some (top_commit t)"
  shows "push_patch g pn False l (t, x, i) = (Ok (), (retop pn l t, x, i))"
proof -
  have pc: "(get_patch_commit (trans_view t) pn :: (trans_error, commit) outcome) = Ok c"
    using get by (simp add: get_patch_commit_def)
  have op: "get_parent_commit (tr_repo t) c = Ok (top_commit t)"
    using c obj by (cases "c_parents c") (simp_all add: get_parent_commit_def)
  have top: "t_top t = Ok (top_commit t)" using t_top_ok [OF ok] by (simp add: top_commit_def)
  show ?thesis
    by (simp add: push_patch_def sbind_def lift_t_def committer_of_def g patch_commit_of_def parent_of_def pure_def
        pc op top push_merge_def push_commit_def push_finish_def sthen_def ret_def modify_def make_applied_def
        print_def retop_def)
qed

lemma push_loop_unchanged:
  assumes g: "g_committer g = Inr dc" and "trans_ok t" and "distinct pns" and "set pns \<subseteq> set (tr_unapplied t)"
    and "chained (top_commit t) (commits_of (trans_get t) pns)"
    and "\<forall>c\<in>set (top_commit t # commits_of (trans_get t) pns). objects (tr_repo t) (c_id c) = Some c"
  shows "\<exists>t'. push_loop g [] pns (t, x, i) = (Ok (), (t', x, i)) \<and> tr_applied t' = tr_applied t @ pns \<and>
    tr_unapplied t' = filter (\<lambda>q. q \<notin> set pns) (tr_unapplied t) \<and> tr_hidden t' = tr_hidden t \<and>
    tr_updated_patches t' = tr_updated_patches t \<and> tr_repo t' = tr_repo t \<and> tr_stack t' = tr_stack t \<and>
    tr_updated_head t' = tr_updated_head t \<and> trans_ok t'"
  using assms(2-)
proof (induction pns arbitrary: t)
  case Nil
  then show ?case by (intro exI [of _ t]) (simp add: ret_def)
next
  case (Cons pn pns)
  let ?t1 = "retop pn (pns = []) t"
  from Cons.prems obtain p where p: "trans_get t pn = Some p" using trans_ok_get [of t pn] by auto
  let ?c = "ps_commit p"
  have step: "push_patch g pn False (pns = []) (t, x, i) = (Ok (), (?t1, x, i))"
    by (rule push_patch_unchanged [OF g Cons.prems(1)]) (use p Cons.prems in auto)
  have un: "tr_unapplied ?t1 = remove1 pn (tr_unapplied t)" "tr_hidden ?t1 = tr_hidden t"
  proof -
    have d: "distinct (tr_unapplied t @ tr_hidden t)" using trans_ok_distinct [OF Cons.prems(1)] by auto
    moreover have "pn \<notin> set (tr_hidden t)" using d Cons.prems(3) by auto
    ultimately show "tr_unapplied ?t1 = remove1 pn (tr_unapplied t)" "tr_hidden ?t1 = tr_hidden t"
      using take_out_lists [OF d, of pn] by (simp_all add: retop_def remove1_idem)
  qed
  have ok1: "trans_ok ?t1"
    by (rule trans_ok_rearrange [OF Cons.prems(1)])
       (use Cons.prems un trans_ok_odb [OF Cons.prems(1)] in \<open>auto simp: mset_remove1\<close>)
  have top1: "top_commit ?t1 = ?c" by (simp add: top_commit_def p)
  have dun: "distinct (tr_unapplied t)" using trans_ok_distinct [OF Cons.prems(1)] by auto
  obtain t' where "push_loop g [] pns (?t1, x, i) = (Ok (), (t', x, i)) \<and> tr_applied t' = tr_applied ?t1 @ pns \<and>
      tr_unapplied t' = filter (\<lambda>q. q \<notin> set pns) (tr_unapplied ?t1) \<and> tr_hidden t' = tr_hidden ?t1 \<and>
      tr_updated_patches t' = tr_updated_patches ?t1 \<and> tr_repo t' = tr_repo ?t1 \<and> tr_stack t' = tr_stack ?t1 \<and>
      tr_updated_head t' = tr_updated_head ?t1 \<and> trans_ok t'"
    using Cons.IH [OF ok1] Cons.prems un(1) top1 p dun by auto
  moreover have "filter (\<lambda>q. q \<notin> set pns) (remove1 pn (tr_unapplied t)) = filter (\<lambda>q. q \<notin> set (pn # pns)) (tr_unapplied t)"
    using dun by (auto simp: distinct_remove1_removeAll removeAll_filter_not_eq intro: filter_cong)
  ultimately show ?case using step un by (intro exI [of _ t']) (simp add: sthen_def sbind_def)
qed

end
