(* ===== verification/Examples.thy ===== *)
theory Examples
  imports Trans_Ops
begin

text \<open>
  A concrete repository with a stack of two applied, one unapplied and one hidden patch, and a
  concrete instance of the git parameter, for the witnesses of the properties.  A tree is a number,
  and applying the difference of two trees to an index adds the difference of the numbers.
\<close>

definition sig0 :: signature where
  "sig0 = \<lparr>sig_name = [], sig_email = [], sig_time = 0\<rparr>"

definition mk_commit :: "oid \<Rightarrow> oid list \<Rightarrow> oid \<Rightarrow> commit" where
  "mk_commit i ps tree =
     \<lparr>c_id = i, c_parents = ps, c_tree = tree, c_author = sig0, c_committer = sig0, c_message = []\<rparr>"

definition ex_git :: "(oid, oid) git" where
  "ex_git =
     \<lparr>g_object_id = (\<lambda>a c m t ps. Inr (100 + 10 * t + sum_list ps)),
      g_state_object_id = (\<lambda>a c m t ps. Inr (1000 + 10 * t + sum_list ps)),
      g_write_blob = (\<lambda>b. Inr (length b)),
      g_write_patches_tree = (\<lambda>es. Inr (length es)),
      g_write_state_tree = (\<lambda>a b. Inr (20 + a + b)),
      g_json = (\<lambda>j. js_head j), g_unjson = (\<lambda>s. Inl []),
      g_hex = (\<lambda>i. replicate i 48), g_unhex = (\<lambda>s. Some (length s)), g_date = (\<lambda>s. []),
      g_author_strict = (\<lambda>c. Inr (c_author c)),
      g_committer = Inr sig0, g_author = Inr sig0,
      g_edit_refs = (\<lambda>es. None),
      g_allow_conflicts = None, g_autoimerge = None,
      x_new = Inr 0, x_read_tree = (\<lambda>tree x. Inr tree),
      x_apply = (\<lambda>a b w x. (Inr True, x + b - a)),
      x_write_tree = (\<lambda>x. Inr x),
      w_checkout = (\<lambda>a b w. (Inr (), b)),
      w_checkout_hard = (\<lambda>b w. (Inr (), b)),
      w_refresh = (\<lambda>w. (Inr (), w)),
      w_merge = (\<lambda>b ours theirs w. (Inr False, w)),
      w_mergetool = (\<lambda>w. (Inr False, w)),
      w_write_tree = (\<lambda>w. Inr w),
      w_status = (\<lambda>w. Inr [])\<rparr>"

definition pa :: patch_name where "pa = PatchName [97]"
definition pb :: patch_name where "pb = PatchName [98]"
definition pc :: patch_name where "pc = PatchName [99]"
definition pd :: patch_name where "pd = PatchName [100]"

lemma names_neq [simp]:
  "pa \<noteq> pb" "pa \<noteq> pc" "pa \<noteq> pd" "pb \<noteq> pc" "pb \<noteq> pd" "pc \<noteq> pd"
  "pb \<noteq> pa" "pc \<noteq> pa" "pd \<noteq> pa" "pc \<noteq> pb" "pd \<noteq> pb" "pd \<noteq> pc"
  by (simp_all add: pa_def pb_def pc_def pd_def)

lemma names_less [simp]: "pa < pb" "pa < pc" "pa < pd" "pb < pc" "pb < pd" "pc < pd"
  by (simp_all add: pa_def pb_def pc_def pd_def less_patch_name_def)

lemmas names_not_less [simp] = names_less [THEN less_not_sym]

definition k_base :: commit where "k_base = mk_commit 1 [0] 10"
definition k_a :: commit where "k_a = mk_commit 2 [1] 11"
definition k_b :: commit where "k_b = mk_commit 3 [2] 13"
definition k_c :: commit where "k_c = mk_commit 4 [1] 15"
definition k_d :: commit where "k_d = mk_commit 5 [1] 17"
definition k_state :: commit where "k_state = mk_commit 6 [7] 20"

lemmas ex_commits = k_base_def k_a_def k_b_def k_c_def k_d_def k_state_def mk_commit_def

definition ex_repo :: "oid repository" where
  "ex_repo =
     \<lparr>objects = map_of [(1, k_base), (2, k_a), (3, k_b), (4, k_c), (5, k_d), (6, k_state)],
      blobs = [9 \<mapsto> []], patch_trees = Map.empty, state_trees = [20 \<mapsto> (8, 9)], meta_blobs = Map.empty,
      refs = [(str ''refs/heads/master'', Direct 3), (str ''refs/stacks/master'', Direct 6)],
      note_copies = [], work = 13\<rparr>"

definition ex_state :: stack_state where
  "ex_state =
     \<lparr>st_prev = None, st_head = k_b, st_applied = [pa, pb], st_unapplied = [pc], st_hidden = [pd],
      st_patches = [(pa, \<lparr>ps_commit = k_a\<rparr>), (pb, \<lparr>ps_commit = k_b\<rparr>),
                    (pc, \<lparr>ps_commit = k_c\<rparr>), (pd, \<lparr>ps_commit = k_d\<rparr>)]\<rparr>"

definition ex_stack :: stack where
  "ex_stack =
     \<lparr>sk_branch_name = str ''master'', sk_branch_refname = str ''refs/heads/master'',
      sk_branch_head = k_b, sk_stack_refname = str ''refs/stacks/master'', sk_base = k_base,
      sk_state = ex_state, sk_is_initialized = True\<rparr>"

definition ex_trans :: "oid transaction" where
  "ex_trans =
     \<lparr>tr_stack = ex_stack, tr_ui = ui_new, tr_options = default_options,
      tr_applied = [pa, pb], tr_unapplied = [pc], tr_hidden = [pd], tr_updated_patches = [],
      tr_updated_head = None, tr_updated_base = None, tr_current_tree_id = 13, tr_error = None,
      tr_repo = ex_repo\<rparr>"

lemma ex_stack_ok: "stack_ok ex_stack"
  by (auto simp: stack_ok_def state_ok_def view_ok_def ex_stack_def ex_state_def state_view_def
      all_patches_def has_patch_def bt_get_def bt_ok_def bt_keys_def)

lemma ex_get:
  "trans_get ex_trans pa = Some \<lparr>ps_commit = k_a\<rparr>" "trans_get ex_trans pb = Some \<lparr>ps_commit = k_b\<rparr>"
  "trans_get ex_trans pc = Some \<lparr>ps_commit = k_c\<rparr>" "trans_get ex_trans pd = Some \<lparr>ps_commit = k_d\<rparr>"
  "pn \<notin> {pa, pb, pc, pd} \<Longrightarrow> trans_get ex_trans pn = None"
  by (auto simp: trans_get_def ex_trans_def ex_stack_def ex_state_def bt_get_def)

lemma ex_odb_ok: "odb_ok ex_repo"
  by (auto simp: odb_ok_def ex_repo_def ex_commits split: if_splits)

lemma ex_sel [simp]:
  "tr_applied ex_trans = [pa, pb]" "tr_unapplied ex_trans = [pc]" "tr_hidden ex_trans = [pd]"
  "tr_stack ex_trans = ex_stack" "tr_repo ex_trans = ex_repo" "tr_updated_patches ex_trans = []"
  by (simp_all add: ex_trans_def)

lemma ex_trans_ok: "trans_ok ex_trans"
proof -
  have "trans_get ex_trans pn \<noteq> None \<longleftrightarrow> pn \<in> {pa, pb, pc, pd}" for pn
    using ex_get by (cases "pn \<in> {pa, pb, pc, pd}") auto
  then show ?thesis by (auto simp: trans_ok_def view_ok_trans ex_stack_ok ex_odb_ok)
qed

lemma ex_chain_ok: "chain_ok ex_trans"
  by (simp add: chain_ok_def ex_get t_base_def) (simp add: ex_trans_def ex_stack_def ex_commits)

end
