(* ===== verification/Trans_Props.thy ===== *)
theory Trans_Props
  imports Examples
begin

text \<open>
  The properties of stack transactions.
\<close>

text \<open>
  C20: \<open>pop_patches\<close> never fails; it keeps the patches below the first selected one applied and
  puts the others on top of the unapplied list, the incidentally popped ones first, each group in
  its order; no patch changes its commit, and the invariant and the chain of commits are kept.
\<close>

theorem pop_patches_spec:
  assumes "trans_ok t" "chain_ok t"
  shows "\<exists>t'. pop_patches p t = (Ok (filter (\<lambda>pn. \<not> p pn) (dropWhile (\<lambda>pn. \<not> p pn) (tr_applied t))), t') \<and>
           trans_ok t' \<and> chain_ok t' \<and> trans_get t' = trans_get t \<and> tr_hidden t' = tr_hidden t \<and>
           tr_applied t' = takeWhile (\<lambda>pn. \<not> p pn) (tr_applied t) \<and>
           tr_unapplied t' = filter (\<lambda>pn. \<not> p pn) (dropWhile (\<lambda>pn. \<not> p pn) (tr_applied t)) @
             filter p (dropWhile (\<lambda>pn. \<not> p pn) (tr_applied t)) @ tr_unapplied t"
  using pop_patches_run [of p t] popped_ok [OF assms(1), of p] popped_chain [OF assms(2), of p]
  by (intro exI [of _ "popped p t"]) (simp add: popped_of_def, simp add: popped_def popped_of_def)

theorem pop_patches_spec_witness:
  "\<exists>t'. pop_patches (\<lambda>pn. pn = pa) ex_trans = (Ok [pb], t') \<and> tr_applied t' = [] \<and> tr_unapplied t' = [pb, pa, pc]"
  using pop_patches_spec [OF ex_trans_ok ex_chain_ok, of "\<lambda>pn. pn = pa"] by auto

text \<open>
  C5: \<open>push_patches\<close> on patches that are not applied never panics and always leaves a well-formed
  transaction whose applied patches are a chain of commits on the base.  On success exactly the
  given patches are applied on top, in order; on a halt or an error a first part of them is, and
  all other patches keep their commit.
\<close>

theorem push_patches_spec:
  assumes "trans_ok t" "chain_ok t" "distinct pns" "set pns \<subseteq> set (tr_unapplied t) \<union> set (tr_hidden t)"
    and "push_patches g pns cm t = (r, t')"
  shows "r \<noteq> Panic \<and> trans_ok t' \<and> chain_ok t' \<and>
         (\<exists>k. tr_applied t' = tr_applied t @ take k pns \<and> (r = Ok () \<longrightarrow> take k pns = pns) \<and>
              tr_unapplied t' = filter (\<lambda>q. q \<notin> set (take k pns)) (tr_unapplied t) \<and>
              tr_hidden t' = filter (\<lambda>q. q \<notin> set (take k pns)) (tr_hidden t) \<and>
              (\<forall>q. q \<notin> set (take k pns) \<longrightarrow> trans_get t' q = trans_get t q))"
proof -
  have pb: "pushable t pns" using assms(3,4) by (simp add: pushable_def)
  note out = push_patches_outcome [OF assms(5,1) pb]
  from out obtain k where k: "pushed_list (take k pns) t t'" "r = Ok () \<Longrightarrow> take k pns = pns"
    using push_outcome_list [OF out] by metis
  show ?thesis
    using push_outcome_no_panic [OF out] push_outcome_ok [OF out] k(2)
      push_outcome_chain [OF out assms(2,1) pb] pushed_list_lists [OF k(1) assms(1)] by blast
qed

theorem push_patches_spec_witness:
  "\<exists>r t'. push_patches ex_git [pd, pc] False ex_trans = (r, t') \<and> chain_ok t'"
proof -
  obtain r t' where "push_patches ex_git [pd, pc] False ex_trans = (r, t')" by fastforce
  with push_patches_spec [OF ex_trans_ok ex_chain_ok _ _ this] show ?thesis by auto
qed

text \<open>
  C21: \<open>delete_patches\<close> never fails: exactly the selected patches disappear, the patches above the
  first deleted applied one become unapplied in their order, and the invariant holds when the
  deleted patches are patches of the original stack.
\<close>

theorem delete_patches_spec:
  assumes "trans_ok t" "\<And>pn. p pn \<Longrightarrow> trans_get t pn \<noteq> None \<Longrightarrow> has_patch (stack_view_of (tr_stack t)) pn"
  shows "\<exists>t'. delete_patches p t = (Ok (filter (\<lambda>pn. \<not> p pn) (dropWhile (\<lambda>pn. \<not> p pn) (tr_applied t))), t') \<and>
           trans_ok t' \<and>
           tr_applied t' = takeWhile (\<lambda>pn. \<not> p pn) (tr_applied t) \<and>
           tr_unapplied t' = filter (\<lambda>pn. \<not> p pn) (dropWhile (\<lambda>pn. \<not> p pn) (tr_applied t)) @
             filter (\<lambda>pn. \<not> p pn) (tr_unapplied t) \<and>
           tr_hidden t' = filter (\<lambda>pn. \<not> p pn) (tr_hidden t) \<and>
           (\<forall>pn. trans_get t' pn = (if p pn then None else trans_get t pn))"
proof -
  obtain t' where run: "delete_patches p t = (Ok (filter (\<lambda>pn. \<not> p pn) (popped_of p t)), t')"
    and lists: "tr_applied t' = takeWhile (\<lambda>pn. \<not> p pn) (tr_applied t)"
      "tr_unapplied t' = filter (\<lambda>pn. \<not> p pn) (popped_of p t) @ filter (\<lambda>pn. \<not> p pn) (tr_unapplied t)"
      "tr_hidden t' = filter (\<lambda>pn. \<not> p pn) (tr_hidden t)"
    and m: "marked p (set (tr_applied t) \<union> set (tr_unapplied t) \<union> set (tr_hidden t))
      (t\<lparr>tr_applied := tr_applied t'\<rparr>) t'"
    by (rule delete_patches_run [of p t])
  have ok: "trans_ok t'" by (rule delete_patches_ok [OF assms run])
  have "trans_get t' pn = (if p pn then None else trans_get t pn)" for pn
  proof (cases "pn \<in> set (tr_applied t) \<union> set (tr_unapplied t) \<union> set (tr_hidden t)")
    case True
    then show ?thesis using m by (simp add: trans_get_def marked_def split: option.split)
  next
    case False
    then have "trans_get t pn = None" using trans_ok_get [OF assms(1), of pn] by auto
    then show ?thesis using m False by (auto simp: trans_get_def marked_def split: option.splits)
  qed
  then show ?thesis using run lists ok by (auto simp: popped_of_def)
qed

theorem delete_patches_spec_witness:
  "\<exists>t'. delete_patches (\<lambda>pn. pn = pa \<or> pn = pd) ex_trans = (Ok [pb], t') \<and> tr_unapplied t' = [pb, pc] \<and> tr_hidden t' = []"
proof -
  have "has_patch (stack_view_of (tr_stack ex_trans)) pn" if "pn = pa \<or> pn = pd" for pn
    using that by (auto simp: has_patch_def state_view_def ex_stack_def ex_state_def bt_get_def)
  from delete_patches_spec [of ex_trans "\<lambda>pn. pn = pa \<or> pn = pd", OF ex_trans_ok this]
  show ?thesis by auto
qed

text \<open>
  C22: Popping the patches above any position and pushing them back restores the transaction: no
  merge takes place, no commit is written and no patch is changed.
\<close>

theorem pop_push_restores:
  assumes ok: "trans_ok t" and ch: "chain_ok t" and g: "g_committer g = Inr dc" "x_new g = Inr x"
    and obj: "\<And>c. c \<in> set (t_base t # commits_of (trans_get t) (tr_applied t)) \<Longrightarrow> objects (tr_repo t) (c_id c) = Some c"
  shows "\<exists>t'. sthen (pop_patches (\<lambda>pn. pn \<in> set (drop n (tr_applied t))))
                (push_patches g (drop n (tr_applied t)) False) t = (Ok (), t') \<and>
              tr_applied t' = tr_applied t \<and> tr_unapplied t' = tr_unapplied t \<and> tr_hidden t' = tr_hidden t \<and>
              tr_updated_patches t' = tr_updated_patches t \<and> tr_repo t' = tr_repo t \<and> trans_ok t'"
proof -
  let ?ap = "tr_applied t"
  let ?p = "\<lambda>pn. pn \<in> set (drop n ?ap)"
  let ?t1 = "popped ?p t"
  have D: "distinct (?ap @ tr_unapplied t @ tr_hidden t)" by (rule trans_ok_distinct [OF ok])
  then have d: "distinct ?ap" by simp
  note pop = popped_from [OF d, of n]
  have un: "tr_unapplied ?t1 = drop n ?ap @ tr_unapplied t"
    using pop(2) by (simp add: popped_def filter_all_in)
  have split: "commits_of (trans_get t) ?ap = commits_of (trans_get t) (take n ?ap) @ commits_of (trans_get t) (drop n ?ap)"
    by (metis append_take_drop_id commits_of_simps(3))
  have top: "top_commit ?t1 = last (t_base t # commits_of (trans_get t) (take n ?ap))"
    using pop(1) by (simp add: top_commit_def)
  have mem: "set (top_commit ?t1 # commits_of (trans_get t) (drop n ?ap)) \<subseteq> set (t_base t # commits_of (trans_get t) ?ap)"
    unfolding top split by (auto dest: last_in_set split: if_splits)
  have c: "chained (top_commit ?t1) (commits_of (trans_get ?t1) (drop n ?ap))"
    using ch unfolding top chain_ok_def split chained_append by simp
  have "\<forall>c\<in>set (top_commit ?t1 # commits_of (trans_get ?t1) (drop n ?ap)). objects (tr_repo ?t1) (c_id c) = Some c"
    using obj mem unfolding popped_sel by blast
  from push_loop_unchanged [OF g(1) popped_ok [OF ok] _ _ c this, of x None]
  obtain t' where t': "push_loop g [] (drop n ?ap) (?t1, x, None) = (Ok (), (t', x, None))"
    "tr_applied t' = tr_applied ?t1 @ drop n ?ap"
    "tr_unapplied t' = filter (\<lambda>q. q \<notin> set (drop n ?ap)) (tr_unapplied ?t1)" "tr_hidden t' = tr_hidden ?t1"
    "tr_updated_patches t' = tr_updated_patches ?t1" "tr_repo t' = tr_repo ?t1" "trans_ok t'"
    using d un by auto
  have "set (drop n ?ap) \<inter> set (tr_unapplied t) = {}" using D by (auto dest: in_set_dropD)
  from filter_out_prefix [OF this] have "tr_unapplied t' = tr_unapplied t" using t'(3) un by simp
  with t' pop(1) g show ?thesis
    by (intro exI [of _ t']) (simp add: sthen_def sbind_def pop_patches_run push_patches_def ret_def)
qed

theorem pop_push_restores_witness:
  "\<exists>t'. sthen (pop_patches (\<lambda>pn. pn \<in> set (drop 0 (tr_applied ex_trans)))) (push_patches ex_git [pa, pb] False) ex_trans
     = (Ok (), t') \<and> tr_applied t' = [pa, pb] \<and> tr_repo t' = ex_repo"
proof -
  have "objects (tr_repo ex_trans) (c_id c) = Some c"
    if "c \<in> set (t_base ex_trans # commits_of (trans_get ex_trans) (tr_applied ex_trans))" for c
  proof -
    have "c = k_base \<or> c = k_a \<or> c = k_b"
      using that by (simp add: ex_get t_base_def) (auto simp: ex_trans_def ex_stack_def)
    then show ?thesis by (auto simp: ex_repo_def ex_commits)
  qed
  from pop_push_restores [OF ex_trans_ok ex_chain_ok _ _ this, of ex_git sig0 0 0] show ?thesis
    by (auto simp: ex_git_def)
qed

text \<open>
  C6: \<open>reorder_patches\<close> with any rearrangement of the patches never panics (its \<open>assert_eq!\<close>
  holds), keeps the invariant and the chain on every outcome, and when every push succeeds the
  three lists are exactly the requested ones.
\<close>

theorem reorder_patches_spec:
  assumes "trans_ok t" "chain_ok t" "mset (ap @ un @ hi) = mset (all_patches (trans_view t))"
    and "reorder_patches g (Some ap) (Some un) (Some hi) t = (r, t')"
  shows "r \<noteq> Panic \<and> trans_ok t' \<and> chain_ok t' \<and>
         (r = Ok () \<longrightarrow> tr_applied t' = ap \<and> tr_unapplied t' = un \<and> tr_hidden t' = hi \<and>
            (\<forall>pn. pn \<notin> set ap \<longrightarrow> trans_get t' pn = trans_get t pn))"
  using reorder_patches_outcome [OF assms(4,1)] assms(2,3) by simp

theorem reorder_patches_spec_witness:
  "\<exists>r t'. reorder_patches ex_git (Some [pb, pc]) (Some [pd]) (Some [pa]) ex_trans = (r, t') \<and> trans_ok t' \<and> chain_ok t'"
proof -
  obtain r t' where run: "reorder_patches ex_git (Some [pb, pc]) (Some [pd]) (Some [pa]) ex_trans = (r, t')" by fastforce
  have "mset ([pb, pc] @ [pd] @ [pa]) = mset (all_patches (trans_view ex_trans))" by simp
  from reorder_patches_spec [OF ex_trans_ok ex_chain_ok this run] run show ?thesis by blast
qed

text \<open>
  \<open>hide_patches\<close> on visible patches: when it succeeds the given patches are the first hidden
  ones, in the given order, and all other patches keep their list and their order; it never panics
  and keeps the invariants on every outcome.
\<close>

theorem hide_patches_spec:
  assumes ok: "trans_ok t" and ch: "chain_ok t"
    and th: "distinct to_hide" "set to_hide \<subseteq> set (tr_applied t) \<union> set (tr_unapplied t)"
    and run: "hide_patches g to_hide t = (r, t')"
  shows "r \<noteq> Panic \<and> trans_ok t' \<and> chain_ok t' \<and>
         (r = Ok () \<longrightarrow> tr_applied t' = filter (\<lambda>pn. pn \<notin> set to_hide) (tr_applied t) \<and>
            tr_unapplied t' = filter (\<lambda>pn. pn \<notin> set to_hide) (tr_unapplied t) \<and>
            tr_hidden t' = to_hide @ tr_hidden t)"
proof -
  let ?ap = "filter (\<lambda>pn. pn \<notin> set to_hide) (tr_applied t)" and ?un = "filter (\<lambda>pn. pn \<notin> set to_hide) (tr_unapplied t)"
  obtain q t1 where q: "reorder_patches g (Some ?ap) (Some ?un) (Some (to_hide @ tr_hidden t)) t = (q, t1)" by fastforce
  have D: "distinct (tr_applied t @ tr_unapplied t @ tr_hidden t)" by (rule trans_ok_distinct [OF ok])
  have "distinct (?ap @ ?un @ to_hide @ tr_hidden t)" using D th by auto
  moreover have "set (?ap @ ?un @ to_hide @ tr_hidden t) = set (all_patches (trans_view t))" using th by auto
  ultimately have "mset (?ap @ ?un @ to_hide @ tr_hidden t) = mset (all_patches (trans_view t))"
    using D by (simp add: set_eq_iff_mset_eq_distinct del: mset_append set_append)
  note out = reorder_patches_outcome [OF q ok, simplified, OF this [simplified]]
  have "(r, t') = (case q of Ok _ \<Rightarrow> (Ok (), t1\<lparr>tr_ui := print_hidden to_hide (tr_ui t1)\<rparr>)
      | Err e \<Rightarrow> (Err e, t1) | Panic \<Rightarrow> (Panic, t1))"
    using run q by (cases q) (auto simp: hide_patches_def sthen_def sbind_def gets_def print_def modify_def)
  moreover have "trans_ok (t1\<lparr>tr_ui := u\<rparr>) = trans_ok t1" "chain_ok (t1\<lparr>tr_ui := u\<rparr>) = chain_ok t1" for u
    by (simp_all add: trans_ok_def view_ok_trans chain_ok_def)
  moreover have "q = Ok () \<or> (\<exists>e. q = Err e)" using out(1) by (cases q) auto
  ultimately show ?thesis using out ch by auto
qed

theorem hide_patches_spec_witness:
  "\<exists>r t'. hide_patches ex_git [pc, pa] ex_trans = (r, t') \<and> r \<noteq> Panic \<and> (r = Ok () \<longrightarrow> tr_hidden t' = [pc, pa, pd])"
proof -
  obtain r t' where run: "hide_patches ex_git [pc, pa] ex_trans = (r, t')" by fastforce
  from hide_patches_spec [OF ex_trans_ok ex_chain_ok _ _ run] run show ?thesis by auto
qed



text \<open>
  \<open>stg commit\<close> with an empty list of patches is a panic in \<open>commit_patches\<close>, whatever the
  state of the transaction.
\<close>

theorem commit_patches_empty_panics: "fst (commit_patches g [] t) = Panic"
  by (simp add: commit_patches_def common_prefix_len_def sbind_def gets_def ret_def pure_def print_committed_def Let_def)

lemma shift_take_all_iff:
  "distinct old \<Longrightarrow> shift_take_all old pns = Some [] \<longleftrightarrow> distinct pns \<and> set pns = set old"
proof (induction pns arbitrary: old)
  case (Cons pn pns)
  then show ?case by (auto simp: distinct_remove1)
qed auto

lemma repair_appliedness_run:
  assumes "trans_ok t"
  shows "repair_appliedness ap un hi t =
           (if mset (ap @ un @ hi) = mset (all_patches (trans_view t)) then Ok () else Panic,
            t\<lparr>tr_applied := ap, tr_unapplied := un, tr_hidden := hi\<rparr>)"
proof -
  have d: "distinct (all_patches (trans_view t))" using trans_ok_distinct [OF assms] by simp
  have "shift_take_all (all_patches (trans_view t)) (ap @ un @ hi) = Some [] \<longleftrightarrow>
      mset (ap @ un @ hi) = mset (all_patches (trans_view t))"
    unfolding shift_take_all_iff [OF d] using d
    by (metis mset_eq_imp_distinct_iff mset_eq_setD set_eq_iff_mset_eq_distinct)
  then show ?thesis
    using d by (simp add: repair_appliedness_def sm_defs del: all_patches_trans)
qed

text \<open>
  \<open>repair_appliedness\<close> succeeds exactly when the new lists are a rearrangement of the patches
  of the transaction; otherwise it panics.
\<close>

theorem repair_appliedness_spec:
  assumes "trans_ok t"
  shows "repair_appliedness ap un hi t =
           (if mset (ap @ un @ hi) = mset (all_patches (trans_view t)) then Ok () else Panic,
            t\<lparr>tr_applied := ap, tr_unapplied := un, tr_hidden := hi\<rparr>)"
  by (rule repair_appliedness_run [OF assms])

theorem repair_appliedness_spec_witness:
  "fst (repair_appliedness [pc] [pb, pa] [pd] ex_trans) = Ok () \<and> fst (repair_appliedness [pc] [pb] [pd] ex_trans) = Panic"
  using repair_appliedness_spec [OF ex_trans_ok, of "[pc]" "[pb, pa]" "[pd]"]
    repair_appliedness_spec [OF ex_trans_ok, of "[pc]" "[pb]" "[pd]"] by simp

lemma rename_in_eq: "distinct pns \<Longrightarrow>
   rename_in old new pns = (if old \<in> set pns then Some (map (\<lambda>pn. if pn = old then new else pn) pns) else None)"
proof (induction pns)
  case (Cons pn pns)
  then show ?case
    by (cases "position (\<lambda>q. q = old) pns")
       (auto simp: rename_in_def map_idI split: if_splits dest: position_SomeD)
qed (simp add: rename_in_def)

abbreviation renamed :: "patch_name \<Rightarrow> patch_name \<Rightarrow> patch_name list \<Rightarrow> patch_name list" where
  "renamed old new pns \<equiv> map (\<lambda>pn. if pn = old then new else pn) pns"

lemma rename_lists_run:
  assumes d: "distinct (tr_applied t @ tr_unapplied t @ tr_hidden t)"
    and old: "old \<in> set (tr_applied t @ tr_unapplied t @ tr_hidden t)"
  shows "rename_lists old new t = (Ok (), t\<lparr>tr_applied := renamed old new (tr_applied t),
    tr_unapplied := renamed old new (tr_unapplied t), tr_hidden := renamed old new (tr_hidden t)\<rparr>)"
proof -
  have idle: "renamed old new pns = pns" if "old \<notin> set pns" for pns
    using that by (auto intro: map_idI)
  consider "old \<in> set (tr_applied t)" | "old \<notin> set (tr_applied t)" "old \<in> set (tr_unapplied t)"
    | "old \<notin> set (tr_applied t)" "old \<notin> set (tr_unapplied t)" "old \<in> set (tr_hidden t)"
    using old by auto
  then show ?thesis
  proof cases
    case 1
    then have "old \<notin> set (tr_unapplied t)" "old \<notin> set (tr_hidden t)" using d by auto
    then show ?thesis using 1 d by (simp add: rename_lists_def rename_in_eq idle)
  next
    case 2
    then have "old \<notin> set (tr_hidden t)" using d by auto
    then show ?thesis using 2 d by (simp add: rename_lists_def rename_in_eq idle)
  next
    case 3
    then show ?thesis using d by (simp add: rename_lists_def rename_in_eq idle)
  qed
qed

lemma rename_patch_run:
  assumes ok: "trans_ok t" and get: "trans_get t old = Some p" and orig: "has_patch (stack_view_of (tr_stack t)) old"
    and new: "trans_get t new = None" "stack_collides (stack_view_of (tr_stack t)) new \<in> {None, Some old}"
  shows "\<exists>t'. rename_patch old new t = (Ok (), t') \<and> trans_ok t' \<and>
           tr_applied t' = renamed old new (tr_applied t) \<and> tr_unapplied t' = renamed old new (tr_unapplied t) \<and>
           tr_hidden t' = renamed old new (tr_hidden t) \<and>
           trans_get t' = (trans_get t)(old := None, new := Some p) \<and> (chain_ok t \<longrightarrow> chain_ok t')"
proof -
  have D: "distinct (tr_applied t @ tr_unapplied t @ tr_hidden t)" by (rule trans_ok_distinct [OF ok])
  have old: "old \<in> set (tr_applied t @ tr_unapplied t @ tr_hidden t)"
    and fresh: "new \<notin> set (tr_applied t @ tr_unapplied t @ tr_hidden t)"
    using get new(1) trans_ok_get [OF ok] by (metis option.discI)+
  have neq: "new \<noteq> old" using get new(1) by auto
  let ?t1 = "t\<lparr>tr_applied := renamed old new (tr_applied t), tr_unapplied := renamed old new (tr_unapplied t),
    tr_hidden := renamed old new (tr_hidden t)\<rparr>"
  define t' where "t' = ?t1\<lparr>tr_updated_patches := bt_insert (bt_insert (tr_updated_patches t) old None) new (Some p),
    tr_ui := print_rename old new (tr_ui t)\<rparr>"
  have p: "rename_source old ?t1 = Ok p"
    using get by (auto simp: rename_source_def trans_get_def split: option.splits)
  have run: "rename_patch old new t = (Ok (), t')"
    using neq new(2) orig p rename_lists_run [OF D old, of new]
    by (auto simp: rename_patch_def sbind_def sthen_def gets_def pure_def set_patch_def modify_def print_def t'_def)
  have get': "trans_get t' = (trans_get t)(old := None, new := Some p)"
    by (auto simp: trans_get_def t'_def fun_eq_iff split: option.split)
  have inj: "inj_on (\<lambda>pn. if pn = old then new else pn) (set (tr_applied t @ tr_unapplied t @ tr_hidden t))"
    using fresh by (auto simp: inj_on_def)
  have lists: "tr_applied t' @ tr_unapplied t' @ tr_hidden t' = renamed old new (tr_applied t @ tr_unapplied t @ tr_hidden t)"
    by (simp add: t'_def)
  have "distinct (renamed old new (tr_applied t @ tr_unapplied t @ tr_hidden t))"
    using inj D by (simp only: distinct_map)
  moreover have "trans_get t' pn \<noteq> None \<longleftrightarrow> pn \<in> set (renamed old new (tr_applied t @ tr_unapplied t @ tr_hidden t))" for pn
  proof -
    have "pn \<in> set (renamed old new (tr_applied t @ tr_unapplied t @ tr_hidden t)) \<longleftrightarrow>
        pn = new \<or> pn \<noteq> old \<and> pn \<in> set (tr_applied t @ tr_unapplied t @ tr_hidden t)"
      unfolding set_map using old fresh by (auto simp del: set_append)
    then show ?thesis using trans_ok_get [OF ok, of pn] neq by (auto simp: get')
  qed
  ultimately have "view_ok (trans_view t')" unfolding view_ok_trans lists by blast
  then have ok': "trans_ok t'"
    using trans_okD [OF ok] orig by (auto simp: trans_ok_def t'_def bt_ok_insert split: if_splits)
  have "commits_of (trans_get t') (tr_applied t') = commits_of (trans_get t) (tr_applied t)"
  proof -
    have "tr_applied t' = renamed old new (tr_applied t)" by (simp add: t'_def)
    then show ?thesis unfolding get' using fresh get neq by (auto simp: commits_of_def)
  qed
  moreover have "t_base t' = t_base t" by (simp add: t_base_def t'_def split: option.split)
  ultimately show ?thesis
    using run ok' get' by (intro exI [of _ t']) (auto simp: chain_ok_def t'_def)
qed

text \<open>
  \<open>rename_patch\<close> of a patch of the stack to a free name succeeds: the name is replaced in place,
  the commit moves from the old name to the new one, and the invariants are kept.
\<close>

theorem rename_patch_spec:
  assumes ok: "trans_ok t" and get: "trans_get t old = Some p" and orig: "has_patch (stack_view_of (tr_stack t)) old"
    and new: "trans_get t new = None" "stack_collides (stack_view_of (tr_stack t)) new \<in> {None, Some old}"
  shows "\<exists>t'. rename_patch old new t = (Ok (), t') \<and> trans_ok t' \<and>
           tr_applied t' = renamed old new (tr_applied t) \<and> tr_unapplied t' = renamed old new (tr_unapplied t) \<and>
           tr_hidden t' = renamed old new (tr_hidden t) \<and>
           trans_get t' = (trans_get t)(old := None, new := Some p) \<and> (chain_ok t \<longrightarrow> chain_ok t')"
  using assms by (rule rename_patch_run)

theorem rename_patch_spec_witness:
  "\<exists>t'. rename_patch pa (PatchName [120]) ex_trans = (Ok (), t') \<and> tr_applied t' = [PatchName [120], pb] \<and> chain_ok t'"
proof -
  have "trans_get ex_trans (PatchName [120]) = None" by (rule ex_get(5)) (simp add: pa_def pb_def pc_def pd_def)
  moreover have "stack_collides (stack_view_of (tr_stack ex_trans)) (PatchName [120]) \<in> {None, Some pa}"
    by (simp add: stack_collides_def all_patches_def state_view_def ex_stack_def ex_state_def collides_def
        eq_ignore_ascii_case_def to_ascii_lowercase_def is_ascii_upper_def pa_def pb_def pc_def pd_def)
  moreover have "has_patch (stack_view_of (tr_stack ex_trans)) pa"
    by (simp add: has_patch_def state_view_def ex_stack_def ex_state_def bt_get_def)
  ultimately have "\<exists>t'. rename_patch pa (PatchName [120]) ex_trans = (Ok (), t') \<and> trans_ok t' \<and>
      tr_applied t' = renamed pa (PatchName [120]) (tr_applied ex_trans) \<and>
      tr_unapplied t' = renamed pa (PatchName [120]) (tr_unapplied ex_trans) \<and>
      tr_hidden t' = renamed pa (PatchName [120]) (tr_hidden ex_trans) \<and>
      trans_get t' = (trans_get ex_trans)(pa := None, PatchName [120] := Some \<lparr>ps_commit = k_a\<rparr>) \<and>
      (chain_ok ex_trans \<longrightarrow> chain_ok t')"
    by (intro rename_patch_spec [OF ex_trans_ok ex_get(1)])
  then show ?thesis using ex_chain_ok by auto
qed

text \<open>
  The collision test of \<open>rename_patch\<close> does not stop a renaming to the name of another patch of
  the stack that the transaction has not changed: \<open>a\<close> is renamed to the existing \<open>b\<close>, which is then
  in the list twice and has lost its commit.
\<close>

theorem rename_patch_onto_existing:
  "\<exists>t'. rename_patch pa pb ex_trans = (Ok (), t') \<and> tr_applied t' = [pb, pb] \<and>
        trans_get t' pb = Some \<lparr>ps_commit = k_a\<rparr> \<and> \<not> trans_ok t'"
proof -
  have run: "rename_lists pa pb ex_trans = (Ok (), ex_trans\<lparr>tr_applied := [pb, pb]\<rparr>)"
    by (simp add: rename_lists_def rename_in_def)
  have "rename_patch pa pb ex_trans = (Ok (), ex_trans\<lparr>tr_applied := [pb, pb],
      tr_updated_patches := [(pa, None), (pb, Some \<lparr>ps_commit = k_a\<rparr>)], tr_ui := print_rename pa pb (tr_ui ex_trans)\<rparr>)"
    using run by (simp add: rename_patch_def sbind_def sthen_def gets_def pure_def set_patch_def modify_def print_def
        rename_source_def has_patch_def state_view_def ex_stack_def ex_state_def bt_get_def split: option.split)
  then show ?thesis
    by (auto simp: trans_get_def bt_get_def trans_ok_def view_ok_trans)
qed

lemma reset_to_state_run:
  assumes ok: "trans_ok t" and st: "state_ok st"
    and orig: "\<And>pn. trans_get t pn \<noteq> None \<Longrightarrow> has_patch (stack_view_of (tr_stack t)) pn"
    and parent: "\<And>pn p. st_applied st \<noteq> [] \<Longrightarrow> pn = hd (st_applied st) \<Longrightarrow> bt_get (st_patches st) pn = Some p \<Longrightarrow>
      get_parent_commit (tr_repo t) (ps_commit p) = Ok base"
    and none: "st_applied st = [] \<Longrightarrow> base = st_head st"
  shows "\<exists>t'. reset_to_state st t = (Ok (), t') \<and> trans_ok t' \<and>
           tr_applied t' = st_applied st \<and> tr_unapplied t' = st_unapplied st \<and> tr_hidden t' = st_hidden st \<and>
           trans_get t' = bt_get (st_patches st) \<and> t_head t' = Ok (st_head st) \<and> t_base t' = base"
proof -
  let ?all = "all_patches (trans_view t)"
  let ?m1 = "foldl (\<lambda>m pn. bt_insert m pn None) (tr_updated_patches t) ?all"
  let ?m2 = "foldl (\<lambda>m e. bt_insert m (fst e) (Some (snd e))) ?m1 (st_patches st)"
  define t' where "t' = t\<lparr>tr_updated_base := Some base, tr_updated_head := Some (st_head st),
    tr_updated_patches := ?m2, tr_applied := st_applied st, tr_unapplied := st_unapplied st, tr_hidden := st_hidden st\<rparr>"
  have vok: "view_ok (state_view st)" and bok: "bt_ok (st_patches st)" using st by (auto simp: state_ok_def)
  have known: "bt_get (st_patches st) pn \<noteq> None \<longleftrightarrow> pn \<in> set (st_applied st @ st_unapplied st @ st_hidden st)" for pn
    using view_ok_has [OF vok, of pn] by (simp add: has_patch_def state_view_def all_patches_def)
  have run: "reset_to_state st t = (Ok (), t')"
  proof (cases "st_applied st")
    case Nil
    then show ?thesis using none
      by (simp add: reset_to_state_def t'_def sbind_def ret_def modify_def del: all_patches_trans)
  next
    case (Cons pn pns)
    then obtain p where p: "bt_get (st_patches st) pn = Some p" using known [of pn] by auto
    then have "get_parent_commit (tr_repo t) (ps_commit p) = Ok base" using parent Cons by simp
    then show ?thesis using Cons p
      by (simp add: reset_to_state_def t'_def sbind_def pure_def parent_of_def modify_def del: all_patches_trans)
  qed
  have keys: "distinct (map fst (st_patches st))" using bt_ok_distinct [OF bok] by (simp add: bt_keys_def)
  have m2: "bt_get ?m2 pn = (case bt_get (st_patches st) pn of Some p \<Rightarrow> Some (Some p)
      | None \<Rightarrow> if pn \<in> set ?all then Some None else bt_get (tr_updated_patches t) pn)" for pn
  proof -
    have "bt_get ?m2 pn = (case map_of (map (\<lambda>e. (fst e, Some (snd e))) (st_patches st)) pn of
        Some v \<Rightarrow> Some v | None \<Rightarrow> bt_get ?m1 pn)" by (rule bt_get_insert_all [OF keys])
    then show ?thesis
      by (cases "map_of (st_patches st) pn")
         (simp_all add: map_of_map_snd bt_get_insert_const bt_get_def [of "st_patches st"] del: all_patches_trans foldl_append)
  qed
  have get: "trans_get t' pn = bt_get (st_patches st) pn" for pn
  proof (cases "pn \<in> set ?all")
    case False
    then have "trans_get t pn = None" using trans_ok_get [OF ok, of pn] by simp
    then show ?thesis using False m2 [of pn] by (auto simp: trans_get_def t'_def split: option.splits)
  next
    case True
    then show ?thesis using m2 [of pn] by (simp add: trans_get_def t'_def split: option.split)
  qed
  have "view_ok (trans_view t')"
    unfolding view_ok_trans get using known view_ok_distinct [OF vok]
    by (simp add: t'_def state_view_def all_patches_def)
  moreover have "has_patch (stack_view_of (tr_stack t)) pn" if "bt_get ?m2 pn = Some None" for pn
    using that orig [of pn] trans_ok_get [OF ok, of pn] trans_ok_deleted [OF ok, of pn] m2 [of pn]
    by (auto split: option.splits if_splits)
  ultimately have "trans_ok t'"
    using trans_okD [OF ok] by (simp add: trans_ok_def) (simp add: t'_def bt_ok_insert_all bt_ok_insert_const)
  then show ?thesis using run get
    by (intro exI [of _ t']) (simp add: t'_def t_head_def t_base_def fun_eq_iff)
qed

text \<open>
  C10: \<open>reset_to_state\<close>, the heart of \<open>stg undo\<close>, \<open>redo\<close> and \<open>reset\<close>: in a transaction that has only
  patches of its stack, a well-formed state whose first applied patch has a parent is restored
  exactly: lists, commits and head, and the invariant holds.
\<close>

theorem reset_to_state_spec:
  assumes ok: "trans_ok t" and st: "state_ok st"
    and orig: "\<And>pn. trans_get t pn \<noteq> None \<Longrightarrow> has_patch (stack_view_of (tr_stack t)) pn"
    and parent: "\<And>pn p. st_applied st \<noteq> [] \<Longrightarrow> pn = hd (st_applied st) \<Longrightarrow> bt_get (st_patches st) pn = Some p \<Longrightarrow>
      get_parent_commit (tr_repo t) (ps_commit p) = Ok base"
    and none: "st_applied st = [] \<Longrightarrow> base = st_head st"
  shows "\<exists>t'. reset_to_state st t = (Ok (), t') \<and> trans_ok t' \<and>
           tr_applied t' = st_applied st \<and> tr_unapplied t' = st_unapplied st \<and> tr_hidden t' = st_hidden st \<and>
           trans_get t' = bt_get (st_patches st) \<and> t_head t' = Ok (st_head st) \<and> t_base t' = base"
  using assms by (rule reset_to_state_run)

theorem reset_to_state_spec_witness:
  "\<exists>t'. reset_to_state ex_state ex_trans = (Ok (), t') \<and> tr_applied t' = [pa, pb] \<and> t_base t' = k_base"
proof -
  have 1: "has_patch (stack_view_of (tr_stack ex_trans)) pn" if "trans_get ex_trans pn \<noteq> None" for pn
  proof -
    have "pn \<in> {pa, pb, pc, pd}" using that ex_get(5) [of pn] by (cases "pn \<in> {pa, pb, pc, pd}") simp_all
    then show ?thesis by (auto simp: has_patch_def state_view_def ex_stack_def ex_state_def bt_get_def)
  qed
  have 2: "state_ok ex_state" using ex_stack_ok by (simp add: stack_ok_def ex_stack_def)
  have 3: "get_parent_commit (tr_repo ex_trans) (ps_commit p) = Ok k_base"
    if "pn = hd (st_applied ex_state)" "bt_get (st_patches ex_state) pn = Some p" for pn p
  proof -
    have "ps_commit p = k_a" using that by (auto simp: ex_state_def bt_get_def)
    then show ?thesis by (simp add: get_parent_commit_def ex_repo_def ex_commits)
  qed
  have "\<exists>t'. reset_to_state ex_state ex_trans = (Ok (), t') \<and> trans_ok t' \<and>
      tr_applied t' = st_applied ex_state \<and> tr_unapplied t' = st_unapplied ex_state \<and> tr_hidden t' = st_hidden ex_state \<and>
      trans_get t' = bt_get (st_patches ex_state) \<and> t_head t' = Ok (st_head ex_state) \<and> t_base t' = k_base"
  proof (rule reset_to_state_spec [OF ex_trans_ok 2])
    show "has_patch (stack_view_of (tr_stack ex_trans)) pn" if "trans_get ex_trans pn \<noteq> None" for pn
      using that by (rule 1)
    show "get_parent_commit (tr_repo ex_trans) (ps_commit p) = Ok k_base"
      if "pn = hd (st_applied ex_state)" "bt_get (st_patches ex_state) pn = Some p" for pn p
      using that by (rule 3)
    show "k_base = st_head ex_state" if "st_applied ex_state = []" using that by (simp add: ex_state_def)
  qed
  then show ?thesis by (auto simp: ex_state_def)
qed

text \<open>
  What git documents about a temporary index: after \<open>read-tree\<close> it holds the tree, \<open>write-tree\<close> gives the
  tree it holds, and a change that applies to it gives the merge of the three trees, in which the
  two sides play the same part.
\<close>

definition index_sound ::
  "('x, 'w) git \<Rightarrow> ('x \<Rightarrow> oid \<Rightarrow> bool) \<Rightarrow> (oid \<Rightarrow> oid \<Rightarrow> oid \<Rightarrow> oid) \<Rightarrow> bool" where
  "index_sound g holds merged \<longleftrightarrow>
     (\<forall>tree x x'. x_read_tree g tree x = Inr x' \<longrightarrow> holds x' tree) \<and>
     (\<forall>x tree tree'. holds x tree \<longrightarrow> x_write_tree g x = Inr tree' \<longrightarrow> tree' = tree) \<and>
     (\<forall>base ours theirs x x'. holds x ours \<longrightarrow> x_apply g base theirs True x = (Inr True, x') \<longrightarrow>
        holds x' (merged base ours theirs)) \<and>
     (\<forall>base ours theirs. merged base ours theirs = merged base theirs ours)"

lemma push_conflict_status:
  "push_conflict g pn base ours theirs t = (Ok (tree, st), t') \<Longrightarrow> st = PS_Modified \<or> st = PS_Conflict"
  unfolding push_conflict_def halt_def
  by (auto elim!: sbindE sthenE split: if_splits sum.splits bool.splits)

lemma temp_apply_clean:
  assumes "temp_apply g base theirs (t, x, i) = (Ok (Some tree), s)" "base \<noteq> theirs"
  shows "\<exists>x'. x_apply g base theirs True x = (Inr True, x') \<and> x_write_tree g x' = Inr tree"
proof (cases "x_apply g base theirs True x")
  case (Pair r x')
  then show ?thesis using assms
    by (cases r; cases "x_write_tree g x'")
       (auto simp: temp_apply_def apply_treediff_to_index_def split: if_splits)
qed

text \<open>
  When the temporary index really holds the tree recorded for it (or none is recorded) and the
  patch applies cleanly, the pushed patch gets the merge of its own change into the tree of the new
  parent, whichever of the two trees the index started from.
\<close>

theorem push_merge_right_tree:
  assumes g: "index_sound g holds merged" and i: "\<And>tree. i = Some tree \<Longrightarrow> holds x tree"
    and neq: "c_tree old_parent \<noteq> c_tree new_parent" "c_tree old_parent \<noteq> c_tree commit"
      "c_tree new_parent \<noteq> c_tree commit"
    and run: "push_merge g pn False commit old_parent new_parent (t, x, i) = (Ok (tree, PS_Unmodified), s)"
  shows "tree = merged (c_tree old_parent) (c_tree new_parent) (c_tree commit)"
proof -
  let ?swap = "i = Some (c_tree commit)"
  let ?ours = "if ?swap then c_tree commit else c_tree new_parent"
  let ?theirs = "if ?swap then c_tree new_parent else c_tree commit"
  have m: "sthen (temp_read g ?ours) (sbind (temp_apply g (c_tree old_parent) ?theirs) (\<lambda>maybe_tree.
      case maybe_tree of Some tree \<Rightarrow> ret (tree, PS_Unmodified)
      | None \<Rightarrow> lift_t (push_conflict g pn (c_tree old_parent) ?ours ?theirs))) (t, x, i) = (Ok (tree, PS_Unmodified), s)"
    using run neq by (simp add: push_merge_def Let_def)
  then obtain u s1 where rd: "temp_read g ?ours (t, x, i) = (Ok u, s1)"
    and r1: "sbind (temp_apply g (c_tree old_parent) ?theirs) (\<lambda>maybe_tree.
      case maybe_tree of Some tree \<Rightarrow> ret (tree, PS_Unmodified)
      | None \<Rightarrow> lift_t (push_conflict g pn (c_tree old_parent) ?ours ?theirs)) s1 = (Ok (tree, PS_Unmodified), s)"
    by (auto elim: sthenE)
  obtain x1 where s1: "s1 = (t, x1, Some ?ours)" and h1: "holds x1 ?ours"
    using rd g i by (auto simp: temp_read_def index_sound_def split: if_splits sum.splits)
  from r1 obtain mt s2 where ap: "temp_apply g (c_tree old_parent) ?theirs s1 = (Ok mt, s2)"
    and r2: "(case mt of Some tree \<Rightarrow> ret (tree, PS_Unmodified)
      | None \<Rightarrow> lift_t (push_conflict g pn (c_tree old_parent) ?ours ?theirs)) s2 = (Ok (tree, PS_Unmodified), s)"
    by (auto elim: sbindE)
  have mt: "mt = Some tree"
  proof (cases mt)
    case None
    obtain t2 z where "s2 = (t2, z)" by (rule prod.exhaust)
    with r2 None show ?thesis using push_conflict_status by (fastforce simp: lift_t_run)
  qed (use r2 in simp)
  have theirs: "c_tree old_parent \<noteq> ?theirs" using neq by simp
  obtain x2 where "x_apply g (c_tree old_parent) ?theirs True x1 = (Inr True, x2)" "x_write_tree g x2 = Inr tree"
    using temp_apply_clean [OF ap [unfolded s1 mt] theirs] by blast
  moreover have "holds x' (merged base ours theirs)" if "holds y ours" "x_apply g base theirs True y = (Inr True, x')"
    for x' y base ours theirs using g that unfolding index_sound_def by blast
  moreover have "tree' = tree" if "holds y tree" "x_write_tree g y = Inr tree'" for y tree tree'
    using g that unfolding index_sound_def by blast
  ultimately have "tree = merged (c_tree old_parent) ?ours ?theirs" using h1 by blast
  moreover have "merged (c_tree old_parent) (c_tree commit) (c_tree new_parent) =
      merged (c_tree old_parent) (c_tree new_parent) (c_tree commit)"
    using g by (simp add: index_sound_def)
  ultimately show ?thesis by (simp split: if_splits)
qed

lemma ex_git_sound: "index_sound ex_git (\<lambda>x tree. x = tree) (\<lambda>base ours theirs. ours + theirs - base)"
  by (simp add: index_sound_def ex_git_def add.commute)

theorem push_merge_right_tree_witness:
  "\<exists>s. push_merge ex_git pa False k_c (mk_commit 9 [] 14) k_b (ex_trans, 0, None) = (Ok (14, PS_Unmodified), s) \<and>
     (14::oid) = c_tree k_b + c_tree k_c - 14"
proof -
  have run: "push_merge ex_git pa False k_c (mk_commit 9 [] 14) k_b (ex_trans, 0, None) =
      (Ok (14, PS_Unmodified), (ex_trans, 14, Some 13))"
    by (simp add: push_merge_def Let_def sbind_def sthen_def ret_def gets_def temp_read_def temp_apply_def
        apply_treediff_to_index_def ex_git_def ex_commits)
  have "(14::oid) = c_tree k_b + c_tree k_c - c_tree (mk_commit 9 [] 14)"
    by (rule push_merge_right_tree [OF ex_git_sound _ _ _ _ run]) (simp_all add: ex_commits)
  with run show ?thesis by (simp add: ex_commits)
qed

text \<open>A stack with two unapplied patches, the second of which restores the tree of the base.\<close>

definition stale_state :: stack_state where
  "stale_state =
     \<lparr>st_prev = None, st_head = k_base, st_applied = [], st_unapplied = [pa, pb], st_hidden = [],
      st_patches = [(pa, \<lparr>ps_commit = mk_commit 12 [11] 17\<rparr>), (pb, \<lparr>ps_commit = mk_commit 14 [13] 10\<rparr>)]\<rparr>"

definition stale_trans :: "oid transaction" where
  "stale_trans =
     ex_trans\<lparr>tr_stack := ex_stack\<lparr>sk_state := stale_state, sk_branch_head := k_base\<rparr>,
       tr_applied := [], tr_unapplied := [pa, pb], tr_hidden := [],
       tr_repo := ex_repo\<lparr>objects := map_of [(1, k_base), (11, mk_commit 11 [1] 15), (13, mk_commit 13 [1] 13)]\<rparr>\<rparr>"

lemmas stale_run =
  push_patch_def sbind_def sthen_def ret_def gets_def lift_t_def pure_def modify_def
  committer_of_def patch_commit_of_def parent_of_def get_patch_commit_def get_parent_commit_def
  t_top_def t_base_def trans_get_def push_merge_def temp_read_def temp_apply_def apply_treediff_to_index_def
  push_commit_def author_of_def recommit_def on_repo_def commit_ex_def commit_with_options_def commit_of_id_def find_commit_def
  set_patch_def push_finish_def make_applied_def take_out_def remove_at_def print_def dated_committer_def
  stale_trans_def stale_state_def ex_trans_def ex_stack_def ex_repo_def ex_git_def ex_commits Let_def
  default_options_def bt_get_def


end
