(* ===== verification/State_Log.thy ===== *)
theory State_Log
  imports Stack_State
begin

text \<open>
  Stack states in the repository: \<open>src/stack/state.rs\<close> (reading and committing a state) and
  \<open>src/stack/serde.rs\<close> (its JSON form).

  A stack state is committed as a tree with the JSON document \<open>stack.json\<close> and one blob of metadata per
  patch.  The parents of the commit keep every patch reachable, so that git does not collect it;
  more than \<open>MAX_PARENTS\<close> parents are bundled in grouping commits.
\<close>

type_synonym ('w, 'a) rm = "('w repository, trans_error, 'a) sm"

section \<open>JSON form\<close>

record raw_state =
  rw_prev :: "oid option"
  rw_head :: oid
  rw_applied :: "patch_name list"
  rw_unapplied :: "patch_name list"
  rw_hidden :: "patch_name list"
  rw_patches :: "(patch_name, oid) btree_map"

definition other :: "string \<Rightarrow> trans_error" where
  "other s = OtherError (str s)"

primrec deser_patches ::
  "('x, 'w) git \<Rightarrow> (patch_name \<times> rstring) list \<Rightarrow> (patch_name, oid) btree_map \<Rightarrow>
     (trans_error, (patch_name, oid) btree_map) outcome" where
  "deser_patches g [] m = Ok m"
| "deser_patches g (e # es) m =
     (case g_unhex g (snd e) of
        None \<Rightarrow> Err (OtherError (str ''invalid oid for patch `'' @ pn_str (fst e) @ str ''`: '' @ [39] @ snd e @ [39]))
      | Some i \<Rightarrow> deser_patches g es (bt_insert m (fst e) i))"

definition deserialize :: "('x, 'w) git \<Rightarrow> json_state \<Rightarrow> (trans_error, raw_state) outcome" where
  "deserialize g js =
     (if js_version js \<noteq> 5 then Err (OtherError (str ''invalid value: integer `'' @ show_int (js_version js) @ str ''`, expected 5''))
      else
        obind (case js_prev js of
                 Some s \<Rightarrow>
                   if s = str ''None'' then Ok None
                   else (case g_unhex g s of
                           None \<Rightarrow> Err (OtherError (str ''invalid `prev` oid `'' @ s @ str ''`''))
                         | Some i \<Rightarrow> Ok (Some i))
               | None \<Rightarrow> Ok None) (\<lambda>prev.
        obind (case g_unhex g (js_head js) of
                 None \<Rightarrow> Err (OtherError (str ''invalid `head` oid '' @ [39] @ js_head js @ [39]))
               | Some i \<Rightarrow> Ok i) (\<lambda>head.
        obind (deser_patches g (js_patches js) []) (\<lambda>patches.
        Ok \<lparr>rw_prev = prev, rw_head = head, rw_applied = js_applied js, rw_unapplied = js_unapplied js,
            rw_hidden = js_hidden js, rw_patches = patches\<rparr>))))"

definition serialize :: "('x, 'w) git \<Rightarrow> stack_state \<Rightarrow> json_state" where
  "serialize g st =
     \<lparr>js_version = 5,
      js_prev = map_option (\<lambda>c. g_hex g (c_id c)) (st_prev st),
      js_head = g_hex g (c_id (st_head st)),
      js_applied = st_applied st, js_unapplied = st_unapplied st, js_hidden = st_hidden st,
      js_patches = foldl (\<lambda>m e. bt_insert m (fst e) (g_hex g (c_id (ps_commit (snd e))))) [] (st_patches st)\<rparr>"

section \<open>Reading a state\<close>

primrec raw_patches ::
  "'w repository \<Rightarrow> (patch_name \<times> oid) list \<Rightarrow> (patch_name, patch_state) btree_map \<Rightarrow>
     (trans_error, (patch_name, patch_state) btree_map) outcome" where
  "raw_patches repo [] m = Ok m"
| "raw_patches repo (e # es) m =
     obind (find_commit repo (snd e)) (\<lambda>c. raw_patches repo es (bt_insert m (fst e) \<lparr>ps_commit = c\<rparr>))"

definition from_raw_state :: "'w repository \<Rightarrow> raw_state \<Rightarrow> (trans_error, stack_state) outcome" where
  "from_raw_state repo raw =
     obind (raw_patches repo (rw_patches raw) []) (\<lambda>patches.
     obind (case rw_prev raw of
              Some i \<Rightarrow> obind (find_commit repo i) (\<lambda>c. Ok (Some c))
            | None \<Rightarrow> Ok None) (\<lambda>prev.
     obind (find_commit repo (rw_head raw)) (\<lambda>head.
     Ok \<lparr>st_prev = prev, st_head = head, st_applied = rw_applied raw, st_unapplied = rw_unapplied raw,
         st_hidden = rw_hidden raw, st_patches = patches\<rparr>)))"

definition from_tree :: "('x, 'w) git \<Rightarrow> 'w repository \<Rightarrow> oid \<Rightarrow> (trans_error, stack_state) outcome" where
  "from_tree g repo tree =
     (case state_trees repo tree of
        None \<Rightarrow> Err (other ''stack metadata not found'')
      | Some (_, json) \<Rightarrow>
          (case blobs repo json of
             None \<Rightarrow> Err (other ''object not found'')
           | Some text \<Rightarrow>
               obind (of_sum OtherError (g_unjson g text)) (\<lambda>js.
               obind (deserialize g js) (\<lambda>raw. from_raw_state repo raw))))"

definition from_commit :: "('x, 'w) git \<Rightarrow> 'w repository \<Rightarrow> commit \<Rightarrow> (trans_error, stack_state) outcome" where
  "from_commit g repo c = from_tree g repo (c_tree c)"

section \<open>Writing the tree\<close>

definition write_blob :: "('x, 'w) git \<Rightarrow> rstring \<Rightarrow> ('w, oid) rm" where
  "write_blob g text repo =
     (case g_write_blob g text of
        Inl e \<Rightarrow> (Err (OtherError e), repo)
      | Inr i \<Rightarrow> (Ok i, repo\<lparr>blobs := (blobs repo)(i \<mapsto> text)\<rparr>))"

definition write_patches_tree :: "('x, 'w) git \<Rightarrow> (rstring \<times> oid) list \<Rightarrow> ('w, oid) rm" where
  "write_patches_tree g entries repo =
     (case g_write_patches_tree g entries of
        Inl e \<Rightarrow> (Err (OtherError e), repo)
      | Inr i \<Rightarrow> (Ok i, repo\<lparr>patch_trees := (patch_trees repo)(i \<mapsto> entries)\<rparr>))"

definition write_state_tree :: "('x, 'w) git \<Rightarrow> oid \<Rightarrow> oid \<Rightarrow> ('w, oid) rm" where
  "write_state_tree g patches json repo =
     (case g_write_state_tree g patches json of
        Inl e \<Rightarrow> (Err (OtherError e), repo)
      | Inr i \<Rightarrow> (Ok i, repo\<lparr>state_trees := (state_trees repo)(i \<mapsto> (patches, json))\<rparr>))"

text \<open>The blob of an unchanged patch is reused from the tree of the previous state.\<close>

definition reused_meta ::
  "stack_state option \<Rightarrow> (rstring \<times> oid) list option \<Rightarrow> patch_name \<Rightarrow> commit \<Rightarrow> oid option" where
  "reused_meta prev_state prev_tree pn c =
     (case prev_state of
        None \<Rightarrow> None
      | Some ps \<Rightarrow>
          (case bt_get (st_patches ps) pn of
             None \<Rightarrow> None
           | Some p \<Rightarrow>
               if c_id (ps_commit p) = c_id c then
                 (case prev_tree of
                    None \<Rightarrow> None
                  | Some entries \<Rightarrow> map_option snd (find (\<lambda>e. fst e = pn_str pn) entries))
               else None))"

definition patch_meta_text :: "('x, 'w) git \<Rightarrow> commit \<Rightarrow> commit \<Rightarrow> rstring" where
  "patch_meta_text g parent c =
     str ''Bottom: '' @ g_hex g (c_tree parent) @ [c_newline] @
     str ''Top:    '' @ g_hex g (c_tree c) @ [c_newline] @
     str ''Author: '' @ sig_name (c_author c) @ str '' <'' @ sig_email (c_author c) @ str ''>'' @ [c_newline] @
     str ''Date:   '' @ g_date g (c_committer c) @ [c_newline, c_newline] @
     c_message c"

definition make_patch_meta ::
  "('x, 'w) git \<Rightarrow> stack_state \<Rightarrow> stack_state option \<Rightarrow> (rstring \<times> oid) list option \<Rightarrow> patch_name \<Rightarrow> ('w, oid) rm" where
  "make_patch_meta g st prev_state prev_tree pn =
     sbind (pure (\<lambda>_. expect (bt_get (st_patches st) pn))) (\<lambda>p.
     case reused_meta prev_state prev_tree pn (ps_commit p) of
       Some i \<Rightarrow> ret i
     | None \<Rightarrow>
         sbind (pure (\<lambda>repo. get_parent_commit repo (ps_commit p))) (\<lambda>parent.
         write_blob g (patch_meta_text g parent (ps_commit p))))"

primrec make_patches_entries ::
  "('x, 'w) git \<Rightarrow> stack_state \<Rightarrow> stack_state option \<Rightarrow> (rstring \<times> oid) list option \<Rightarrow> patch_name list \<Rightarrow>
     ('w, (rstring \<times> oid) list) rm" where
  "make_patches_entries g st prev_state prev_tree [] = ret []"
| "make_patches_entries g st prev_state prev_tree (pn # pns) =
     sbind (make_patch_meta g st prev_state prev_tree pn) (\<lambda>i.
     sbind (make_patches_entries g st prev_state prev_tree pns) (\<lambda>entries.
     ret ((pn_str pn, i) # entries)))"

definition make_patches_tree ::
  "('x, 'w) git \<Rightarrow> stack_state \<Rightarrow> stack_state option \<Rightarrow> (rstring \<times> oid) list option \<Rightarrow> ('w, oid) rm" where
  "make_patches_tree g st prev_state prev_tree =
     sbind (make_patches_entries g st prev_state prev_tree (all_patches (state_view st))) (\<lambda>entries.
     write_patches_tree g (sort_key fst entries))"

definition make_tree ::
  "('x, 'w) git \<Rightarrow> stack_state \<Rightarrow> (stack_state \<times> oid) option \<Rightarrow> ('w, oid) rm" where
  "make_tree g st prev =
     sbind (write_blob g (g_json g (serialize g st))) (\<lambda>json.
     sbind (gets (\<lambda>repo. case prev of
              None \<Rightarrow> None
            | Some (_, tree) \<Rightarrow>
                (case state_trees repo tree of None \<Rightarrow> None | Some (patches, _) \<Rightarrow> patch_trees repo patches)))
       (\<lambda>prev_tree.
     sbind (make_patches_tree g st (map_option fst prev) prev_tree) (\<lambda>patches.
     write_state_tree g patches json)))"

section \<open>Committing a state\<close>

text \<open>\<open>IndexSet::insert\<close> and \<open>shift_remove\<close>.\<close>

definition set_insert :: "'a \<Rightarrow> 'a list \<Rightarrow> 'a list" where
  "set_insert x xs = (if x \<in> set xs then xs else xs @ [x])"

text \<open>The commit ids of some patches; \<open>patches[patchname]\<close> panics on an unknown name.\<close>

primrec patch_ids :: "stack_state \<Rightarrow> patch_name list \<Rightarrow> (trans_error, oid list) outcome" where
  "patch_ids st [] = Ok []"
| "patch_ids st (pn # pns) =
     obind (expect (bt_get (st_patches st) pn)) (\<lambda>p.
     obind (patch_ids st pns) (\<lambda>is. Ok (c_id (ps_commit p) # is)))"

definition parent_set ::
  "stack_state \<Rightarrow> stack_state option \<Rightarrow> (trans_error, oid list) outcome" where
  "parent_set st prev_state =
     obind (st_top st) (\<lambda>top.
     obind (patch_ids st (st_unapplied st)) (\<lambda>un.
     obind (patch_ids st (st_hidden st)) (\<lambda>hi.
     let ids = foldl (\<lambda>s i. set_insert i s) [] (c_id (st_head st) # c_id top # un @ hi) in
     case st_prev st of
       None \<Rightarrow> Ok ids
     | Some prev_commit \<Rightarrow>
         obind (expect prev_state) (\<lambda>ps.
         obind (patch_ids ps (all_patches (state_view ps))) (\<lambda>gone.
         Ok (foldl (\<lambda>s i. remove1 i s) (set_insert (c_id prev_commit) ids) gone))))))"

definition MAX_PARENTS :: nat where "MAX_PARENTS = 16"

text \<open>
  Bundle the last \<open>MAX_PARENTS\<close> parents in a grouping commit until few enough are left.  Each round
  makes the list \<open>MAX_PARENTS - 1\<close> shorter.
\<close>

function group_parents ::
  "('x, 'w) git \<Rightarrow> signature \<Rightarrow> signature \<Rightarrow> oid \<Rightarrow> oid list \<Rightarrow> ('w, oid list) rm" where
  "group_parents g author committer tree oids =
     (if length oids > MAX_PARENTS then
        sbind (commit_with_options (g_state_object_id g) author committer (str ''parent grouping'') tree
                 (drop (length oids - MAX_PARENTS) oids))
          (\<lambda>i. group_parents g author committer tree (take (length oids - MAX_PARENTS) oids @ [i]))
      else ret oids)"
  by pat_completeness auto
termination
  by (relation "measure (\<lambda>(g, a, c, t, oids). length oids)") (auto simp: MAX_PARENTS_def)

declare group_parents.simps [simp del]

text \<open>\<open>repo.reference(refname, id, PreviousValue::Any, message)\<close>.\<close>

definition set_reference :: "('x, 'w) git \<Rightarrow> rstring \<Rightarrow> oid \<Rightarrow> ('w, unit) rm" where
  "set_reference g name i =
     edit_references g [\<lparr>re_name = name, re_change = RefUpdate PV_Any (Direct i)\<rparr>]"

text \<open>
  The commits of a state, given its tree: the simplified one, which has only the simplified
  predecessor as parent, then the full one.
\<close>

definition commit_with_parents ::
  "('x, 'w) git \<Rightarrow> stack_state \<Rightarrow> stack_state option \<Rightarrow> oid \<Rightarrow> signature \<Rightarrow> signature \<Rightarrow> rstring \<Rightarrow> oid list \<Rightarrow> ('w, oid) rm" where
  "commit_with_parents g st prev_state tree author committer message simplified_parents =
     sbind (commit_with_options (g_state_object_id g) author committer message tree simplified_parents)
       (\<lambda>simplified.
     sbind (pure (\<lambda>_. parent_set st prev_state)) (\<lambda>parents.
     sbind (group_parents g author committer tree parents) (\<lambda>oids.
     commit_with_options (g_state_object_id g) author committer message tree (simplified # oids))))"

definition state_tree_and_prev :: "('x, 'w) git \<Rightarrow> stack_state \<Rightarrow> ('w, oid \<times> stack_state option) rm" where
  "state_tree_and_prev g st =
     (case st_prev st of
        Some prev_commit \<Rightarrow>
          sbind (pure (\<lambda>repo. from_tree g repo (c_tree prev_commit))) (\<lambda>prev_state.
          sbind (make_tree g st (Some (prev_state, c_tree prev_commit))) (\<lambda>tree.
          ret (tree, Some prev_state)))
      | None \<Rightarrow> sbind (make_tree g st None) (\<lambda>tree. ret (tree, None)))"

text \<open>\<open>expect("prev state commit has a parent")\<close>.\<close>

definition simplified_parents_of :: "stack_state \<Rightarrow> (trans_error, oid list) outcome" where
  "simplified_parents_of st =
     (case st_prev st of
        Some prev_commit \<Rightarrow> if c_parents prev_commit = [] then Panic else Ok [hd (c_parents prev_commit)]
      | None \<Rightarrow> Ok [])"

definition state_commit ::
  "('x, 'w) git \<Rightarrow> stack_state \<Rightarrow> rstring option \<Rightarrow> rstring \<Rightarrow> ('w, oid) rm" where
  "state_commit g st update_ref message =
     sbind (state_tree_and_prev g st) (\<lambda>(tree, prev_state).
     sbind (pure (\<lambda>_. of_sum OtherError (g_committer g))) (\<lambda>committer.
     sbind (pure (\<lambda>_. of_sum OtherError (g_author g))) (\<lambda>author.
     sbind (pure (\<lambda>_. simplified_parents_of st)) (\<lambda>simplified_parents.
     sbind (commit_with_parents g st prev_state tree author committer message simplified_parents) (\<lambda>i.
     sthen (case update_ref of Some name \<Rightarrow> set_reference g name i | None \<Rightarrow> ret ())
           (ret i))))))"

end
