(* ===== verification/Upgrade.thy ===== *)
theory Upgrade
  imports State_Log
begin

text \<open>
  Upgrading old stack metadata, \<open>src/stack/upgrade.rs\<close>: finding the version, and reading the text of
  version 4 into a state of version 5.  Versions 2 and 3 are kept in files under \<open>.git/patches\<close>; their
  upgrade is the argument \<open>from_files\<close>, and the version in the configuration the argument
  \<open>config_version\<close>.
\<close>

section \<open>Reference names\<close>

definition state_refname_v4 :: "rstring \<Rightarrow> rstring" where
  "state_refname_v4 branch = str ''refs/heads/'' @ branch @ str ''.stgit''"

definition state_refname_v5 :: "rstring \<Rightarrow> rstring" where
  "state_refname_v5 branch = str ''refs/stacks/'' @ branch"

section \<open>The text of version 4\<close>

record meta_state =
  mt_key :: "rstring option"
  mt_prev :: "oid option option"
  mt_head :: "oid option"
  mt_applied :: "patch_name list"
  mt_unapplied :: "patch_name list"
  mt_hidden :: "patch_name list"
  mt_patches :: "(patch_name, oid) btree_map"

definition meta_start :: meta_state where
  "meta_start =
     \<lparr>mt_key = None, mt_prev = None, mt_head = None, mt_applied = [], mt_unapplied = [], mt_hidden = [],
      mt_patches = []\<rparr>"

definition push_meta :: "rstring \<Rightarrow> patch_name \<Rightarrow> meta_state \<Rightarrow> meta_state" where
  "push_meta key pn m =
     (if key = str ''Applied'' then m\<lparr>mt_applied := mt_applied m @ [pn]\<rparr>
      else if key = str ''Unapplied'' then m\<lparr>mt_unapplied := mt_unapplied m @ [pn]\<rparr>
      else m\<lparr>mt_hidden := mt_hidden m @ [pn]\<rparr>)"

abbreviation list_keys :: "rstring list" where
  "list_keys \<equiv> [str ''Applied'', str ''Unapplied'', str ''Hidden'']"

text \<open>An indented line: a patch of the list that was announced last.\<close>

definition meta_entry :: "('x, 'w) git \<Rightarrow> rstring \<Rightarrow> meta_state \<Rightarrow> (trans_error, meta_state) outcome" where
  "meta_entry g line m =
     (case mt_key m of
        None \<Rightarrow> Err (other ''malformed metadata'')
      | Some key \<Rightarrow>
          if key \<notin> set list_keys then Panic
          else
            (case split_once c_colon (trim line) of
               None \<Rightarrow> Ok m
             | Some (name_str, oid_str) \<Rightarrow>
                 obind (omap_err (\<lambda>_. OtherError (str ''converting `'' @ name_str @ str ''` to patchname'')) (from_str name_str))
                   (\<lambda>pn.
                 (case g_unhex g (trim oid_str) of
                    None \<Rightarrow> Err (OtherError (str ''converting `'' @ trim oid_str @ str ''` for `'' @ pn_str pn @ str ''`''))
                  | Some i \<Rightarrow> Ok ((push_meta key pn m)\<lparr>mt_patches := bt_insert (mt_patches m) pn i\<rparr>)))))"

text \<open>A line with a key.  The value \<open>None\<close> of \<open>Previous\<close> leaves \<open>prev\<close> empty.\<close>

definition meta_key :: "('x, 'w) git \<Rightarrow> rstring \<Rightarrow> rstring \<Rightarrow> meta_state \<Rightarrow> (trans_error, meta_state) outcome" where
  "meta_key g key value m =
     (if key = str ''Previous'' then
        (if value \<in> {str ''None'', str ''none''} then Ok (m\<lparr>mt_prev := None, mt_key := None\<rparr>)
         else (case g_unhex g value of
                 None \<Rightarrow> Err (OtherError (str ''converting `'' @ value @ str ''` for `Prev`''))
               | Some i \<Rightarrow> Ok (m\<lparr>mt_prev := Some (Some i), mt_key := None\<rparr>)))
      else if key = str ''Head'' then
        (case g_unhex g value of
           None \<Rightarrow> Err (OtherError (str ''converting `'' @ value @ str ''` for `Head`''))
         | Some i \<Rightarrow> Ok (m\<lparr>mt_head := Some i, mt_key := None\<rparr>))
      else if key \<in> set list_keys then Ok (m\<lparr>mt_key := Some key\<rparr>)
      else Err (OtherError (str ''unexpected key `'' @ key @ str ''` in meta'')))"

definition meta_line :: "('x, 'w) git \<Rightarrow> rstring \<Rightarrow> meta_state \<Rightarrow> (trans_error, meta_state) outcome" where
  "meta_line g line m =
     (if starts_with line [c_space] then meta_entry g line m
      else (case split_once c_colon line of
              Some (key, value) \<Rightarrow> meta_key g key (trim value) m
            | None \<Rightarrow> Ok m))"

primrec meta_loop :: "('x, 'w) git \<Rightarrow> rstring list \<Rightarrow> meta_state \<Rightarrow> (trans_error, meta_state) outcome" where
  "meta_loop g [] m = Ok m"
| "meta_loop g (line # ls) m = obind (meta_line g line m) (meta_loop g ls)"

definition meta_v4 :: "('x, 'w) git \<Rightarrow> rstring \<Rightarrow> (trans_error, raw_state) outcome" where
  "meta_v4 g content =
     (case lines content of
        [] \<Rightarrow> Err (other ''malformed metadata (expected version 4)'')
      | first # ls \<Rightarrow>
          if first \<noteq> str ''Version: 4'' then Err (other ''malformed metadata (expected version 4)'')
          else
            obind (meta_loop g ls meta_start) (\<lambda>m.
            if mt_prev m = None then Err (other ''malformed version 4 meta: missing Previous'')
            else
              (case mt_head m of
                 None \<Rightarrow> Err (other ''malformed version 4 meta: missing Head'')
               | Some head \<Rightarrow>
                   Ok \<lparr>rw_prev = None, rw_head = head, rw_applied = mt_applied m,
                       rw_unapplied = mt_unapplied m, rw_hidden = mt_hidden m, rw_patches = mt_patches m\<rparr>)))"

section \<open>Upgrading\<close>

definition upgrade_msg :: rstring where "upgrade_msg = str ''stack upgrade to version 5''"

definition stack_upgrade_from_4 :: "('x, 'w) git \<Rightarrow> rstring \<Rightarrow> ('w, unit) rm" where
  "stack_upgrade_from_4 g branch =
     sbind (gets (\<lambda>repo. (bt_get (refs repo) (state_refname_v4 branch),
                          follow max_follow (refs repo) (state_refname_v4 branch)))) (\<lambda>(found, peeled).
     if found = None then ret ()
     else
       (case peeled of
          None \<Rightarrow> throw (other ''finding version 4 state commit'')
        | Some (refname, i) \<Rightarrow>
            sbind (pure (\<lambda>repo. find_commit repo i)) (\<lambda>state_commit_v4.
            sbind (gets (\<lambda>repo. meta_blobs repo (c_tree state_commit_v4))) (\<lambda>meta.
            case meta of
              None \<Rightarrow> ret ()
            | Some content \<Rightarrow>
                sbind (pure (\<lambda>_. meta_v4 g content)) (\<lambda>raw.
                sbind (pure (\<lambda>repo. from_raw_state repo raw)) (\<lambda>st.
                sbind (state_commit g st None upgrade_msg) (\<lambda>new_id.
                sthen (edit_references g
                         [\<lparr>re_name = state_refname_v5 branch, re_change = RefUpdate PV_MustNotExist (Direct new_id)\<rparr>])
                      (delete_reference g refname (Direct i)))))))))"

definition has_version_4 :: "('x, 'w) git \<Rightarrow> 'w repository \<Rightarrow> rstring \<Rightarrow> (trans_error, bool) outcome" where
  "has_version_4 g repo branch =
     (if bt_get (refs repo) (state_refname_v4 branch) = None then Ok False
      else
        (case follow max_follow (refs repo) (state_refname_v4 branch) of
           None \<Rightarrow> Err (other ''finding version 4 state commit'')
         | Some (_, i) \<Rightarrow>
             obind (find_commit repo i) (\<lambda>c.
             (case meta_blobs repo (c_tree c) of
                None \<Rightarrow> Ok False
              | Some content \<Rightarrow>
                  Ok (case lines content of [] \<Rightarrow> False | first # _ \<Rightarrow> first = str ''Version: 4'')))))"

definition get_format_version ::
  "('x, 'w) git \<Rightarrow> int option \<Rightarrow> 'w repository \<Rightarrow> rstring \<Rightarrow> (trans_error, int) outcome" where
  "get_format_version g config_version repo branch =
     (if bt_get (refs repo) (state_refname_v5 branch) \<noteq> None then Ok 5
      else
        obind (has_version_4 g repo branch) (\<lambda>v4.
        if v4 then Ok 4
        else (case config_version of Some v \<Rightarrow> Ok v | None \<Rightarrow> Ok (- 1))))"

definition stack_upgrade ::
  "('x, 'w) git \<Rightarrow> int option \<Rightarrow> (int \<Rightarrow> ('w, unit) rm) \<Rightarrow> rstring \<Rightarrow> ('w, unit) rm" where
  "stack_upgrade g config_version from_files branch =
     sbind (pure (\<lambda>repo. get_format_version g config_version repo branch)) (\<lambda>version.
     if version = 5 then ret ()
     else if version = 4 then stack_upgrade_from_4 g branch
     else if version = 3 \<or> version = 2 then from_files version
     else if version = 1 then throw (other ''meta data version 1 not handled yet'')
     else if version = - 1 then ret ()
     else throw (other ''unknown meta data version''))"

end
