(* ===== verification/Stack_Ops.thy ===== *)
theory Stack_Ops
  imports Upgrade
begin

text \<open>
  The stack of a branch, \<open>src/stack/stack.rs\<close>: opening or initializing a stack, repairing its patch
  references, logging external modifications, clearing the log and removing the stack; and the branch
  of \<open>src/wrap/branch.rs\<close>.

  The methods run on the repository.  A stack keeps no reference to it in the model, the repository
  is the state of the monad.
\<close>

section \<open>Branches\<close>

text \<open>\<open>Branch\<close>: a reference, with the target it was found with.\<close>

record branch =
  br_name :: rstring
  br_target :: ref_target

definition heads_prefix :: rstring where "heads_prefix = str ''refs/heads/''"
definition remotes_prefix :: rstring where "remotes_prefix = str ''refs/remotes/''"

definition wrap_branch :: "rstring \<Rightarrow> ref_target \<Rightarrow> (trans_error, branch) outcome" where
  "wrap_branch name target =
     (if starts_with name heads_prefix \<or> starts_with name remotes_prefix
      then Ok \<lparr>br_name = name, br_target = target\<rparr> else Panic)"

text \<open>The category prefix of a local or remote branch is left out.\<close>

definition get_branch_name :: "branch \<Rightarrow> rstring" where
  "get_branch_name b =
     (case strip_prefix heads_prefix (br_name b) of
        Some short \<Rightarrow> short
      | None \<Rightarrow>
          (case strip_prefix remotes_prefix (br_name b) of Some short \<Rightarrow> short | None \<Rightarrow> br_name b))"

text \<open>\<open>Reference::id\<close> panics on a symbolic reference.\<close>

definition ref_id :: "ref_target \<Rightarrow> ('e, oid) outcome" where
  "ref_id target = (case target of Direct i \<Rightarrow> Ok i | Symbolic _ \<Rightarrow> Panic)"

definition get_commit :: "'w repository \<Rightarrow> branch \<Rightarrow> (trans_error, commit) outcome" where
  "get_commit repo b = obind (ref_id (br_target b)) (find_commit repo)"

section \<open>Reference names\<close>

definition state_refname_from_branch_name :: "rstring \<Rightarrow> rstring" where
  "state_refname_from_branch_name branch_name = str ''refs/stacks/'' @ branch_name"

definition get_patch_refname :: "rstring \<Rightarrow> rstring \<Rightarrow> rstring" where
  "get_patch_refname branch_name patch_spec = str ''refs/patches/'' @ branch_name @ str ''/'' @ patch_spec"

definition patch_refname :: "stack \<Rightarrow> patch_name \<Rightarrow> rstring" where
  "patch_refname sk pn = get_patch_refname (sk_branch_name sk) (pn_str pn)"

section \<open>Patch references\<close>

text \<open>
  One round of the loop of \<open>ensure_patch_refs\<close> over the existing references below the prefix: the
  patches of the state that no reference was found for yet are the result.  All names are valid UTF-8
  in the model.
\<close>

definition ensure_one ::
  "('x, 'w) git \<Rightarrow> rstring \<Rightarrow> rstring \<times> ref_target \<Rightarrow> (patch_name, patch_state) btree_map \<Rightarrow>
     ('w, (patch_name, patch_state) btree_map) rm" where
  "ensure_one g pre existing left =
     (case existing of (name, target) \<Rightarrow>
        sbind (pure (\<lambda>_. expect (strip_prefix pre name))) (\<lambda>patchname_str.
        (case from_str patchname_str of
           Ok pn \<Rightarrow>
             (case bt_get left pn of
                Some p \<Rightarrow>
                  sthen (case target of
                           Direct i \<Rightarrow>
                             if i = c_id (ps_commit p) then ret ()
                             else edit_references g [\<lparr>re_name = name, re_change =
                                    RefUpdate (PV_MustExistAndMatch target) (Direct (c_id (ps_commit p)))\<rparr>]
                         | Symbolic _ \<Rightarrow>
                             edit_references g [\<lparr>re_name = name, re_change =
                               RefUpdate (PV_ExistingMustMatch target) (Direct (c_id (ps_commit p)))\<rparr>])
                        (ret (bt_remove left pn))
              | None \<Rightarrow> sthen (delete_reference g name target) (ret left))
         | _ \<Rightarrow> sthen (delete_reference g name target) (ret left))))"

primrec ensure_existing ::
  "('x, 'w) git \<Rightarrow> rstring \<Rightarrow> (rstring \<times> ref_target) list \<Rightarrow> (patch_name, patch_state) btree_map \<Rightarrow>
     ('w, (patch_name, patch_state) btree_map) rm" where
  "ensure_existing g pre [] left = ret left"
| "ensure_existing g pre (r # rs) left =
     sbind (ensure_one g pre r left) (ensure_existing g pre rs)"

definition ensure_patch_refs :: "('x, 'w) git \<Rightarrow> rstring \<Rightarrow> stack_state \<Rightarrow> ('w, unit) rm" where
  "ensure_patch_refs g branch_name st =
     (let pre = get_patch_refname branch_name [] in
      sbind (gets (\<lambda>repo. filter (\<lambda>r. starts_with (fst r) pre) (refs repo))) (\<lambda>existing.
      sbind (ensure_existing g pre existing (st_patches st)) (\<lambda>left.
      sforeach left (\<lambda>e. edit_references g
        [\<lparr>re_name = get_patch_refname branch_name (pn_str (fst e)),
          re_change = RefUpdate PV_MustNotExist (Direct (c_id (ps_commit (snd e))))\<rparr>]))))"

section \<open>Opening a stack\<close>

datatype init_policy =
  AutoInitialize | MustInitialize | ForceInitialize | RequireInitialized | AllowUninitialized

definition state_and_base_from_ref ::
  "('x, 'w) git \<Rightarrow> commit \<Rightarrow> ref_target \<Rightarrow> ('w, stack_state \<times> commit) rm" where
  "state_and_base_from_ref g branch_head state_ref =
     sbind (pure (\<lambda>_. ref_id state_ref)) (\<lambda>i.
     sbind (pure (\<lambda>repo. find_commit repo i)) (\<lambda>c.
     sbind (pure (\<lambda>repo. from_tree g repo (c_tree c))) (\<lambda>st.
     case st_applied st of
       [] \<Rightarrow> ret (st, branch_head)
     | pn # _ \<Rightarrow>
         sbind (pure (\<lambda>_. expect (bt_get (st_patches st) pn))) (\<lambda>p.
         sthen (sassert (c_parents (ps_commit p) \<noteq> []))
        (sbind (pure (\<lambda>repo. find_commit repo (hd (c_parents (ps_commit p))))) (\<lambda>base.
         ret (st, base)))))))"

definition initialize_state_and_base ::
  "('x, 'w) git \<Rightarrow> commit \<Rightarrow> rstring \<Rightarrow> ('w, stack_state \<times> commit) rm" where
  "initialize_state_and_base g branch_head stack_refname =
     (let st = new_state branch_head in
      sthen (state_commit g st (Some stack_refname) (str ''initialize'')) (ret (st, branch_head)))"

definition policy_state ::
  "('x, 'w) git \<Rightarrow> init_policy \<Rightarrow> rstring \<Rightarrow> commit \<Rightarrow> rstring \<Rightarrow> ref_target option \<Rightarrow>
     ('w, (stack_state \<times> commit) \<times> bool) rm" where
  "policy_state g policy branch_name branch_head stack_refname maybe_state_ref =
     (let read = (\<lambda>r. sbind (state_and_base_from_ref g branch_head r) (\<lambda>sb. ret (sb, True)));
          init = sbind (initialize_state_and_base g branch_head stack_refname) (\<lambda>sb. ret (sb, True))
      in case policy of
           AutoInitialize \<Rightarrow> (case maybe_state_ref of Some r \<Rightarrow> read r | None \<Rightarrow> init)
         | MustInitialize \<Rightarrow>
             if maybe_state_ref \<noteq> None then
               throw (OtherError (str ''StGit stack already initialized for branch `'' @ branch_name @ str ''`''))
             else init
         | ForceInitialize \<Rightarrow> init
         | RequireInitialized \<Rightarrow>
             (case maybe_state_ref of
                None \<Rightarrow> throw (OtherError (str ''StGit stack not initialized for branch `'' @ branch_name @ str ''`''))
              | Some r \<Rightarrow> read r)
         | AllowUninitialized \<Rightarrow>
             (case maybe_state_ref of
                Some r \<Rightarrow> read r
              | None \<Rightarrow> ret ((new_state branch_head, branch_head), False)))"

definition from_branch ::
  "('x, 'w) git \<Rightarrow> int option \<Rightarrow> (int \<Rightarrow> ('w, unit) rm) \<Rightarrow> branch \<Rightarrow> init_policy \<Rightarrow> ('w, stack) rm" where
  "from_branch g config_version from_files b policy =
     (let branch_name = get_branch_name b; stack_refname = state_refname_from_branch_name branch_name in
      sbind (pure (\<lambda>repo. get_commit repo b)) (\<lambda>branch_head.
      sthen (stack_upgrade g config_version from_files branch_name)
     (sbind (gets (\<lambda>repo. bt_get (refs repo) stack_refname)) (\<lambda>maybe_state_ref.
      sbind (policy_state g policy branch_name branch_head stack_refname maybe_state_ref) (\<lambda>((st, base), is_initialized).
      sthen (ensure_patch_refs g branch_name st)
            (ret \<lparr>sk_branch_name = branch_name, sk_branch_refname = br_name b, sk_branch_head = branch_head,
                  sk_stack_refname = stack_refname, sk_base = base, sk_state = st,
                  sk_is_initialized = is_initialized\<rparr>))))))"

section \<open>Methods of a stack\<close>

definition is_head_top :: "stack \<Rightarrow> bool" where
  "is_head_top sk \<longleftrightarrow> c_id (st_head (sk_state sk)) = c_id (sk_branch_head sk)"

definition mismatch_msg :: rstring where
  "mismatch_msg =
     str ''HEAD and stack top are not the same. This can happen if you modify the branch with git. See `stg repair --help` for next steps to take.''"

definition check_head_top_mismatch :: "stack \<Rightarrow> (trans_error, unit) outcome" where
  "check_head_top_mismatch sk =
     (if st_applied (sk_state sk) = [] \<or> is_head_top sk then Ok () else Err (OtherError mismatch_msg))"

definition external_msg :: rstring where
  "external_msg =
     str ''external modifications'' @ [c_newline, c_newline]
     @ str ''Modifications by tools other than StGit (e.g. git).'' @ [c_newline]"

definition log_external_mods :: "('x, 'w) git \<Rightarrow> stack \<Rightarrow> rstring option \<Rightarrow> ('w, stack) rm" where
  "log_external_mods g sk message =
     sthen (sassert (sk_is_initialized sk))
    (sbind (pure (\<lambda>repo. peel_reference repo (sk_stack_refname sk))) (\<lambda>prev_state_commit.
     let st = advance_head (sk_state sk) (sk_branch_head sk) prev_state_commit in
     sbind (state_commit g st None (case message of Some m \<Rightarrow> m | None \<Rightarrow> external_msg)) (\<lambda>i.
     sthen (edit_references g [\<lparr>re_name = sk_stack_refname sk, re_change =
              RefUpdate (PV_ExistingMustMatch (Direct (c_id prev_state_commit))) (Direct i)\<rparr>])
           (ret (sk\<lparr>sk_state := st\<rparr>)))))"

definition clear_state_log :: "('x, 'w) git \<Rightarrow> stack \<Rightarrow> rstring \<Rightarrow> ('w, stack) rm" where
  "clear_state_log g sk reflog_msg =
     (let st = (sk_state sk)\<lparr>st_prev := None\<rparr> in
      sthen (state_commit g st (Some (sk_stack_refname sk)) reflog_msg) (ret (sk\<lparr>sk_state := st\<rparr>)))"

text \<open>\<open>deinitialize\<close>, up to the removal of the configuration section.\<close>

definition deinitialize_refs :: "('x, 'w) git \<Rightarrow> stack \<Rightarrow> ('w, unit) rm" where
  "deinitialize_refs g sk =
     sbind (gets (\<lambda>repo. bt_get (refs repo) (sk_stack_refname sk))) (\<lambda>found.
     case found of
       None \<Rightarrow> throw (other ''reference not found'')
     | Some state_ref \<Rightarrow>
         sbind (gets (\<lambda>repo. filter (\<lambda>r. starts_with (fst r) (get_patch_refname (sk_branch_name sk) [])) (refs repo)))
           (\<lambda>existing.
         sthen (sforeach existing (\<lambda>r. delete_reference g (fst r) (snd r)))
               (delete_reference g (sk_stack_refname sk) state_ref)))"

end
