(* ===== verification/Status.thy ===== *)
theory Status
  imports Repository
begin

text \<open>
  The output of \<open>git status --porcelain=v2 --null\<close>: \<open>src/stupid/status.rs\<close>.

  The output is a list of bytes.  \<open>Statuses\<close> keeps it with the ranges of its headers and entries;
  an entry or header is the output with one range, and reads its fields from there.
\<close>

section \<open>Bytes\<close>

text \<open>Indexing panics out of range; \<open>ByteSlice::find_byte\<close> and \<open>splitn_str\<close> with a separator of one byte.\<close>

definition byte_at :: "nat list \<Rightarrow> nat \<Rightarrow> (trans_error, nat) outcome" where
  "byte_at data i = (if i < length data then Ok (data ! i) else Panic)"

definition find_byte :: "nat \<Rightarrow> nat list \<Rightarrow> nat option" where
  "find_byte b s = position (\<lambda>c. c = b) s"

fun splitn :: "nat \<Rightarrow> nat \<Rightarrow> nat list \<Rightarrow> nat list list" where
  "splitn 0 b s = []"
| "splitn (Suc 0) b s = [s]"
| "splitn (Suc (Suc n)) b s =
     (case find_byte b s of
        None \<Rightarrow> [s]
      | Some i \<Rightarrow> take i s # splitn (Suc n) b (drop (Suc i) s))"

definition nth_opt :: "nat \<Rightarrow> 'a list \<Rightarrow> 'a option" where
  "nth_opt n xs = (if n < length xs then Some (xs ! n) else None)"

text \<open>\<open>str::from_utf8\<close>.\<close>

definition cont_byte :: "nat \<Rightarrow> bool" where
  "cont_byte b \<longleftrightarrow> 128 \<le> b \<and> b \<le> 191"

fun utf8_decode :: "nat list \<Rightarrow> rstring option" where
  "utf8_decode [] = Some []"
| "utf8_decode (b # bs) =
     (if b < 128 then map_option ((#) b) (utf8_decode bs)
      else if 194 \<le> b \<and> b \<le> 223 then
        (case bs of
           c # cs \<Rightarrow> if cont_byte c then map_option ((#) ((b - 192) * 64 + (c - 128))) (utf8_decode cs) else None
         | _ \<Rightarrow> None)
      else if 224 \<le> b \<and> b \<le> 239 then
        (case bs of
           c # d # cs \<Rightarrow>
             if cont_byte c \<and> cont_byte d \<and> (b = 224 \<longrightarrow> 160 \<le> c) \<and> (b = 237 \<longrightarrow> c \<le> 159)
             then map_option ((#) ((b - 224) * 4096 + (c - 128) * 64 + (d - 128))) (utf8_decode cs) else None
         | _ \<Rightarrow> None)
      else if 240 \<le> b \<and> b \<le> 244 then
        (case bs of
           c # d # e # cs \<Rightarrow>
             if cont_byte c \<and> cont_byte d \<and> cont_byte e \<and> (b = 240 \<longrightarrow> 144 \<le> c) \<and> (b = 244 \<longrightarrow> c \<le> 143)
             then map_option ((#) ((b - 240) * 262144 + (c - 128) * 4096 + (d - 128) * 64 + (e - 128))) (utf8_decode cs)
             else None
         | _ \<Rightarrow> None)
      else None)"

section \<open>Kinds\<close>

datatype status_entry_kind = OrdinaryEntry | RenamedEntry | UnmergedEntry | UntrackedEntry | IgnoredEntry

definition kind_from_char :: "nat \<Rightarrow> (trans_error, status_entry_kind) outcome" where
  "kind_from_char c =
     (if c = of_char CHR ''1'' then Ok OrdinaryEntry
      else if c = of_char CHR ''2'' then Ok RenamedEntry
      else if c = of_char CHR ''u'' then Ok UnmergedEntry
      else if c = of_char CHR ''?'' then Ok UntrackedEntry
      else if c = of_char CHR ''!'' then Ok IgnoredEntry
      else Panic)"

datatype file_status =
  Unmodified | Modified | FileTypeChanged | Added | Deleted | Renamed | Unmerged

definition status_from_char :: "nat \<Rightarrow> (trans_error, file_status) outcome" where
  "status_from_char c =
     (if c = of_char CHR ''.'' then Ok Unmodified
      else if c = of_char CHR ''M'' then Ok Modified
      else if c = of_char CHR ''T'' then Ok FileTypeChanged
      else if c = of_char CHR ''A'' then Ok Added
      else if c = of_char CHR ''D'' then Ok Deleted
      else if c = of_char CHR ''R'' then Ok Renamed
      else if c = of_char CHR ''U'' then Ok Unmerged
      else Panic)"

section \<open>Splitting the output\<close>

record statuses =
  ss_data :: "nat list"
  ss_headers :: "(nat \<times> nat) list"
  ss_entries :: "(nat \<times> nat) list"

text \<open>The end of the entry at an offset: its terminator, the second one for a renamed file.\<close>

definition entry_end :: "nat list \<Rightarrow> nat \<Rightarrow> nat \<Rightarrow> (trans_error, nat) outcome" where
  "entry_end data offset c =
     obind (kind_from_char c) (\<lambda>kind.
     obind (expect (find_byte 0 (drop offset data))) (\<lambda>null_offset.
     if kind = RenamedEntry then
       obind (expect (find_byte 0 (drop (offset + null_offset + 1) data))) (\<lambda>snd_offset.
       Ok (offset + (null_offset + snd_offset + 1)))
     else Ok (offset + null_offset)))"

definition header_end :: "nat list \<Rightarrow> nat \<Rightarrow> (trans_error, nat) outcome" where
  "header_end data offset =
     obind (expect (find_byte 0 (drop offset data))) (\<lambda>null_offset. Ok (offset + null_offset))"

text \<open>One range, from the offset to the end found, and the offset after it.\<close>

definition split_at :: "nat list \<Rightarrow> nat \<Rightarrow> (trans_error, bool \<times> nat) outcome" where
  "split_at data offset =
     (if data ! offset = c_hash then obind (header_end data offset) (\<lambda>e. Ok (True, e))
      else obind (entry_end data offset (data ! offset)) (\<lambda>e. Ok (False, e)))"

lemma entry_end_ge: "entry_end data offset c = Ok e \<Longrightarrow> offset \<le> e"
  by (auto simp: entry_end_def split: if_splits)

lemma split_at_ge: "split_at data offset = Ok (h, e) \<Longrightarrow> offset \<le> e"
  by (auto simp: split_at_def header_end_def dest: entry_end_ge split: if_splits)

function from_data_loop ::
  "nat list \<Rightarrow> nat \<Rightarrow> (nat \<times> nat) list \<Rightarrow> (nat \<times> nat) list \<Rightarrow> (trans_error, statuses) outcome" where
  "from_data_loop data offset header_ranges entry_ranges =
     (if offset < length data then
        (case split_at data offset of
           Err e \<Rightarrow> Err e
         | Panic \<Rightarrow> Panic
         | Ok (is_header, e) \<Rightarrow>
             if is_header then from_data_loop data (e + 1) (header_ranges @ [(offset, e)]) entry_ranges
             else from_data_loop data (e + 1) header_ranges (entry_ranges @ [(offset, e)]))
      else Ok \<lparr>ss_data = data, ss_headers = header_ranges, ss_entries = entry_ranges\<rparr>)"
  by pat_completeness auto
termination
proof (relation "measure (\<lambda>(data, offset, _). length data - offset)", goal_cases)
  case (2 data offset hs es p h e)
  then have "offset \<le> e" using split_at_ge by metis
  then show ?case using 2 by simp
next
  case (3 data offset hs es p h e)
  then have "offset \<le> e" using split_at_ge by metis
  then show ?case using 3 by simp
qed simp

declare from_data_loop.simps [simp del]

definition from_data :: "nat list \<Rightarrow> (trans_error, statuses) outcome" where
  "from_data data = from_data_loop data 0 [] []"

section \<open>Entries\<close>

type_synonym status_entry = "nat list \<times> nat \<times> nat"

definition entry_bytes :: "status_entry \<Rightarrow> nat list" where
  "entry_bytes e = (case e of (data, a, b) \<Rightarrow> drop a (take b data))"

definition iter :: "statuses \<Rightarrow> status_entry list" where
  "iter ss = map (\<lambda>r. (ss_data ss, r)) (ss_entries ss)"

definition is_empty :: "statuses \<Rightarrow> bool" where
  "is_empty ss \<longleftrightarrow> ss_entries ss = []"

definition kind :: "status_entry \<Rightarrow> (trans_error, status_entry_kind) outcome" where
  "kind e = (case e of (data, a, b) \<Rightarrow> obind (byte_at data a) kind_from_char)"

definition index_status :: "status_entry \<Rightarrow> (trans_error, file_status) outcome" where
  "index_status e = (case e of (data, a, b) \<Rightarrow> obind (byte_at data (a + 2)) status_from_char)"

definition worktree_status :: "status_entry \<Rightarrow> (trans_error, file_status) outcome" where
  "worktree_status e = (case e of (data, a, b) \<Rightarrow> obind (byte_at data (a + 3)) status_from_char)"

definition path_bytes :: "status_entry \<Rightarrow> (trans_error, nat list) outcome" where
  "path_bytes e =
     obind (kind e) (\<lambda>k. case k of
       OrdinaryEntry \<Rightarrow> expect (nth_opt 8 (splitn 9 c_space (entry_bytes e)))
     | RenamedEntry \<Rightarrow>
         obind (expect (nth_opt 9 (splitn 10 c_space (entry_bytes e)))) (\<lambda>s.
         expect (nth_opt 0 (splitn 2 0 s)))
     | UnmergedEntry \<Rightarrow> expect (nth_opt 10 (splitn 11 c_space (entry_bytes e)))
     | _ \<Rightarrow> expect (nth_opt 1 (splitn 2 c_space (entry_bytes e))))"

section \<open>Checks\<close>

definition conflicts_msg :: rstring where "conflicts_msg = str ''resolve outstanding conflicts first''"

primrec any_unmerged :: "(status_entry \<Rightarrow> bool) \<Rightarrow> status_entry list \<Rightarrow> (trans_error, bool) outcome" where
  "any_unmerged p [] = Ok False"
| "any_unmerged p (e # es) =
     obind (kind e) (\<lambda>k. if k = UnmergedEntry \<and> p e then Ok True else any_unmerged p es)"

definition check_conflicts_filter :: "(status_entry \<Rightarrow> bool) \<Rightarrow> statuses \<Rightarrow> (trans_error, unit) outcome" where
  "check_conflicts_filter p ss =
     obind (any_unmerged p (iter ss)) (\<lambda>b. if b then Err (OtherError conflicts_msg) else Ok ())"

definition check_status_conflicts :: "statuses \<Rightarrow> (trans_error, unit) outcome" where
  "check_status_conflicts = check_conflicts_filter (\<lambda>_. True)"

definition dirty_msg :: "string \<Rightarrow> rstring" where
  "dirty_msg what = str what @ str '' not clean; use `refresh` or `reset --hard`''"

text \<open>The loop over the entries with its two flags.\<close>

primrec clean_loop :: "status_entry list \<Rightarrow> bool \<Rightarrow> bool \<Rightarrow> (trans_error, bool \<times> bool) outcome" where
  "clean_loop [] index_dirty worktree_dirty = Ok (index_dirty, worktree_dirty)"
| "clean_loop (e # es) index_dirty worktree_dirty =
     obind (index_status e) (\<lambda>i.
     obind (worktree_status e) (\<lambda>w.
     let index_dirty = (index_dirty \<or> i \<noteq> Unmodified); worktree_dirty = (worktree_dirty \<or> w \<noteq> Unmodified) in
     if index_dirty \<and> worktree_dirty then Err (OtherError (dirty_msg ''index and worktree''))
     else clean_loop es index_dirty worktree_dirty))"

definition check_index_and_worktree_clean :: "statuses \<Rightarrow> (trans_error, unit) outcome" where
  "check_index_and_worktree_clean ss =
     (if is_empty ss then Ok ()
      else
        obind (clean_loop (iter ss) False False) (\<lambda>(index_dirty, worktree_dirty).
        if index_dirty then Err (OtherError (dirty_msg ''index''))
        else if worktree_dirty then Err (OtherError (dirty_msg ''worktree''))
        else Panic))"

primrec clean_by ::
  "(status_entry \<Rightarrow> (trans_error, file_status) outcome) \<Rightarrow> rstring \<Rightarrow> status_entry list \<Rightarrow> (trans_error, unit) outcome" where
  "clean_by f msg [] = Ok ()"
| "clean_by f msg (e # es) =
     obind (f e) (\<lambda>s. if s \<noteq> Unmodified then Err (OtherError msg) else clean_by f msg es)"

definition check_index_clean :: "statuses \<Rightarrow> (trans_error, unit) outcome" where
  "check_index_clean ss = clean_by index_status (dirty_msg ''index'') (iter ss)"

definition check_worktree_clean :: "statuses \<Rightarrow> (trans_error, unit) outcome" where
  "check_worktree_clean ss = clean_by worktree_status (dirty_msg ''worktree'') (iter ss)"

section \<open>Headers\<close>

datatype header_kind = BranchOid | BranchHead | BranchUpstream | BranchAheadBehind | Stash | IgnoredHeader

definition kind_value :: "nat list \<Rightarrow> (trans_error, header_kind \<times> nat list) outcome" where
  "kind_value raw_entry =
     (if starts_with raw_entry (str ''# branch.'') then
        (let split = splitn 2 c_space (drop (length (str ''# branch.'')) raw_entry) in
         obind (expect (nth_opt 0 split)) (\<lambda>header_name.
         obind (expect (nth_opt 1 split)) (\<lambda>val.
         if header_name = str ''oid'' then Ok (BranchOid, val)
         else if header_name = str ''head'' then Ok (BranchHead, val)
         else if header_name = str ''upstream'' then Ok (BranchUpstream, val)
         else if header_name = str ''ab'' then Ok (BranchAheadBehind, val)
         else Ok (IgnoredHeader, raw_entry))))
      else if starts_with raw_entry (str ''# stash '') then
        Ok (Stash, drop (length (str ''# stash '')) raw_entry)
      else Ok (IgnoredHeader, raw_entry))"

definition header_iter :: "statuses \<Rightarrow> nat list list" where
  "header_iter ss = map (\<lambda>r. entry_bytes (ss_data ss, r)) (ss_headers ss)"

text \<open>The first header of a kind, if there is one.\<close>

primrec first_header :: "header_kind \<Rightarrow> nat list list \<Rightarrow> (trans_error, nat list option) outcome" where
  "first_header k [] = Ok None"
| "first_header k (h # hs) = obind (kind_value h) (\<lambda>(k', v). if k' = k then Ok (Some v) else first_header k hs)"

definition branch_oid :: "(nat list \<Rightarrow> oid option) \<Rightarrow> statuses \<Rightarrow> (trans_error, oid option) outcome" where
  "branch_oid parse_oid ss =
     obind (first_header BranchOid (header_iter ss)) (\<lambda>h. case h of
       None \<Rightarrow> Panic
     | Some v \<Rightarrow> if v = str ''(initial)'' then Ok None else obind (expect (parse_oid v)) (\<lambda>i. Ok (Some i)))"

definition branch_head :: "statuses \<Rightarrow> (trans_error, rstring option) outcome" where
  "branch_head ss =
     obind (first_header BranchHead (header_iter ss)) (\<lambda>h. case h of
       None \<Rightarrow> Panic
     | Some v \<Rightarrow> if v = str ''(detached)'' then Ok None else obind (expect (utf8_decode v)) (\<lambda>s. Ok (Some s)))"

definition branch_upstream :: "statuses \<Rightarrow> (trans_error, rstring option) outcome" where
  "branch_upstream ss =
     obind (first_header BranchUpstream (header_iter ss)) (\<lambda>h. case h of
       None \<Rightarrow> Ok None
     | Some v \<Rightarrow> obind (expect (utf8_decode v)) (\<lambda>s. Ok (Some s)))"

definition counted :: "nat \<Rightarrow> nat list \<Rightarrow> (trans_error, nat) outcome" where
  "counted c v =
     obind (expect (utf8_decode v)) (\<lambda>s. expect (parse_usize (trim_start_matches (\<lambda>x. x = c) s)))"

definition branch_ahead_behind :: "statuses \<Rightarrow> (trans_error, (nat \<times> nat) option) outcome" where
  "branch_ahead_behind ss =
     obind (first_header BranchAheadBehind (header_iter ss)) (\<lambda>h. case h of
       None \<Rightarrow> Ok None
     | Some v \<Rightarrow>
         obind (expect (nth_opt 0 (splitn 2 c_space v))) (\<lambda>ahead_bytes.
         obind (expect (nth_opt 1 (splitn 2 c_space v))) (\<lambda>behind_bytes.
         obind (counted c_plus ahead_bytes) (\<lambda>ahead.
         obind (counted c_dash behind_bytes) (\<lambda>behind.
         Ok (Some (ahead, behind)))))))"

definition stash_count :: "statuses \<Rightarrow> (trans_error, nat) outcome" where
  "stash_count ss =
     obind (first_header Stash (header_iter ss)) (\<lambda>h. case h of
       None \<Rightarrow> Ok 0
     | Some v \<Rightarrow> obind (expect (utf8_decode v)) (\<lambda>s. expect (parse_usize s)))"

end
