(* ===== verification/Execute.thy ===== *)
theory Execute
  imports Trans_Push Stack_Ops Status
begin

text \<open>
  Setting up and executing a transaction: \<open>src/stack/transaction/builder.rs\<close>, \<open>ExecuteContext::execute\<close>
  and \<open>checkout\<close> of \<open>src/stack/transaction/mod.rs\<close>, and \<open>critical\<close> of \<open>src/signal.rs\<close>.

  Executing a transaction changes the repository and writes to the user interface; the transaction
  itself is consumed and is an argument here.  \<open>interrupted\<close> says whether the user pressed ctrl-c once
  in the critical section.
\<close>

type_synonym ('w, 'a) xm = "('w repository \<times> ui, trans_error, 'a) sm"

definition on_r :: "('w, 'a) rm \<Rightarrow> ('w, 'a) xm" where
  "on_r m = (\<lambda>(repo, u). case m repo of (r, repo') \<Rightarrow> (r, (repo', u)))"

definition print_x :: "(ui \<Rightarrow> ui) \<Rightarrow> ('w, unit) xm" where
  "print_x f = modify (\<lambda>(repo, u). (repo, f u))"

text \<open>A call to git on the index and work tree, with its error.\<close>

definition work_x :: "(rstring \<Rightarrow> trans_error) \<Rightarrow> ('w \<Rightarrow> (git_error + unit) \<times> 'w) \<Rightarrow> ('w, unit) xm" where
  "work_x err f = (\<lambda>(repo, u).
     case f (work repo) of (r, w) \<Rightarrow> (of_sum err r, (repo\<lparr>work := w\<rparr>, u)))"

text \<open>\<open>map_err\<close> with a closure that has effects.\<close>

definition on_error :: "('s, 'e, 'a) sm \<Rightarrow> ('e \<Rightarrow> ('s, 'e, 'e) sm) \<Rightarrow> ('s, 'e, 'a) sm" where
  "on_error m h s =
     (case m s of
        (Err e, s') \<Rightarrow> sbind (h e) throw s'
      | (r, s') \<Rightarrow> (r, s'))"

section \<open>Builder\<close>

definition allow_conflicts :: "bool \<Rightarrow> trans_options \<Rightarrow> trans_options" where
  "allow_conflicts allow o0 = o0\<lparr>o_conflict_mode := (if allow then CM_Allow else CM_Disallow)\<rparr>"

definition allow_conflicts_if_same_top :: "bool \<Rightarrow> trans_options \<Rightarrow> trans_options" where
  "allow_conflicts_if_same_top allow o0 =
     o0\<lparr>o_conflict_mode := (if allow then CM_AllowIfSameTop else CM_Disallow)\<rparr>"

definition allow_push_conflicts :: "bool \<Rightarrow> trans_options \<Rightarrow> trans_options" where
  "allow_push_conflicts allow o0 = o0\<lparr>o_allow_push_conflicts := Some allow\<rparr>"

definition discard_changes :: "bool \<Rightarrow> trans_options \<Rightarrow> trans_options" where
  "discard_changes discard o0 = o0\<lparr>o_discard_changes := discard\<rparr>"

definition use_index_and_worktree :: "bool \<Rightarrow> trans_options \<Rightarrow> trans_options" where
  "use_index_and_worktree allow o0 = o0\<lparr>o_use_index_and_worktree := allow\<rparr>"

definition set_head :: "bool \<Rightarrow> trans_options \<Rightarrow> trans_options" where
  "set_head yes o0 = o0\<lparr>o_set_head := yes\<rparr>"

definition allow_bad_head :: "bool \<Rightarrow> trans_options \<Rightarrow> trans_options" where
  "allow_bad_head allow o0 = o0\<lparr>o_allow_bad_head := allow\<rparr>"

definition committer_date_is_author_date :: "bool \<Rightarrow> trans_options \<Rightarrow> trans_options" where
  "committer_date_is_author_date yes o0 = o0\<lparr>o_committer_date_is_author_date := yes\<rparr>"

definition start_transaction :: "stack \<Rightarrow> trans_options \<Rightarrow> 'w repository \<Rightarrow> 'w transaction" where
  "start_transaction sk opts repo =
     \<lparr>tr_stack = sk, tr_ui = ui_new, tr_options = opts, tr_applied = st_applied (sk_state sk),
      tr_unapplied = st_unapplied (sk_state sk), tr_hidden = st_hidden (sk_state sk), tr_updated_patches = [],
      tr_updated_head = None, tr_updated_base = None, tr_current_tree_id = c_tree (sk_branch_head sk),
      tr_error = None, tr_repo = repo\<rparr>"

text \<open>\<open>setup_transaction\<close> asserts that the stack is initialized; \<open>transact\<close> keeps the error of the closure.\<close>

definition transact ::
  "stack \<Rightarrow> trans_options \<Rightarrow> ('w, unit) tm \<Rightarrow> 'w repository \<Rightarrow> (trans_error, 'w transaction) outcome" where
  "transact sk opts f repo =
     (if \<not> sk_is_initialized sk then Panic
      else
        (case f (start_transaction sk opts repo) of
           (Ok _, t) \<Rightarrow> Ok t
         | (Err e, t) \<Rightarrow> Ok (t\<lparr>tr_error := Some e\<rparr>)
         | (Panic, _) \<Rightarrow> Panic))"

section \<open>Checking out\<close>

text \<open>\<open>StupidContext::statuses\<close> and \<open>stupid.statuses(None)?.check_conflicts()?\<close>.\<close>

definition statuses_of :: "('x, 'w) git \<Rightarrow> 'w \<Rightarrow> (trans_error, statuses) outcome" where
  "statuses_of g w = obind (of_sum OtherError (w_status g w)) from_data"

definition check_conflicts :: "('x, 'w) git \<Rightarrow> ('w, unit) xm" where
  "check_conflicts g = pure (\<lambda>(repo, u). obind (statuses_of g (work repo)) check_status_conflicts)"

definition checkout ::
  "('x, 'w) git \<Rightarrow> trans_options \<Rightarrow> patch_name option \<Rightarrow> patch_name option \<Rightarrow> oid \<Rightarrow> oid \<Rightarrow> ('w, unit) xm" where
  "checkout g opts stack_top trans_top current_tree tree =
     (if current_tree = tree \<and> \<not> o_discard_changes opts then
        (case o_conflict_mode opts of
           CM_Allow \<Rightarrow> ret ()
         | CM_AllowIfSameTop \<Rightarrow>
             if trans_top = None \<or> trans_top \<noteq> stack_top then check_conflicts g else ret ()
         | CM_Disallow \<Rightarrow> check_conflicts g)
      else if o_discard_changes opts then work_x OtherError (w_checkout_hard g tree)
      else
        sthen (work_x OtherError (w_refresh g))
              (work_x CheckoutConflicts (w_checkout g current_tree tree)))"

section \<open>Executing\<close>

definition last_patch :: "patch_name list \<Rightarrow> patch_name option" where
  "last_patch ps = (if ps = [] then None else Some (last ps))"

text \<open>\<open>assert!\<close> on every updated patch.\<close>

definition consistent :: "'w transaction \<Rightarrow> bool" where
  "consistent t \<longleftrightarrow> list_all (\<lambda>(pn, maybe_patch).
     (case maybe_patch of
        None \<Rightarrow> has_patch (stack_view_of (tr_stack t)) pn
      | Some _ \<Rightarrow> pn \<in> set (all_patches (trans_view t)))) (tr_updated_patches t)"

text \<open>
  \<open>rollback\<close> gives the error to report; an error of its own checkout is reported in its place.
\<close>

primrec error_text :: "trans_error \<Rightarrow> rstring" where
  "error_text (TransactionHalt msg _) = msg"
| "error_text (CheckoutConflicts msg) = msg"
| "error_text (OtherError msg) = msg"

definition rollback ::
  "('x, 'w) git \<Rightarrow> 'w transaction \<Rightarrow> oid \<Rightarrow> trans_error \<Rightarrow> ('w, trans_error) xm" where
  "rollback g t old_tree err =
     (let stack_top = last_patch (st_applied (sk_state (tr_stack t))) in
      sthen (checkout g (tr_options t) stack_top (last_patch (tr_applied t)) old_tree
               (c_tree (sk_branch_head (tr_stack t))))
     (sthen (print_x (print_rolled_back stack_top))
            (ret (OtherError (error_text err @ str '';'' @ [c_newline]
                  @ str ''command aborted (all changes rolled back)'')))))"

text \<open>The state that the transaction leaves, given the commit of the state before it.\<close>

definition updated_patches_of ::
  "(patch_name, patch_state) btree_map \<Rightarrow> (patch_name, patch_state option) btree_map \<Rightarrow> (patch_name, patch_state) btree_map" where
  "updated_patches_of patches updated =
     foldl (\<lambda>m e. case snd e of Some p \<Rightarrow> bt_insert m (fst e) p | None \<Rightarrow> bt_remove m (fst e)) patches updated"

definition new_stack_state :: "'w transaction \<Rightarrow> stack_state \<Rightarrow> commit \<Rightarrow> commit \<Rightarrow> stack_state" where
  "new_stack_state t st prev_state_commit trans_head =
     st\<lparr>st_patches := updated_patches_of (st_patches st) (tr_updated_patches t),
        st_prev := Some prev_state_commit, st_head := trans_head, st_applied := tr_applied t,
        st_unapplied := tr_unapplied t, st_hidden := tr_hidden t\<rparr>"

definition patch_edit :: "stack \<Rightarrow> patch_name \<times> patch_state option \<Rightarrow> ref_edit" where
  "patch_edit sk e =
     \<lparr>re_name = patch_refname sk (fst e),
      re_change = (case snd e of
                     Some p \<Rightarrow> RefUpdate PV_Any (Direct (c_id (ps_commit p)))
                   | None \<Rightarrow> RefDelete PV_Any)\<rparr>"

definition state_edit :: "stack \<Rightarrow> commit \<Rightarrow> oid \<Rightarrow> ref_edit" where
  "state_edit sk prev_state_commit i =
     \<lparr>re_name = sk_stack_refname sk,
      re_change = RefUpdate (PV_ExistingMustMatch (Direct (c_id prev_state_commit))) (Direct i)\<rparr>"

definition head_edit :: "stack \<Rightarrow> commit \<Rightarrow> ref_edit" where
  "head_edit sk trans_head =
     \<lparr>re_name = sk_branch_refname sk, re_change = RefUpdate PV_Any (Direct (c_id trans_head))\<rparr>"

definition ref_edits :: "'w transaction \<Rightarrow> stack \<Rightarrow> commit \<Rightarrow> oid \<Rightarrow> commit \<Rightarrow> ref_edit list" where
  "ref_edits t sk prev_state_commit i trans_head =
     map (patch_edit sk) (tr_updated_patches t) @ [state_edit sk prev_state_commit i]
     @ (if o_set_head (tr_options t) then [head_edit sk trans_head] else [])"

text \<open>The critical section: commit the state, then update the references.\<close>

definition update_head :: "'w transaction \<Rightarrow> stack \<Rightarrow> commit \<Rightarrow> ('w, stack) rm" where
  "update_head t sk trans_head =
     (if o_set_head (tr_options t) then
        sbind (gets (\<lambda>repo. bt_get (refs repo) (sk_branch_refname sk))) (\<lambda>found.
        case found of
          None \<Rightarrow> throw (other ''reference not found'')
        | Some target \<Rightarrow>
            sthen (pure (\<lambda>_. wrap_branch (sk_branch_refname sk) target))
                  (ret (sk\<lparr>sk_branch_head := trans_head\<rparr>)))
      else ret sk)"

definition publish ::
  "('x, 'w) git \<Rightarrow> 'w transaction \<Rightarrow> stack \<Rightarrow> commit \<Rightarrow> rstring \<Rightarrow> ('w, stack) rm" where
  "publish g t sk trans_head msg =
     sbind (pure (\<lambda>repo. peel_reference repo (sk_stack_refname sk))) (\<lambda>prev_state_commit.
     let st = new_stack_state t (sk_state sk) prev_state_commit trans_head in
     sbind (state_commit g st None msg) (\<lambda>i.
     sthen (edit_references g (ref_edits t sk prev_state_commit i trans_head))
           (update_head t (sk\<lparr>sk_state := st\<rparr>) trans_head)))"

definition interrupt_msg :: rstring where "interrupt_msg = str ''interrupted by user''"

text \<open>\<open>signal::critical\<close>: the section runs to its end, then the signal is reported.\<close>

definition critical :: "bool \<Rightarrow> ('s, trans_error, 'a) sm \<Rightarrow> ('s, trans_error, 'a) sm" where
  "critical interrupted m s =
     (case m s of
        (Ok x, s') \<Rightarrow> (if interrupted then Err (OtherError interrupt_msg) else Ok x, s')
      | (Err e, s') \<Rightarrow>
          (Err (if interrupted then OtherError (interrupt_msg @ str '': '' @ error_text e) else e), s')
      | (Panic, s') \<Rightarrow> (Panic, s'))"

text \<open>Only a halted transaction goes on after an error.\<close>

definition halted :: "trans_error option \<Rightarrow> (trans_error, bool) outcome" where
  "halted err =
     (case err of
        None \<Rightarrow> Ok False
      | Some (TransactionHalt _ conflicts) \<Rightarrow> Ok conflicts
      | Some e \<Rightarrow> Err e)"

definition state_msg :: "bool \<Rightarrow> rstring \<Rightarrow> rstring" where
  "state_msg has_conflicts reflog_msg = (if has_conflicts then reflog_msg @ str '' (CONFLICT)'' else reflog_msg)"

text \<open>External modifications of the branch are logged before anything is changed.\<close>

definition prepare :: "('x, 'w) git \<Rightarrow> 'w transaction \<Rightarrow> ('w, stack) rm" where
  "prepare g t =
     (if is_head_top (tr_stack t) then ret (tr_stack t) else log_external_mods g (tr_stack t) None)"

definition execute_checkout :: "('x, 'w) git \<Rightarrow> 'w transaction \<Rightarrow> stack \<Rightarrow> commit \<Rightarrow> ('w, unit) xm" where
  "execute_checkout g t sk trans_head =
     (if o_set_head (tr_options t) \<and> o_use_index_and_worktree (tr_options t) then
        sthen (pure (\<lambda>_. if o_allow_bad_head (tr_options t) then Ok () else check_head_top_mismatch sk))
              (on_error
                 (checkout g (tr_options t) (last_patch (st_applied (sk_state (tr_stack t))))
                    (last_patch (tr_applied t)) (tr_current_tree_id t) (c_tree trans_head))
                 (rollback g t (tr_current_tree_id t)))
      else ret ())"

text \<open>A halted transaction reports its error after all; otherwise the topmost patch is announced.\<close>

definition execute_tail :: "'w transaction \<Rightarrow> stack \<Rightarrow> ('w, stack) xm" where
  "execute_tail t sk =
     (case tr_error t of
        Some err \<Rightarrow> throw err
      | None \<Rightarrow>
          sbind (gets (\<lambda>(repo, u). ui_printed_top u)) (\<lambda>printed.
          case last_patch (tr_applied t) of
            Some pn \<Rightarrow> if printed then ret sk else sthen (print_x (print_top pn)) (ret sk)
          | None \<Rightarrow> ret sk))"

definition execute_x :: "('x, 'w) git \<Rightarrow> bool \<Rightarrow> rstring \<Rightarrow> 'w transaction \<Rightarrow> ('w, stack) xm" where
  "execute_x g interrupted reflog_msg t =
     sthen (sassert (consistent t))
    (sbind (pure (\<lambda>_. t_head t)) (\<lambda>trans_head.
     sbind (pure (\<lambda>_. halted (tr_error t))) (\<lambda>has_conflicts.
     sbind (on_r (prepare g t)) (\<lambda>sk.
     sthen (execute_checkout g t sk trans_head)
    (sbind (on_error (critical interrupted (on_r (publish g t sk trans_head (state_msg has_conflicts reflog_msg))))
              (rollback g t (c_tree trans_head))) (\<lambda>sk'.
     execute_tail t sk'))))))"

definition execute ::
  "('x, 'w) git \<Rightarrow> bool \<Rightarrow> rstring \<Rightarrow> 'w transaction \<Rightarrow> (trans_error, stack) outcome \<times> 'w repository \<times> ui" where
  "execute g interrupted reflog_msg t = execute_x g interrupted reflog_msg t (tr_repo t, tr_ui t)"

text \<open>\<open>setup_transaction().\<dots>.transact(f).execute(msg)\<close>, the way every command uses a transaction.\<close>

definition run_transaction ::
  "('x, 'w) git \<Rightarrow> bool \<Rightarrow> stack \<Rightarrow> trans_options \<Rightarrow> ('w, unit) tm \<Rightarrow> rstring \<Rightarrow> ('w, stack) rm" where
  "run_transaction g interrupted sk opts f msg repo =
     (case transact sk opts f repo of
        Ok t \<Rightarrow> (case execute g interrupted msg t of (r, repo', _) \<Rightarrow> (r, repo'))
      | Err e \<Rightarrow> (Err e, repo)
      | Panic \<Rightarrow> (Panic, repo))"

end
