(* ===== verification/State_Props.thy ===== *)
theory State_Props
  imports State_Log Examples
begin

text \<open>
  Properties of stack states in the repository: a state written to a tree is read back unchanged,
  and the commit of a state keeps every patch reachable for git.
\<close>

section \<open>Round trip through JSON\<close>

text \<open>Inserting the elements of an ordered map into an empty one rebuilds it.\<close>

lemma rebuild:
  assumes "bt_ok m"
  shows "foldl (\<lambda>r e. bt_insert r (fst e) (f (snd e))) [] m = map (\<lambda>e. (fst e, f (snd e))) m"
proof (rule bt_ext)
  have d: "distinct (map fst m)" using bt_ok_distinct [OF assms] by (simp add: bt_keys_def)
  show "bt_ok (foldl (\<lambda>r e. bt_insert r (fst e) (f (snd e))) [] m)" by (rule bt_ok_insert_all) simp
  show "bt_ok (map (\<lambda>e. (fst e, f (snd e))) m)" using assms by (simp add: bt_ok_def bt_keys_def comp_def)
  show "bt_get (foldl (\<lambda>r e. bt_insert r (fst e) (f (snd e))) [] m) k = bt_get (map (\<lambda>e. (fst e, f (snd e))) m) k" for k
    by (subst bt_get_insert_all [OF d]) (simp add: bt_get_def split: option.split)
qed

text \<open>Every commit that a state mentions is in the object database.\<close>

definition state_stored :: "'w repository \<Rightarrow> stack_state \<Rightarrow> bool" where
  "state_stored repo st \<longleftrightarrow>
     (\<forall>c\<in>set (st_head st # map (\<lambda>e. ps_commit (snd e)) (st_patches st)) \<union> set_option (st_prev st).
        objects repo (c_id c) = Some c)"

definition raw_of :: "stack_state \<Rightarrow> raw_state" where
  "raw_of st =
     \<lparr>rw_prev = map_option c_id (st_prev st), rw_head = c_id (st_head st), rw_applied = st_applied st,
      rw_unapplied = st_unapplied st, rw_hidden = st_hidden st,
      rw_patches = map (\<lambda>e. (fst e, c_id (ps_commit (snd e)))) (st_patches st)\<rparr>"

lemma deserialize_serialize:
  assumes bt: "bt_ok (st_patches st)" and hex: "\<And>i. g_unhex g (g_hex g i) = Some i" "\<And>i. g_hex g i \<noteq> str ''None''"
  shows "deserialize g (serialize g st) = Ok (raw_of st)"
proof -
  let ?m = "map (\<lambda>e. (fst e, g_hex g (c_id (ps_commit (snd e))))) (st_patches st)"
  have js: "js_patches (serialize g st) = ?m" unfolding serialize_def using rebuild [OF bt, of "\<lambda>p. g_hex g (c_id (ps_commit p))"] by simp
  have bm: "bt_ok ?m" using bt by (simp add: bt_ok_def bt_keys_def comp_def)
  have key: "distinct (map fst (st_patches st))" using bt_ok_distinct [OF bt] by (simp add: bt_keys_def)
  have "deser_patches g ?m [] = Ok (foldl (\<lambda>m e. bt_insert m (fst e) (the (g_unhex g (snd e)))) [] ?m)"
  proof -
    have "deser_patches g es m = Ok (foldl (\<lambda>m e. bt_insert m (fst e) (the (g_unhex g (snd e)))) m es)"
      if "\<forall>e\<in>set es. g_unhex g (snd e) \<noteq> None" for es m
      using that by (induction es arbitrary: m) auto
    then show ?thesis using hex(1) by auto
  qed
  also have "\<dots> = Ok (map (\<lambda>e. (fst e, the (g_unhex g (snd e)))) ?m)"
    using rebuild [OF bm, of "\<lambda>h. the (g_unhex g h)"] by simp
  also have "\<dots> = Ok (rw_patches (raw_of st))" using hex(1) by (simp add: raw_of_def)
  finally have p: "deser_patches g ?m [] = Ok (rw_patches (raw_of st))" .
  then show ?thesis
    unfolding deserialize_def js using hex by (simp add: serialize_def raw_of_def split: option.split)
qed

lemma from_raw_state_raw_of:
  assumes bt: "bt_ok (st_patches st)" and st: "state_stored repo st"
  shows "from_raw_state repo (raw_of st) = Ok st"
proof -
  have obj: "objects repo (c_id c) = Some c"
    if "c \<in> set (st_head st # map (\<lambda>e. ps_commit (snd e)) (st_patches st)) \<union> set_option (st_prev st)" for c
    using st that unfolding state_stored_def by blast
  have "raw_patches repo (rw_patches (raw_of st)) [] = Ok (st_patches st)"
  proof -
    have fold: "raw_patches repo (map (\<lambda>e. (fst e, c_id (ps_commit (snd e)))) es) m =
        Ok (foldl (\<lambda>m e. bt_insert m (fst e) (snd e)) m es)"
      if "\<forall>e\<in>set es. objects repo (c_id (ps_commit (snd e))) = Some (ps_commit (snd e))" for es m
      using that
    proof (induction es arbitrary: m)
      case (Cons e es)
      then have "find_commit repo (c_id (ps_commit (snd e))) = Ok (ps_commit (snd e))" by simp
      moreover obtain c where "snd e = \<lparr>ps_commit = c\<rparr>" by (cases "snd e")
      ultimately show ?case using Cons by simp
    qed simp
    show ?thesis unfolding raw_of_def using fold [of "st_patches st" "[]"] obj rebuild [OF bt, of "\<lambda>x. x"] by simp
  qed
  moreover have "find_commit repo (c_id (st_head st)) = Ok (st_head st)" using obj by simp
  moreover have "c \<in> set_option (st_prev st) \<Longrightarrow> find_commit repo (c_id c) = Ok c" for c using obj by simp
  ultimately show ?thesis by (cases "st_prev st") (simp_all add: from_raw_state_def raw_of_def)
qed

definition blob_at :: "(oid \<rightharpoonup> commit) \<Rightarrow> oid \<Rightarrow> rstring \<Rightarrow> 'w repository \<Rightarrow> bool" where
  "blob_at objs j text repo \<longleftrightarrow> objects repo = objs \<and> blobs repo j = Some text"

lemma blob_at_write:
  assumes "\<And>t. g_write_blob g t = Inr j \<Longrightarrow> t = text"
  shows "keeps (blob_at objs j text) (write_blob g t)"
  using assms by (auto simp: keeps_def write_blob_def blob_at_def split: sum.split)

lemma make_patch_meta_blob:
  assumes "\<And>t. g_write_blob g t = Inr j \<Longrightarrow> t = text"
  shows "keeps (blob_at objs j text) (make_patch_meta g st ps pt pn)"
  unfolding make_patch_meta_def by (intro keeps_rules blob_at_write assms)

lemma make_patches_tree_blob:
  assumes "\<And>t. g_write_blob g t = Inr j \<Longrightarrow> t = text"
  shows "keeps (blob_at objs j text) (make_patches_tree g st ps pt)"
proof -
  have "keeps (blob_at objs j text) (make_patches_entries g st ps pt pns)" for pns
    by (induction pns) (auto intro!: keeps_rules make_patch_meta_blob assms)
  moreover have "keeps (blob_at objs j text) (write_patches_tree g es)" for es
    by (auto simp: keeps_def write_patches_tree_def blob_at_def split: sum.split)
  ultimately show ?thesis unfolding make_patches_tree_def by (intro keeps_rules)
qed

lemma tree_reads_back:
  assumes bt: "bt_ok (st_patches st)" and st: "state_stored repo st"
    and hex: "\<And>i. g_unhex g (g_hex g i) = Some i" "\<And>i. g_hex g i \<noteq> str ''None''"
    and json: "g_unjson g (g_json g (serialize g st)) = Inr (serialize g st)"
    and blob: "\<And>t i. g_write_blob g t = Inr i \<Longrightarrow> g_write_blob g (g_json g (serialize g st)) = Inr i \<Longrightarrow> t = g_json g (serialize g st)"
    and run: "make_tree g st prev repo = (Ok tree, repo')"
  shows "from_tree g repo' tree = Ok st"
proof -
  let ?text = "g_json g (serialize g st)"
  obtain j where j: "g_write_blob g ?text = Inr j"
    using run by (auto simp: make_tree_def write_blob_def sbind_def split: sum.splits)
  let ?r1 = "repo\<lparr>blobs := (blobs repo)(j \<mapsto> ?text)\<rparr>"
  obtain prev_tree where step: "sbind (make_patches_tree g st (map_option fst prev) prev_tree) (\<lambda>patches.
      write_state_tree g patches j) ?r1 = (Ok tree, repo')"
    using run j by (auto simp: make_tree_def write_blob_def sbind_def [of "write_blob g ?text"])
  obtain patches r2 where p: "make_patches_tree g st (map_option fst prev) prev_tree ?r1 = (Ok patches, r2)"
    and w: "write_state_tree g patches j r2 = (Ok tree, repo')"
    using step by (auto elim: sbindE)
  have "keeps (blob_at (objects repo) j ?text) (make_patches_tree g st (map_option fst prev) prev_tree)"
    by (rule make_patches_tree_blob) (rule blob [OF _ j])
  moreover have "blob_at (objects repo) j ?text ?r1" by (simp add: blob_at_def)
  ultimately have "blob_at (objects repo) j ?text r2" using p by (rule keepsD)
  then have r: "state_trees repo' tree = Some (patches, j)" "blobs repo' j = Some ?text" "objects repo' = objects repo"
    using w by (auto simp: write_state_tree_def blob_at_def split: sum.splits)
  have "state_stored repo' st" using st r(3) by (simp add: state_stored_def)
  then show ?thesis
    using r(1,2) json deserialize_serialize [OF bt hex] from_raw_state_raw_of [OF bt] by (simp add: from_tree_def)
qed

text \<open>
  C9: A stack state written to the repository is read back unchanged: \<open>make_tree\<close> and \<open>from_tree\<close>
  are inverse on every well-formed state whose commits are stored, given that the JSON text and the
  object ids can be parsed back and that the id of a blob determines its text.
\<close>

theorem from_tree_make_tree:
  assumes bt: "bt_ok (st_patches st)" and st: "state_stored repo st"
    and hex: "\<And>i. g_unhex g (g_hex g i) = Some i" "\<And>i. g_hex g i \<noteq> str ''None''"
    and json: "g_unjson g (g_json g (serialize g st)) = Inr (serialize g st)"
    and blob: "\<And>t i. g_write_blob g t = Inr i \<Longrightarrow> g_write_blob g (g_json g (serialize g st)) = Inr i \<Longrightarrow> t = g_json g (serialize g st)"
    and run: "make_tree g st prev repo = (Ok tree, repo')"
  shows "from_tree g repo' tree = Ok st"
  using assms by (rule tree_reads_back)

text \<open>An instance of the parameters that reads back the state of the example.\<close>

definition ex_log_git :: "(oid, oid) git" where
  "ex_log_git =
     ex_git\<lparr>g_unjson := (\<lambda>s. Inr (serialize ex_git ex_state)), g_json := (\<lambda>j. []),
            g_write_blob := (\<lambda>t. Inr (if t = [] then 30 else 31)),
            g_write_patches_tree := (\<lambda>es. Inr 32), g_write_state_tree := (\<lambda>a b. Inr 33)\<rparr>"

lemma ex_hex:
  "g_unhex ex_log_git (g_hex ex_log_git i) = Some i" "g_hex ex_log_git i \<noteq> str ''None''"
proof -
  show "g_unhex ex_log_git (g_hex ex_log_git i) = Some i" by (simp add: ex_log_git_def ex_git_def)
  show "g_hex ex_log_git i \<noteq> str ''None''"
  proof
    assume "g_hex ex_log_git i = str ''None''"
    then have "replicate i 48 = [78, 111, 110, 101 :: nat]" by (simp add: ex_log_git_def ex_git_def str_def)
    then have "(78 :: nat) \<in> set (replicate i 48)" by simp
    then show False by simp
  qed
qed

lemma ex_serialize: "serialize ex_log_git st = serialize ex_git st"
  by (simp add: serialize_def ex_log_git_def ex_git_def)

lemma ex_state_stored: "state_stored ex_repo ex_state"
  by (simp add: state_stored_def ex_repo_def ex_state_def ex_commits)

theorem from_tree_make_tree_witness:
  "\<exists>repo'. make_tree ex_log_git ex_state None ex_repo = (Ok 33, repo') \<and> from_tree ex_log_git repo' 33 = Ok ex_state"
proof -
  obtain es r where es: "make_patches_entries ex_log_git ex_state None None [pa, pb, pc, pd]
      (ex_repo\<lparr>blobs := (blobs ex_repo)(30 \<mapsto> [])\<rparr>) = (Ok es, r)"
    by (simp add: make_patch_meta_def sbind_def pure_def ret_def gets_def reused_meta_def write_blob_def
        get_parent_commit_def ex_state_def ex_repo_def ex_commits ex_log_git_def bt_get_def)
  have all: "all_patches (state_view ex_state) = [pa, pb, pc, pd]"
    by (simp add: all_patches_def state_view_def ex_state_def)
  have ids: "g_write_blob ex_log_git [] = Inr 30" "g_write_patches_tree ex_log_git es' = Inr 32"
    "g_write_state_tree ex_log_git a b = Inr 33" "g_json ex_log_git js = []" for js es' a b
    by (simp_all add: ex_log_git_def)
  obtain repo' where run: "make_tree ex_log_git ex_state None ex_repo = (Ok 33, repo')"
    using es by (simp add: make_tree_def make_patches_tree_def sbind_def gets_def write_blob_def ids all
        write_patches_tree_def write_state_tree_def del: make_patches_entries.simps)
  have "from_tree ex_log_git repo' 33 = Ok ex_state"
  proof (rule from_tree_make_tree [OF _ ex_state_stored ex_hex _ _ run])
    show "bt_ok (st_patches ex_state)" using ex_stack_ok by (simp add: stack_ok_def state_ok_def ex_stack_def)
    show "g_unjson ex_log_git (g_json ex_log_git (serialize ex_log_git ex_state)) = Inr (serialize ex_log_git ex_state)"
      unfolding ex_serialize by (simp add: ex_log_git_def)
    show "t = g_json ex_log_git (serialize ex_log_git ex_state)"
      if "g_write_blob ex_log_git t = Inr i" "g_write_blob ex_log_git (g_json ex_log_git (serialize ex_log_git ex_state)) = Inr i"
      for t i using that by (simp add: ex_log_git_def split: if_splits)
  qed
  with run show ?thesis by blast
qed

section \<open>Reachability\<close>

inductive reach :: "(oid \<rightharpoonup> commit) \<Rightarrow> oid \<Rightarrow> oid \<Rightarrow> bool" for objs where
  here: "reach objs i i"
| parent: "objs i = Some c \<Longrightarrow> p \<in> set (c_parents c) \<Longrightarrow> reach objs p j \<Longrightarrow> reach objs i j"

lemma reach_trans: "reach objs i j \<Longrightarrow> reach objs j k \<Longrightarrow> reach objs i k"
  by (induction rule: reach.induct) (auto intro: reach.parent)

lemma reach_mono:
  assumes "reach objs i j" "objs \<subseteq>\<^sub>m objs'"
  shows "reach objs' i j"
  using assms
proof (induction rule: reach.induct)
  case (parent i c p j)
  then have "objs' i = Some c" by (metis domI map_le_def)
  with parent show ?case by (blast intro: reach.parent)
qed (rule reach.here)

text \<open>
  Ids identify commits: no two different commits have the same id, and none of the commits in the
  database has the id of another one.
\<close>

definition ids_ok ::
  "(signature \<Rightarrow> signature \<Rightarrow> rstring \<Rightarrow> oid \<Rightarrow> oid list \<Rightarrow> git_error + oid) \<Rightarrow> (oid \<rightharpoonup> commit) \<Rightarrow> bool" where
  "ids_ok idf objs \<longleftrightarrow>
     (\<forall>a c m t ps i k. idf a c m t ps = Inr i \<longrightarrow> objs i = Some k \<longrightarrow>
        k = \<lparr>c_id = i, c_parents = ps, c_tree = t, c_author = a, c_committer = c, c_message = m\<rparr>) \<and>
     (\<forall>a c m t ps a' c' m' t' ps' i. idf a c m t ps = Inr i \<longrightarrow> idf a' c' m' t' ps' = Inr i \<longrightarrow>
        a = a' \<and> c = c' \<and> m = m' \<and> t = t' \<and> ps = ps')"

lemma commit_with_options_extends:
  assumes run: "commit_with_options idf a c m t ps repo = (r, repo')" and ids: "ids_ok idf (objects repo)"
  shows "objects repo \<subseteq>\<^sub>m objects repo'" and "ids_ok idf (objects repo')"
    and "r = Ok i \<Longrightarrow> objects repo' i = Some \<lparr>c_id = i, c_parents = ps, c_tree = t, c_author = a, c_committer = c, c_message = m\<rparr>"
proof -
  have "objects repo \<subseteq>\<^sub>m objects repo' \<and> ids_ok idf (objects repo') \<and>
    (\<forall>i. r = Ok i \<longrightarrow> objects repo' i = Some \<lparr>c_id = i, c_parents = ps, c_tree = t, c_author = a, c_committer = c, c_message = m\<rparr>)"
    using run
  proof (cases rule: commit_with_options_cases)
    case (written j)
    let ?k = "\<lparr>c_id = j, c_parents = ps, c_tree = t, c_author = a, c_committer = c, c_message = m\<rparr>"
    have o: "objects repo' = (objects repo)(j \<mapsto> ?k)" using written(3) by simp
    have "objects repo j = None \<or> objects repo j = Some ?k"
      using ids written(2) unfolding ids_ok_def by (cases "objects repo j") auto
    then have "objects repo \<subseteq>\<^sub>m objects repo'" unfolding o map_le_def by auto
    moreover have "ids_ok idf (objects repo')"
      using ids written(2) unfolding ids_ok_def o by (auto split: if_splits)
    ultimately show ?thesis using written(1) o by simp
  qed (use ids in auto)
  then show "objects repo \<subseteq>\<^sub>m objects repo'" and "ids_ok idf (objects repo')"
    and "r = Ok i \<Longrightarrow> objects repo' i = Some \<lparr>c_id = i, c_parents = ps, c_tree = t, c_author = a, c_committer = c, c_message = m\<rparr>"
    by auto
qed

lemma group_parents_covers:
  assumes "group_parents g a c tree oids repo = (Ok out, repo')" "ids_ok (g_state_object_id g) (objects repo)"
  shows "objects repo \<subseteq>\<^sub>m objects repo' \<and> ids_ok (g_state_object_id g) (objects repo') \<and> length out \<le> MAX_PARENTS \<and>
         (\<forall>i\<in>set oids. \<exists>p\<in>set out. reach (objects repo') p i)"
  using assms
proof (induction g a c tree oids arbitrary: repo rule: group_parents.induct)
  case (1 g a c tree oids)
  let ?n = "length oids - MAX_PARENTS"
  show ?case
  proof (cases "length oids > MAX_PARENTS")
    case False
    then have "out = oids" "repo' = repo" using 1(2) group_parents.simps [of g a c tree oids] by (auto simp: ret_def)
    then show ?thesis using 1(3) False by (auto intro: reach.here)
  next
    case True
    let ?cm = "commit_with_options (g_state_object_id g) a c (str ''parent grouping'') tree (drop ?n oids)"
    have "sbind ?cm (\<lambda>i. group_parents g a c tree (take ?n oids @ [i])) repo = (Ok out, repo')"
      using 1(2) group_parents.simps [of g a c tree oids] True by simp
    then obtain i r1 where i: "?cm repo = (Ok i, r1)"
      and rest: "group_parents g a c tree (take ?n oids @ [i]) r1 = (Ok out, repo')"
      by (auto elim: sbindE)
    note ext = commit_with_options_extends [OF i 1(3)]
    note IH = 1(1) [OF True rest ext(2)]
    have "\<exists>p\<in>set out. reach (objects repo') p k" if "k \<in> set oids" for k
    proof (cases "k \<in> set (take ?n oids)")
      case True
      then show ?thesis using IH by auto
    next
      case False
      then have "k \<in> set (drop ?n oids)" using that by (metis UnE append_take_drop_id set_append)
      then have "reach (objects r1) i k" using ext(3) [OF refl] by (auto intro: reach.parent reach.here)
      then have "reach (objects repo') i k" using IH reach_mono by blast
      moreover obtain p where "p \<in> set out" "reach (objects repo') p i" using IH by auto
      ultimately show ?thesis using reach_trans by blast
    qed
    then show ?thesis using IH ext(1) map_le_trans by blast
  qed
qed

lemma make_tree_objects: "keeps (\<lambda>repo. objects repo = objs) (make_tree g st prev)"
proof -
  have blob: "keeps (\<lambda>repo. objects repo = objs) (write_blob g doc)" for doc
    by (auto simp: keeps_def write_blob_def split: sum.split)
  have meta: "keeps (\<lambda>repo. objects repo = objs) (make_patch_meta g st ps pt pn)" for ps pt pn
    unfolding make_patch_meta_def by (intro keeps_rules blob)
  have entries: "keeps (\<lambda>repo. objects repo = objs) (make_patches_entries g st ps pt pns)" for ps pt pns
    by (induction pns) (auto intro!: keeps_rules meta)
  have trees: "keeps (\<lambda>repo. objects repo = objs) (write_patches_tree g es)"
    "keeps (\<lambda>repo. objects repo = objs) (write_state_tree g a b)" for es a b
    by (auto simp: keeps_def write_patches_tree_def write_state_tree_def split: sum.split)
  show ?thesis unfolding make_tree_def make_patches_tree_def by (intro keeps_rules blob entries trees)
qed

lemma set_insert_all: "set (foldl (\<lambda>s i. set_insert i s) xs ns) = set xs \<union> set ns"
  by (induction ns arbitrary: xs) (auto simp: set_insert_def)

lemma remove_all_keeps: "x \<in> set s \<Longrightarrow> x \<notin> set gone \<Longrightarrow> x \<in> set (foldl (\<lambda>s i. remove1 i s) s gone)"
  by (induction gone arbitrary: s) auto

lemma patch_ids_set:
  "patch_ids st pns = Ok ns \<Longrightarrow> pn \<in> set pns \<Longrightarrow> bt_get (st_patches st) pn = Some p \<Longrightarrow> c_id (ps_commit p) \<in> set ns"
  by (induction pns arbitrary: ns) auto

lemma patch_ids_from:
  "patch_ids st pns = Ok ns \<Longrightarrow> i \<in> set ns \<Longrightarrow> \<exists>pn\<in>set pns. \<exists>p. bt_get (st_patches st) pn = Some p \<and> i = c_id (ps_commit p)"
  by (induction pns arbitrary: ns) auto

text \<open>The commits a state needs: its head, its top and those of the patches that are not applied.\<close>

definition needed :: "stack_state \<Rightarrow> commit \<Rightarrow> oid set" where
  "needed st tp = {c_id (st_head st), c_id tp} \<union>
     {c_id (ps_commit p) | p pn. pn \<in> set (st_unapplied st) \<union> set (st_hidden st) \<and> bt_get (st_patches st) pn = Some p}"

definition patch_id_of :: "stack_state \<Rightarrow> oid \<Rightarrow> bool" where
  "patch_id_of st i \<longleftrightarrow> (\<exists>pn\<in>set (all_patches (state_view st)). \<exists>p. bt_get (st_patches st) pn = Some p \<and> i = c_id (ps_commit p))"

lemma parent_set_first:
  assumes run: "parent_set st None = Ok ids" and tp: "(st_top st :: (trans_error, commit) outcome) = Ok tp" and prev: "st_prev st = None"
  shows "needed st tp \<subseteq> set ids"
proof -
  obtain un hi where u: "patch_ids st (st_unapplied st) = Ok un" and h: "patch_ids st (st_hidden st) = Ok hi"
    and ids: "ids = foldl (\<lambda>s i. set_insert i s) [] (c_id (st_head st) # c_id tp # un @ hi)"
    using run tp prev by (auto simp: parent_set_def Let_def)
  show ?thesis unfolding ids set_insert_all
    using patch_ids_set [OF u] patch_ids_set [OF h] by (auto simp: needed_def)
qed

lemma parent_set_next:
  assumes run: "parent_set st (Some ps) = Ok ids" and tp: "(st_top st :: (trans_error, commit) outcome) = Ok tp" and prev: "st_prev st = Some prev"
    and i: "i \<in> needed st tp \<union> {c_id prev}"
  shows "i \<in> set ids \<or> patch_id_of ps i"
proof -
  obtain un hi gone where u: "patch_ids st (st_unapplied st) = Ok un" and h: "patch_ids st (st_hidden st) = Ok hi"
    and g: "patch_ids ps (all_patches (state_view ps)) = Ok gone"
    and ids: "ids = foldl (\<lambda>s i. remove1 i s) (set_insert (c_id prev)
      (foldl (\<lambda>s i. set_insert i s) [] (c_id (st_head st) # c_id tp # un @ hi))) gone"
    using run tp prev by (auto simp: parent_set_def Let_def)
  have set_ins: "set (set_insert x xs) = insert x (set xs)" for x :: oid and xs by (auto simp: set_insert_def)
  have "i \<in> set (set_insert (c_id prev) (foldl (\<lambda>s i. set_insert i s) [] (c_id (st_head st) # c_id tp # un @ hi)))"
    unfolding set_ins set_insert_all using i patch_ids_set [OF u] patch_ids_set [OF h] by (auto simp: needed_def)
  then show ?thesis
    using remove_all_keeps [of i _ gone, folded ids] patch_ids_from [OF g, of i] unfolding ids patch_id_of_def by blast
qed

text \<open>A run of \<open>state_commit\<close> that succeeds.\<close>

lemma state_tree_and_prev_run:
  assumes "state_tree_and_prev g st repo = (Ok (tree, ps), r1)"
  shows "objects r1 = objects repo" and "st_prev st = None \<Longrightarrow> ps = None"
    and "st_prev st = Some prev \<Longrightarrow> \<exists>prev_state. ps = Some prev_state \<and> from_tree g repo (c_tree prev) = Ok prev_state"
  using assms
  by (auto simp: state_tree_and_prev_def split: option.splits elim!: sbindE dest!: keepsD [OF make_tree_objects refl])

lemma commit_with_parents_run:
  assumes run: "commit_with_parents g st ps tree author committer m sp repo = (Ok i, repo')"
    and ids: "ids_ok (g_state_object_id g) (objects repo)"
  obtains parents where "parent_set st ps = Ok parents" "objects repo \<subseteq>\<^sub>m objects repo'"
    "\<And>k. k \<in> set parents \<Longrightarrow> reach (objects repo') i k"
    "\<exists>c. objects repo' i = Some c \<and> c_id c = i \<and> c_tree c = tree" "ids_ok (g_state_object_id g) (objects repo')"
proof -
  obtain simplified r1 where c1: "commit_with_options (g_state_object_id g) author committer m tree sp repo = (Ok simplified, r1)"
    and 1: "sbind (pure (\<lambda>_. parent_set st ps)) (\<lambda>parents. sbind (group_parents g author committer tree parents) (\<lambda>oids.
      commit_with_options (g_state_object_id g) author committer m tree (simplified # oids))) r1 = (Ok i, repo')"
    using run unfolding commit_with_parents_def by (rule sbind_OkE)
  obtain parents where p: "parent_set st ps = Ok parents"
    and 2: "sbind (group_parents g author committer tree parents) (\<lambda>oids.
      commit_with_options (g_state_object_id g) author committer m tree (simplified # oids)) r1 = (Ok i, repo')"
    using 1 by (rule sbind_OkE) (auto dest: sym)
  obtain oids r2 where gp: "group_parents g author committer tree parents r1 = (Ok oids, r2)"
    and c2: "commit_with_options (g_state_object_id g) author committer m tree (simplified # oids) r2 = (Ok i, repo')"
    using 2 by (rule sbind_OkE)
  note e1 = commit_with_options_extends [OF c1 ids]
  note e2 = group_parents_covers [OF gp e1(2)]
  note e3 = commit_with_options_extends [OF c2 conjunct1 [OF conjunct2 [OF e2]]]
  show ?thesis
  proof (rule that [OF p])
    show "objects repo \<subseteq>\<^sub>m objects repo'" using e1(1) e2 e3(1) map_le_trans by blast
    fix k assume "k \<in> set parents"
    then obtain q where q: "q \<in> set oids" "reach (objects r2) q k" using e2 by blast
    have "reach (objects repo') q k" by (rule reach_mono [OF q(2) e3(1)])
    with q(1) e3(3) [OF refl] show "reach (objects repo') i k" by (auto intro: reach.parent)
  qed (use e3(2) e3(3) [OF refl] in simp_all)
qed

lemma state_commit_run:
  assumes "state_commit g st u m repo = (Ok i, repo')"
  obtains tree ps author committer sp r1 r2 where "state_tree_and_prev g st repo = (Ok (tree, ps), r1)"
    "commit_with_parents g st ps tree author committer m sp r1 = (Ok i, r2)" "objects repo' = objects r2"
    "u = None \<Longrightarrow> repo' = r2"
proof -
  obtain tp r1 where f: "state_tree_and_prev g st repo = (Ok tp, r1)"
    and 1: "(case tp of (tree, prev_state) \<Rightarrow> sbind (pure (\<lambda>_. of_sum OtherError (g_committer g))) (\<lambda>committer.
     sbind (pure (\<lambda>_. of_sum OtherError (g_author g))) (\<lambda>author.
     sbind (pure (\<lambda>_. simplified_parents_of st)) (\<lambda>simplified_parents.
     sbind (commit_with_parents g st prev_state tree author committer m simplified_parents) (\<lambda>i.
     sthen (case u of Some name \<Rightarrow> set_reference g name i | None \<Rightarrow> ret ()) (ret i)))))) r1 = (Ok i, repo')"
    using assms unfolding state_commit_def by (rule sbind_OkE)
  obtain tree ps where tp: "tp = (tree, ps)" by fastforce
  obtain author committer sp where "sbind (commit_with_parents g st ps tree author committer m sp) (\<lambda>i.
     sthen (case u of Some name \<Rightarrow> set_reference g name i | None \<Rightarrow> ret ()) (ret i)) r1 = (Ok i, repo')"
    using 1 unfolding tp prod.case
    by (cases "of_sum OtherError (g_committer g) :: (trans_error, signature) outcome";
        cases "of_sum OtherError (g_author g) :: (trans_error, signature) outcome";
        cases "simplified_parents_of st") (simp_all add: sbind_def [of "pure h" for h] pure_def)
  then obtain i' r2 where c: "commit_with_parents g st ps tree author committer m sp r1 = (Ok i', r2)"
    and r: "sthen (case u of Some name \<Rightarrow> set_reference g name i' | None \<Rightarrow> ret ()) (ret i') r2 = (Ok i, repo')"
    by (rule sbind_OkE)
  have "i' = i" "objects repo' = objects r2" "u = None \<Longrightarrow> repo' = r2"
    using r by (auto split: option.splits elim!: sthenE edit_references_cases simp: set_reference_def)
  with c f tp that show ?thesis by blast
qed

text \<open>Committing a state without a reference to update leaves the references and the work tree alone.\<close>

definition rest_of :: "'w repository \<Rightarrow> (rstring, ref_target) btree_map \<times> 'w \<times> (oid \<rightharpoonup> rstring)" where
  "rest_of repo = (refs repo, work repo, meta_blobs repo)"

text \<open>A predicate that the single writes keep is kept by the whole.\<close>

lemma state_commit_keeps:
  assumes w: "\<And>doc. keeps I (write_blob g doc)" "\<And>es. keeps I (write_patches_tree g es)"
    "\<And>a b. keeps I (write_state_tree g a b)" "\<And>au cm m t ps. keeps I (commit_with_options (g_state_object_id g) au cm m t ps)"
  shows "keeps I (state_commit g st None m)"
proof -
  have gp: "keeps I (group_parents g a c tree oids)" for a c tree oids using w
  proof (induction g a c tree oids rule: group_parents.induct)
    case (1 g a c tree oids)
    then show ?case by (subst group_parents.simps) (auto intro!: keeps_rules)
  qed
  have meta: "keeps I (make_patch_meta g st ps pt pn)" for ps pt pn
    unfolding make_patch_meta_def by (intro keeps_rules w)
  have entries: "keeps I (make_patches_entries g st ps pt pns)" for ps pt pns
    by (induction pns) (auto intro!: keeps_rules meta)
  have tree: "keeps I (make_tree g st prev)" for prev
    unfolding make_tree_def make_patches_tree_def by (intro keeps_rules w entries)
  show ?thesis
    unfolding state_commit_def state_tree_and_prev_def commit_with_parents_def option.case
    by (intro keeps_rules w tree gp)
qed

lemma state_commit_rest: "keeps (\<lambda>repo. rest_of repo = x) (state_commit g st None m)"
  by (rule state_commit_keeps)
     (auto simp: keeps_def rest_of_def write_blob_def write_patches_tree_def write_state_tree_def commit_with_options_def split: sum.split)

lemma state_commit_odb: "keeps odb_ok (state_commit g st None m)"
  by (rule state_commit_keeps)
     (auto simp: keeps_def odb_ok_def write_blob_def write_patches_tree_def write_state_tree_def commit_with_options_def split: sum.split)

text \<open>A committed state can be read back from its commit.\<close>

lemma commit_with_parents_trees:
  "keeps (\<lambda>repo. (blobs repo, state_trees repo) = x) (commit_with_parents g st ps tree author committer m sp)"
proof -
  have w: "keeps (\<lambda>repo. (blobs repo, state_trees repo) = x) (commit_with_options idf au cm m t ps)" for idf au cm m t ps
    by (auto simp: keeps_def commit_with_options_def split: sum.split)
  have "keeps (\<lambda>repo. (blobs repo, state_trees repo) = x) (group_parents g a c tree oids)" for a c oids
  proof (induction g a c tree oids rule: group_parents.induct)
    case (1 g a c tree oids)
    then show ?case by (subst group_parents.simps) (auto intro!: keeps_rules w)
  qed
  then show ?thesis unfolding commit_with_parents_def by (intro keeps_rules w)
qed

text \<open>What the code relies on to read a state back: \<open>serde_json\<close> and the object ids are inverted, and
  the id of a blob determines its text.\<close>

definition reads_back :: "('x, 'w) git \<Rightarrow> stack_state \<Rightarrow> bool" where
  "reads_back g st \<longleftrightarrow>
     (\<forall>i. g_unhex g (g_hex g i) = Some i \<and> g_hex g i \<noteq> str ''None'') \<and>
     g_unjson g (g_json g (serialize g st)) = Inr (serialize g st) \<and>
     (\<forall>t i. g_write_blob g t = Inr i \<longrightarrow> g_write_blob g (g_json g (serialize g st)) = Inr i \<longrightarrow> t = g_json g (serialize g st))"

lemma state_stored_mono: "state_stored repo st \<Longrightarrow> objects repo \<subseteq>\<^sub>m objects repo' \<Longrightarrow> state_stored repo' st"
  unfolding state_stored_def map_le_def by (metis domI)

lemma from_tree_cong:
  assumes "blobs repo' = blobs repo" "state_trees repo' = state_trees repo" "objects repo \<subseteq>\<^sub>m objects repo'"
    "from_tree g repo tree = Ok st"
  shows "from_tree g repo' tree = Ok st"
proof -
  have f: "find_commit repo i = Ok c \<Longrightarrow> find_commit repo' i = Ok c" for i c
    using assms(3) by (auto simp: map_le_def) (metis domI)
  have p: "raw_patches repo es m = Ok m' \<Longrightarrow> raw_patches repo' es m = Ok m'" for es m m'
    by (induction es arbitrary: m) (auto dest: f simp del: find_commit_iff)
  have "from_raw_state repo raw = Ok st \<Longrightarrow> from_raw_state repo' raw = Ok st" for raw
    by (auto simp: from_raw_state_def simp del: find_commit_iff split: option.splits dest!: f p)
  then show ?thesis
    using assms(4) by (auto simp: from_tree_def assms(1,2) split: option.splits)
qed

lemma state_commit_extends:
  assumes run: "state_commit g st None m repo = (Ok i, repo')" and ids: "ids_ok (g_state_object_id g) (objects repo)"
  shows "objects repo \<subseteq>\<^sub>m objects repo'" "ids_ok (g_state_object_id g) (objects repo')" "\<exists>c. objects repo' i = Some c \<and> c_id c = i"
proof -
  obtain tree ps author committer sp r1 where s: "state_tree_and_prev g st repo = (Ok (tree, ps), r1)"
    and c: "commit_with_parents g st ps tree author committer m sp r1 = (Ok i, repo')"
    using run by (rule state_commit_run) (blast intro: that)
  have "ids_ok (g_state_object_id g) (objects r1)" using ids state_tree_and_prev_run(1) [OF s] by simp
  note w = commit_with_parents_run [OF c this]
  show "objects repo \<subseteq>\<^sub>m objects repo'" using w state_tree_and_prev_run(1) [OF s] by metis
  show "ids_ok (g_state_object_id g) (objects repo')" using w by metis
  show "\<exists>c. objects repo' i = Some c \<and> c_id c = i" using w by metis
qed

lemma state_commit_stores:
  assumes run: "state_commit g st None m repo = (Ok i, repo')" and ids: "ids_ok (g_state_object_id g) (objects repo)"
    and st: "bt_ok (st_patches st)" "state_stored repo st" "reads_back g st"
  shows "\<exists>c. objects repo' i = Some c \<and> c_id c = i \<and> from_tree g repo' (c_tree c) = Ok st"
    and "objects repo \<subseteq>\<^sub>m objects repo'" and "refs repo' = refs repo" and "work repo' = work repo"
proof -
  obtain tree ps author committer sp r1 r2 where s: "state_tree_and_prev g st repo = (Ok (tree, ps), r1)"
    and c: "commit_with_parents g st ps tree author committer m sp r1 = (Ok i, r2)" and o: "repo' = r2"
    using run by (rule state_commit_run) (blast intro: that)
  have o1: "objects r1 = objects repo" by (rule state_tree_and_prev_run(1) [OF s])
  obtain prev where mt: "make_tree g st prev repo = (Ok tree, r1)"
    using s by (auto simp: state_tree_and_prev_def split: option.splits elim!: sbindE)
  have rd: "from_tree g r1 tree = Ok st"
    by (rule tree_reads_back [OF st(1,2) _ _ _ _ mt]) (use st(3) in \<open>auto simp: reads_back_def\<close>)
  obtain k where ext: "objects r1 \<subseteq>\<^sub>m objects r2" and k: "objects r2 i = Some k" "c_id k = i" "c_tree k = tree"
    using commit_with_parents_run [OF c] ids o1 by metis
  have "(blobs r2, state_trees r2) = (blobs r1, state_trees r1)"
    by (rule keepsD [OF commit_with_parents_trees refl c])
  then show "\<exists>c. objects repo' i = Some c \<and> c_id c = i \<and> from_tree g repo' (c_tree c) = Ok st"
    using k o from_tree_cong [OF _ _ ext rd] by auto
  show "objects repo \<subseteq>\<^sub>m objects repo'" using ext o o1 by simp
  have "rest_of repo' = rest_of repo" by (rule keepsD [OF state_commit_rest refl run])
  then show "refs repo' = refs repo" "work repo' = work repo" by (simp_all add: rest_of_def)
qed

text \<open>
  C8: Committing a stack state keeps every patch reachable.  If the applied patches are reachable
  from the top of the stack, and the patches of the previous state from the commit of the previous
  state, then the head and all patches of the state, hidden and unapplied ones included, are
  reachable from the new state commit, however the parents are bundled; so git does not collect
  them.  Object ids are assumed to identify their objects.
\<close>

theorem state_commit_protects:
  assumes run: "state_commit g st u m repo = (Ok i, repo')"
    and ids: "ids_ok (g_state_object_id g) (objects repo)"
    and tp: "(st_top st :: (trans_error, commit) outcome) = Ok tp"
    and chain: "\<And>pn p. pn \<in> set (st_applied st) \<Longrightarrow> bt_get (st_patches st) pn = Some p \<Longrightarrow>
      reach (objects repo) (c_id tp) (c_id (ps_commit p))"
    and prev: "\<And>prev ps k. st_prev st = Some prev \<Longrightarrow> from_tree g repo (c_tree prev) = Ok ps \<Longrightarrow> patch_id_of ps k \<Longrightarrow>
      reach (objects repo) (c_id prev) k \<and> k \<noteq> c_id prev"
  shows "reach (objects repo') i (c_id (st_head st)) \<and>
         (\<forall>pn\<in>set (all_patches (state_view st)). \<forall>p. bt_get (st_patches st) pn = Some p \<longrightarrow>
            reach (objects repo') i (c_id (ps_commit p)))"
proof -
  obtain tree ps author committer sp r1 r2 where s: "state_tree_and_prev g st repo = (Ok (tree, ps), r1)"
    and c: "commit_with_parents g st ps tree author committer m sp r1 = (Ok i, r2)" and o: "objects repo' = objects r2"
    using run by (rule state_commit_run) (rule that)
  have ids1: "ids_ok (g_state_object_id g) (objects r1)" using ids state_tree_and_prev_run(1) [OF s] by simp
  obtain parents where p: "parent_set st ps = Ok parents" and ext: "objects r1 \<subseteq>\<^sub>m objects r2"
    and cover: "\<And>k. k \<in> set parents \<Longrightarrow> reach (objects r2) i k"
    using commit_with_parents_run [OF c ids1] by metis
  have ext': "objects repo \<subseteq>\<^sub>m objects repo'" using ext o state_tree_and_prev_run(1) [OF s] by simp
  have need: "reach (objects repo') i k" if k: "k \<in> needed st tp" for k
  proof (cases "st_prev st")
    case None
    then have "k \<in> set parents" using parent_set_first [OF _ tp None] p state_tree_and_prev_run(2) [OF s None] k by auto
    then show ?thesis using cover o by simp
  next
    case (Some pr)
    obtain prs where prs: "ps = Some prs" "from_tree g repo (c_tree pr) = Ok prs"
      using state_tree_and_prev_run(3) [OF s Some] by blast
    have p': "parent_set st (Some prs) = Ok parents" using p prs(1) by simp
    have "c_id pr \<in> set parents"
      using parent_set_next [OF p' tp Some, of "c_id pr"] prev [OF Some prs(2)] by blast
    then have rp: "reach (objects repo') i (c_id pr)" using cover o by simp
    from parent_set_next [OF p' tp Some, of k] k consider "k \<in> set parents" | "patch_id_of prs k" by blast
    then show ?thesis
    proof cases
      case 2
      then have "reach (objects repo) (c_id pr) k" using prev [OF Some prs(2)] by blast
      then show ?thesis using rp reach_trans reach_mono [OF _ ext'] by blast
    qed (use cover o in simp)
  qed
  have "reach (objects repo') i (c_id (ps_commit q))"
    if "pn \<in> set (all_patches (state_view st))" "bt_get (st_patches st) pn = Some q" for pn q
  proof (cases "pn \<in> set (st_applied st)")
    case True
    then have "reach (objects repo') (c_id tp) (c_id (ps_commit q))" using chain that(2) reach_mono [OF _ ext'] by blast
    then show ?thesis using need [of "c_id tp"] reach_trans by (auto simp: needed_def)
  next
    case False
    then have "pn \<in> set (st_unapplied st) \<union> set (st_hidden st)" using that(1) by (auto simp: all_patches_def state_view_def)
    then show ?thesis using need that(2) by (auto simp: needed_def)
  qed
  then show ?thesis using need [of "c_id (st_head st)"] by (auto simp: needed_def)
qed

text \<open>Ids for the two commits that are written for the state of the example.\<close>

definition ex_ids :: "signature \<Rightarrow> signature \<Rightarrow> rstring \<Rightarrow> oid \<Rightarrow> oid list \<Rightarrow> git_error + oid" where
  "ex_ids a c m t ps =
     (if a = sig0 \<and> c = sig0 \<and> m = [] \<and> t = 33 \<and> ps = [] then Inr 40
      else if a = sig0 \<and> c = sig0 \<and> m = [] \<and> t = 33 \<and> ps = [40, 3, 4, 5] then Inr 41
      else Inl [])"

theorem state_commit_protects_witness:
  "\<exists>i repo'. state_commit (ex_log_git\<lparr>g_state_object_id := ex_ids\<rparr>) ex_state None [] ex_repo = (Ok i, repo') \<and>
     reach (objects repo') i (c_id k_a) \<and> reach (objects repo') i (c_id k_d)"
proof -
  let ?g = "ex_log_git\<lparr>g_state_object_id := ex_ids\<rparr>"
  obtain repo1 where t: "state_tree_and_prev ?g ex_state ex_repo = (Ok (33, None), repo1)" and o1: "objects repo1 = objects ex_repo"
    by (auto simp: state_tree_and_prev_def make_tree_def make_patches_tree_def sbind_def pure_def ret_def gets_def make_patch_meta_def reused_meta_def
        write_blob_def write_patches_tree_def write_state_tree_def get_parent_commit_def all_patches_def state_view_def
        ex_state_def ex_repo_def ex_commits ex_log_git_def bt_get_def)
  have ps: "parent_set ex_state None = Ok [3, 4, 5]"
    by (simp add: parent_set_def st_top_def ex_state_def bt_get_def set_insert_def ex_commits)
  have sel: "g_committer ?g = Inr sig0" "g_author ?g = Inr sig0" "g_state_object_id ?g = ex_ids" "st_prev ex_state = None"
    by (simp_all add: ex_log_git_def ex_git_def ex_state_def)
  obtain repo' where run: "state_commit ?g ex_state None [] ex_repo = (Ok 41, repo')"
    using t sel by (simp add: state_commit_def sbind_def pure_def commit_with_parents_def commit_with_options_def ps
        simplified_parents_of_def group_parents.simps MAX_PARENTS_def ret_def sthen_def ex_ids_def)
  have "reach (objects repo') 41 (c_id (st_head ex_state)) \<and>
      (\<forall>pn\<in>set (all_patches (state_view ex_state)). \<forall>p. bt_get (st_patches ex_state) pn = Some p \<longrightarrow>
         reach (objects repo') 41 (c_id (ps_commit p)))"
  proof (rule state_commit_protects [OF run])
    show "ids_ok (g_state_object_id ?g) (objects ex_repo)"
      unfolding ids_ok_def by (auto simp: ex_ids_def ex_repo_def split: if_splits)
    show "(st_top ex_state :: (trans_error, commit) outcome) = Ok k_b"
      by (simp add: st_top_def ex_state_def bt_get_def)
    show "reach (objects ex_repo) (c_id k_b) (c_id (ps_commit p))"
      if "pn \<in> set (st_applied ex_state)" "bt_get (st_patches ex_state) pn = Some p" for pn p
    proof -
      have "ps_commit p = k_a \<or> ps_commit p = k_b" using that by (auto simp: ex_state_def bt_get_def)
      moreover have "objects ex_repo (c_id k_b) = Some k_b" "c_id k_a \<in> set (c_parents k_b)"
        by (simp_all add: ex_repo_def ex_commits)
      ultimately show ?thesis by (metis reach.here reach.parent)
    qed
  qed (simp_all add: ex_state_def)
  then have "reach (objects repo') 41 (c_id k_a) \<and> reach (objects repo') 41 (c_id k_d)"
    by (simp add: all_patches_def state_view_def ex_state_def bt_get_def)
  with run show ?thesis by blast
qed

end
