(* ===== verification/Execute_Inv.thy ===== *)
theory Execute_Inv
  imports Execute State_Props
begin

text \<open>
  What executing a transaction does to the references, to the stack state and to the work tree.
\<close>

section \<open>Runs of the parts\<close>

lemma sbind_cong: "(\<And>x s'. m s = (Ok x, s') \<Longrightarrow> f x s' = f' x s') \<Longrightarrow> sbind m f s = sbind m f' s"
  by (auto simp: sbind_def split: prod.split outcome.split)

lemma edit_references_Ok:
  assumes "edit_references g es repo = (Ok u, repo')"
  shows "distinct (map re_name es)" and "repo' = repo\<lparr>refs := foldl apply_edit (refs repo) es\<rparr>"
  using assms by (auto simp: edit_references_def split: if_splits option.splits)

lemma on_r_run: "on_r m (repo, u) = (r, s') \<longleftrightarrow> (\<exists>repo'. m repo = (r, repo') \<and> s' = (repo', u))"
  by (auto simp: on_r_def split: prod.splits)

text \<open>Reading commits again only touches the index and the work tree.\<close>

definition same_store :: "'w repository \<Rightarrow> 'w repository \<times> ui \<Rightarrow> bool" where
  "same_store repo s \<longleftrightarrow> (\<exists>w. fst s = repo\<lparr>work := w\<rparr>)"

lemma same_store_refs: "same_store repo s \<Longrightarrow> refs (fst s) = refs repo \<and> objects (fst s) = objects repo"
  by (auto simp: same_store_def)

lemma keeps_work_x: "keeps (same_store repo) (work_x e f)"
  by (auto simp: keeps_def work_x_def same_store_def split: prod.splits)

lemma keeps_print_x: "keeps (same_store repo) (print_x f)"
  by (auto simp: keeps_def print_x_def modify_def same_store_def)

lemma keeps_checkout: "keeps (same_store repo) (checkout g opts a b c d)"
proof -
  have "keeps (same_store repo) (check_conflicts g)" by (simp add: check_conflicts_def keeps_rules)
  then show ?thesis
    unfolding checkout_def
    by (cases "o_conflict_mode opts") (auto intro!: keeps_rules keeps_work_x)
qed

lemma keeps_rollback: "keeps (same_store repo) (rollback g t i e)"
  unfolding rollback_def Let_def by (intro keeps_rules keeps_checkout keeps_print_x)

lemma keeps_on_error:
  assumes "keeps I m" "\<And>e. keeps I (h e)"
  shows "keeps I (on_error m h)"
proof -
  have throwing: "keeps I (sbind (h e) throw)" for e by (intro keeps_rules assms)
  show ?thesis
    using assms(1) throwing
    by (fastforce simp: keeps_def on_error_def split: prod.splits outcome.splits)
qed

lemma keeps_execute_checkout: "keeps (same_store repo) (execute_checkout g t sk th)"
  unfolding execute_checkout_def
  by (intro keeps_rules keeps_on_error keeps_checkout keeps_rollback)

lemma update_head_Ok:
  assumes "update_head t sk th repo = (Ok sk', repo')"
  shows "repo' = repo \<and> sk' = (if o_set_head (tr_options t) then sk\<lparr>sk_branch_head := th\<rparr> else sk)"
  using assms unfolding update_head_def
  by (auto split: if_splits option.splits elim!: sthenE simp: ret_def pure_def throw_def)

lemma publish_OkE:
  assumes "publish g t sk th msg repo = (Ok sk', repo')"
  obtains prev i r1 where "peel_reference repo (sk_stack_refname sk) = Ok prev"
    "state_commit g (new_stack_state t (sk_state sk) prev th) None msg repo = (Ok i, r1)"
    "distinct (map re_name (ref_edits t sk prev i th))"
    "repo' = r1\<lparr>refs := foldl apply_edit (refs r1) (ref_edits t sk prev i th)\<rparr>"
    "sk' = (if o_set_head (tr_options t) then sk\<lparr>sk_state := new_stack_state t (sk_state sk) prev th, sk_branch_head := th\<rparr>
            else sk\<lparr>sk_state := new_stack_state t (sk_state sk) prev th\<rparr>)"
proof -
  obtain prev where p: "peel_reference repo (sk_stack_refname sk) = Ok prev"
    and 1: "sbind (state_commit g (new_stack_state t (sk_state sk) prev th) None msg) (\<lambda>i.
       sthen (edit_references g (ref_edits t sk prev i th))
             (update_head t (sk\<lparr>sk_state := new_stack_state t (sk_state sk) prev th\<rparr>) th)) repo = (Ok sk', repo')"
    using assms unfolding publish_def by (rule sbind_OkE) (auto simp: Let_def pure_def)
  obtain i r1 where c: "state_commit g (new_stack_state t (sk_state sk) prev th) None msg repo = (Ok i, r1)"
    and 2: "sthen (edit_references g (ref_edits t sk prev i th))
             (update_head t (sk\<lparr>sk_state := new_stack_state t (sk_state sk) prev th\<rparr>) th) r1 = (Ok sk', repo')"
    using 1 by (rule sbind_OkE)
  obtain x r2 where e: "edit_references g (ref_edits t sk prev i th) r1 = (Ok x, r2)"
    and 3: "update_head t (sk\<lparr>sk_state := new_stack_state t (sk_state sk) prev th\<rparr>) th r2 = (Ok sk', repo')"
    using 2 unfolding sthen_def by (rule sbind_OkE)
  show ?thesis
    using that [OF p c edit_references_Ok(1) [OF e]] edit_references_Ok(2) [OF e] update_head_Ok [OF 3] by auto
qed

text \<open>The references after a failed attempt to publish: unchanged, if no edit is written before a failure.\<close>

definition atomic_edits :: "('x, 'w) git \<Rightarrow> bool" where
  "atomic_edits g \<longleftrightarrow> (\<forall>es k e. g_edit_refs g es = Some (k, e) \<longrightarrow> k = 0)"

lemma edit_references_Err:
  "edit_references g es repo = (Err e, repo') \<Longrightarrow> atomic_edits g \<Longrightarrow> repo' = repo"
  by (fastforce simp: edit_references_def atomic_edits_def split: if_splits option.splits)

lemma state_commit_refs:
  "state_commit g st None msg repo = (r, repo') \<Longrightarrow> refs repo' = refs repo \<and> work repo' = work repo"
  using keepsD [OF state_commit_rest refl, of g st msg repo r repo'] by (simp add: rest_of_def)

lemma publish_Err:
  assumes run: "publish g t sk th msg repo = (Err e, repo')" and g: "atomic_edits g"
  shows "refs repo' = refs repo"
proof (cases "peel_reference repo (sk_stack_refname sk)")
  case (Ok prev)
  let ?st = "new_stack_state t (sk_state sk) prev th"
  have 1: "sbind (state_commit g ?st None msg) (\<lambda>i. sthen (edit_references g (ref_edits t sk prev i th))
      (update_head t (sk\<lparr>sk_state := ?st\<rparr>) th)) repo = (Err e, repo')"
    using run Ok by (simp add: publish_def sbind_def [of "pure h" for h] pure_def Let_def)
  then show ?thesis
  proof (cases rule: sbindE)
    case (ok i r1)
    note refs1 = state_commit_refs [OF ok(1)]
    from ok(2) show ?thesis
    proof (cases rule: sthenE)
      case (ok x r2)
      have d: "distinct (map re_name (ref_edits t sk prev i th))" and r2: "r2 = r1\<lparr>refs := foldl apply_edit (refs r1) (ref_edits t sk prev i th)\<rparr>"
        using edit_references_Ok [OF ok(1)] by blast+
      have "bt_get (refs r2) (sk_branch_refname sk) = Some (Direct (c_id th))" if "o_set_head (tr_options t)"
        using get_edits_in [OF d, of "head_edit sk th" "refs r1"] that r2
        by (simp add: ref_edits_def head_edit_def edit_value_def)
      then show ?thesis using ok(2) by (auto simp: update_head_def wrap_branch_def sbind_def sthen_def gets_def pure_def ret_def split: if_splits)
    next
      case (err e')
      then show ?thesis using edit_references_Err [OF err(1) g] refs1 by simp
    qed simp
  next
    case (err e')
    then show ?thesis using state_commit_refs by blast
  qed simp
qed (use run in \<open>auto simp: publish_def sbind_def pure_def\<close>)

lemma log_external_OkE:
  assumes "log_external_mods g sk m repo = (Ok sk1, repo1)"
  obtains prev i r where "peel_reference repo (sk_stack_refname sk) = Ok prev"
    "state_commit g (advance_head (sk_state sk) (sk_branch_head sk) prev) None (case m of Some x \<Rightarrow> x | None \<Rightarrow> external_msg) repo = (Ok i, r)"
    "sk1 = sk\<lparr>sk_state := advance_head (sk_state sk) (sk_branch_head sk) prev\<rparr>"
    "repo1 = r\<lparr>refs := bt_insert (refs repo) (sk_stack_refname sk) (Direct i)\<rparr>"
proof -
  let ?st = "\<lambda>prev. advance_head (sk_state sk) (sk_branch_head sk) prev"
    and ?m = "case m of Some x \<Rightarrow> x | None \<Rightarrow> external_msg"
    and ?es = "\<lambda>prev i. [\<lparr>re_name = sk_stack_refname sk, re_change =
      RefUpdate (PV_ExistingMustMatch (Direct (c_id prev))) (Direct i)\<rparr>]"
  have "sbind (pure (\<lambda>repo. peel_reference repo (sk_stack_refname sk))) (\<lambda>prev.
     sbind (state_commit g (?st prev) None ?m) (\<lambda>i.
     sthen (edit_references g (?es prev i)) (ret (sk\<lparr>sk_state := ?st prev\<rparr>)))) repo = (Ok sk1, repo1)"
    using assms unfolding log_external_mods_def Let_def by (auto elim!: sthenE)
  then obtain prev where p: "peel_reference repo (sk_stack_refname sk) = Ok prev"
    and 1: "sbind (state_commit g (?st prev) None ?m) (\<lambda>i.
     sthen (edit_references g (?es prev i)) (ret (sk\<lparr>sk_state := ?st prev\<rparr>))) repo = (Ok sk1, repo1)"
    by (rule sbind_OkE) (auto simp: pure_def)
  obtain i r where c: "state_commit g (?st prev) None ?m repo = (Ok i, r)"
    and 2: "sthen (edit_references g (?es prev i)) (ret (sk\<lparr>sk_state := ?st prev\<rparr>)) r = (Ok sk1, repo1)"
    using 1 by (rule sbind_OkE)
  obtain x where "edit_references g (?es prev i) r = (Ok x, repo1)" "sk1 = sk\<lparr>sk_state := ?st prev\<rparr>"
    using 2 by (auto elim!: sthenE)
  then show ?thesis
    using that [OF p c] edit_references_Ok(2) state_commit_refs [OF c] by (fastforce simp: apply_edit_def)
qed

lemma log_external_Err:
  assumes "log_external_mods g sk m repo = (Err e, repo1)" "atomic_edits g"
  shows "refs repo1 = refs repo"
  using assms unfolding log_external_mods_def Let_def
  by (auto elim!: sthenE sbindE dest!: state_commit_refs edit_references_Err)

lemma prepare_Ok:
  assumes "prepare g t repo = (Ok sk, repo1)"
  shows "is_head_top sk" and "sk_stack_refname sk = sk_stack_refname (tr_stack t)"
    and "sk_branch_refname sk = sk_branch_refname (tr_stack t)" and "sk_branch_name sk = sk_branch_name (tr_stack t)"
    and "st_patches (sk_state sk) = st_patches (sk_state (tr_stack t))"
    and "n \<noteq> sk_stack_refname (tr_stack t) \<or> is_head_top (tr_stack t) \<Longrightarrow> bt_get (refs repo1) n = bt_get (refs repo) n"
  using assms
  by (auto simp: prepare_def is_head_top_def advance_head_def split: if_splits elim!: log_external_OkE)

lemma prepare_Err: "prepare g t repo = (Err e, repo1) \<Longrightarrow> atomic_edits g \<Longrightarrow> refs repo1 = refs repo"
  by (auto simp: prepare_def split: if_splits dest: log_external_Err)

section \<open>The published state\<close>

definition published :: "'w transaction \<Rightarrow> stack \<Rightarrow> 'w repository \<Rightarrow> bool" where
  "published t sk repo \<longleftrightarrow>
     stack_ok sk \<and>
     st_applied (sk_state sk) = tr_applied t \<and> st_unapplied (sk_state sk) = tr_unapplied t \<and>
     st_hidden (sk_state sk) = tr_hidden t \<and> bt_get (st_patches (sk_state sk)) = trans_get t \<and>
     t_head t = Ok (st_head (sk_state sk)) \<and>
     (\<exists>i. bt_get (refs repo) (sk_stack_refname (tr_stack t)) = Some (Direct i)) \<and>
     (o_set_head (tr_options t) \<longrightarrow> sk_branch_head sk = st_head (sk_state sk) \<and>
        bt_get (refs repo) (sk_branch_refname (tr_stack t)) = Some (Direct (c_id (st_head (sk_state sk))))) \<and>
     (\<forall>pn\<in>set (bt_keys (tr_updated_patches t)).
        bt_get (refs repo) (patch_refname (tr_stack t) pn) = map_option (\<lambda>p. Direct (c_id (ps_commit p))) (trans_get t pn)) \<and>
     (\<forall>n. n \<noteq> sk_stack_refname (tr_stack t) \<longrightarrow> (o_set_head (tr_options t) \<longrightarrow> n \<noteq> sk_branch_refname (tr_stack t)) \<longrightarrow>
        n \<notin> patch_refname (tr_stack t) ` set (bt_keys (tr_updated_patches t)) \<longrightarrow>
        bt_get (refs repo) n = bt_get (refs (tr_repo t)) n)"

lemma updated_patches_upd: "updated_patches_of m us = foldl bt_upd m us"
  unfolding updated_patches_of_def
  by (rule arg_cong [where f = "\<lambda>h. foldl h m us"]) (auto simp: fun_eq_iff split: option.split)

lemma updated_patches_get:
  assumes "bt_ok (tr_updated_patches t)" "m = st_patches (sk_state (tr_stack t))"
  shows "bt_get (updated_patches_of m (tr_updated_patches t)) = trans_get t"
proof -
  have "distinct (map fst (tr_updated_patches t))" using bt_ok_distinct [OF assms(1)] by (simp add: bt_keys_def)
  then show ?thesis
    unfolding updated_patches_upd
    by (intro ext) (subst bt.get_updates, simp_all add: trans_get_def bt_get_def assms(2) split: option.split)
qed

lemma new_stack_state_ok:
  assumes ok: "trans_ok t" and p: "st_patches st = st_patches (sk_state (tr_stack t))"
  shows "state_ok (new_stack_state t st prev th)" and "bt_get (st_patches (new_stack_state t st prev th)) = trans_get t"
proof -
  have u: "bt_ok (tr_updated_patches t)" "bt_ok (st_patches st)" "view_ok (trans_view t)"
    using ok p by (auto simp: trans_ok_def stack_ok_def state_ok_def)
  show g: "bt_get (st_patches (new_stack_state t st prev th)) = trans_get t"
    using updated_patches_get [OF u(1) p] by (simp add: new_stack_state_def)
  have "bt_ok (st_patches (new_stack_state t st prev th))"
    unfolding new_stack_state_def by (simp add: updated_patches_upd bt.ok_updates [OF u(2)])
  moreover have "state_view (new_stack_state t st prev th) = trans_view t"
    using g unfolding state_view_def trans_view_def by (simp add: new_stack_state_def)
  ultimately show "state_ok (new_stack_state t st prev th)" using u(3) by (simp add: state_ok_def)
qed

lemma edit_value_simps [simp]:
  "edit_value (state_edit sk prev i) = Some (Direct i)" "edit_value (head_edit sk th) = Some (Direct (c_id th))"
  "edit_value (patch_edit sk (pn, p)) = map_option (\<lambda>p. Direct (c_id (ps_commit p))) p"
  "re_name (state_edit sk prev i) = sk_stack_refname sk" "re_name (head_edit sk th) = sk_branch_refname sk"
  "re_name (patch_edit sk e) = patch_refname sk (fst e)"
  by (simp_all add: edit_value_def state_edit_def head_edit_def patch_edit_def split: option.split)

lemma publish_published:
  assumes ok: "trans_ok t" and prep: "prepare g t (tr_repo t) = (Ok sk, repo0)" and th: "t_head t = Ok th"
    and refs1: "refs repo1 = refs repo0"
    and run: "publish g t sk th msg repo1 = (Ok sk', repo')"
  shows "published t sk' repo'"
proof -
  note p = prepare_Ok [OF prep]
  obtain prev i r1 where c: "state_commit g (new_stack_state t (sk_state sk) prev th) None msg repo1 = (Ok i, r1)"
    and d: "distinct (map re_name (ref_edits t sk prev i th))"
    and r': "repo' = r1\<lparr>refs := foldl apply_edit (refs r1) (ref_edits t sk prev i th)\<rparr>"
    and sk': "sk' = (if o_set_head (tr_options t) then sk\<lparr>sk_state := new_stack_state t (sk_state sk) prev th, sk_branch_head := th\<rparr>
            else sk\<lparr>sk_state := new_stack_state t (sk_state sk) prev th\<rparr>)"
    using run by (rule publish_OkE)
  let ?st = "new_stack_state t (sk_state sk) prev th" and ?es = "ref_edits t sk prev i th"
  have st': "sk_state sk' = ?st" using sk' by simp
  note ns = new_stack_state_ok [OF ok p(5), of prev th]
  have pr: "patch_refname sk = patch_refname (tr_stack t)" by (simp add: patch_refname_def p(4) fun_eq_iff)
  have sel: "st_applied ?st = tr_applied t" "st_unapplied ?st = tr_unapplied t" "st_hidden ?st = tr_hidden t" "st_head ?st = th"
    by (simp_all add: new_stack_state_def)
  have rs: "refs r1 = refs repo0" using state_commit_refs [OF c] refs1 by simp
  have in_edits: "bt_get (refs repo') (re_name e) = edit_value e" if "e \<in> set ?es" for e
    using get_edits_in [OF d that] r' by simp
  have stackref: "bt_get (refs repo') (sk_stack_refname (tr_stack t)) = Some (Direct i)"
    using in_edits [of "state_edit sk prev i"] p(2) by (simp add: ref_edits_def)
  have head: "bt_get (refs repo') (sk_branch_refname (tr_stack t)) = Some (Direct (c_id th))" if "o_set_head (tr_options t)"
    using in_edits [of "head_edit sk th"] p(3) that by (simp add: ref_edits_def)
  have patch: "bt_get (refs repo') (patch_refname (tr_stack t) pn) = map_option (\<lambda>p. Direct (c_id (ps_commit p))) (trans_get t pn)"
    if pn: "pn \<in> set (bt_keys (tr_updated_patches t))" for pn
  proof -
    obtain v where v: "bt_get (tr_updated_patches t) pn = Some v" using pn by (auto simp: set_bt_keys)
    then have "(pn, v) \<in> set (tr_updated_patches t)" by (simp add: bt_get_def map_of_SomeD)
    then have "patch_edit sk (pn, v) \<in> set ?es" by (auto simp: ref_edits_def)
    then show ?thesis using in_edits [of "patch_edit sk (pn, v)"] v by (simp add: trans_get_def pr)
  qed
  have other: "bt_get (refs repo') n = bt_get (refs (tr_repo t)) n"
    if n: "n \<noteq> sk_stack_refname (tr_stack t)" "o_set_head (tr_options t) \<longrightarrow> n \<noteq> sk_branch_refname (tr_stack t)"
      "n \<notin> patch_refname (tr_stack t) ` set (bt_keys (tr_updated_patches t))" for n
  proof -
    have "n \<notin> re_name ` set ?es"
      using n p(2,3) by (force simp: ref_edits_def pr bt_keys_def split: if_splits)
    then show ?thesis using get_edits_notin [of n ?es "refs r1"] r' rs p(6) [of n] n(1) by simp
  qed
  show ?thesis
    unfolding published_def st' using ns sel th stackref head patch other sk' by (auto simp: stack_ok_def)
qed

section \<open>Stages of an execution\<close>

lemma execute_tail_run:
  "execute_tail t sk (repo, u) = (r, (repo', u')) \<Longrightarrow>
     repo' = repo \<and> r = (case tr_error t of None \<Rightarrow> Ok sk | Some e \<Rightarrow> Err e)"
  by (auto simp: execute_tail_def print_x_def split: option.splits if_splits)

lemma on_error_ErrD:
  assumes "on_error m h s = (r, s')" "m s = (Err e, s1)"
  shows "r \<noteq> Ok x" and "sbind (h e) throw s1 = (r, s')"
proof -
  show 1: "sbind (h e) throw s1 = (r, s')" using assms by (simp add: on_error_def)
  then show "r \<noteq> Ok x" by (auto elim!: sbindE)
qed

lemma rollback_store:
  assumes "sbind (rollback g t i e) throw s1 = (r, s')"
  shows "refs (fst s') = refs (fst s1)" "objects (fst s') = objects (fst s1)"
proof -
  have "keeps (same_store (fst s1)) (sbind (rollback g t i e) throw)" by (intro keeps_rules keeps_rollback)
  moreover have "same_store (fst s1) s1" by (auto simp: same_store_def intro: exI [of _ "work (fst s1)"])
  ultimately have "same_store (fst s1) s'" using assms by (rule keepsD)
  then show "refs (fst s') = refs (fst s1)" "objects (fst s') = objects (fst s1)" using same_store_refs by blast+
qed

text \<open>The critical section with its rollback.\<close>

lemma critical_run:
  assumes run: "on_error (critical interrupted (on_r m)) (rollback g t i) (repo1, u1) = (r, (repo2, u2))"
    and np: "r \<noteq> Panic" and m: "m repo1 = (rm, repo)"
  shows "rm \<noteq> Panic" "refs repo2 = refs repo" "objects repo2 = objects repo"
    "rm = Err e \<Longrightarrow> \<exists>e'. r = Err e'"
    "rm = Ok x \<Longrightarrow> if interrupted then \<exists>e. r = Err e else r = Ok x \<and> repo2 = repo"
proof -
  have cr: "critical interrupted (on_r m) (repo1, u1) =
      (case rm of Ok x \<Rightarrow> (if interrupted then Err (OtherError interrupt_msg) else Ok x)
         | Err e \<Rightarrow> Err (if interrupted then OtherError (interrupt_msg @ str '': '' @ error_text e) else e)
         | Panic \<Rightarrow> Panic, (repo, u1))"
    by (simp add: critical_def on_r_def m split: outcome.split)
  have failed: "(\<exists>e'. r = Err e') \<and> refs repo2 = refs repo \<and> objects repo2 = objects repo"
    if c: "critical interrupted (on_r m) (repo1, u1) = (Err e, (repo, u1))" for e
  proof -
    note d = on_error_ErrD [OF run c]
    have "\<exists>e'. r = Err e'" using d(1) np by (cases r) auto
    then show ?thesis using rollback_store [OF d(2)] by simp
  qed
  have all: "rm \<noteq> Panic \<and> refs repo2 = refs repo \<and> objects repo2 = objects repo \<and> (\<forall>e. rm = Err e \<longrightarrow> (\<exists>e'. r = Err e')) \<and>
      (\<forall>x. rm = Ok x \<longrightarrow> (if interrupted then \<exists>e. r = Err e else r = Ok x \<and> repo2 = repo))"
  proof (cases rm)
    case (Ok x)
    show ?thesis
    proof (cases interrupted)
      case True
      then show ?thesis using failed Ok cr by auto
    next
      case False
      then show ?thesis using run Ok cr by (auto simp: on_error_def)
    qed
  next
    case (Err e)
    then show ?thesis using failed cr by auto
  next
    case Panic
    then show ?thesis using run np cr by (simp add: on_error_def)
  qed
  then show "rm \<noteq> Panic" "refs repo2 = refs repo" "objects repo2 = objects repo"
    "rm = Err e \<Longrightarrow> \<exists>e'. r = Err e'"
    "rm = Ok x \<Longrightarrow> if interrupted then \<exists>e. r = Err e else r = Ok x \<and> repo2 = repo" by auto
qed

lemma executeE:
  assumes run: "execute g interrupted msg t = (r, repo', u')" and np: "r \<noteq> Panic"
  obtains (refused) e where "r = Err e" "repo' = tr_repo t" "halted (tr_error t) = Err e"
  | (unlogged) e where "r = Err e" "prepare g t (tr_repo t) = (Err e, repo')"
  | (unpublished) e sk repo0 where "r = Err e" "prepare g t (tr_repo t) = (Ok sk, repo0)" "refs repo' = refs repo0"
  | (publishing) sk repo0 repo1 repo2 th b rm where "prepare g t (tr_repo t) = (Ok sk, repo0)"
      "refs repo1 = refs repo0" "objects repo1 = objects repo0" "t_head t = Ok th" "halted (tr_error t) = Ok b"
      "publish g t sk th (state_msg b msg) repo1 = (rm, repo2)" "rm \<noteq> Panic"
      "refs repo' = refs repo2" "objects repo' = objects repo2"
      "\<And>e. rm = Err e \<Longrightarrow> \<exists>e'. r = Err e'"
      "\<And>sk'. rm = Ok sk' \<Longrightarrow>
         if interrupted then \<exists>e. r = Err e else r = (case tr_error t of None \<Rightarrow> Ok sk' | Some e \<Rightarrow> Err e) \<and> repo' = repo2"
proof -
  let ?s = "(tr_repo t, tr_ui t)"
  have c: "consistent t" using run np by (cases "consistent t") (auto simp: execute_def execute_x_def sassert_def sbind_def sthen_def crash_def)
  show ?thesis
  proof (cases "t_head t")
    case (Ok th)
    note t_head = this
    show ?thesis
    proof (cases "halted (tr_error t) :: (trans_error, bool) outcome")
      case (Ok b)
      let ?P = "publish g t"
      have "sbind (on_r (prepare g t)) (\<lambda>sk. sthen (execute_checkout g t sk th)
          (sbind (on_error (critical interrupted (on_r (publish g t sk th (state_msg b msg)))) (rollback g t (c_tree th)))
            (execute_tail t))) ?s = (r, (repo', u'))"
        using run c t_head Ok by (simp add: execute_def execute_x_def sassert_def sbind_def [of "pure h" for h] pure_def)
      then show ?thesis
      proof (cases rule: sbindE)
        case (ok sk s1)
        obtain repo0 where p: "prepare g t (tr_repo t) = (Ok sk, repo0)" and s1: "s1 = (repo0, tr_ui t)"
          using ok(1) by (auto simp: on_r_run)
        have ss: "same_store repo0 s1" unfolding s1 same_store_def by (auto intro: exI [of _ "work repo0"])
        from ok(2) show ?thesis
        proof (cases rule: sthenE)
          case (ok x s2)
          note st2 = same_store_refs [OF keepsD [OF keeps_execute_checkout ss ok(1)]]
          obtain repo1 u1 where s2: "s2 = (repo1, u1)" by fastforce
          obtain rm repo2 where m: "publish g t sk th (state_msg b msg) repo1 = (rm, repo2)" by fastforce
          let ?m = "on_error (critical interrupted (on_r (publish g t sk th (state_msg b msg)))) (rollback g t (c_tree th))"
          obtain rc repo3 u3 where rc: "?m (repo1, u1) = (rc, (repo3, u3))" by (metis prod.exhaust)
          have tail: "sbind ?m (execute_tail t) (repo1, u1) = (r, (repo', u'))" using ok(2) s2 by simp
          have npc: "rc \<noteq> Panic" using tail rc np by (auto simp: sbind_def)
          note cr = critical_run [OF rc npc m]
          have t1: "repo' = repo3" "\<And>e. rc = Err e \<Longrightarrow> r = Err e"
            "\<And>sk'. rc = Ok sk' \<Longrightarrow> r = (case tr_error t of None \<Rightarrow> Ok sk' | Some e \<Rightarrow> Err e)"
            using tail rc npc by (auto simp: sbind_def split: outcome.splits dest!: execute_tail_run)
          show ?thesis
          proof (rule publishing [OF p _ _ t_head Ok m cr(1)])
            show "refs repo1 = refs repo0" "objects repo1 = objects repo0" using st2 s2 by simp_all
            show "refs repo' = refs repo2" "objects repo' = objects repo2" using cr(2,3) t1(1) by simp_all
            show "\<exists>e'. r = Err e'" if "rm = Err e" for e using cr(4) [OF that] t1(2) by blast
            show "if interrupted then \<exists>e. r = Err e else r = (case tr_error t of None \<Rightarrow> Ok sk' | Some e \<Rightarrow> Err e) \<and> repo' = repo2"
              if "rm = Ok sk'" for sk'
              using cr(5) [OF that] t1 by (auto split: if_splits)
          qed
        next
          case (err e)
          note st2 = same_store_refs [OF keepsD [OF keeps_execute_checkout ss err(1)]]
          show ?thesis by (rule unpublished [OF err(2) p]) (use st2 in simp)
        qed (use np in simp)
      next
        case (err e)
        then show ?thesis using unlogged by (auto simp: on_r_run)
      qed (use np in simp)
    next
      case (Err e)
      then show ?thesis
        using refused run c t_head by (auto simp: execute_def execute_x_def sm_defs)
    qed (use run c t_head np in \<open>auto simp: execute_def execute_x_def sm_defs\<close>)
  qed (use run c np in \<open>auto simp: execute_def execute_x_def sm_defs t_head_def t_top_def get_patch_commit_def split: option.splits if_splits\<close>)
qed

section \<open>The state log\<close>

lemma peel_reference_OkD:
  assumes "peel_reference repo n = Ok c" "odb_ok repo"
  shows "objects repo (c_id c) = Some c"
  using assms odb_okD by (fastforce simp: peel_reference_def split: option.splits prod.splits)

lemma peel_reference_cong:
  "refs repo = refs repo' \<Longrightarrow> objects repo = objects repo' \<Longrightarrow> peel_reference repo n = peel_reference repo' n"
  by (simp add: peel_reference_def find_commit_def cong: option.case_cong)

lemma prepare_extends:
  assumes "prepare g t repo = (Ok sk, repo0)" "ids_ok (g_state_object_id g) (objects repo)" "odb_ok repo"
  shows "objects repo \<subseteq>\<^sub>m objects repo0" "ids_ok (g_state_object_id g) (objects repo0)" "odb_ok repo0"
  using assms
  by (auto simp: prepare_def split: if_splits elim!: log_external_OkE
      dest: state_commit_extends keepsD [OF state_commit_odb])

lemma publish_stored:
  assumes ok: "trans_ok t" and sk: "st_patches (sk_state sk) = st_patches (sk_state (tr_stack t))"
    and run: "publish g t sk th msg repo1 = (Ok sk', repo')"
    and ids: "ids_ok (g_state_object_id g) (objects repo1)" and odb: "odb_ok repo1"
    and stored: "objects repo1 (c_id th) = Some th" "\<And>pn p. trans_get t pn = Some p \<Longrightarrow> objects repo1 (c_id (ps_commit p)) = Some (ps_commit p)"
    and rb: "reads_back g (sk_state sk')"
  shows "\<exists>i c prev. bt_get (refs repo') (sk_stack_refname sk) = Some (Direct i) \<and> objects repo' i = Some c \<and>
           from_commit g repo' c = Ok (sk_state sk') \<and> st_prev (sk_state sk') = Some prev \<and>
           peel_reference repo1 (sk_stack_refname sk) = Ok prev"
proof -
  obtain prev i r1 where p: "peel_reference repo1 (sk_stack_refname sk) = Ok prev"
    and c: "state_commit g (new_stack_state t (sk_state sk) prev th) None msg repo1 = (Ok i, r1)"
    and d: "distinct (map re_name (ref_edits t sk prev i th))"
    and r': "repo' = r1\<lparr>refs := foldl apply_edit (refs r1) (ref_edits t sk prev i th)\<rparr>"
    and sk': "sk_state sk' = new_stack_state t (sk_state sk) prev th"
    using run by (rule publish_OkE) (auto intro: that split: if_splits)
  let ?st = "new_stack_state t (sk_state sk) prev th"
  note ns = new_stack_state_ok [OF ok sk, of prev th]
  have bt: "bt_ok (st_patches ?st)" using ns(1) by (simp add: state_ok_def)
  have "objects repo1 (c_id (ps_commit (snd e))) = Some (ps_commit (snd e))" if "e \<in> set (st_patches ?st)" for e
  proof -
    have "bt_get (st_patches ?st) (fst e) = Some (snd e)"
      using that bt_ok_distinct [OF bt] by (simp add: bt_get_def bt_keys_def)
    then show ?thesis using stored(2) ns(2) by simp
  qed
  then have "state_stored repo1 ?st"
    using stored(1) peel_reference_OkD [OF p odb] by (auto simp: state_stored_def new_stack_state_def)
  note st = state_commit_stores [OF c ids bt this]
  obtain k where k: "objects r1 i = Some k" "from_tree g r1 (c_tree k) = Ok ?st"
    using st(1) rb sk' by auto
  have "bt_get (refs repo') (sk_stack_refname sk) = Some (Direct i)"
    using get_edits_in [OF d, of "state_edit sk prev i" "refs r1"] r' by (simp add: ref_edits_def)
  moreover have "objects repo' i = Some k" using k(1) r' by simp
  moreover have "from_commit g repo' k = Ok (sk_state sk')"
    unfolding from_commit_def sk' by (rule from_tree_cong [OF _ _ _ k(2)]) (simp_all add: r')
  moreover have "st_prev (sk_state sk') = Some prev" using sk' by (simp add: new_stack_state_def)
  ultimately show ?thesis using p by blast
qed

end
