(* ===== verification/Status_Props.thy ===== *)
theory Status_Props
  imports Status
begin

text \<open>
  The parser of status output against the format that git documents: lines with a kind, two status
  letters, fields and a path, each line ended by a zero byte.
\<close>

section \<open>The format\<close>

record status_line =
  sl_kind :: status_entry_kind
  sl_index :: nat
  sl_worktree :: nat
  sl_fields :: "nat list list"
  sl_path :: "nat list"
  sl_orig :: "nat list"

datatype status_item = HeaderItem "nat list" | EntryItem status_line

primrec kind_char :: "status_entry_kind \<Rightarrow> nat" where
  "kind_char OrdinaryEntry = 49"
| "kind_char RenamedEntry = 50"
| "kind_char UnmergedEntry = 117"
| "kind_char UntrackedEntry = 63"
| "kind_char IgnoredEntry = 33"

primrec field_count :: "status_entry_kind \<Rightarrow> nat" where
  "field_count OrdinaryEntry = 6"
| "field_count RenamedEntry = 7"
| "field_count UnmergedEntry = 8"
| "field_count UntrackedEntry = 0"
| "field_count IgnoredEntry = 0"

definition tracked :: "status_entry_kind \<Rightarrow> bool" where
  "tracked k \<longleftrightarrow> k \<notin> {UntrackedEntry, IgnoredEntry}"

definition line_text :: "status_line \<Rightarrow> nat list" where
  "line_text l =
     kind_char (sl_kind l) # 32 #
     (if tracked (sl_kind l) then [sl_index l, sl_worktree l, 32] else []) @
     concat (map (\<lambda>f. f @ [32]) (sl_fields l)) @ sl_path l @
     (if sl_kind l = RenamedEntry then 0 # sl_orig l else [])"

primrec item_text :: "status_item \<Rightarrow> nat list" where
  "item_text (HeaderItem h) = 35 # h"
| "item_text (EntryItem l) = line_text l"

definition status_chars :: "nat list" where
  "status_chars = map of_char ''.MTADRU''"

definition line_ok :: "status_line \<Rightarrow> bool" where
  "line_ok l \<longleftrightarrow>
     length (sl_fields l) = field_count (sl_kind l) \<and> list_all (\<lambda>f. 0 \<notin> set f \<and> 32 \<notin> set f) (sl_fields l) \<and>
     0 \<notin> set (sl_path l) \<and> 0 \<notin> set (sl_orig l) \<and>
     (tracked (sl_kind l) \<longrightarrow> sl_index l \<in> set status_chars \<and> sl_worktree l \<in> set status_chars)"

primrec item_ok :: "status_item \<Rightarrow> bool" where
  "item_ok (HeaderItem h) = (0 \<notin> set h)"
| "item_ok (EntryItem l) = line_ok l"

definition output_text :: "status_item list \<Rightarrow> nat list" where
  "output_text items = concat (map (\<lambda>i. item_text i @ [0]) items)"

primrec headers_of :: "status_item list \<Rightarrow> nat list list" where
  "headers_of [] = []"
| "headers_of (i # is) = (case i of HeaderItem h \<Rightarrow> (35 # h) # headers_of is | EntryItem _ \<Rightarrow> headers_of is)"

primrec lines_of :: "status_item list \<Rightarrow> status_line list" where
  "lines_of [] = []"
| "lines_of (i # is) = (case i of HeaderItem _ \<Rightarrow> lines_of is | EntryItem l \<Rightarrow> l # lines_of is)"

section \<open>Splitting\<close>

lemma find_byte_append: "b \<notin> set s \<Longrightarrow> find_byte b (s @ b # r) = Some (length s)"
  by (induction s) (simp_all add: find_byte_def)

lemma kind_from_kind_char: "kind_from_char (kind_char k) = Ok k"
  by (cases k) (simp_all add: kind_from_char_def)

lemma line_text_parts:
  assumes "line_ok l" "sl_kind l \<noteq> RenamedEntry"
  shows "0 \<notin> set (line_text l)"
  using assms by (cases "sl_kind l") (auto simp: line_text_def line_ok_def tracked_def status_chars_def list_all_iff)

lemma renamed_text:
  assumes "line_ok l" "sl_kind l = RenamedEntry"
  obtains s where "line_text l = s @ 0 # sl_orig l" "0 \<notin> set s" "0 \<notin> set (sl_orig l)"
  using assms
  by (intro that [of "50 # 32 # sl_index l # sl_worktree l # 32 # concat (map (\<lambda>f. f @ [32]) (sl_fields l)) @ sl_path l"])
     (auto simp: line_text_def line_ok_def tracked_def status_chars_def list_all_iff)

lemma entry_end_text:
  assumes "line_ok l"
  shows "entry_end (pre @ line_text l @ 0 # rest) (length pre) (kind_char (sl_kind l)) = Ok (length pre + length (line_text l))"
proof (cases "sl_kind l = RenamedEntry")
  case True
  then obtain s where s: "line_text l = s @ 0 # sl_orig l" "0 \<notin> set s" "0 \<notin> set (sl_orig l)"
    using renamed_text assms by metis
  have "find_byte 0 (s @ 0 # sl_orig l @ 0 # rest) = Some (length s)" "find_byte 0 (sl_orig l @ 0 # rest) = Some (length (sl_orig l))"
    using s by (simp_all add: find_byte_append)
  then show ?thesis using True unfolding s(1)
    by (simp add: entry_end_def kind_from_kind_char [of RenamedEntry, simplified] True del: obind_Ok_iff)
next
  case False
  then show ?thesis using line_text_parts [OF assms]
    by (simp add: entry_end_def kind_from_kind_char find_byte_append del: obind_Ok_iff)
qed

lemma split_at_text:
  assumes "item_ok i"
  shows "split_at (pre @ item_text i @ 0 # rest) (length pre) =
    Ok (case i of HeaderItem _ \<Rightarrow> True | EntryItem _ \<Rightarrow> False, length pre + length (item_text i))"
proof (cases i)
  case (HeaderItem h)
  then have "find_byte 0 ((35 # h) @ 0 # rest) = Some (length (35 # h))" using assms by (intro find_byte_append) simp
  then show ?thesis using HeaderItem by (simp add: split_at_def header_end_def del: obind_Ok_iff)
next
  case (EntryItem l)
  have hd: "(pre @ line_text l @ 0 # rest) ! length pre = kind_char (sl_kind l)" by (simp add: line_text_def)
  have "kind_char (sl_kind l) \<noteq> 35" by (cases "sl_kind l") simp_all
  then show ?thesis using EntryItem assms hd entry_end_text [of l pre rest]
    by (simp add: split_at_def del: obind_Ok_iff)
qed

text \<open>A range with its text.\<close>

definition text_at :: "nat list \<Rightarrow> nat \<times> nat \<Rightarrow> nat list \<Rightarrow> bool" where
  "text_at data r t \<longleftrightarrow> (\<exists>pre rest. data = pre @ t @ rest \<and> r = (length pre, length pre + length t))"

lemma text_at_bytes: "text_at data r t \<Longrightarrow> entry_bytes (data, r) = t"
  by (auto simp: text_at_def entry_bytes_def)

lemma from_data_loop_text:
  assumes "list_all item_ok items"
  shows "\<exists>hs' es'. from_data_loop (pre @ output_text items) (length pre) hs es =
      Ok \<lparr>ss_data = pre @ output_text items, ss_headers = hs @ hs', ss_entries = es @ es'\<rparr> \<and>
      list_all2 (text_at (pre @ output_text items)) hs' (headers_of items) \<and>
      list_all2 (text_at (pre @ output_text items)) es' (map line_text (lines_of items))"
  using assms
proof (induction items arbitrary: pre hs es)
  case Nil
  then show ?case by (simp add: from_data_loop.simps output_text_def)
next
  case (Cons i items)
  let ?pre = "pre @ item_text i @ [0]" and ?r = "(length pre, length pre + length (item_text i))"
  let ?data = "pre @ output_text (i # items)"
  have data: "?data = ?pre @ output_text items" by (simp add: output_text_def)
  have len: "length pre < length ?data" by (simp add: output_text_def)
  have split: "split_at ?data (length pre) =
      Ok (case i of HeaderItem _ \<Rightarrow> True | EntryItem _ \<Rightarrow> False, length pre + length (item_text i))"
    using split_at_text [of i pre "output_text items"] Cons.prems by (simp add: output_text_def)
  have r: "text_at ?data ?r (item_text i)"
    unfolding text_at_def by (intro exI [of _ pre] exI [of _ "0 # output_text items"]) (simp add: output_text_def)
  have ok: "list_all item_ok items" using Cons.prems by simp
  have step: "from_data_loop ?data (length pre) hs es =
      (case i of HeaderItem _ \<Rightarrow> from_data_loop ?data (length ?pre) (hs @ [?r]) es
       | EntryItem _ \<Rightarrow> from_data_loop ?data (length ?pre) hs (es @ [?r]))"
    using len split by (subst from_data_loop.simps) (simp split: status_item.split)
  note IH = Cons.IH [OF ok, of ?pre, folded data]
  show ?case
  proof (cases i)
    case (HeaderItem h)
    obtain hs' es' where "from_data_loop ?data (length ?pre) (hs @ [?r]) es =
        Ok \<lparr>ss_data = ?data, ss_headers = (hs @ [?r]) @ hs', ss_entries = es @ es'\<rparr>"
      "list_all2 (text_at ?data) hs' (headers_of items)" "list_all2 (text_at ?data) es' (map line_text (lines_of items))"
      using IH [of "hs @ [?r]" es] by blast
    then show ?thesis using r step unfolding HeaderItem by (intro exI [of _ "?r # hs'"] exI [of _ es']) (simp add: HeaderItem)
  next
    case (EntryItem l)
    obtain hs' es' where "from_data_loop ?data (length ?pre) hs (es @ [?r]) =
        Ok \<lparr>ss_data = ?data, ss_headers = hs @ hs', ss_entries = (es @ [?r]) @ es'\<rparr>"
      "list_all2 (text_at ?data) hs' (headers_of items)" "list_all2 (text_at ?data) es' (map line_text (lines_of items))"
      using IH [of hs "es @ [?r]"] by blast
    then show ?thesis using r step unfolding EntryItem by (intro exI [of _ hs'] exI [of _ "?r # es'"]) (simp add: EntryItem)
  qed
qed

section \<open>Fields\<close>

lemma splitn_fields:
  assumes "list_all (\<lambda>f. b \<notin> set f) fs"
  shows "splitn (Suc (length fs)) b (concat (map (\<lambda>f. f @ [b]) fs) @ p) = fs @ [p]"
  using assms by (induction fs) (simp_all add: find_byte_append)

lemma splitn_fields':
  assumes "list_all (\<lambda>f. b \<notin> set f) fs" "n = Suc (length fs)" "s = concat (map (\<lambda>f. f @ [b]) fs) @ p"
  shows "nth_opt (length fs) (splitn n b s) = Some p"
  unfolding assms(2,3) splitn_fields [OF assms(1)] by (simp add: nth_opt_def)

lemma entry_kind: "text_at data r (line_text l) \<Longrightarrow> kind (data, r) = Ok (sl_kind l)"
  by (auto simp: text_at_def line_text_def kind_def byte_at_def kind_from_kind_char simp del: obind_Ok_iff)

lemma entry_statuses:
  assumes "text_at data r (line_text l)" "tracked (sl_kind l)"
  shows "index_status (data, r) = status_from_char (sl_index l)" "worktree_status (data, r) = status_from_char (sl_worktree l)"
  using assms
  by (auto simp: text_at_def line_text_def index_status_def worktree_status_def byte_at_def nth_append simp del: obind_Ok_iff)

text \<open>The fields before the path: kind, letters where there are any, and the rest.\<close>

definition head_fields :: "status_line \<Rightarrow> nat list list" where
  "head_fields l = [kind_char (sl_kind l)] # (if tracked (sl_kind l) then [[sl_index l, sl_worktree l]] else []) @ sl_fields l"

lemma line_text_fields:
  "line_text l = concat (map (\<lambda>f. f @ [32]) (head_fields l)) @ sl_path l @ (if sl_kind l = RenamedEntry then 0 # sl_orig l else [])"
  by (simp add: line_text_def head_fields_def)

lemma head_fields_ok:
  assumes "line_ok l"
  shows "list_all (\<lambda>f. 32 \<notin> set f) (head_fields l)"
    "length (head_fields l) = (if tracked (sl_kind l) then 2 + field_count (sl_kind l) else 1)"
proof -
  have "kind_char (sl_kind l) \<noteq> 32" by (cases "sl_kind l") simp_all
  then show "list_all (\<lambda>f. 32 \<notin> set f) (head_fields l)"
    using assms by (auto simp: head_fields_def line_ok_def status_chars_def list_all_iff)
  show "length (head_fields l) = (if tracked (sl_kind l) then 2 + field_count (sl_kind l) else 1)"
    using assms by (cases "sl_kind l") (auto simp: head_fields_def line_ok_def tracked_def)
qed

lemma entry_path:
  assumes "text_at data r (line_text l)" "line_ok l"
  shows "path_bytes (data, r) = Ok (sl_path l)"
proof -
  note hf = head_fields_ok [OF assms(2)]
  have bytes: "entry_bytes (data, r) = line_text l" using text_at_bytes [OF assms(1)] .
  have k: "kind (data, r) = Ok (sl_kind l)" by (rule entry_kind [OF assms(1)])
  have split: "nth_opt (length (head_fields l)) (splitn (Suc (length (head_fields l))) 32 (line_text l)) =
      Some (sl_path l @ (if sl_kind l = RenamedEntry then 0 # sl_orig l else []))"
    using hf(1) by (rule splitn_fields') (simp_all add: line_text_fields)
  show ?thesis
  proof (cases "sl_kind l = RenamedEntry")
    case True
    have "splitn 2 0 (sl_path l @ 0 # sl_orig l) = [sl_path l, sl_orig l]"
      using splitn_fields [of 0 "[sl_path l]" "sl_orig l"] assms(2) by (simp add: line_ok_def eval_nat_numeral)
    then show ?thesis using True split hf(2) k bytes
      by (simp add: path_bytes_def tracked_def nth_opt_def del: obind_Ok_iff)
  next
    case False
    then show ?thesis using split hf(2) k bytes
      by (cases "sl_kind l") (simp_all add: path_bytes_def tracked_def numeral_2_eq_2 del: obind_Ok_iff splitn.simps)
  qed
qed

section \<open>Properties\<close>

definition entry_of :: "nat list \<Rightarrow> status_entry \<Rightarrow> status_line \<Rightarrow> bool" where
  "entry_of d e l \<longleftrightarrow> fst e = d \<and> text_at d (snd e) (line_text l)"

lemma entry_of_reads:
  assumes "entry_of d e l"
  shows "kind e = Ok (sl_kind l)" "line_ok l \<Longrightarrow> path_bytes e = Ok (sl_path l)"
    "tracked (sl_kind l) \<Longrightarrow> index_status e = status_from_char (sl_index l)"
    "tracked (sl_kind l) \<Longrightarrow> worktree_status e = status_from_char (sl_worktree l)"
  using assms entry_kind entry_path entry_statuses by (cases e; auto simp: entry_of_def)+

lemma from_data_text:
  assumes "list_all item_ok items"
  obtains ss where "from_data (output_text items) = Ok ss"
    "list_all2 (entry_of (output_text items)) (iter ss) (lines_of items)"
    "header_iter ss = headers_of items" "is_empty ss \<longleftrightarrow> lines_of items = []"
proof -
  let ?data = "output_text items"
  obtain hs es where run: "from_data ?data = Ok \<lparr>ss_data = ?data, ss_headers = hs, ss_entries = es\<rparr>"
    and hs: "list_all2 (text_at ?data) hs (headers_of items)"
    and es: "list_all2 (text_at ?data) es (map line_text (lines_of items))"
    using from_data_loop_text [OF assms, of "[]" "[]" "[]"] by (auto simp: from_data_def)
  show thesis
  proof (rule that [OF run])
    have "entry_bytes (?data, r) = t" if "text_at ?data r t" for r t using text_at_bytes that .
    then have "list_all2 (\<lambda>r t. entry_bytes (?data, r) = t) hs (headers_of items)"
      using hs by (rule list_all2_mono [rotated]) simp
    then show "header_iter \<lparr>ss_data = ?data, ss_headers = hs, ss_entries = es\<rparr> = headers_of items"
      by (auto simp: header_iter_def list_all2_conv_all_nth intro: nth_equalityI)
    show "list_all2 (entry_of ?data) (iter \<lparr>ss_data = ?data, ss_headers = hs, ss_entries = es\<rparr>) (lines_of items)"
      using es by (auto simp: iter_def entry_of_def list_all2_conv_all_nth)
    show "is_empty \<lparr>ss_data = ?data, ss_headers = hs, ss_entries = es\<rparr> \<longleftrightarrow> lines_of items = []"
      using es by (auto simp: is_empty_def)
  qed
qed

lemma lines_ok: "list_all item_ok items \<Longrightarrow> l \<in> set (lines_of items) \<Longrightarrow> line_ok l"
  by (induction items) (auto split: status_item.splits)

lemma list_all2_map_eq:
  assumes "list_all2 P xs ys" "\<And>x y. x \<in> set xs \<Longrightarrow> y \<in> set ys \<Longrightarrow> P x y \<Longrightarrow> f x = h y"
  shows "map f xs = map h ys"
  using assms by (induction rule: list_all2_induct) auto

text \<open>A tracked line that says that something has changed.\<close>

definition change_line :: "status_line \<Rightarrow> bool" where
  "change_line l \<longleftrightarrow> line_ok l \<and> tracked (sl_kind l) \<and> \<not> (sl_index l = 46 \<and> sl_worktree l = 46)"

definition ex_items :: "status_item list" where
  "ex_items =
     [HeaderItem (str '' stash 3''),
      EntryItem \<lparr>sl_kind = OrdinaryEntry, sl_index = 46, sl_worktree = 77,
        sl_fields = map str [''N...'', ''100644'', ''100644'', ''100644'', ''0dd9'', ''0dd9''], sl_path = str ''file 3'', sl_orig = []\<rparr>,
      EntryItem \<lparr>sl_kind = RenamedEntry, sl_index = 82, sl_worktree = 46,
        sl_fields = map str [''N...'', ''100644'', ''100644'', ''100644'', ''ce3a'', ''ce3a'', ''R100''], sl_path = str ''file-2'',
        sl_orig = str ''file2''\<rparr>]"

lemma ex_items_ok: "list_all item_ok ex_items" "list_all change_line (lines_of ex_items)"
  by (simp_all add: ex_items_def line_ok_def change_line_def tracked_def status_chars_def str_def)

text \<open>
  C35: Output in the format of \<open>git status\<close> is split into its headers and entries without a panic, and every
  entry reads its kind and its path, whatever bytes but zero the path has.
\<close>

theorem statuses_read_back:
  assumes "list_all item_ok items"
  shows "\<exists>ss. from_data (output_text items) = Ok ss \<and> header_iter ss = headers_of items \<and>
           map kind (iter ss) = map (Ok \<circ> sl_kind) (lines_of items) \<and>
           map path_bytes (iter ss) = map (Ok \<circ> sl_path) (lines_of items)"
proof -
  obtain ss where ss: "from_data (output_text items) = Ok ss"
    "list_all2 (entry_of (output_text items)) (iter ss) (lines_of items)" "header_iter ss = headers_of items"
    by (rule from_data_text [OF assms])
  have "map kind (iter ss) = map (Ok \<circ> sl_kind) (lines_of items)"
    using ss(2) by (rule list_all2_map_eq) (simp add: entry_of_reads)
  moreover have "map path_bytes (iter ss) = map (Ok \<circ> sl_path) (lines_of items)"
    using ss(2) by (rule list_all2_map_eq) (simp add: entry_of_reads lines_ok [OF assms])
  ultimately show ?thesis using ss(1,3) by blast
qed

theorem statuses_read_back_witness:
  "\<exists>ss. from_data (output_text ex_items) = Ok ss \<and> header_iter ss = [str ''# stash 3''] \<and>
     map path_bytes (iter ss) = [Ok (str ''file 3''), Ok (str ''file-2'')]"
  using statuses_read_back [OF ex_items_ok(1)] by (auto simp: ex_items_def str_def)

section \<open>Checks\<close>

lemma any_unmerged_lines:
  assumes "list_all2 (entry_of d) es ls"
  shows "any_unmerged (\<lambda>_. True) es = Ok (\<exists>l\<in>set ls. sl_kind l = UnmergedEntry)"
  using assms by (induction rule: list_all2_induct) (auto simp: entry_of_reads simp del: obind_Ok_iff)

lemma status_char_cases:
  "c \<in> set status_chars \<Longrightarrow> \<exists>s. status_from_char c = Ok s \<and> (s = Unmodified \<longleftrightarrow> c = 46)"
  by (auto simp: status_chars_def status_from_char_def)

lemma clean_loop_lines:
  assumes "list_all2 (entry_of d) es ls" "list_all change_line ls" "\<not> (i \<and> w)"
  shows "clean_loop es i w =
    (if (i \<or> (\<exists>l\<in>set ls. sl_index l \<noteq> 46)) \<and> (w \<or> (\<exists>l\<in>set ls. sl_worktree l \<noteq> 46))
     then Err (OtherError (dirty_msg ''index and worktree''))
     else Ok (i \<or> (\<exists>l\<in>set ls. sl_index l \<noteq> 46), w \<or> (\<exists>l\<in>set ls. sl_worktree l \<noteq> 46)))"
  using assms
proof (induction arbitrary: i w rule: list_all2_induct)
  case (Cons e es l ls)
  note e = Cons.hyps(1)
  have l: "tracked (sl_kind l)" "sl_index l \<in> set status_chars" "sl_worktree l \<in> set status_chars"
    using Cons.prems(1) by (auto simp: change_line_def line_ok_def)
  obtain a b where ab: "index_status e = Ok a" "a = Unmodified \<longleftrightarrow> sl_index l = 46"
      "worktree_status e = Ok b" "b = Unmodified \<longleftrightarrow> sl_worktree l = 46"
    using entry_of_reads(3,4) [OF e l(1)] status_char_cases [OF l(2)] status_char_cases [OF l(3)] by auto
  show ?case
  proof (cases "(i \<or> a \<noteq> Unmodified) \<and> (w \<or> b \<noteq> Unmodified)")
    case True
    then show ?thesis using ab by (auto simp: Let_def)
  next
    case False
    then have "clean_loop (e # es) i w = clean_loop es (i \<or> a \<noteq> Unmodified) (w \<or> b \<noteq> Unmodified)"
      using ab by (auto simp: Let_def)
    then show ?thesis using Cons.IH [OF _ False] Cons.prems(1) ab by auto
  qed
qed auto

text \<open>
  For output without untracked and ignored files, in which every entry reports a change, the checks
  before a command never panic: conflicts are reported exactly when an unmerged entry is there, and the index and work
  tree count as clean exactly when there is no entry; the error names what is dirty.
\<close>

theorem status_checks:
  assumes "list_all item_ok items" "list_all change_line (lines_of items)"
  shows "\<exists>ss. from_data (output_text items) = Ok ss \<and>
           check_status_conflicts ss =
             (if \<exists>l\<in>set (lines_of items). sl_kind l = UnmergedEntry then Err (OtherError conflicts_msg) else Ok ()) \<and>
           check_index_and_worktree_clean ss =
             (if lines_of items = [] then Ok ()
              else if (\<exists>l\<in>set (lines_of items). sl_index l \<noteq> 46) \<and> (\<exists>l\<in>set (lines_of items). sl_worktree l \<noteq> 46)
              then Err (OtherError (dirty_msg ''index and worktree''))
              else if \<exists>l\<in>set (lines_of items). sl_index l \<noteq> 46 then Err (OtherError (dirty_msg ''index''))
              else Err (OtherError (dirty_msg ''worktree'')))"
proof -
  obtain ss where ss: "from_data (output_text items) = Ok ss"
    "list_all2 (entry_of (output_text items)) (iter ss) (lines_of items)" "is_empty ss \<longleftrightarrow> lines_of items = []"
    by (rule from_data_text [OF assms(1)])
  have dirty: "\<exists>l\<in>set (lines_of items). sl_worktree l \<noteq> 46"
    if "lines_of items \<noteq> []" "\<not> (\<exists>l\<in>set (lines_of items). sl_index l \<noteq> 46)"
    using that assms(2) by (cases "lines_of items") (auto simp: change_line_def)
  show ?thesis
    using ss(1,3) any_unmerged_lines [OF ss(2)] clean_loop_lines [OF ss(2) assms(2), of False False] dirty
    by (auto simp: check_status_conflicts_def check_conflicts_filter_def check_index_and_worktree_clean_def)
qed

theorem status_checks_witness:
  "\<exists>ss. from_data (output_text ex_items) = Ok ss \<and> check_status_conflicts ss = Ok () \<and>
     check_index_and_worktree_clean ss = Err (OtherError (dirty_msg ''index and worktree''))"
  using status_checks [OF ex_items_ok] by (auto simp: ex_items_def)

end
