(* ===== verification/Execute_Props.thy ===== *)
theory Execute_Props
  imports Execute_Inv Status_Props
begin

text \<open>
  Properties of the execution of a transaction, with an example: the topmost of the two applied
  patches of the stack of theory \<open>Examples\<close> is popped.
\<close>

section \<open>Example\<close>

definition ex_popped :: "oid transaction" where
  "ex_popped =
     ex_trans\<lparr>tr_options := use_index_and_worktree True default_options, tr_applied := [pa], tr_unapplied := [pb, pc],
              tr_ui := print_popped [pb] ui_new\<rparr>"

definition pop_state :: stack_state where
  "pop_state = ex_state\<lparr>st_prev := Some k_state, st_head := k_a, st_applied := [pa], st_unapplied := [pb, pc]\<rparr>"

definition pop_ids :: "signature \<Rightarrow> signature \<Rightarrow> rstring \<Rightarrow> oid \<Rightarrow> oid list \<Rightarrow> git_error + oid" where
  "pop_ids a c m t ps =
     (if a = sig0 \<and> c = sig0 \<and> m = [] \<and> t = 33 \<and> ps = [7] then Inr 40
      else if a = sig0 \<and> c = sig0 \<and> m = [] \<and> t = 33 \<and> ps = [40, 6] then Inr 41
      else Inl [])"

definition pop_git :: "(oid, oid) git" where
  "pop_git =
     ex_log_git\<lparr>g_state_object_id := pop_ids,
       g_json := (\<lambda>j. if j = serialize ex_git ex_state then [] else [1]),
       g_unjson := (\<lambda>s. Inr (serialize ex_git (if s = [] then ex_state else pop_state))),
       g_write_blob := (\<lambda>s. Inr (if s = [] then 30 else if s = [1] then 34 else 31))\<rparr>"

lemma pop_git_sel [simp]:
  "g_state_object_id pop_git = pop_ids" "g_write_blob pop_git s = Inr (if s = [] then 30 else if s = [1] then 34 else 31)"
  "g_write_patches_tree pop_git es = Inr 32" "g_write_state_tree pop_git a b = Inr 33" "g_committer pop_git = Inr sig0"
  "g_author pop_git = Inr sig0" "g_edit_refs pop_git es' = None" "g_hex pop_git = g_hex ex_git" "g_unhex pop_git = g_unhex ex_git"
  "w_checkout pop_git x y w = (Inr (), y)" "w_refresh pop_git w = (Inr (), w)" "w_status pop_git w = Inr []"
  by (simp_all add: pop_git_def ex_log_git_def ex_git_def)

lemma pop_serialize: "serialize pop_git st = serialize ex_git st"
  by (simp add: serialize_def)

lemma pop_json: "g_json pop_git (serialize pop_git pop_state) = [1]" "g_unjson pop_git [1] = Inr (serialize pop_git pop_state)"
  by (simp_all add: pop_serialize) (simp_all add: pop_git_def serialize_def pop_state_def ex_state_def)

lemma pop_prev: "from_tree pop_git (ex_repo\<lparr>work := w\<rparr>) 20 = Ok ex_state"
  by (simp add: from_tree_def ex_repo_def pop_git_def ex_log_git_def deserialize_def serialize_def ex_git_def ex_state_def ex_commits
    str_def from_raw_state_def bt_get_def)

lemma pop_sel [simp]: "st_prev pop_state = Some k_state" "st_applied pop_state = [pa]" "st_unapplied pop_state = [pb, pc]"
  "st_hidden pop_state = [pd]" "st_head pop_state = k_a" "st_patches pop_state = st_patches ex_state"
  by (simp_all add: pop_state_def ex_state_def)

lemma k_state_sel [simp]: "c_tree k_state = 20" "c_parents k_state = [7]" "c_id k_state = 6"
  by (simp_all add: ex_commits)

lemma pop_parents: "parent_set pop_state (Some ex_state) = Ok [6]"
  by (simp add: parent_set_def st_top_def ex_state_def bt_get_def set_insert_def ex_commits all_patches_def state_view_def)

lemma pop_tree: "\<exists>r. make_tree pop_git pop_state (Some (ex_state, 20)) (ex_repo\<lparr>work := w\<rparr>) = (Ok 33, r)"
  by (simp add: make_tree_def make_patches_tree_def sbind_def pure_def ret_def gets_def make_patch_meta_def reused_meta_def
        write_blob_def write_patches_tree_def write_state_tree_def get_parent_commit_def all_patches_def state_view_def
        ex_state_def ex_repo_def ex_commits bt_get_def patch_meta_text_def str_def split: option.split)

lemma pop_commit: "\<exists>r. state_commit pop_git pop_state None [] (ex_repo\<lparr>work := w\<rparr>) = (Ok 41, r)"
proof -
  obtain r where r: "make_tree pop_git pop_state (Some (ex_state, 20)) (ex_repo\<lparr>work := w\<rparr>) = (Ok 33, r)" using pop_tree by blast
  show ?thesis
    by (simp add: state_commit_def state_tree_and_prev_def sbind_def pure_def pop_prev r ret_def simplified_parents_of_def
      commit_with_parents_def commit_with_options_def pop_ids_def pop_parents group_parents.simps MAX_PARENTS_def sthen_def)
qed

lemma ex_stack_sel [simp]:
  "sk_stack_refname ex_stack = str ''refs/stacks/master''" "sk_branch_refname ex_stack = str ''refs/heads/master''"
  "sk_state ex_stack = ex_state" "sk_branch_head ex_stack = k_b" "st_applied ex_state = [pa, pb]" "st_head ex_state = k_b"
  by (simp_all add: ex_stack_def ex_state_def)

lemma ex_refs: "refs ex_repo = [(str ''refs/heads/master'', Direct 3), (str ''refs/stacks/master'', Direct 6)]"
  by (simp add: ex_repo_def)

lemma ex_popped_sel [simp]:
  "tr_stack ex_popped = ex_stack" "tr_applied ex_popped = [pa]" "tr_unapplied ex_popped = [pb, pc]" "tr_hidden ex_popped = [pd]"
  "tr_updated_patches ex_popped = []" "tr_repo ex_popped = ex_repo" "tr_error ex_popped = None" "tr_updated_head ex_popped = None" "tr_current_tree_id ex_popped = 13"
  "o_set_head (tr_options ex_popped)" "o_use_index_and_worktree (tr_options ex_popped)" "\<not> o_discard_changes (tr_options ex_popped)"
  by (simp_all add: ex_popped_def ex_trans_def use_index_and_worktree_def default_options_def)

lemma popped_get: "trans_get ex_popped = trans_get ex_trans"
  by (rule trans_get_cong) simp_all

lemma popped_new_state: "new_stack_state ex_popped ex_state k_state k_a = pop_state"
  by (simp add: new_stack_state_def pop_state_def updated_patches_of_def ex_state_def)

lemma peel_ex: "peel_reference (ex_repo\<lparr>work := w\<rparr>) (str ''refs/stacks/master'') = Ok k_state"
  by (simp add: peel_reference_def ex_refs bt_get_def eval_nat_numeral str_def find_commit_def) (simp add: ex_repo_def)

lemma pop_publish:
  "\<exists>r. publish pop_git ex_popped ex_stack k_a [] (ex_repo\<lparr>work := w\<rparr>) =
     (Ok (ex_stack\<lparr>sk_state := pop_state, sk_branch_head := k_a\<rparr>),
      r\<lparr>refs := [(str ''refs/heads/master'', Direct 2), (str ''refs/stacks/master'', Direct 41)], work := w\<rparr>)"
proof -
  obtain r where r: "state_commit pop_git pop_state None [] (ex_repo\<lparr>work := w\<rparr>) = (Ok 41, r)" using pop_commit by blast
  have rs: "refs r = refs ex_repo" "work r = w" using state_commit_refs [OF r] by simp_all
  have r': "r\<lparr>refs := x, work := w\<rparr> = r\<lparr>refs := x\<rparr>" for x using rs(2) by (cases r) simp
  have es: "ref_edits ex_popped ex_stack k_state 41 k_a = [state_edit ex_stack k_state 41, head_edit ex_stack k_a]"
    by (simp add: ref_edits_def)
  have "edit_references pop_git [state_edit ex_stack k_state 41, head_edit ex_stack k_a] r =
     (Ok (), r\<lparr>refs := [(str ''refs/heads/master'', Direct 2), (str ''refs/stacks/master'', Direct 41)]\<rparr>)"
    by (simp add: edit_references_def rs ex_refs state_edit_def head_edit_def expected_ok_def apply_edit_def bt_get_def str_def ex_commits)
  moreover have "update_head ex_popped (ex_stack\<lparr>sk_state := pop_state\<rparr>) k_a
      (r\<lparr>refs := [(str ''refs/heads/master'', Direct 2), (str ''refs/stacks/master'', Direct 41)]\<rparr>) =
     (Ok (ex_stack\<lparr>sk_state := pop_state, sk_branch_head := k_a\<rparr>),
      r\<lparr>refs := [(str ''refs/heads/master'', Direct 2), (str ''refs/stacks/master'', Direct 41)]\<rparr>)"
    by (simp add: update_head_def sm_defs bt_get_def wrap_branch_def heads_prefix_def starts_with_def str_def)
  ultimately have "publish pop_git ex_popped ex_stack k_a [] (ex_repo\<lparr>work := w\<rparr>) =
     (Ok (ex_stack\<lparr>sk_state := pop_state, sk_branch_head := k_a\<rparr>),
      r\<lparr>refs := [(str ''refs/heads/master'', Direct 2), (str ''refs/stacks/master'', Direct 41)]\<rparr>)"
    by (simp add: publish_def sbind_def pure_def peel_ex popped_new_state r sthen_def es)
  then show ?thesis using r' by metis
qed

lemma pop_execute:
  "\<exists>r u. execute pop_git interrupted [] ex_popped =
     (if interrupted then Err (OtherError (interrupt_msg @ str '';'' @ [c_newline] @ str ''command aborted (all changes rolled back)''))
      else Ok (ex_stack\<lparr>sk_state := pop_state, sk_branch_head := k_a\<rparr>),
      r\<lparr>refs := [(str ''refs/heads/master'', Direct 2), (str ''refs/stacks/master'', Direct 41)],
        work := if interrupted then 13 else 11\<rparr>, u)"
proof -
  obtain r where p: "publish pop_git ex_popped ex_stack k_a [] (ex_repo\<lparr>work := 11\<rparr>) =
     (Ok (ex_stack\<lparr>sk_state := pop_state, sk_branch_head := k_a\<rparr>),
      r\<lparr>refs := [(str ''refs/heads/master'', Direct 2), (str ''refs/stacks/master'', Direct 41)], work := 11\<rparr>)"
    using pop_publish by blast
  have head: "t_head ex_popped = Ok k_a"
    by (simp add: t_head_def t_top_def get_patch_commit_def popped_get ex_get)
  have prep: "prepare pop_git ex_popped ex_repo = (Ok ex_stack, ex_repo)" by (simp add: prepare_def is_head_top_def)
  have trees: "c_tree k_a = 11" "c_tree k_b = 13" by (simp_all add: ex_commits)
  have cons: "consistent ex_popped" by (simp add: consistent_def)
  have co: "execute_checkout pop_git ex_popped ex_stack k_a (ex_repo, u) = (Ok (), (ex_repo\<lparr>work := 11\<rparr>, u))" for u
    by (simp add: execute_checkout_def check_head_top_mismatch_def is_head_top_def checkout_def trees on_error_def work_x_def sm_defs ex_repo_def)
  have rb: "rollback pop_git ex_popped 11 e (x, u) =
      (Ok (OtherError (error_text e @ str '';'' @ [c_newline] @ str ''command aborted (all changes rolled back)'')),
       (x\<lparr>work := 13\<rparr>, print_rolled_back (last_patch [pa, pb]) u))" for e x u
    by (simp add: rollback_def checkout_def trees work_x_def sm_defs print_x_def)
  show ?thesis
    by (simp add: execute_def execute_x_def cons sassert_def sbind_def sthen_def ret_def pure_def head halted_def prep on_r_def co
      state_msg_def critical_def p on_error_def trees rb throw_def execute_tail_def gets_def last_patch_def print_x_def modify_def split: if_split) (auto intro: exI [of _ r])
qed

lemma ex_popped_ok: "trans_ok ex_popped"
  using ex_trans_ok by (auto simp: trans_ok_def view_ok_trans popped_get)

lemma pop_git_atomic: "atomic_edits pop_git"
  by (simp add: atomic_edits_def)

section \<open>Properties\<close>



text \<open>
  C2: After a transaction is executed, the stack state can be read back from the stack reference, and
  it records the commit of the state before it: the log that \<open>stg undo\<close> walks.
\<close>

theorem execute_state_log:
  assumes ok: "trans_ok t" and run: "execute g False msg t = (Ok sk', repo', u')"
    and ids: "ids_ok (g_state_object_id g) (objects (tr_repo t))" and rb: "reads_back g (sk_state sk')"
    and stored: "\<And>th. t_head t = Ok th \<Longrightarrow> objects (tr_repo t) (c_id th) = Some th"
      "\<And>pn p. trans_get t pn = Some p \<Longrightarrow> objects (tr_repo t) (c_id (ps_commit p)) = Some (ps_commit p)"
  shows "\<exists>i c prev. bt_get (refs repo') (sk_stack_refname (tr_stack t)) = Some (Direct i) \<and> objects repo' i = Some c \<and>
           from_commit g repo' c = Ok (sk_state sk') \<and> st_prev (sk_state sk') = Some prev \<and>
           (is_head_top (tr_stack t) \<longrightarrow> peel_reference (tr_repo t) (sk_stack_refname (tr_stack t)) = Ok prev)"
  using run outcome.distinct(3)
proof (cases rule: executeE)
  case (publishing sk repo0 repo1 repo2 th b rm)
  have odb: "odb_ok (tr_repo t)" using ok by (simp add: trans_ok_def)
  note ext = prepare_extends [OF publishing(1) ids odb]
  note p = prepare_Ok [OF publishing(1)]
  obtain rs: "rm = Ok sk'" "repo' = repo2"
    using publishing(7) publishing(10) publishing(11) by (cases rm) (auto split: option.splits)
  have o1: "objects (tr_repo t) \<subseteq>\<^sub>m objects repo1" using ext(1) publishing(3) by simp
  then have keep: "objects (tr_repo t) i = Some c \<Longrightarrow> objects repo1 i = Some c" for i c
    unfolding map_le_def by (metis domI)
  have "odb_ok repo1" using ext(3) publishing(3) by (simp add: odb_ok_def)
  then obtain i c prev where st: "bt_get (refs repo2) (sk_stack_refname sk) = Some (Direct i)" "objects repo2 i = Some c"
    "from_commit g repo2 c = Ok (sk_state sk')" "st_prev (sk_state sk') = Some prev" "peel_reference repo1 (sk_stack_refname sk) = Ok prev"
    using publish_stored [OF ok p(5) publishing(6) [unfolded rs(1)]] ext(2) publishing(3,4) stored keep rb by auto
  moreover have "peel_reference (tr_repo t) (sk_stack_refname (tr_stack t)) = Ok prev" if top: "is_head_top (tr_stack t)"
  proof -
    have "repo0 = tr_repo t" "sk = tr_stack t" using publishing(1) top by (simp_all add: prepare_def)
    then show ?thesis using st(5) publishing(2,3) peel_reference_cong [of repo1 "tr_repo t"] by simp
  qed
  ultimately show ?thesis using rs(2) p(2) by auto
qed simp_all

theorem execute_state_log_witness:
  "\<exists>sk' repo' u' i c. execute pop_git False [] ex_popped = (Ok sk', repo', u') \<and>
     bt_get (refs repo') (str ''refs/stacks/master'') = Some (Direct i) \<and> objects repo' i = Some c \<and>
     from_commit pop_git repo' c = Ok (sk_state sk') \<and> st_prev (sk_state sk') = Some k_state"
proof -
  let ?sk = "ex_stack\<lparr>sk_state := pop_state, sk_branch_head := k_a\<rparr>"
  obtain repo' u' where run: "execute pop_git False [] ex_popped = (Ok ?sk, repo', u')"
    using pop_execute [of False] by auto
  have hex: "g_unhex ex_git (g_hex ex_git i) = Some i" "g_hex ex_git i \<noteq> str ''None''" for i
    using ex_hex [of i] by (simp_all add: ex_log_git_def)
  have "\<exists>i c prev. bt_get (refs repo') (sk_stack_refname (tr_stack ex_popped)) = Some (Direct i) \<and> objects repo' i = Some c \<and>
           from_commit pop_git repo' c = Ok (sk_state ?sk) \<and> st_prev (sk_state ?sk) = Some prev \<and>
           (is_head_top (tr_stack ex_popped) \<longrightarrow> peel_reference (tr_repo ex_popped) (sk_stack_refname (tr_stack ex_popped)) = Ok prev)"
  proof (rule execute_state_log [OF ex_popped_ok run])
    show "ids_ok (g_state_object_id pop_git) (objects (tr_repo ex_popped))"
      unfolding ids_ok_def by (auto simp: pop_ids_def ex_repo_def split: if_splits)
    show "reads_back pop_git (sk_state ?sk)"
      using pop_json hex by (auto simp: reads_back_def split: if_splits)
    show "objects (tr_repo ex_popped) (c_id th) = Some th" if "t_head ex_popped = Ok th" for th
      using that by (auto simp: t_head_def t_top_def get_patch_commit_def popped_get ex_get ex_repo_def ex_commits)
    show "objects (tr_repo ex_popped) (c_id (ps_commit p)) = Some (ps_commit p)" if "trans_get ex_popped pn = Some p" for pn p
    proof -
      have "pn \<in> {pa, pb, pc, pd}" using that ex_get(5) [of pn] by (auto simp: popped_get)
      then show ?thesis using that by (auto simp: popped_get ex_get ex_repo_def ex_commits)
    qed
  qed
  then show ?thesis using run by auto
qed

text \<open>
  C26: The option \<open>allow_bad_head\<close> has no effect: before the head of the branch is compared with the
  recorded head, external modifications have been logged, which makes them equal.
\<close>

theorem execute_ignores_bad_head:
  "execute g interrupted msg (t\<lparr>tr_options := allow_bad_head b (tr_options t)\<rparr>) = execute g interrupted msg t"
proof -
  let ?t = "t\<lparr>tr_options := allow_bad_head b (tr_options t)\<rparr>"
  have gt: "trans_get ?t = trans_get t" by (rule trans_get_cong) simp_all
  have same: "consistent ?t = consistent t" "t_head ?t = t_head t" "prepare g ?t = prepare g t" "execute_tail ?t = execute_tail t"
    using gt by (simp_all add: consistent_def trans_view_def all_patches_def t_head_def t_top_def t_base_def get_patch_commit_def
        prepare_def execute_tail_def fun_eq_iff split: option.split)
  have rb: "rollback g ?t = rollback g t"
    by (simp add: rollback_def checkout_def allow_bad_head_def fun_eq_iff Let_def)
  have pub: "publish g ?t sk th m = publish g t sk th m" for sk th m
    by (simp add: publish_def new_stack_state_def ref_edits_def update_head_def allow_bad_head_def)
  have co: "execute_checkout g ?t sk th = execute_checkout g t sk th" if "is_head_top sk" for sk th
    using that rb by (simp add: execute_checkout_def check_head_top_mismatch_def checkout_def allow_bad_head_def)
  show ?thesis
    unfolding execute_def execute_x_def sthen_def
    by (auto simp: same rb pub intro!: sbind_cong dest!: on_r_run [THEN iffD1] simp: co prepare_Ok(1))
qed

lemma sbind_assoc: "sbind (sbind m f) h = sbind m (\<lambda>x. sbind (f x) h)"
  by (auto simp: sbind_def fun_eq_iff split: prod.split outcome.split)

lemma ret_bind: "sbind (ret x) f = f x"
  by (simp add: fun_eq_iff)

text \<open>Everything before the critical section does not depend on the signal.\<close>

definition before_critical :: "('x, 'w) git \<Rightarrow> 'w transaction \<Rightarrow> ('w, commit \<times> bool \<times> stack) xm" where
  "before_critical g t =
     sbind (sassert (consistent t)) (\<lambda>_. sbind (pure (\<lambda>_. t_head t)) (\<lambda>th. sbind (pure (\<lambda>_. halted (tr_error t))) (\<lambda>b.
     sbind (on_r (prepare g t)) (\<lambda>sk. sbind (execute_checkout g t sk th) (\<lambda>_. ret (th, b, sk))))))"

lemma execute_split:
  "execute g interrupted msg t =
     sbind (before_critical g t) (\<lambda>(th, b, sk).
       sbind (on_error (critical interrupted (on_r (publish g t sk th (state_msg b msg)))) (rollback g t (c_tree th)))
             (execute_tail t)) (tr_repo t, tr_ui t)"
  unfolding execute_def execute_x_def before_critical_def sthen_def sbind_assoc
  by (rule arg_cong [where f = "\<lambda>m. m (tr_repo t, tr_ui t)"]) (simp add: ret_bind)

text \<open>The documented format of \<open>git status --porcelain=v2 --null\<close>.\<close>

definition status_documented :: "('x, 'w) git \<Rightarrow> bool" where
  "status_documented g \<longleftrightarrow>
     (\<forall>w data. w_status g w = Inr data \<longrightarrow> (\<exists>items. list_all item_ok items \<and> data = output_text items))"

lemma check_conflicts_no_panic:
  assumes "status_documented g"
  shows "fst (check_conflicts g s) \<noteq> Panic"
proof -
  have "obind (statuses_of g w) check_status_conflicts \<noteq> Panic" for w
  proof (cases "w_status g w")
    case (Inr data)
    then obtain items where "list_all item_ok items" "data = output_text items" using assms by (auto simp: status_documented_def)
    then obtain ss where ss: "from_data data = Ok ss" "list_all2 (entry_of data) (iter ss) (lines_of items)"
      using from_data_text by metis
    then show ?thesis using Inr any_unmerged_lines [OF ss(2)]
      by (simp add: statuses_of_def check_status_conflicts_def check_conflicts_filter_def del: obind_Panic_iff)
  qed (simp add: statuses_of_def)
  then show ?thesis by (simp add: check_conflicts_def pure_def split: prod.split del: obind_Panic_iff)
qed

lemma checkout_no_panic: "status_documented g \<Longrightarrow> fst (checkout g opts a b c d s) \<noteq> Panic"
  using check_conflicts_no_panic [of g s]
  by (cases "o_conflict_mode opts")
     (auto simp: checkout_def work_x_def sm_defs split: prod.split outcome.split sum.split bool.split)

lemma rollback_no_panic: "status_documented g \<Longrightarrow> fst (rollback g t i e s) \<noteq> Panic"
  using checkout_no_panic [of g "tr_options t" "last_patch (st_applied (sk_state (tr_stack t)))" "last_patch (tr_applied t)" i
      "c_tree (sk_branch_head (tr_stack t))" s]
  by (auto simp: rollback_def Let_def sthen_def sbind_def print_x_def modify_def ret_def split: prod.split outcome.split)


lemma pop_status: "status_documented pop_git"
  by (auto simp: status_documented_def output_text_def intro!: exI [of _ "[]"])


end
