(* ===== verification/Stack_Props.thy ===== *)
theory Stack_Props
  imports Execute_Inv
begin

text \<open>
  Properties of opening a stack: the references of the patches are repaired, and what the upgrade of
  version 4 metadata accepts.
\<close>

section \<open>Patch references\<close>

lemma get_patch_refname_prefix: "get_patch_refname bn s = get_patch_refname bn [] @ s"
  by (simp add: get_patch_refname_def)

text \<open>The value every reference below the prefix should have.\<close>

definition wanted :: "(patch_name, patch_state) btree_map \<Rightarrow> rstring \<Rightarrow> ref_target option" where
  "wanted patches s = map_option (\<lambda>p. Direct (c_id (ps_commit p))) (bt_get patches (PatchName s))"

text \<open>
  The invariant of the loop over the existing references: \<open>rs\<close> are still to be visited, \<open>left\<close> are the
  patches without a reference so far.
\<close>

definition ensuring ::
  "rstring \<Rightarrow> (patch_name, patch_state) btree_map \<Rightarrow> (rstring, ref_target) btree_map \<Rightarrow>
     (rstring \<times> ref_target) list \<Rightarrow> (patch_name, patch_state) btree_map \<Rightarrow> 'w repository \<Rightarrow> bool" where
  "ensuring pre patches old rs left repo \<longleftrightarrow>
     bt_ok left \<and> distinct (map fst rs) \<and>
     (\<forall>r\<in>set rs. starts_with (fst r) pre \<and> bt_get (refs repo) (fst r) = Some (snd r)) \<and>
     (\<forall>pn p. bt_get left pn = Some p \<longrightarrow> bt_get patches pn = Some p) \<and>
     (\<forall>n. \<not> starts_with n pre \<longrightarrow> bt_get (refs repo) n = bt_get old n) \<and>
     (\<forall>s. if pre @ s \<in> fst ` set rs then bt_get left (PatchName s) = bt_get patches (PatchName s)
          else bt_get (refs repo) (pre @ s) =
            (if bt_get left (PatchName s) = None then wanted patches s else None))"

lemma ensuringD:
  assumes "ensuring pre patches old rs left repo"
  shows "bt_ok left" and "distinct (map fst rs)"
    and "r \<in> set rs \<Longrightarrow> starts_with (fst r) pre" and "r \<in> set rs \<Longrightarrow> bt_get (refs repo) (fst r) = Some (snd r)"
    and "bt_get left pn = Some p \<Longrightarrow> bt_get patches pn = Some p"
    and "\<not> starts_with n pre \<Longrightarrow> bt_get (refs repo) n = bt_get old n"
    and "pre @ s \<in> fst ` set rs \<Longrightarrow> bt_get left (PatchName s) = bt_get patches (PatchName s)"
    and "pre @ s \<notin> fst ` set rs \<Longrightarrow>
      bt_get (refs repo) (pre @ s) = (if bt_get left (PatchName s) = None then wanted patches s else None)"
proof -
  show "bt_ok left" "distinct (map fst rs)" using assms unfolding ensuring_def by blast+
  show "r \<in> set rs \<Longrightarrow> starts_with (fst r) pre" "r \<in> set rs \<Longrightarrow> bt_get (refs repo) (fst r) = Some (snd r)"
    using assms unfolding ensuring_def by blast+
  show "bt_get left pn = Some p \<Longrightarrow> bt_get patches pn = Some p" using assms unfolding ensuring_def by blast
  show "\<not> starts_with n pre \<Longrightarrow> bt_get (refs repo) n = bt_get old n" using assms unfolding ensuring_def by blast
  have "if pre @ s \<in> fst ` set rs then bt_get left (PatchName s) = bt_get patches (PatchName s)
          else bt_get (refs repo) (pre @ s) = (if bt_get left (PatchName s) = None then wanted patches s else None)"
    using assms unfolding ensuring_def by blast
  then show "pre @ s \<in> fst ` set rs \<Longrightarrow> bt_get left (PatchName s) = bt_get patches (PatchName s)"
    "pre @ s \<notin> fst ` set rs \<Longrightarrow>
      bt_get (refs repo) (pre @ s) = (if bt_get left (PatchName s) = None then wanted patches s else None)"
    by simp_all
qed

lemma ensuring_step:
  assumes I: "ensuring pre patches old ((pre @ s, target) # rs) left repo"
    and left': "left' = bt_remove left (PatchName s)"
    and val: "bt_get (refs repo') (pre @ s) = wanted patches s"
    and other: "\<And>n. n \<noteq> pre @ s \<Longrightarrow> bt_get (refs repo') n = bt_get (refs repo) n"
  shows "ensuring pre patches old rs left' repo'"
  unfolding ensuring_def
proof (intro conjI allI ballI impI)
  note D = ensuringD [OF I]
  have d: "distinct (map fst rs)" "pre @ s \<notin> fst ` set rs" using D(2) by simp_all
  show "bt_ok left'" "distinct (map fst rs)" using D(1) d left' by (simp_all add: bt_ok_remove)
  fix r assume r: "r \<in> set rs"
  then have "fst r \<noteq> pre @ s" using d(2) by force
  then show "bt_get (refs repo') (fst r) = Some (snd r)" using D(4) [of r] other [of "fst r"] r by simp
  show "starts_with (fst r) pre" using D(3) [of r] r by simp
next
  note D = ensuringD [OF I]
  show "bt_get patches pn = Some p" if "bt_get left' pn = Some p" for pn p
    using D(5) [of pn p] that left' by (simp split: if_splits)
  show "bt_get (refs repo') n = bt_get old n" if "\<not> starts_with n pre" for n
    using D(6) [OF that] other [of n] that by (auto simp: starts_with_iff)
  show "if pre @ s' \<in> fst ` set rs then bt_get left' (PatchName s') = bt_get patches (PatchName s')
        else bt_get (refs repo') (pre @ s') = (if bt_get left' (PatchName s') = None then wanted patches s' else None)" for s'
  proof (cases "s' = s")
    case True
    have "pre @ s \<notin> fst ` set rs" using D(2) by simp
    then show ?thesis using True val left' by simp
  next
    case False
    then have l: "bt_get left' (PatchName s') = bt_get left (PatchName s')" using left' by simp
    show ?thesis using False D(7) [of s'] D(8) [of s'] other [of "pre @ s'"] unfolding l by simp
  qed
qed

lemma edit_one_Ok:
  assumes "edit_references g [\<lparr>re_name = n, re_change = c\<rparr>] repo = (Ok u, repo')"
  shows "bt_get (refs repo') n = edit_value \<lparr>re_name = n, re_change = c\<rparr>"
    and "m \<noteq> n \<Longrightarrow> bt_get (refs repo') m = bt_get (refs repo) m"
    and "expected_ok (refs repo) \<lparr>re_name = n, re_change = c\<rparr>"
proof -
  show "bt_get (refs repo') n = edit_value \<lparr>re_name = n, re_change = c\<rparr>" "m \<noteq> n \<Longrightarrow> bt_get (refs repo') m = bt_get (refs repo) m"
    using edit_references_Ok(2) [OF assms] by (auto simp: apply_edit_upd split: option.split)
  show "expected_ok (refs repo) \<lparr>re_name = n, re_change = c\<rparr>"
    using assms by (auto simp: edit_references_def split: if_splits)
qed

lemma from_str_plain:
  assumes "c_backslash \<notin> set s"
  shows "from_str s = (case validate s of Ok _ \<Rightarrow> Ok (PatchName s) | Err e \<Rightarrow> Err e | Panic \<Rightarrow> Panic)"
proof -
  have "\<not> starts_with s [c_backslash, c_dash]" using assms by (auto simp: starts_with_iff)
  then show ?thesis by (simp add: from_str_def split: outcome.split)
qed

lemma ensure_one_step:
  assumes I: "ensuring pre patches old ((n, target) # rs) left repo"
    and val: "\<forall>pn\<in>set (bt_keys patches). valid (pn_str pn)" and nb: "c_backslash \<notin> set n"
    and run: "ensure_one g pre (n, target) left repo = (Ok left', repo')"
  shows "ensuring pre patches old rs left' repo'"
proof -
  obtain s where n: "n = pre @ s" using ensuringD(3) [OF I, of "(n, target)"] by (auto simp: starts_with_iff)
  have sp: "strip_prefix pre n = Some s" "strip_prefix pre (pre @ s) = Some s" by (simp_all add: strip_prefix_Some_iff n)
  have here: "bt_get left (PatchName s) = bt_get patches (PatchName s)"
    using ensuringD(7) [OF I, of s] n by simp
  have gone: "bt_remove left (PatchName s) = left" if "bt_get left (PatchName s) = None"
    using that by (force simp: bt_remove_def bt_get_def map_of_eq_None_iff filter_id_conv)
  have delete: "ensuring pre patches old rs left' repo'"
    if none: "bt_get patches (PatchName s) = None" and d: "sthen (delete_reference g n target) (ret left) repo = (Ok left', repo')"
  proof -
    obtain u where e: "delete_reference g n target repo = (Ok u, repo')" and l: "left' = left"
      using d by (auto elim!: sthenE)
    note e = edit_one_Ok [OF e [unfolded delete_reference_def]]
    show ?thesis
      by (rule ensuring_step [OF I [unfolded n]])
         (use e none here l n gone in \<open>simp_all add: wanted_def edit_value_def\<close>)
  qed
  show ?thesis
  proof (cases "validate s")
    case (Ok u)
    then have fs: "from_str s = Ok (PatchName s)" using nb n from_str_plain [of s] by simp
    show ?thesis
    proof (cases "bt_get left (PatchName s)")
      case None
      then show ?thesis
        using delete here run fs by (simp add: ensure_one_def sp sbind_def pure_def)
    next
      case (Some p)
      let ?new = "Direct (c_id (ps_commit p))"
      have "bt_get patches (PatchName s) = Some p" using here Some by simp
      then have want: "wanted patches s = Some ?new" by (simp add: wanted_def)
      obtain x where l: "left' = bt_remove left (PatchName s)"
        and e: "(case target of
             Direct i \<Rightarrow> if i = c_id (ps_commit p) then ret ()
               else edit_references g [\<lparr>re_name = n, re_change = RefUpdate (PV_MustExistAndMatch target) ?new\<rparr>]
           | Symbolic _ \<Rightarrow> edit_references g [\<lparr>re_name = n, re_change = RefUpdate (PV_ExistingMustMatch target) ?new\<rparr>])
           repo = (Ok x, repo')"
        using run fs Some by (auto simp: ensure_one_def sp sbind_def pure_def elim!: sthenE)
      have now: "bt_get (refs repo) n = Some target" using ensuringD(4) [OF I, of "(n, target)"] by simp
      have "bt_get (refs repo') n = Some ?new \<and> (\<forall>m. m \<noteq> n \<longrightarrow> bt_get (refs repo') m = bt_get (refs repo) m)"
        using e now by (auto split: ref_target.splits if_splits dest: edit_one_Ok(1,2) simp: edit_value_def)
      then show ?thesis
        by (intro ensuring_step [OF I [unfolded n] l]) (use want n in simp_all)
    qed
  next
    case (Err e)
    have "PatchName s \<notin> set (bt_keys patches)" using val Err by (auto simp: valid_def)
    then have none: "bt_get patches (PatchName s) = None" by (simp add: set_bt_keys)
    show ?thesis
      using delete [OF none] run Err nb n from_str_plain [of s] by (simp add: ensure_one_def sp sbind_def pure_def)
  next
    case Panic
    have "PatchName s \<notin> set (bt_keys patches)" using val Panic by (auto simp: valid_def)
    then have none: "bt_get patches (PatchName s) = None" by (simp add: set_bt_keys)
    show ?thesis
      using delete [OF none] run Panic nb n from_str_plain [of s] by (simp add: ensure_one_def sp sbind_def pure_def)
  qed
qed

lemma ensure_existing_run:
  assumes "ensuring pre patches old rs left repo"
    and "\<forall>pn\<in>set (bt_keys patches). valid (pn_str pn)" "\<forall>r\<in>set rs. c_backslash \<notin> set (fst r)"
    and "ensure_existing g pre rs left repo = (Ok left', repo')"
  shows "ensuring pre patches old [] left' repo'"
  using assms
proof (induction rs arbitrary: left repo)
  case (Cons r rs)
  obtain n target where r: "r = (n, target)" by fastforce
  obtain left1 repo1 where 1: "ensure_one g pre (n, target) left repo = (Ok left1, repo1)"
    and 2: "ensure_existing g pre rs left1 repo1 = (Ok left', repo')"
    using Cons.prems(4) unfolding r ensure_existing.simps by (rule sbind_OkE)
  show ?case
    by (rule Cons.IH [OF ensure_one_step [OF Cons.prems(1) [unfolded r] Cons.prems(2) _ 1] Cons.prems(2) _ 2])
       (use Cons.prems(3) r in simp_all)
qed simp

text \<open>The patches without a reference get one.\<close>

lemma ensure_missing:
  assumes "sforeach left (\<lambda>e. edit_references g [\<lparr>re_name = pre @ pn_str (fst e),
      re_change = RefUpdate PV_MustNotExist (Direct (c_id (ps_commit (snd e))))\<rparr>]) repo = (Ok (), repo')"
    and "distinct (map fst left)"
  shows "bt_get (refs repo') (pre @ s) =
      (if bt_get left (PatchName s) = None then bt_get (refs repo) (pre @ s) else wanted left s) \<and>
     (\<not> starts_with n pre \<longrightarrow> bt_get (refs repo') n = bt_get (refs repo) n)"
  using assms
proof (induction left arbitrary: repo)
  case (Cons e left)
  let ?ed = "edit_references g [\<lparr>re_name = pre @ pn_str (fst e), re_change = RefUpdate PV_MustNotExist (Direct (c_id (ps_commit (snd e))))\<rparr>]"
  obtain u repo1 where 1: "?ed repo = (Ok u, repo1)"
    and 2: "sforeach left (\<lambda>e. edit_references g [\<lparr>re_name = pre @ pn_str (fst e),
      re_change = RefUpdate PV_MustNotExist (Direct (c_id (ps_commit (snd e))))\<rparr>]) repo1 = (Ok (), repo')"
    using Cons.prems(1) unfolding sforeach.simps sthen_def by (rule sbind_OkE)
  note IH = Cons.IH [OF 2]
  note e1 = edit_one_Ok [OF 1]
  have name: "PatchName (pn_str pn) = pn" for pn by (cases pn) simp
  show ?case
  proof (cases "fst e = PatchName s")
    case True
    then have "bt_get left (PatchName s) = None"
      using Cons.prems(2) by (auto simp: bt_get_def map_of_eq_None_iff)
    moreover have "bt_get (refs repo1) (pre @ s) = Some (Direct (c_id (ps_commit (snd e))))"
      using e1(1) True by (simp add: edit_value_def)
    ultimately show ?thesis
      using IH Cons.prems(2) True e1(2) [of n] by (cases e) (auto simp: wanted_def bt_get_def starts_with_iff)
  next
    case False
    then have "pn_str (fst e) \<noteq> s" using name by metis
    then have "bt_get (refs repo1) (pre @ s) = bt_get (refs repo) (pre @ s)" using e1(2) by simp
    then show ?thesis
      using IH Cons.prems(2) False e1(2) [of n] by (cases e) (auto simp: wanted_def bt_get_def starts_with_iff)
  qed
qed simp

text \<open>
  C24: \<open>ensure_patch_refs\<close> makes the references below \<open>refs/patches/<branch>/\<close> those of the patches of
  the state and touches no other reference: stale, symbolic, misdirected and missing ones are all
  repaired.  Git allows no backslash in the name of a reference.
\<close>

theorem ensure_patch_refs_exact:
  assumes run: "ensure_patch_refs g bn st repo = (Ok (), repo')"
    and ok: "bt_ok (st_patches st)" "bt_ok (refs repo)"
    and val: "\<forall>pn\<in>set (bt_keys (st_patches st)). valid (pn_str pn)"
    and nb: "\<forall>n\<in>set (bt_keys (refs repo)). c_backslash \<notin> set n"
  shows "bt_get (refs repo') (get_patch_refname bn s) =
           map_option (\<lambda>p. Direct (c_id (ps_commit p))) (bt_get (st_patches st) (PatchName s)) \<and>
         (\<not> starts_with n (get_patch_refname bn []) \<longrightarrow> bt_get (refs repo') n = bt_get (refs repo) n)"
proof -
  let ?pre = "get_patch_refname bn []"
  let ?rs = "filter (\<lambda>r. starts_with (fst r) ?pre) (refs repo)"
  obtain left repo1 where 1: "ensure_existing g ?pre ?rs (st_patches st) repo = (Ok left, repo1)"
    and 2: "sforeach left (\<lambda>e. edit_references g [\<lparr>re_name = get_patch_refname bn (pn_str (fst e)),
          re_change = RefUpdate PV_MustNotExist (Direct (c_id (ps_commit (snd e))))\<rparr>]) repo1 = (Ok (), repo')"
    using run unfolding ensure_patch_refs_def Let_def sbind_gets by (rule sbind_OkE)
  have d: "distinct (map fst (refs repo))" using bt_ok_distinct [OF ok(2)] by (simp add: bt_keys_def)
  have start: "ensuring ?pre (st_patches st) (refs repo) ?rs (st_patches st) repo"
    unfolding ensuring_def
  proof (intro conjI allI ballI)
    show "distinct (map fst ?rs)" using d by (simp add: distinct_map_filter)
    show "bt_get (refs repo) (fst r) = Some (snd r)" if "r \<in> set ?rs" for r
      using that d by (simp add: bt_get_def)
    show "if ?pre @ s \<in> fst ` set ?rs then bt_get (st_patches st) (PatchName s) = bt_get (st_patches st) (PatchName s)
          else bt_get (refs repo) (?pre @ s) = (if bt_get (st_patches st) (PatchName s) = None then wanted (st_patches st) s else None)" for s
    proof -
      have "bt_get (refs repo) (?pre @ s) = None" if "?pre @ s \<notin> fst ` set ?rs"
        using that by (force simp: bt_get_def map_of_eq_None_iff starts_with_iff)
      then show ?thesis by (simp add: wanted_def)
    qed
  qed (use ok in auto)
  have "ensuring ?pre (st_patches st) (refs repo) [] left repo1"
    by (rule ensure_existing_run [OF start val _ 1]) (use nb in \<open>auto simp: bt_keys_def\<close>)
  then have left: "bt_ok left" "\<And>pn p. bt_get left pn = Some p \<Longrightarrow> bt_get (st_patches st) pn = Some p"
    "\<not> starts_with n ?pre \<longrightarrow> bt_get (refs repo1) n = bt_get (refs repo) n"
    "bt_get (refs repo1) (?pre @ s) = (if bt_get left (PatchName s) = None then wanted (st_patches st) s else None)"
    by (simp_all add: ensuring_def)
  have "distinct (map fst left)" using bt_ok_distinct [OF left(1)] by (simp add: bt_keys_def)
  then have m: "bt_get (refs repo') (?pre @ s) =
      (if bt_get left (PatchName s) = None then bt_get (refs repo1) (?pre @ s) else wanted left s) \<and>
     (\<not> starts_with n ?pre \<longrightarrow> bt_get (refs repo') n = bt_get (refs repo1) n)"
    by (intro ensure_missing) (use 2 in \<open>simp_all add: get_patch_refname_prefix [of bn "pn_str x" for x]\<close>)
  show ?thesis
    using m left(2) [of "PatchName s"] left(3,4) get_patch_refname_prefix [of bn s]
    by (cases "bt_get left (PatchName s)") (auto simp: wanted_def)
qed

text \<open>A stack whose first patch has a wrong reference, whose second has none, and a reference too many.\<close>

definition bad_refs_repo :: "oid repository" where
  "bad_refs_repo =
     ex_repo\<lparr>refs := [(str ''refs/patches/master/a'', Direct 9), (str ''refs/patches/master/z'', Symbolic (str ''HEAD''))]\<rparr>"

definition two_state :: stack_state where
  "two_state = ex_state\<lparr>st_patches := [(pa, \<lparr>ps_commit = k_a\<rparr>), (pb, \<lparr>ps_commit = k_b\<rparr>)]\<rparr>"

lemma letters_valid: "c \<in> {97, 98, 122} \<Longrightarrow> valid [c]"
  by (auto simp: valid_def validate_def peek_def char_class_defs forbidden_char_def ends_with_def dot_lock_def str_def
      base_name_def at_name_def)

theorem ensure_patch_refs_exact_witness:
  "\<exists>repo'. ensure_patch_refs ex_git (str ''master'') two_state bad_refs_repo = (Ok (), repo') \<and>
     bt_get (refs repo') (get_patch_refname (str ''master'') [97]) = Some (Direct 2) \<and>
     bt_get (refs repo') (get_patch_refname (str ''master'') [98]) = Some (Direct 3) \<and>
     bt_get (refs repo') (get_patch_refname (str ''master'') [122]) = None"
proof -
  have v: "validate [97] = Ok ()" "validate [122] = Ok ()" "valid [97]" "valid [98]"
    using letters_valid [of 97] letters_valid [of 122] letters_valid [of 98] by (simp_all add: valid_def)
  have st: "st_patches two_state = [(pa, \<lparr>ps_commit = k_a\<rparr>), (pb, \<lparr>ps_commit = k_b\<rparr>)]" by (simp add: two_state_def)
  have rf: "refs bad_refs_repo = [(str ''refs/patches/master/a'', Direct 9), (str ''refs/patches/master/z'', Symbolic (str ''HEAD''))]"
    by (simp add: bad_refs_repo_def)
  have "fst (ensure_patch_refs ex_git (str ''master'') two_state bad_refs_repo) = Ok ()" by code_simp
  then obtain repo' where run: "ensure_patch_refs ex_git (str ''master'') two_state bad_refs_repo = (Ok (), repo')"
    by (metis prod.collapse)
  have ok: "bt_ok (st_patches two_state)" "bt_ok (refs bad_refs_repo)"
    "\<forall>pn\<in>set (bt_keys (st_patches two_state)). valid (pn_str pn)" "\<forall>n\<in>set (bt_keys (refs bad_refs_repo)). c_backslash \<notin> set n"
  proof -
    have "pn_str pa = [97]" "pn_str pb = [98]" by (simp_all add: pa_def pb_def)
    then show "bt_ok (st_patches two_state)" "bt_ok (refs bad_refs_repo)"
      "\<forall>pn\<in>set (bt_keys (st_patches two_state)). valid (pn_str pn)" "\<forall>n\<in>set (bt_keys (refs bad_refs_repo)). c_backslash \<notin> set n"
      using v by (auto simp: st rf bt_ok_def bt_keys_def str_def)
  qed
  note e = ensure_patch_refs_exact [OF run ok]
  show ?thesis
    using run e [of "[97]"] e [of "[98]"] e [of "[122]"] by (simp add: st bt_get_def pa_def pb_def ex_commits)
qed

section \<open>Upgrading version 4\<close>

definition meta_ok :: "meta_state \<Rightarrow> bool" where
  "meta_ok m \<longleftrightarrow>
     set (mt_applied m @ mt_unapplied m @ mt_hidden m) = set (bt_keys (mt_patches m)) \<and> bt_ok (mt_patches m) \<and>
     (\<forall>pn\<in>set (bt_keys (mt_patches m)). valid (pn_str pn)) \<and> (\<forall>k. mt_key m = Some k \<longrightarrow> k \<in> set list_keys)"

lemma from_str_not_panic: "from_str s \<noteq> Panic"
  by (auto simp: from_str_def Let_def)

lemma meta_line_ok:
  assumes "meta_ok m"
  shows "meta_line g line m \<noteq> Panic" and "meta_line g line m = Ok m' \<Longrightarrow> meta_ok m'"
proof -
  have push: "meta_ok ((push_meta k pn m)\<lparr>mt_patches := bt_insert (mt_patches m) pn i\<rparr>)" if "valid (pn_str pn)" for k pn i
    using assms that by (auto simp: meta_ok_def push_meta_def set_bt_keys_insert bt_ok_insert)
  have key: "\<And>k. mt_key m = Some k \<Longrightarrow> k \<in> set list_keys" using assms unfolding meta_ok_def by blast
  have entry: "meta_entry g line m \<noteq> Panic" "meta_entry g line m = Ok m' \<Longrightarrow> meta_ok m'"
    using key assms push from_str_Ok_valid from_str_not_panic
    by (auto simp: meta_entry_def split: option.splits if_splits prod.splits)
  have keyed: "meta_key g k v m \<noteq> Panic" "meta_key g k v m = Ok m' \<Longrightarrow> meta_ok m'" for k v
    using assms unfolding meta_key_def meta_ok_def by (auto split: option.splits if_splits)
  show "meta_line g line m \<noteq> Panic" "meta_line g line m = Ok m' \<Longrightarrow> meta_ok m'"
    using entry keyed assms by (auto simp: meta_line_def split: option.splits if_splits prod.splits)
qed

lemma meta_loop_ok:
  "meta_ok m \<Longrightarrow> meta_loop g ls m \<noteq> Panic \<and> (\<forall>m'. meta_loop g ls m = Ok m' \<longrightarrow> meta_ok m')"
proof (induction ls arbitrary: m)
  case (Cons line ls)
  show ?case
  proof (cases "meta_line g line m")
    case (Ok m1)
    then show ?thesis using Cons.IH [OF meta_line_ok(2) [OF Cons.prems Ok]] by simp
  qed (use meta_line_ok(1) [OF Cons.prems, of g line] in auto)
qed simp

text \<open>
  C40: Reading version 4 metadata never panics, and a state it accepts is consistent: the patches in
  the three lists are those with a commit, and their names are valid.
\<close>

theorem meta_v4_consistent:
  "meta_v4 g content \<noteq> Panic \<and>
   (\<forall>raw. meta_v4 g content = Ok raw \<longrightarrow>
      set (rw_applied raw @ rw_unapplied raw @ rw_hidden raw) = set (bt_keys (rw_patches raw)) \<and> bt_ok (rw_patches raw) \<and>
      (\<forall>pn\<in>set (bt_keys (rw_patches raw)). valid (pn_str pn)))"
proof -
  have "meta_ok meta_start" by (simp add: meta_ok_def meta_start_def bt_keys_def)
  from meta_loop_ok [OF this]
  have loop: "meta_loop g ls meta_start \<noteq> Panic" "meta_loop g ls meta_start = Ok m \<Longrightarrow> meta_ok m" for ls m by auto
  have np: "meta_v4 g content \<noteq> Panic"
    using loop(1) by (auto simp: meta_v4_def split: list.split option.split)
  have "\<exists>m. meta_ok m \<and> rw_applied raw = mt_applied m \<and> rw_unapplied raw = mt_unapplied m \<and> rw_hidden raw = mt_hidden m \<and>
      rw_patches raw = mt_patches m" if "meta_v4 g content = Ok raw" for raw
    using that loop(2) by (fastforce simp: meta_v4_def split: list.splits if_splits option.splits)
  with np show ?thesis unfolding meta_ok_def by (metis (no_types, lifting))
qed

definition v4_content :: "rstring \<Rightarrow> rstring" where
  "v4_content prev = str ''Version: 4'' @ [c_newline] @ str ''Previous: '' @ prev @ [c_newline] @ str ''Head: 000'' @ [c_newline]
     @ str ''Applied:'' @ [c_newline] @ str ''  a: 00'' @ [c_newline] @ str ''Unapplied:'' @ [c_newline]
     @ str ''Hidden:'' @ [c_newline] @ str ''  d: 00000''"

theorem meta_v4_consistent_witness:
  "\<exists>raw. meta_v4 ex_git (v4_content (str ''000000'')) = Ok raw \<and> rw_applied raw = [pa] \<and>
     set (rw_applied raw @ rw_unapplied raw @ rw_hidden raw) = set (bt_keys (rw_patches raw))"
proof -
  have ls: "lines (v4_content (str ''000000'')) = [str ''Version: 4'', str ''Previous: 000000'', str ''Head: 000'', str ''Applied:'',
      str ''  a: 00'', str ''Unapplied:'', str ''Hidden:'', str ''  d: 00000'']" by code_simp
  have "from_str [97] = Ok pa" "from_str [100] = Ok pd" by code_simp+
  moreover have "g_unhex ex_git h = Some (length h)" for h by (simp add: ex_git_def)
  ultimately have loop: "meta_loop ex_git [str ''Previous: 000000'', str ''Head: 000'', str ''Applied:'', str ''  a: 00'',
      str ''Unapplied:'', str ''Hidden:'', str ''  d: 00000''] meta_start =
      Ok \<lparr>mt_key = Some (str ''Hidden''), mt_prev = Some (Some 6), mt_head = Some 3, mt_applied = [pa], mt_unapplied = [],
          mt_hidden = [pd], mt_patches = [(pa, 2), (pd, 5)]\<rparr>"
    by (simp add: meta_start_def meta_line_def meta_entry_def meta_key_def push_meta_def split_once_def trim_def
        trim_matches_def trim_start_matches_def trim_end_matches_def is_whitespace_def starts_with_def str_def)
  have "meta_v4 ex_git (v4_content (str ''000000'')) =
      Ok \<lparr>rw_prev = None, rw_head = 3, rw_applied = [pa], rw_unapplied = [], rw_hidden = [pd], rw_patches = [(pa, 2), (pd, 5)]\<rparr>"
    unfolding meta_v4_def ls list.case loop by simp
  then show ?thesis using meta_v4_consistent [of ex_git "v4_content (str ''000000'')"] by simp
qed

lemma no_previous:
  "\<lbrakk>\<forall>line\<in>set ls. \<not> starts_with line (str ''Previous:''); mt_prev m = None; meta_loop g ls m = Ok m'\<rbrakk> \<Longrightarrow> mt_prev m' = None"
proof (induction ls arbitrary: m)
  case (Cons line ls)
  obtain m1 where 1: "meta_line g line m = Ok m1" and 2: "meta_loop g ls m1 = Ok m'" using Cons.prems(3) by auto
  have key: "k \<noteq> str ''Previous''" if sp: "split_once c_colon line = Some (k, v)" for k v
  proof
    assume k: "k = str ''Previous''"
    obtain i where i: "position (\<lambda>x. x = c_colon) line = Some i" "k = take i line" using sp by (auto simp: split_once_def)
    have "line = take i line @ line ! i # drop (Suc i) line" using id_take_nth_drop [of i line] position_SomeD [OF i(1)] by simp
    then have "line = str ''Previous:'' @ drop (Suc i) line" using k i(2) position_SomeD [OF i(1)] by (simp add: str_def)
    then have "starts_with line (str ''Previous:'')" by (metis starts_with_iff)
    then show False using Cons.prems(1) by simp
  qed
  have "mt_prev m1 = None"
    using 1 Cons.prems(2) key
    by (auto simp: meta_line_def meta_entry_def meta_key_def push_meta_def split: option.splits if_splits prod.splits)
  then show ?case using Cons.IH [OF _ _ 2] Cons.prems(1) by simp
qed simp

text \<open>
  A stack that version 4 recorded with \<open>Previous: None\<close> (its first state) is not upgraded: the
  value \<open>None\<close> is taken for a missing line, and the upgrade fails.
\<close>

theorem meta_v4_rejects_none:
  assumes "lines content = str ''Version: 4'' # str ''Previous: None'' # ls"
    and "\<forall>line\<in>set ls. \<not> starts_with line (str ''Previous:'')"
  shows "meta_v4 g content \<noteq> Ok raw"
proof
  assume run: "meta_v4 g content = Ok raw"
  then obtain m where m: "meta_loop g (str ''Previous: None'' # ls) meta_start = Ok m" "mt_prev m \<noteq> None"
    using assms(1) by (auto simp: meta_v4_def split: if_splits option.splits)
  have "split_once c_colon (str ''Previous: None'') = Some (str ''Previous'', str '' None'')" "trim (str '' None'') = str ''None''"
    "\<not> starts_with (str ''Previous: None'') [c_space]"
    by code_simp+
  then have "meta_line g (str ''Previous: None'') meta_start = Ok meta_start"
    by (simp add: meta_line_def meta_key_def meta_start_def)
  then have lp: "meta_loop g ls meta_start = Ok m" using m(1) by simp
  have "mt_prev meta_start = None" by (simp add: meta_start_def)
  then show False using no_previous [OF assms(2) _ lp] m(2) by simp
qed

theorem meta_v4_rejects_none_witness: "\<forall>raw. meta_v4 ex_git (v4_content (str ''None'')) \<noteq> Ok raw"
proof -
  have "lines (v4_content (str ''None'')) = str ''Version: 4'' # str ''Previous: None'' # drop 2 (lines (v4_content (str ''None'')))"
    "\<forall>line\<in>set (drop 2 (lines (v4_content (str ''None'')))). \<not> starts_with line (str ''Previous:'')"
    by code_simp+
  then show ?thesis using meta_v4_rejects_none by blast
qed

end
