(* ===== verification/Winnow.thy ===== *)
theory Winnow
  imports Rust_Std
begin

text \<open>
  The parser combinators of the crate \<open>winnow\<close> that the parsers under \<open>src/patch/parse\<close> are composed
  of, by their documented behaviour.  They are polymorphic and higher order, so they are functions of
  the model and not parameters.

  A parser takes the input that is left and gives a value with the input left after it, or fails:
  \<open>Backtrack\<close> lets \<open>alt\<close>, \<open>opt\<close> and \<open>repeat\<close> try something else from the same place, \<open>Cut\<close> does not.
  \<open>consuming\<close> and \<open>splits\<close> are the laws the proofs about parsers rest on: a parser takes a prefix of
  its input.
\<close>

named_theorems parser_simps \<open>unfolding of the parser combinators\<close>

datatype 'a presult = Parsed 'a rstring | Backtrack | Cut

type_synonym 'a parser = "rstring \<Rightarrow> 'a presult"

definition pbind :: "'a parser \<Rightarrow> ('a \<Rightarrow> 'b parser) \<Rightarrow> 'b parser" where
  "pbind p f s = (case p s of Parsed x r \<Rightarrow> f x r | Backtrack \<Rightarrow> Backtrack | Cut \<Rightarrow> Cut)"

definition pmap :: "('a \<Rightarrow> 'b) \<Rightarrow> 'a parser \<Rightarrow> 'b parser" where
  "pmap f p s = (case p s of Parsed x r \<Rightarrow> Parsed (f x) r | Backtrack \<Rightarrow> Backtrack | Cut \<Rightarrow> Cut)"

text \<open>A tuple of parsers.\<close>

definition pair :: "'a parser \<Rightarrow> 'b parser \<Rightarrow> ('a \<times> 'b) parser" where
  "pair p q = pbind p (\<lambda>x. pmap (Pair x) q)"

definition alt :: "'a parser \<Rightarrow> 'a parser \<Rightarrow> 'a parser" where
  "alt p q s = (case p s of Backtrack \<Rightarrow> q s | r \<Rightarrow> r)"

definition opt :: "'a parser \<Rightarrow> 'a option parser" where
  "opt p s = (case p s of Parsed x r \<Rightarrow> Parsed (Some x) r | Backtrack \<Rightarrow> Parsed None s | Cut \<Rightarrow> Cut)"

text \<open>\<open>Parser::try_map\<close>: a value the function rejects is an ordinary failure.\<close>

definition try_map :: "('a \<Rightarrow> 'b option) \<Rightarrow> 'a parser \<Rightarrow> 'b parser" where
  "try_map f p s =
     (case p s of
        Parsed x r \<Rightarrow> (case f x of Some y \<Rightarrow> Parsed y r | None \<Rightarrow> Backtrack)
      | Backtrack \<Rightarrow> Backtrack | Cut \<Rightarrow> Cut)"

text \<open>\<open>Parser::take\<close>: the input the parser consumed, instead of its value.\<close>

definition ptake :: "'a parser \<Rightarrow> rstring parser" where
  "ptake p s =
     (case p s of
        Parsed x r \<Rightarrow> Parsed (take (length s - length r) s) r
      | Backtrack \<Rightarrow> Backtrack | Cut \<Rightarrow> Cut)"

text \<open>A \<open>char\<close> and a \<open>&str\<close> as parsers.\<close>

definition pchar :: "rchar \<Rightarrow> rchar parser" where
  "pchar c s = (case s of [] \<Rightarrow> Backtrack | d # r \<Rightarrow> if d = c then Parsed c r else Backtrack)"

definition literal :: "rstring \<Rightarrow> rstring parser" where
  "literal l s = (case strip_prefix l s of Some r \<Rightarrow> Parsed l r | None \<Rightarrow> Backtrack)"

text \<open>\<open>digit1\<close> and \<open>hex_digit1\<close>: the longest non-empty run.\<close>

definition take_while1 :: "(rchar \<Rightarrow> bool) \<Rightarrow> rstring parser" where
  "take_while1 P s =
     (if takeWhile P s = [] then Backtrack else Parsed (takeWhile P s) (dropWhile P s))"

definition digit1 :: "rstring parser" where
  "digit1 = take_while1 is_ascii_digit"

definition hex_digit1 :: "rstring parser" where
  "hex_digit1 = take_while1 is_ascii_hexdigit"

text \<open>\<open>repeat(0..)\<close>; a parser that succeeds without consuming is a \<open>Cut\<close>.\<close>

function repeat0 :: "'a parser \<Rightarrow> 'a list parser" where
  "repeat0 p s =
     (case p s of
        Parsed x r \<Rightarrow> if length r < length s then pmap (Cons x) (\<lambda>_. repeat0 p r) s else Cut
      | Backtrack \<Rightarrow> Parsed [] s
      | Cut \<Rightarrow> Cut)"
  by pat_completeness auto
termination by (relation "measure (\<lambda>(p, s). length s)") auto

declare repeat0.simps [simp del]

text \<open>\<open>Parser::parse\<close>: the whole input.  \<open>None\<close> is the error.\<close>

definition parse_all :: "'a parser \<Rightarrow> rstring \<Rightarrow> 'a option" where
  "parse_all p s = (case p s of Parsed x [] \<Rightarrow> Some x | _ \<Rightarrow> None)"

lemmas parser_defs [parser_simps] =
  pbind_def pmap_def pair_def alt_def opt_def try_map_def ptake_def pchar_def

section \<open>Laws\<close>

lemma parse_all_iff: "parse_all p s = Some x \<longleftrightarrow> p s = Parsed x []"
  by (auto simp: parse_all_def split: presult.splits list.splits)

lemma strip_prefix_append [simp]: "strip_prefix l (l @ r) = Some r"
  by (simp add: strip_prefix_def)

lemma parser_Parsed [simp]:
  "pbind p f s = Parsed y r \<longleftrightarrow> (\<exists>x t. p s = Parsed x t \<and> f x t = Parsed y r)"
  "pmap g p s = Parsed z r \<longleftrightarrow> (\<exists>x. p s = Parsed x r \<and> z = g x)"
  "opt p s = Parsed o' r \<longleftrightarrow>
     (\<exists>x. p s = Parsed x r \<and> o' = Some x) \<or> p s = Backtrack \<and> o' = None \<and> r = s"
  "alt p q s = Parsed x r \<longleftrightarrow> p s = Parsed x r \<or> p s = Backtrack \<and> q s = Parsed x r"
  "try_map h p s = Parsed w r \<longleftrightarrow> (\<exists>x. p s = Parsed x r \<and> h x = Some w)"
  "ptake p s = Parsed t r \<longleftrightarrow> (\<exists>x. p s = Parsed x r) \<and> t = take (length s - length r) s"
  "pchar c s = Parsed d r \<longleftrightarrow> d = c \<and> s = c # r"
  "literal l s = Parsed m r \<longleftrightarrow> m = l \<and> s = l @ r"
  by (auto simp: parser_simps literal_def strip_prefix_Some_iff split: presult.splits option.splits list.splits)

lemma pair_Parsed [simp]:
  "pair p q s = Parsed xy r \<longleftrightarrow> (\<exists>t. p s = Parsed (fst xy) t \<and> q t = Parsed (snd xy) r)"
  by (cases xy) (auto simp: pair_def)

lemma take_while1_Parsed:
  "take_while1 P s = Parsed w r \<longleftrightarrow>
     s = w @ r \<and> w \<noteq> [] \<and> list_all P w \<and> (r \<noteq> [] \<longrightarrow> \<not> P (hd r))"
proof
  assume "take_while1 P s = Parsed w r"
  then show "s = w @ r \<and> w \<noteq> [] \<and> list_all P w \<and> (r \<noteq> [] \<longrightarrow> \<not> P (hd r))"
    by (auto simp: take_while1_def list_all_iff hd_dropWhile dest: set_takeWhileD split: if_splits)
next
  assume r: "s = w @ r \<and> w \<noteq> [] \<and> list_all P w \<and> (r \<noteq> [] \<longrightarrow> \<not> P (hd r))"
  then have "takeWhile P s = w" "dropWhile P s = r"
    by (cases r; auto simp: list_all_iff takeWhile_append2 dropWhile_append2)+
  then show "take_while1 P s = Parsed w r" using r by (simp add: take_while1_def)
qed

lemma take_while1_Backtrack:
  "s = [] \<or> \<not> P (hd s) \<Longrightarrow> take_while1 P s = Backtrack"
  by (cases s) (auto simp: take_while1_def)

lemma take_while1_not_Cut [simp]: "take_while1 P s \<noteq> Cut"
  by (simp add: take_while1_def)

text \<open>A parser consumes a prefix of its input.\<close>

definition splits :: "'a parser \<Rightarrow> bool" where
  "splits p \<longleftrightarrow> (\<forall>s x r. p s = Parsed x r \<longrightarrow> suffix r s)"

definition consuming :: "'a parser \<Rightarrow> bool" where
  "consuming p \<longleftrightarrow> (\<forall>s x r. p s = Parsed x r \<longrightarrow> strict_suffix r s)"

lemma splitsD: "splits p \<Longrightarrow> p s = Parsed x r \<Longrightarrow> suffix r s"
  by (simp add: splits_def)

lemma consumingD: "consuming p \<Longrightarrow> p s = Parsed x r \<Longrightarrow> strict_suffix r s"
  by (simp add: consuming_def)

lemma consuming_splits: "consuming p \<Longrightarrow> splits p"
  by (auto simp: consuming_def splits_def strict_suffix_def)

lemma strict_suffix_shorter: "strict_suffix r s \<Longrightarrow> length r < length s"
  by (auto simp: strict_suffix_def suffix_def)

lemma consuming_pchar [intro]: "consuming (pchar c)"
  by (auto simp: consuming_def strict_suffix_def suffix_def)

lemma splits_opt [intro]: "splits p \<Longrightarrow> splits (opt p)"
  by (auto simp: splits_def)

lemma consuming_alt [intro]: "consuming p \<Longrightarrow> consuming q \<Longrightarrow> consuming (alt p q)"
  by (auto simp: consuming_def)

lemma consuming_pmap [intro]: "consuming p \<Longrightarrow> consuming (pmap f p)"
  by (auto simp: consuming_def)

lemma consuming_pair [intro]: "consuming p \<Longrightarrow> splits q \<Longrightarrow> consuming (pair p q)"
  unfolding consuming_def splits_def
  by (simp add: strict_suffix_def) (metis suffix_order.order_trans suffix_order.antisym)

lemma splits_take_while1: "splits (take_while1 P)"
  by (auto simp: splits_def take_while1_Parsed suffix_def)

lemma splits_try_map [intro]: "splits p \<Longrightarrow> splits (try_map f p)"
  by (auto simp: splits_def)

text \<open>What a repetition consumed is a sequence of items, and the parser fails on the rest.\<close>

lemma repeat0_Parsed:
  assumes "consuming p"
  shows "repeat0 p s = Parsed xs r \<longleftrightarrow>
    (case xs of [] \<Rightarrow> p s = Backtrack \<and> r = s
     | x # ys \<Rightarrow> \<exists>t. p s = Parsed x t \<and> repeat0 p t = Parsed ys r)"
  using consumingD [OF assms, of s, THEN strict_suffix_shorter]
  by (subst repeat0.simps) (auto simp: pmap_def split: presult.splits list.splits)

lemma splits_repeat0 [intro]:
  assumes "consuming p" shows "splits (repeat0 p)"
  unfolding splits_def
proof (intro allI impI)
  fix s xs r
  assume "repeat0 p s = Parsed xs r"
  then show "suffix r s"
  proof (induction xs arbitrary: s)
    case Nil
    then show ?case by (simp add: repeat0_Parsed [OF assms])
  next
    case (Cons x xs)
    then obtain t where "p s = Parsed x t" "suffix r t" by (auto simp: repeat0_Parsed [OF assms])
    then show ?case using splitsD [OF consuming_splits [OF assms]] suffix_order.order_trans by blast
  qed
qed

lemma repeat0_total:
  assumes "consuming p" "\<And>s. p s \<noteq> Cut"
  shows "\<exists>xs r. repeat0 p s = Parsed xs r"
proof (induction s rule: length_induct)
  case (1 s)
  show ?case
  proof (cases "p s")
    case (Parsed x r)
    then have "length r < length s"
      by (rule strict_suffix_shorter [OF consumingD [OF assms(1)]])
    moreover obtain xs t where "repeat0 p r = Parsed xs t" using 1 \<open>length r < length s\<close> by blast
    ultimately show ?thesis using Parsed by (subst repeat0.simps) (simp add: pmap_def)
  next
    case Backtrack
    then show ?thesis by (subst repeat0.simps) simp
  qed (use assms(2) in simp)
qed

lemma splits_ptake [intro]: "splits p \<Longrightarrow> splits (ptake p)"
  by (auto simp: splits_def)

lemma ptake_split: "splits p \<Longrightarrow> ptake p s = Parsed w r \<Longrightarrow> s = w @ r"
  unfolding splits_def suffix_def by (auto dest!: spec [of _ s])

end
