(* ===== verification/Parse_Props.thy ===== *)
theory Parse_Props
  imports Parse
begin

text \<open>
  Properties of the parsers: the scanner of patch names against the validation of \<open>name.rs\<close>, and the
  round trips of locators and ranges through their text.
\<close>

section \<open>The scanner of patch names\<close>

text \<open>A character at which the scan stops, given what follows it.\<close>

definition stop_at :: "rchar \<Rightarrow> rstring \<Rightarrow> bool" where
  "stop_at c cs \<longleftrightarrow>
     c = c_backslash \<or> is_control c \<or> stop_char c \<or>
     c = c_dot \<and> (peek cs = Some c_dot \<or> peek cs = None) \<or> c = c_at \<and> peek cs = Some c_lbrace"

definition stops :: "rstring \<Rightarrow> bool" where
  "stops r \<longleftrightarrow> (case r of [] \<Rightarrow> True | c # cs \<Rightarrow> stop_at c cs \<and> c \<noteq> c_lbrace \<and> (c = c_dot \<longrightarrow> cs \<noteq> []))"

lemma name_scan_Suc:
  "name_scan (Suc i) (c # cs) = (if stop_at c cs then (False, Suc i) else name_scan (Suc (Suc i)) cs)"
  by (auto simp: stop_at_def name_scan.simps(2))

lemma name_scan_0:
  "name_scan 0 (c # cs) =
     (if c = c_backslash \<and> peek cs = Some c_dash then (True, snd (name_scan (Suc 0) cs))
      else if stop_at c cs \<or> c = c_dot then (False, 0)
      else name_scan (Suc 0) cs)"
  by (auto simp: stop_at_def name_scan.simps(2))

lemma stop_at_iff:
  "stop_at c cs \<longleftrightarrow>
     \<not> name_char c \<or> c = c_dot \<and> (peek cs = Some c_dot \<or> peek cs = None) \<or>
     c = c_at \<and> peek cs = Some c_lbrace"
  by (auto simp: stop_at_def name_char_def stop_char_def forbidden_char_def char_class_defs)

lemma stops_hd: "stops (c # cs) \<Longrightarrow> c \<noteq> c_lbrace \<and> stop_at c cs"
  by (simp add: stops_def)

text \<open>The scan consumes a piece without forbidden characters and pairs, and stops before a stop.\<close>

lemma name_scan_sound:
  "\<exists>w r. s = w @ r \<and> name_scan (Suc i) s = (False, Suc i + length w) \<and> list_all name_char w \<and>
     \<not> sublist [c_dot, c_dot] w \<and> \<not> sublist [c_at, c_lbrace] w \<and>
     (case r of [] \<Rightarrow> w \<noteq> [] \<longrightarrow> last w \<noteq> c_dot | c # cs \<Rightarrow> stop_at c cs)"
proof (induction s arbitrary: i)
  case Nil
  then show ?case by simp
next
  case (Cons c cs)
  show ?case
  proof (cases "stop_at c cs")
    case True
    then show ?thesis by (intro exI [of _ "[]"] exI [of _ "c # cs"]) (simp add: name_scan_Suc)
  next
    case False
    obtain w r where w: "cs = w @ r" "name_scan (Suc (Suc i)) cs = (False, Suc (Suc i) + length w)"
      "list_all name_char w" "\<not> sublist [c_dot, c_dot] w" "\<not> sublist [c_at, c_lbrace] w"
      "case r of [] \<Rightarrow> w \<noteq> [] \<longrightarrow> last w \<noteq> c_dot | c # cs \<Rightarrow> stop_at c cs"
      using Cons [of "Suc i"] by blast
    have "name_char c" using False by (simp add: stop_at_iff)
    moreover have "\<not> sublist [c_dot, c_dot] (c # w)" "\<not> sublist [c_at, c_lbrace] (c # w)"
      using w(1,4,5) False by (auto simp: sublist2_Cons stop_at_iff peek_def)
    moreover have "case r of [] \<Rightarrow> last (c # w) \<noteq> c_dot | c # cs \<Rightarrow> stop_at c cs"
      using w(1,6) False by (auto simp: stop_at_iff peek_def split: list.splits)
    ultimately show ?thesis using w(1,2,3) False
      by (intro exI [of _ "c # w"] exI [of _ r])
        (auto simp: name_scan_Suc split: list.splits)
  qed
qed

lemma name_scan_skip:
  assumes "validate_chars w = None" "w = [] \<or> last w \<noteq> c_at \<or> peek r \<noteq> Some c_lbrace"
  shows "name_scan (Suc i) (w @ r) = name_scan (Suc i + length w) r"
  using assms
proof (induction w arbitrary: i)
  case (Cons c w)
  have c: "name_char c" "validate_chars w = None"
    "c = c_dot \<Longrightarrow> peek w \<noteq> Some c_dot \<and> peek w \<noteq> None" "\<not> (c = c_at \<and> peek w = Some c_lbrace)"
    using Cons.prems(1) unfolding validate_chars_None_iff
    by (auto simp: sublist2_Cons peek_iff)
  then have "\<not> stop_at c (w @ r)"
    using Cons.prems(2) by (cases w) (auto simp: stop_at_iff peek_def)
  moreover have "name_scan (Suc (Suc i)) (w @ r) = name_scan (Suc (Suc i) + length w) r"
    using Cons.IH c(2) Cons.prems(2) by (cases w) auto
  ultimately show ?case by (simp add: name_scan_Suc)
qed simp

lemma stops_peek: "stops r \<Longrightarrow> peek r \<noteq> Some c_lbrace"
  by (auto simp: stops_def peek_iff)

lemma name_scan_stops:
  assumes "validate_chars w = None" "stops r"
  shows "name_scan (Suc i) (w @ r) = (False, Suc i + length w)"
  using name_scan_skip [OF assms(1), of r i] stops_peek [OF assms(2)] assms(2)
  by (cases r) (auto simp: name_scan_Suc stops_def)

lemma name_scan_0_skip:
  assumes "validate_chars n = None" "n \<noteq> []" "hd n \<noteq> c_dot" "last n \<noteq> c_at \<or> peek r \<noteq> Some c_lbrace"
  shows "name_scan 0 (n @ r) = name_scan (length n) r"
proof -
  obtain c w where n: "n = c # w" using assms(2) by (cases n) auto
  then have w: "validate_chars w = None" "name_char c"
    using assms(1) unfolding validate_chars_None_iff by (auto simp: sublist2_Cons split: if_splits)
  have "\<not> stop_at c (w @ r)"
    using name_scan_skip [OF assms(1), of r 0] assms(1,3,4) n unfolding validate_chars_None_iff
    by (cases w) (auto simp: stop_at_iff peek_def sublist2_Cons)
  moreover have "c \<noteq> c_backslash" using w(2) by (auto simp: name_char_def forbidden_char_def)
  moreover have "name_scan (Suc 0) (w @ r) = name_scan (length n) r"
    using name_scan_skip [OF w(1), of r 0] assms(4) n by (cases w) auto
  ultimately show ?thesis using n assms(3) by (simp add: name_scan_0)
qed

lemma name_scan_0_stops:
  assumes "validate_chars n = None" "n \<noteq> []" "hd n \<noteq> c_dot" "stops r"
  shows "name_scan 0 (n @ r) = (False, length n)"
  using name_scan_0_skip [OF assms(1,2,3), of r] stops_peek [OF assms(4)] assms(2,4)
  by (cases n; cases r) (auto simp: name_scan_Suc stops_def)

text \<open>What the parser makes of the scanned piece \<open>w\<close> when \<open>r\<close> follows it.\<close>

definition name_result :: "rstring \<Rightarrow> rstring \<Rightarrow> patch_name presult" where
  "name_result w r =
     (let name = (if w \<noteq> [] \<and> last w = c_dot then butlast w else w)
      in if name = [] then Backtrack
         else if ends_with name dot_lock then Cut
         else if name = at_name \<or> name = base_name then Backtrack
         else Parsed (PatchName name) (if w \<noteq> [] \<and> last w = c_dot then c_dot # r else r))"

lemma ends_with_dot: "ends_with w [c_dot] \<longleftrightarrow> w \<noteq> [] \<and> last w = c_dot"
  by (cases w rule: rev_cases) (auto simp: ends_with_iff)

lemma parse_patch_name_result:
  assumes "name_scan 0 s = (e, k)" "(if e then drop 1 s else s) = w @ r"
    "k = (if e then Suc (length w) else length w)"
  shows "parse_patch_name s = name_result w r"
proof -
  have "parse_patch_name s =
     (let split = (if w \<noteq> [] \<and> last w = c_dot then length w - 1 else length w);
          name = take split (w @ r)
      in if name = [] then Backtrack
         else if ends_with name dot_lock then Cut
         else if name = at_name \<or> name = base_name then Backtrack
         else Parsed (PatchName name) (drop split (w @ r)))"
    using assms by (cases e) (simp_all add: parse_patch_name_def ends_with_dot)
  moreover have "take (length w - 1) (w @ r) = butlast w" by (simp add: butlast_conv_take)
  moreover have "drop (length w - 1) (w @ r) = c_dot # r" if "w \<noteq> [] \<and> last w = c_dot"
    using that by (cases w rule: rev_cases) auto
  moreover have "take (length w) (w @ r) = w" "drop (length w) (w @ r) = r" by simp_all
  ultimately show ?thesis
    unfolding name_result_def Let_def
    by (cases "w \<noteq> [] \<and> last w = c_dot") (simp_all only: if_True if_False simp_thms)
qed

lemma name_result_sound:
  assumes "name_result w r = Parsed pn t"
    "list_all name_char w" "\<not> sublist [c_dot, c_dot] w" "\<not> sublist [c_at, c_lbrace] w"
    "w \<noteq> [] \<longrightarrow> hd w \<noteq> c_dot"
  shows "valid (pn_str pn) \<and> w @ r = pn_str pn @ t \<and> (t = r \<or> hd t = c_dot)"
proof (cases "w \<noteq> [] \<and> last w = c_dot")
  case True
  then obtain n where w: "w = n @ [c_dot]" by (metis append_butlast_last_id)
  have n: "pn = PatchName n" "t = c_dot # r" "n \<noteq> []" "\<not> ends_with n dot_lock" "n \<noteq> at_name" "n \<noteq> base_name"
    using assms(1) w by (auto simp: name_result_def Let_def split: if_splits)
  moreover have "list_all name_char n" "hd n \<noteq> c_dot" using assms(2,5) w n(3) by auto
  moreover have "\<not> sublist [c_dot, c_dot] n" "\<not> sublist [c_at, c_lbrace] n" "last n \<noteq> c_dot"
    using assms(3,4) n(3) unfolding w sublist2_append by auto
  ultimately show ?thesis using w by (simp add: valid_iff)
next
  case False
  then show ?thesis using assms by (auto simp: name_result_def Let_def valid_iff split: if_splits)
qed

lemma parse_name_sound:
  assumes "parse_patch_name s = Parsed pn t"
  shows "valid (pn_str pn) \<and>
    (s = pn_str pn @ t \<or> s = c_backslash # pn_str pn @ t \<and> hd (pn_str pn) = c_dash) \<and>
    (t = [] \<or> hd t = c_dot \<or> stop_at (hd t) (tl t))"
proof (cases s)
  case Nil
  then show ?thesis using assms by (simp add: parse_patch_name_def)
next
  case (Cons c cs)
  obtain w r where w: "cs = w @ r" "name_scan (Suc 0) cs = (False, Suc 0 + length w)"
    "list_all name_char w" "\<not> sublist [c_dot, c_dot] w" "\<not> sublist [c_at, c_lbrace] w"
    "case r of [] \<Rightarrow> w \<noteq> [] \<longrightarrow> last w \<noteq> c_dot | c # cs \<Rightarrow> stop_at c cs"
    using name_scan_sound [of cs 0] by blast
  have r: "t = r \<Longrightarrow> t = [] \<or> stop_at (hd t) (tl t)" using w(6) by (cases r) auto
  consider (esc) "c = c_backslash" "peek cs = Some c_dash"
    | (stop) "name_scan 0 s = (False, 0)"
    | (name) "\<not> stop_at c cs" "c \<noteq> c_dot" "name_scan 0 s = (False, Suc (length w))"
    using w(2) Cons
    by (cases "stop_at c cs \<or> c = c_dot"; cases "c = c_backslash \<and> peek cs = Some c_dash")
      (auto simp: name_scan_0)
  then show ?thesis
  proof cases
    case esc
    then have "name_scan 0 s = (True, Suc (length w))" using w(2) Cons by (simp add: name_scan_0)
    then have "parse_patch_name s = name_result w r"
      by (rule parse_patch_name_result) (use Cons w(1) in simp_all)
    moreover have "w \<noteq> [] \<longrightarrow> hd w = c_dash" using esc(2) w(1) by (cases w) (auto simp: peek_iff)
    ultimately have "valid (pn_str pn) \<and> w @ r = pn_str pn @ t \<and> w \<noteq> [] \<and> hd w = c_dash \<and>
        (t = r \<or> hd t = c_dot)"
      using name_result_sound [of w r pn t] assms w(3-5) by (auto simp: name_result_def)
    then have "hd (pn_str pn) = c_dash" by (metis hd_append2 valid_iff)
    then show ?thesis using esc(1) Cons w(1) \<open>valid (pn_str pn) \<and> _\<close> r by auto
  next
    case stop
    then show ?thesis using assms by (simp add: parse_patch_name_def ends_with_def)
  next
    case name
    then have "parse_patch_name s = name_result (c # w) r"
      by (intro parse_patch_name_result) (use Cons w(1) in simp_all)
    moreover have "\<not> sublist [c_dot, c_dot] (c # w)" "\<not> sublist [c_at, c_lbrace] (c # w)" "name_char c"
      using w(1,4,5) name(1,2) by (auto simp: sublist2_Cons stop_at_iff peek_def)
    ultimately show ?thesis
      using name_result_sound [of "c # w" r pn t] assms w(1,3) name(2) Cons r by auto
  qed
qed

text \<open>A valid name is parsed whole, up to a place where the scan stops.\<close>

lemma parse_name_stops:
  assumes "valid n" "stops r"
  shows "parse_patch_name (n @ r) = Parsed (PatchName n) r"
    and "hd n = c_dash \<Longrightarrow> parse_patch_name (c_backslash # n @ r) = Parsed (PatchName n) r"
proof -
  have v: "validate_chars n = None" "n \<noteq> []" "hd n \<noteq> c_dot" "last n \<noteq> c_dot"
    using assms(1) by (auto simp: valid_iff validate_chars_None_iff)
  have res: "name_result n r = Parsed (PatchName n) r"
    using assms(1) v by (auto simp: name_result_def valid_iff)
  then show "parse_patch_name (n @ r) = Parsed (PatchName n) r"
    using name_scan_0_stops [OF v(1-3) assms(2)]
    by (subst parse_patch_name_result [of _ False "length n" n r]) auto
  show "parse_patch_name (c_backslash # n @ r) = Parsed (PatchName n) r" if "hd n = c_dash"
  proof -
    have "name_scan 0 (c_backslash # n @ r) = (True, Suc (length n))"
      using name_scan_stops [OF v(1) assms(2), of 0] that v(2)
      by (cases n) (simp_all add: name_scan_0 peek_def)
    then show ?thesis
      by (subst parse_patch_name_result [of _ True "Suc (length n)" n r]) (auto simp: res)
  qed
qed

lemma from_str_iff_parser: "from_str s = Ok pn \<longleftrightarrow> parse_patch_name s = Parsed pn []"
proof
  assume "from_str s = Ok pn"
  then have "valid (pn_str pn)"
    "s = pn_str pn \<or> s = c_backslash # pn_str pn \<and> hd (pn_str pn) = c_dash"
    by (auto simp: from_str_def Let_def valid_def starts_with_iff split: if_splits)
  then show "parse_patch_name s = Parsed pn []"
    using parse_name_stops [of "pn_str pn" "[]"] by (auto simp: stops_def)
next
  assume "parse_patch_name s = Parsed pn []"
  then have v: "valid (pn_str pn)"
    "s = pn_str pn \<or> s = c_backslash # pn_str pn \<and> hd (pn_str pn) = c_dash"
    using parse_name_sound [of s pn "[]"] by auto
  then have "from_str (c_backslash # pn_str pn) = Ok pn" if "hd (pn_str pn) = c_dash"
    using that by (cases "pn_str pn"; cases pn) (auto simp: from_str_def starts_with_def valid_def validate_def)
  then show "from_str s = Ok pn" using v from_str_valid [OF v(1)] by auto
qed

section \<open>Offsets\<close>

definition ends :: "rstring \<Rightarrow> bool" where
  "ends t \<longleftrightarrow> t = [] \<or> (\<exists>u. t = c_dot # c_dot # u)"

lemma unsigned_int_Parsed:
  "unsigned_int s = Parsed n r \<longleftrightarrow>
     (\<exists>w. s = w @ r \<and> w \<noteq> [] \<and> list_all is_ascii_digit w \<and> (r \<noteq> [] \<longrightarrow> \<not> is_ascii_digit (hd r)) \<and>
       (\<exists>i. parse_isize w = Some i \<and> n = nat i))"
  by (auto simp: unsigned_int_def digit1_def take_while1_Parsed)

lemma unsigned_int_Backtrack: "s = [] \<or> \<not> is_ascii_digit (hd s) \<Longrightarrow> unsigned_int s = Backtrack"
  by (simp add: unsigned_int_def digit1_def try_map_def take_while1_Backtrack)

lemma unsigned_int_not_Cut [simp]: "unsigned_int s \<noteq> Cut"
  by (auto simp: unsigned_int_def digit1_def try_map_def take_while1_def split: option.splits)

lemma splits_unsigned_int: "splits unsigned_int"
  by (auto simp: unsigned_int_def digit1_def intro: splits_take_while1)

text \<open>Both kinds of atom: a sign, then perhaps a number.\<close>

lemma pair_pchar_Backtrack: "s = [] \<or> hd s \<noteq> c \<Longrightarrow> pair (pchar c) q s = Backtrack"
  by (cases s) (auto simp: pair_def pbind_def pchar_def)

lemma patch_offset_atom_Parsed:
  "patch_offset_atom s = Parsed a r \<longleftrightarrow>
     (\<exists>u n. opt unsigned_int u = Parsed n r \<and>
       (s = c_plus # u \<and> a = OffsetPlus n \<or> s = c_tilde # u \<and> a = OffsetTilde n))"
proof -
  have "patch_offset_atom_plus s = Parsed a r \<longleftrightarrow>
      (\<exists>u n. s = c_plus # u \<and> opt unsigned_int u = Parsed n r \<and> a = OffsetPlus n)"
    unfolding patch_offset_atom_plus_def by force
  moreover have "patch_offset_atom_tilde s = Parsed a r \<longleftrightarrow>
      (\<exists>u n. s = c_tilde # u \<and> opt unsigned_int u = Parsed n r \<and> a = OffsetTilde n)"
    unfolding patch_offset_atom_tilde_def by force
  moreover have "patch_offset_atom_plus s = Backtrack" if "s = c_tilde # u" for u
    using that by (simp add: patch_offset_atom_plus_def pmap_def pair_pchar_Backtrack)
  ultimately show ?thesis unfolding patch_offset_atom_def by (auto simp del: parser_Parsed(3))
qed

lemma consuming_atom [intro]: "consuming patch_offset_atom"
  unfolding patch_offset_atom_def patch_offset_atom_plus_def patch_offset_atom_tilde_def
  using splits_unsigned_int by blast

lemma patch_offset_atom_not_Cut [simp]: "patch_offset_atom s \<noteq> Cut"
  by (auto simp: patch_offset_atom_def patch_offset_atom_plus_def patch_offset_atom_tilde_def
      pmap_def pair_def pbind_def pchar_def alt_def opt_def split: presult.splits list.splits)

lemmas repeat_atom = repeat0_Parsed [OF consuming_atom]

lemma patch_offsets_total: "\<exists>os r. parse_patch_offsets s = Parsed os r"
  using repeat0_total [of patch_offset_atom s] consuming_atom
  by (auto simp: parse_patch_offsets_def)

lemma parse_patch_offsets_Parsed:
  "parse_patch_offsets s = Parsed os r \<longleftrightarrow>
     s = po_str os @ r \<and> (\<exists>xs. repeat0 patch_offset_atom s = Parsed xs r)"
  using ptake_split [OF splits_repeat0 [OF consuming_atom]]
  by (cases os) (auto simp: parse_patch_offsets_def)

lemma not_digit [simp]:
  "\<not> is_ascii_digit c_dot" "\<not> is_ascii_digit c_plus" "\<not> is_ascii_digit c_tilde"
  by (simp_all add: is_ascii_digit_def)

text \<open>What follows an offset that was parsed: another offset, or the end.\<close>

definition next_ok :: "rstring \<Rightarrow> bool" where
  "next_ok t \<longleftrightarrow> ends t \<or> hd t = c_plus \<or> hd t = c_tilde"

lemma next_ok_digit: "next_ok t \<Longrightarrow> t = [] \<or> \<not> is_ascii_digit (hd t)"
  by (auto simp: next_ok_def ends_def)

lemma unsigned_int_again:
  assumes "unsigned_int (w @ t) = Parsed n t" "next_ok t'"
  shows "unsigned_int (w @ t') = Parsed n t'"
  using assms next_ok_digit [of t'] unfolding unsigned_int_Parsed by auto

lemma opt_unsigned_again:
  assumes "opt unsigned_int (w @ t) = Parsed n t" "next_ok t'"
  shows "opt unsigned_int (w @ t') = Parsed n t'"
  using assms unsigned_int_again [of w t _ t'] unsigned_int_Backtrack [of t'] next_ok_digit [of t']
  by (auto simp: opt_def split: presult.splits)

lemma opt_unsigned_split: "opt unsigned_int s = Parsed n r \<Longrightarrow> \<exists>w. s = w @ r"
  using splitsD [OF splits_opt [OF splits_unsigned_int]] by (auto simp: suffix_def)

lemma atoms_again:
  assumes "repeat0 patch_offset_atom s = Parsed xs t" "ends t'"
  shows "\<exists>w. s = w @ t \<and> next_ok (w @ t') \<and> repeat0 patch_offset_atom (w @ t') = Parsed xs t'"
  using assms(1)
proof (induction xs arbitrary: s)
  case Nil
  have "patch_offset_atom t' = Backtrack"
    using assms(2) patch_offset_atom_not_Cut [of t']
    by (cases "patch_offset_atom t'") (auto simp: ends_def patch_offset_atom_Parsed)
  then show ?case using Nil assms(2) by (simp add: repeat_atom next_ok_def)
next
  case (Cons x xs)
  then obtain u where u: "patch_offset_atom s = Parsed x u" "repeat0 patch_offset_atom u = Parsed xs t"
    by (auto simp: repeat_atom)
  then obtain w where w: "u = w @ t" "next_ok (w @ t')" "repeat0 patch_offset_atom (w @ t') = Parsed xs t'"
    using Cons.IH by blast
  obtain v n where v: "opt unsigned_int v = Parsed n u"
    "s = c_plus # v \<and> x = OffsetPlus n \<or> s = c_tilde # v \<and> x = OffsetTilde n"
    using u(1) unfolding patch_offset_atom_Parsed by blast
  obtain d where d: "v = d @ u" using opt_unsigned_split [OF v(1)] by blast
  have "opt unsigned_int (d @ w @ t') = Parsed n (w @ t')"
    using opt_unsigned_again [OF v(1) [unfolded d] w(2)] .
  then have "patch_offset_atom (hd s # d @ w @ t') = Parsed x (w @ t')"
    using v(2) unfolding patch_offset_atom_Parsed by auto
  then show ?case using v(2) d w
    by (intro exI [of _ "hd s # d @ w"]) (auto simp: repeat_atom next_ok_def)
qed

lemma offsets_again:
  assumes "parse_patch_offsets s = Parsed os t" "ends t'"
  shows "s = po_str os @ t" "next_ok (po_str os @ t')" "parse_patch_offsets (po_str os @ t') = Parsed os t'"
proof -
  obtain xs where x: "s = po_str os @ t" "repeat0 patch_offset_atom s = Parsed xs t"
    using assms(1) unfolding parse_patch_offsets_Parsed by blast
  obtain w where w: "s = w @ t" "next_ok (w @ t')" "repeat0 patch_offset_atom (w @ t') = Parsed xs t'"
    using atoms_again [OF x(2) assms(2)] by blast
  then have "w = po_str os" using x(1) by simp
  then show "s = po_str os @ t" "next_ok (po_str os @ t')" "parse_patch_offsets (po_str os @ t') = Parsed os t'"
    using x w by (auto simp: parse_patch_offsets_Parsed)
qed

section \<open>Locators\<close>

lemma ends_stops: "ends t \<Longrightarrow> stops t"
  by (auto simp: ends_def stops_def stop_at_def peek_def)

lemma next_ok_stops: "next_ok t \<Longrightarrow> t = [] \<or> hd t \<noteq> c_plus \<Longrightarrow> stops t"
  by (cases t) (auto simp: next_ok_def ends_stops, auto simp: stops_def stop_at_def stop_char_def)

lemma stop_at_not_plus: "\<not> stop_at c_plus r"
  by (simp add: stop_at_def stop_char_def is_control_def)

lemma name_locator_again:
  assumes "patch_locator_name s = Parsed l t" "ends t'"
  shows "patch_locator_name (show_locator l @ t') = Parsed l t'"
proof -
  obtain pn u where p: "parse_patch_name s = Parsed pn u" "parse_patch_offsets u = Parsed (pl_offsets l) t"
    "pl_id l = PI_Name pn" "l = mk_locator (PI_Name pn) (pl_offsets l)"
    using assms(1) by (auto simp: patch_locator_name_def mk_locator_def)
  note os = offsets_again [OF p(2) assms(2)]
  have v: "valid (pn_str pn)" "u = [] \<or> hd u = c_dot \<or> stop_at (hd u) (tl u)"
    using parse_name_sound [OF p(1)] by auto
  have "po_str (pl_offsets l) @ t' = [] \<or> hd (po_str (pl_offsets l) @ t') \<noteq> c_plus"
    using os(1,2) v(2) assms(2) stop_at_not_plus
    by (cases "po_str (pl_offsets l)") (auto simp: ends_def)
  then have "parse_patch_name (pn_str pn @ po_str (pl_offsets l) @ t') = Parsed pn (po_str (pl_offsets l) @ t')"
    using parse_name_stops(1) [OF v(1)] next_ok_stops [OF os(2)] by simp
  then show ?thesis using os(3) p(3,4) by (auto simp: patch_locator_name_def show_locator_def)
qed

text \<open>A printed number is read back.\<close>

lemma parse_isize_range: "parse_isize w = Some i \<Longrightarrow> isize_ok i"
  by (auto simp: parse_isize_def isize_ok_def Let_def split: list.splits option.splits if_splits)

lemma unsigned_int_show:
  assumes "unsigned_int s = Parsed n r" "next_ok t"
  shows "unsigned_int (show_nat n @ t) = Parsed n t"
proof -
  obtain w i where i: "list_all is_ascii_digit w" "w \<noteq> []" "parse_isize w = Some i" "n = nat i"
    using assms(1) unfolding unsigned_int_Parsed by blast
  then have "isize_ok i" "0 \<le> i"
    by (auto intro: parse_isize_range)
      (cases w, auto simp: parse_isize_def is_ascii_digit_def Let_def split: option.splits if_splits)
  then have "parse_isize (show_nat n) = Some i"
    using parse_isize_show_int [of i] i(4) by (simp add: show_int_def)
  then show ?thesis using i(4) next_ok_digit [OF assms(2)] show_nat_digits [of n]
    unfolding unsigned_int_Parsed by auto
qed

lemma nonplussed_int_show:
  assumes "nonplussed_int s = Parsed i r" "next_ok t"
  shows "nonplussed_int (show_int i @ t) = Parsed i t"
proof -
  have ok: "isize_ok i" using assms(1) by (auto simp: nonplussed_int_def intro: parse_isize_range)
  let ?d = "show_nat (nat \<bar>i\<bar>)"
  have d: "digit1 (?d @ t) = Parsed ?d t"
    using next_ok_digit [OF assms(2)] show_nat_digits [of "nat \<bar>i\<bar>"]
    by (auto simp: digit1_def take_while1_Parsed)
  have "ptake (pair (opt (pchar c_dash)) digit1) (show_int i @ t) = Parsed (show_int i) t"
  proof (cases "i < 0")
    case True
    then show ?thesis using d by (auto simp: show_int_def ptake_def pair_def pbind_def opt_def pchar_def pmap_def)
  next
    case False
    obtain c u where c: "?d = c # u" "c \<noteq> c_dash"
      using show_nat_Cons [of "nat \<bar>i\<bar>"] digit_not_sign by metis
    then have "opt (pchar c_dash) (?d @ t) = Parsed None (?d @ t)" by (simp add: opt_def pchar_def)
    then show ?thesis using d False
      by (auto simp: show_int_def ptake_def pair_def pbind_def pmap_def opt_def)
  qed
  then show ?thesis using parse_isize_show_int [OF ok] by (simp add: nonplussed_int_def)
qed

lemma nonplussed_int_Backtrack: "next_ok t \<Longrightarrow> nonplussed_int t = Backtrack"
  using next_ok_digit [of t]
  by (cases t) (auto simp: nonplussed_int_def try_map_def ptake_def pair_def pbind_def pmap_def opt_def
      pchar_def digit1_def take_while1_Backtrack next_ok_def ends_def)

lemma from_last_again:
  assumes "patch_locator_from_last s = Parsed l t" "ends t'"
  shows "patch_locator_from_last (show_locator l @ t') = Parsed l t'" "hd (show_locator l) = c_caret"
    "show_locator l \<noteq> []"
proof -
  obtain u b v where p: "s = c_caret # u" "opt nonplussed_int u = Parsed b v"
    "parse_patch_offsets v = Parsed (pl_offsets l) t" "l = mk_locator (PI_BelowLast b) (pl_offsets l)"
    "pl_id l = PI_BelowLast b"
    using assms(1) by (auto simp: patch_locator_from_last_def mk_locator_def)
  note os = offsets_again [OF p(3) assms(2)]
  let ?t = "po_str (pl_offsets l) @ t'"
  have "opt nonplussed_int ((case b of Some n \<Rightarrow> show_int n | None \<Rightarrow> []) @ ?t) = Parsed b ?t"
    using p(2) nonplussed_int_show [OF _ os(2)] nonplussed_int_Backtrack [OF os(2)]
    by (cases b) auto
  moreover have "show_locator l = c_caret # (case b of Some n \<Rightarrow> show_int n | None \<Rightarrow> []) @ po_str (pl_offsets l)"
    using p(5) by (cases b) (simp_all add: show_locator_def)
  ultimately show "patch_locator_from_last (show_locator l @ t') = Parsed l t'"
    "hd (show_locator l) = c_caret" "show_locator l \<noteq> []"
    using os(3) p(4) by (auto simp: patch_locator_from_last_def)
qed

text \<open>The two forms of \<open>patch_locator_top\<close>.\<close>

lemma top_cases:
  assumes "patch_locator_top s = Parsed l t"
  obtains (at) u os where "s = c_at # u" "parse_patch_offsets u = Parsed os t" "l = mk_locator PI_Top os"
  | (tilde) u n v os where "s = c_tilde # u" "opt unsigned_int u = Parsed n v"
    "parse_patch_offsets v = Parsed os t" "l = mk_locator (PI_BelowTop n) os"
  using assms unfolding patch_locator_top_def by (auto simp del: parser_Parsed(3))

lemma below_top_again:
  assumes "opt unsigned_int u = Parsed n v" "parse_patch_offsets v = Parsed os t" "ends t'"
  shows "patch_locator_top (show_locator (mk_locator (PI_BelowTop n) os) @ t') =
    Parsed (mk_locator (PI_BelowTop n) os) t'"
    "hd (show_locator (mk_locator (PI_BelowTop n) os)) = c_tilde"
    "show_locator (mk_locator (PI_BelowTop n) os) \<noteq> []"
proof -
  note o = offsets_again [OF assms(2,3)]
  let ?t = "po_str os @ t'"
  have "opt unsigned_int ((case n of Some n \<Rightarrow> show_nat n | None \<Rightarrow> []) @ ?t) = Parsed n ?t"
    using assms(1) unsigned_int_show [OF _ o(2)] unsigned_int_Backtrack [OF next_ok_digit [OF o(2)]]
    by (cases n) auto
  moreover have "show_locator (mk_locator (PI_BelowTop n) os) =
      c_tilde # (case n of Some n \<Rightarrow> show_nat n | None \<Rightarrow> []) @ po_str os"
    by (cases n) (simp_all add: show_locator_def mk_locator_def)
  ultimately show "patch_locator_top (show_locator (mk_locator (PI_BelowTop n) os) @ t') =
    Parsed (mk_locator (PI_BelowTop n) os) t'"
    "hd (show_locator (mk_locator (PI_BelowTop n) os)) = c_tilde"
    "show_locator (mk_locator (PI_BelowTop n) os) \<noteq> []"
    using o(3)
    by (auto simp: patch_locator_top_def pmap_def pair_pchar_Backtrack alt_def opt_def pair_def pbind_def pchar_def)
qed

text \<open>The reserved names are not patch names, except when an offset with a plus follows.\<close>

lemma reserved_scan:
  assumes "n = at_name \<or> n = base_name"
  shows "validate_chars n = None" "n \<noteq> []" "hd n \<noteq> c_dot" "last n \<noteq> c_dot" "hd n \<noteq> c_backslash"
    "\<not> ends_with n dot_lock"
  using assms
  by (auto simp: at_name_def base_name_def str_def char_class_defs forbidden_char_def peek_def ends_with_def dot_lock_def)

lemma reserved_Backtrack:
  assumes "n = at_name \<or> n = base_name" "stops r"
  shows "parse_patch_name (n @ r) = Backtrack"
proof -
  note v = reserved_scan [OF assms(1)]
  have "name_scan 0 (n @ r) = (False, length n)"
    by (rule name_scan_0_stops [OF v(1-3) assms(2)])
  then have "parse_patch_name (n @ r) = name_result n r"
    by (rule parse_patch_name_result) simp_all
  then show ?thesis using assms(1) v(2,4,6) by (auto simp: name_result_def)
qed

lemma reserved_plus:
  assumes "n = at_name \<or> n = base_name"
  shows "parse_patch_name (n @ c_plus # r) \<noteq> Backtrack"
proof -
  note v = reserved_scan [OF assms(1)]
  let ?n = "n @ [c_plus]"
  have n: "validate_chars ?n = None" "hd ?n \<noteq> c_dot"
    using assms by (auto simp: at_name_def base_name_def str_def char_class_defs forbidden_char_def peek_def)
  have "name_scan 0 (?n @ r) = name_scan (length ?n) r"
    by (rule name_scan_0_skip) (use n in auto)
  moreover obtain w u where w: "r = w @ u" "name_scan (Suc (length n)) r = (False, Suc (length n) + length w)"
    using name_scan_sound [of r "length n"] by blast
  ultimately have "parse_patch_name (?n @ r) = name_result (?n @ w) u"
    by (intro parse_patch_name_result [of _ False "Suc (length n) + length w"]) auto
  moreover have "name_result (?n @ w) u \<noteq> Backtrack"
    using assms by (cases w rule: rev_cases)
      (auto simp: name_result_def Let_def butlast_append at_name_def base_name_def str_def split: if_splits)
  ultimately show ?thesis by simp
qed

lemma parse_name_stop_first: "s = [] \<or> hd s = c_dot \<or> hd s = c_caret \<or> hd s = c_tilde \<Longrightarrow> parse_patch_name s = Backtrack"
  by (cases s) (auto simp: parse_patch_name_def name_scan_0 stop_at_def stop_char_def ends_with_def)

lemma name_locator_Backtrack: "patch_locator_name s = Backtrack \<longleftrightarrow> parse_patch_name s = Backtrack"
proof (cases "parse_patch_name s")
  case (Parsed x r)
  then show ?thesis using patch_offsets_total [of r]
    by (auto simp: patch_locator_name_def pmap_def pair_def pbind_def)
qed (auto simp: patch_locator_name_def pmap_def pair_def pbind_def)

lemma from_last_Backtrack: "s = [] \<or> hd s \<noteq> c_caret \<Longrightarrow> patch_locator_from_last s = Backtrack"
  by (simp add: patch_locator_from_last_def pmap_def pair_pchar_Backtrack)

lemma top_Backtrack: "s = [] \<or> hd s \<noteq> c_at \<and> hd s \<noteq> c_tilde \<Longrightarrow> patch_locator_top s = Backtrack"
  by (auto simp: patch_locator_top_def pmap_def alt_def pair_pchar_Backtrack)

lemma base_Backtrack: "s = [] \<or> hd s \<noteq> c_lbrace \<Longrightarrow> patch_locator_base s = Backtrack"
  by (cases s) (auto simp: patch_locator_base_def pmap_def pair_def pbind_def literal_def strip_prefix_def
      base_name_def str_def)

text \<open>After a reserved name, offsets that start with a plus would belong to a patch name.\<close>

lemma reserved_again:
  assumes "n = at_name \<or> n = base_name" "parse_patch_name (n @ u) = Backtrack"
    "parse_patch_offsets u = Parsed os t" "ends t'"
  shows "parse_patch_name (n @ po_str os @ t') = Backtrack"
proof -
  note o = offsets_again [OF assms(3,4)]
  have "u = [] \<or> hd u \<noteq> c_plus" using reserved_plus [OF assms(1)] assms(2) by (cases u) auto
  then have "stops (po_str os @ t')"
    using o(1,2) assms(4) by (intro next_ok_stops) (auto simp: ends_def hd_append)
  then show ?thesis by (rule reserved_Backtrack [OF assms(1)])
qed

lemma locator_again:
  assumes "parse_patch_locator s = Parsed l t" "ends t'"
  shows "parse_patch_locator (show_locator l @ t') = Parsed l t'"
proof -
  consider (name) "patch_locator_name s = Parsed l t"
    | (last) "patch_locator_from_last s = Parsed l t"
    | (top) "parse_patch_name s = Backtrack" "patch_locator_top s = Parsed l t"
    | (base) "parse_patch_name s = Backtrack" "patch_locator_base s = Parsed l t"
    using assms(1) by (auto simp: parse_patch_locator_def name_locator_Backtrack)
  then show ?thesis
  proof cases
    case name
    then show ?thesis using name_locator_again assms(2) by (simp add: parse_patch_locator_def)
  next
    case last
    note a = from_last_again [OF last assms(2)]
    then show ?thesis
      by (simp add: parse_patch_locator_def name_locator_Backtrack parse_name_stop_first)
  next
    case top
    show ?thesis
      using top(2)
    proof (cases rule: top_cases)
      case (at u os)
      have "parse_patch_name (at_name @ po_str os @ t') = Backtrack"
        by (rule reserved_again) (use top(1) at assms(2) in \<open>auto simp: at_name_def str_def\<close>)
      then show ?thesis using at(3) offsets_again(3) [OF at(2) assms(2)]
        by (auto simp: parse_patch_locator_def name_locator_Backtrack from_last_Backtrack
            patch_locator_top_def show_locator_def mk_locator_def at_name_def str_def)
    next
      case (tilde u n v os)
      note a = below_top_again [OF tilde(2,3) assms(2)]
      then show ?thesis using tilde(4)
        by (simp add: parse_patch_locator_def name_locator_Backtrack parse_name_stop_first from_last_Backtrack)
    qed
  next
    case base
    then obtain u os where u: "s = base_name @ u" "parse_patch_offsets u = Parsed os t" "l = mk_locator PI_Base os"
      by (auto simp: patch_locator_base_def)
    have "parse_patch_name (base_name @ po_str os @ t') = Backtrack"
      by (rule reserved_again) (use base(1) u assms(2) in auto)
    then show ?thesis using u(3) offsets_again(3) [OF u(2) assms(2)]
      by (auto simp: parse_patch_locator_def name_locator_Backtrack from_last_Backtrack top_Backtrack
          patch_locator_base_def show_locator_def mk_locator_def)
        (simp_all add: base_name_def str_def from_last_Backtrack top_Backtrack)
  qed
qed

lemma locator_Backtrack: "s = [] \<or> hd s = c_dot \<Longrightarrow> parse_patch_locator s = Backtrack"
  by (auto simp: parse_patch_locator_def alt_def name_locator_Backtrack [THEN iffD2] parse_name_stop_first
      from_last_Backtrack top_Backtrack base_Backtrack)

section \<open>Ranges\<close>

lemma range_again:
  assumes "parse_patch_range s = Parsed rg []"
  shows "parse_patch_range (show_range rg) = Parsed rg []"
proof -
  have nil: "ends []" "\<And>u. ends (dotdot @ u)" by (auto simp: ends_def dotdot_def str_def)
  have none: "opt parse_patch_locator [] = Parsed None []"
    "\<And>u. opt parse_patch_locator (dotdot @ u) = Parsed None (dotdot @ u)"
    by (simp_all add: opt_def locator_Backtrack dotdot_def str_def)
  consider (bounds) b where "rg = PR_Range b" "patch_range_bounds s = Parsed b []"
    | (single) l where "rg = PR_Single l" "parse_patch_locator s = Parsed l []"
    using assms by (auto simp: parse_patch_range_def)
  then show ?thesis
  proof cases
    case single
    have "parse_patch_locator (show_locator l) = Parsed l []"
      using locator_again [OF single(2) nil(1)] by simp
    then have "patch_range_bounds (show_locator l) = Backtrack"
      by (simp add: patch_range_bounds_def pmap_def pair_def pbind_def opt_def literal_def
          strip_prefix_def dotdot_def str_def)
    then show ?thesis using single(1) \<open>parse_patch_locator (show_locator l) = Parsed l []\<close>
      by (simp add: parse_patch_range_def) (simp add: pmap_def)
  next
    case bounds
    obtain x y u where b: "opt parse_patch_locator s = Parsed x (dotdot @ u)"
      "opt parse_patch_locator u = Parsed y []" "b = \<lparr>rb_begin = x, rb_end = y\<rparr>"
      using bounds(2) by (auto simp: patch_range_bounds_def simp del: parser_Parsed(3))
    let ?y = "case y of None \<Rightarrow> [] | Some e \<Rightarrow> show_locator e"
    have "opt parse_patch_locator ?y = Parsed y []"
      using b(2) none(1) locator_again [of u _ "[]", OF _ nil(1)] by (cases y) auto
    moreover have "opt parse_patch_locator ((case x of None \<Rightarrow> [] | Some b \<Rightarrow> show_locator b) @ dotdot @ ?y) =
        Parsed x (dotdot @ ?y)"
      using b(1) none(2) locator_again [of s _ "dotdot @ u", OF _ nil(2)] by (cases x) auto
    ultimately have "patch_range_bounds (show_bounds b) = Parsed b []"
      using b(3) unfolding patch_range_bounds_def
      by (cases x; cases y) (auto simp: show_bounds_def simp del: parser_Parsed(3))
    then show ?thesis using bounds(1) by (simp add: parse_patch_range_def)
  qed
qed

section \<open>Properties\<close>

text \<open>
  The two hand-written scanners of patch names agree: the parser used for locators and ranges
  consumes a whole string as a patch name exactly when \<open>PatchName::from_str\<close> accepts it, with the same
  name (after removing the escape of a leading dash).
\<close>

theorem parse_name_agrees: "parse_all parse_patch_name s = Some pn \<longleftrightarrow> from_str s = Ok pn"
  by (simp add: from_str_iff_parser parse_all_iff)

end
