(* ===== verification/Locator.thy ===== *)
theory Locator
  imports Parse_Props Stack_State
begin

text \<open>
  Resolving patch locators in a stack: \<open>src/patch/locator.rs\<close>.

  A locator is first disambiguated (a valid patch name may also be an index, an offset or a commit id),
  then turned into an index of the stack, then moved by its offsets.  \<open>locator_env\<close> has what the code
  takes from other crates: prefixes of commit ids, the similarity of names, the walk over the ancestors
  of a commit; and whether the build checks arithmetic for overflow.
\<close>

section \<open>Types\<close>

record 'p locator_env =
  le_checks :: bool
  le_from_hex :: "rstring \<Rightarrow> 'p option"
  le_matches :: "'p \<Rightarrow> oid \<Rightarrow> bool"
  le_show_prefix :: "'p \<Rightarrow> rstring"
  le_similar :: "rstring \<Rightarrow> rstring \<Rightarrow> bool"
  le_hex :: "oid \<Rightarrow> rstring"
  le_ancestors :: "oid \<Rightarrow> rstring + oid option list"
  le_object :: "oid \<Rightarrow> commit option option"

text \<open>
  \<open>le_matches\<close> is \<open>Prefix::cmp_oid\<close> giving \<open>Equal\<close>, \<open>le_similar\<close> is \<open>strsim::jaro_winkler\<close> above 0.75.
  \<open>le_ancestors\<close> lists the first parents of a commit from the commit itself on, with \<open>None\<close> for an item
  that could not be read; \<open>le_object\<close> looks up an object and says whether it is a commit.
\<close>

datatype 'p locator_error =
  InvalidPatchLocator rstring
| PatchSimilar patch_name rstring
| PatchNotKnown patch_name
| InvalidPatchIndex nat
| InvalidPatchOffset rstring patch_offsets
| InvalidOffsetFrom rstring
| BaseNeedsOffset
| BaseNeedsPositiveOffset
| NoLastPatch
| AmbiguousCommitId 'p rstring
| Ancestors rstring

datatype 'p disambiguated_id =
  DI_Name patch_name | DI_CommitId 'p | DI_Top | DI_Base | DI_Index nat
| DI_FromTop int | DI_FromBase int | DI_FromLast int

record stgit_revision =
  sr_patchname :: "patch_name option"
  sr_commit :: commit

definition locator_from_str :: "rstring \<Rightarrow> ('p locator_error, patch_locator) outcome" where
  "locator_from_str s =
     (case parse_all parse_patch_locator s of Some l \<Rightarrow> Ok l | None \<Rightarrow> Err (InvalidPatchLocator s))"

definition tick :: "rstring \<Rightarrow> rstring" where
  "tick s = str ''`'' @ s @ str ''`''"

primrec string_for_error :: "'p locator_env \<Rightarrow> 'p disambiguated_id \<Rightarrow> rstring" where
  "string_for_error env (DI_Name name) = tick (pn_str name)"
| "string_for_error env (DI_CommitId oid_prefix) = str ''commit id '' @ tick (le_show_prefix env oid_prefix)"
| "string_for_error env DI_Top = str ''topmost patch''"
| "string_for_error env DI_Base = str ''stack base''"
| "string_for_error env (DI_Index index) = str ''stack index '' @ tick (show_nat index)"
| "string_for_error env (DI_FromTop offset) = tick (show_int_signed offset) @ str '' from topmost patch''"
| "string_for_error env (DI_FromBase offset) = tick (show_int_signed offset) @ str '' from stack base''"
| "string_for_error env (DI_FromLast offset) =
     (if offset = 0 then str ''last patch'' else show_int_signed offset @ str '' from last patch'')"

section \<open>Names for messages\<close>

definition patchnames_string :: "patch_name list \<Rightarrow> rstring option" where
  "patchnames_string ps =
     (case ps of
        [] \<Rightarrow> None
      | [p] \<Rightarrow> Some (tick (pn_str p))
      | [p, q] \<Rightarrow> Some (tick (pn_str p) @ str '' and '' @ tick (pn_str q))
      | _ \<Rightarrow> Some (concat (map (\<lambda>p. tick (pn_str p) @ str '', '') (take (length ps - 1) ps)) @
                   str ''and '' @ tick (pn_str (last ps))))"

definition similar_patchnames :: "'p locator_env \<Rightarrow> patch_name \<Rightarrow> stack_view \<Rightarrow> rstring option" where
  "similar_patchnames env patchname v =
     patchnames_string (filter (\<lambda>pn. le_similar env (pn_str pn) (pn_str patchname)) (all_patches v))"

section \<open>Disambiguation\<close>

text \<open>The cast \<open>as isize\<close>.\<close>

definition as_isize :: "nat \<Rightarrow> int" where
  "as_isize n = wrap_isize (int n)"

text \<open>\<open>Iterator::max_by_key\<close> returns the last of the greatest elements.\<close>

definition max_by_key :: "('a \<Rightarrow> nat) \<Rightarrow> 'a list \<Rightarrow> 'a option" where
  "max_by_key key xs =
     foldl (\<lambda>m x. case m of None \<Rightarrow> Some x | Some y \<Rightarrow> if key y \<le> key x then Some x else Some y) None xs"

text \<open>\<open>Iterator::any\<close> and \<open>filter\<close> with a test that may panic.\<close>

primrec oany :: "('a \<Rightarrow> ('e, bool) outcome) \<Rightarrow> 'a list \<Rightarrow> ('e, bool) outcome" where
  "oany f [] = Ok False"
| "oany f (x # xs) = obind (f x) (\<lambda>b. if b then Ok True else oany f xs)"

primrec ofilter :: "('a \<Rightarrow> ('e, bool) outcome) \<Rightarrow> 'a list \<Rightarrow> ('e, 'a list) outcome" where
  "ofilter f [] = Ok []"
| "ofilter f (x # xs) = obind (f x) (\<lambda>b. obind (ofilter f xs) (\<lambda>ys. Ok (if b then x # ys else ys)))"

definition oid_matches :: "'p locator_env \<Rightarrow> stack_view \<Rightarrow> 'p \<Rightarrow> patch_name \<Rightarrow> ('e, bool) outcome" where
  "oid_matches env v oid_prefix pn =
     obind (get_patch_commit v pn) (\<lambda>c. Ok (le_matches env oid_prefix (c_id c)))"

definition prefix_matches :: "stack_view \<Rightarrow> rstring \<Rightarrow> (patch_name \<times> patch_offsets) list" where
  "prefix_matches v name =
     List.map_filter
       (\<lambda>pn. Option.bind (strip_prefix (pn_str pn) name)
               (\<lambda>s. map_option (Pair pn) (parse_all parse_patch_offsets s)))
       (all_patches v)"

definition below_top :: "bool \<Rightarrow> nat option \<Rightarrow> ('e, 'p disambiguated_id) outcome" where
  "below_top chk n =
     (case n of
        None \<Rightarrow> Ok (DI_FromTop (- 1))
      | Some n \<Rightarrow> obind (isize_arith chk (- as_isize n)) (\<lambda>i. Ok (DI_FromTop i)))"

definition signed_number ::
  "bool \<Rightarrow> stack_view \<Rightarrow> num_sign option \<Rightarrow> nat option \<Rightarrow> ('e, 'p disambiguated_id) outcome" where
  "signed_number chk v sg maybe_n =
     (case sg of
        Some sg \<Rightarrow>
          obind (expect (isize_checked (int (case maybe_n of Some n \<Rightarrow> n | None \<Rightarrow> 1)))) (\<lambda>n.
          obind (case sg of SignPlus \<Rightarrow> Ok n | SignMinus \<Rightarrow> expect (isize_checked (- n))) (\<lambda>n.
          Ok (if v_applied v = [] then DI_FromBase n else DI_FromTop n)))
      | None \<Rightarrow> obind (expect maybe_n) (\<lambda>n. Ok (DI_Index n)))"

definition commit_match ::
  "'p locator_env \<Rightarrow> stack_view \<Rightarrow> rstring \<Rightarrow> ('e, ('p \<times> patch_offsets) option) outcome" where
  "commit_match env v name =
     (case parse_all (oid_prefix_offsets (le_from_hex env)) name of
        Some (oid_prefix, offsets) \<Rightarrow>
          obind (oany (oid_matches env v oid_prefix) (all_patches v)) (\<lambda>b.
          Ok (if b then Some (oid_prefix, offsets) else None))
      | None \<Rightarrow> Ok None)"

definition disambiguate_name ::
  "'p locator_env \<Rightarrow> patch_name \<Rightarrow> patch_offsets \<Rightarrow> stack_view \<Rightarrow>
   ('e, 'p disambiguated_id \<times> patch_offsets) outcome" where
  "disambiguate_name env patchname self_offsets v =
     (let name = pn_str patchname; join = (\<lambda>i os. Ok (i, offsets_join os self_offsets)) in
      case max_by_key (\<lambda>(pn, _). pn_len pn) (prefix_matches v name) of
        Some (prefix_pn, offsets) \<Rightarrow> join (DI_Name prefix_pn) offsets
      | None \<Rightarrow>
      case parse_all patch_locator_top name of
        Some l \<Rightarrow>
          obind (case pl_id l of
                   PI_Top \<Rightarrow> Ok DI_Top
                 | PI_BelowTop n \<Rightarrow> below_top (le_checks env) n
                 | _ \<Rightarrow> Panic)
            (\<lambda>i. join i (pl_offsets l))
      | None \<Rightarrow>
      case Option.bind (parse_all patch_locator_base name) (\<lambda>l. if pl_id l = PI_Base then Some (pl_offsets l) else None) of
        Some offsets \<Rightarrow> join DI_Base offsets
      | None \<Rightarrow>
      obind (commit_match env v name) (\<lambda>by_commit.
      case by_commit of
        Some (oid_prefix, offsets) \<Rightarrow> join (DI_CommitId oid_prefix) offsets
      | None \<Rightarrow>
      case parse_all sign_number_offsets name of
        Some (sg, maybe_n, offsets) \<Rightarrow>
          obind (signed_number (le_checks env) v sg maybe_n) (\<lambda>i. join i offsets)
      | None \<Rightarrow> Ok (DI_Name patchname, self_offsets)))"

definition disambiguate ::
  "'p locator_env \<Rightarrow> patch_locator \<Rightarrow> stack_view \<Rightarrow> ('e, 'p disambiguated_id \<times> patch_offsets) outcome" where
  "disambiguate env l v =
     (let offsets = pl_offsets l in
      case pl_id l of
        PI_Base \<Rightarrow> Ok (DI_Base, offsets)
      | PI_Top \<Rightarrow> if v_applied v = [] then Ok (DI_Base, offsets) else Ok (DI_Top, offsets)
      | PI_BelowTop n \<Rightarrow> obind (below_top (le_checks env) n) (\<lambda>i. Ok (i, offsets))
      | PI_BelowLast n \<Rightarrow>
          obind (case n of None \<Rightarrow> Ok 0 | Some n \<Rightarrow> isize_arith (le_checks env) (- n)) (\<lambda>i.
          Ok (DI_FromLast i, offsets))
      | PI_Name patchname \<Rightarrow>
          if has_patch v patchname then Ok (DI_Name patchname, offsets)
          else disambiguate_name env patchname offsets v)"

section \<open>Resolution\<close>

text \<open>The arms of the match that \<open>resolve_name\<close> and \<open>resolve_revision\<close> have in common.\<close>

definition known_index ::
  "'p locator_env \<Rightarrow> stack_view \<Rightarrow> patch_name \<Rightarrow> ('p locator_error, int) outcome" where
  "known_index env v pn =
     (if has_patch v pn then obind (index_of v pn) (\<lambda>i. Ok (as_isize i))
      else case similar_patchnames env pn v of
             Some similar \<Rightarrow> Err (PatchSimilar pn similar)
           | None \<Rightarrow> Err (PatchNotKnown pn))"

definition commit_index ::
  "'p locator_env \<Rightarrow> stack_view \<Rightarrow> 'p \<Rightarrow> ('p locator_error, int) outcome" where
  "commit_index env v oid_prefix =
     obind (ofilter (oid_matches env v oid_prefix) (all_patches v)) (\<lambda>matching_names.
     case matching_names of
       [] \<Rightarrow> Panic
     | [pn] \<Rightarrow> obind (index_of v pn) (\<lambda>i. Ok (as_isize i))
     | _ \<Rightarrow> obind (expect (patchnames_string matching_names)) (\<lambda>s. Err (AmbiguousCommitId oid_prefix s)))"

definition absolute_index :: "stack_view \<Rightarrow> nat \<Rightarrow> ('p locator_error, int) outcome" where
  "absolute_index v index =
     (if index < length (all_patches v) then Ok (as_isize index) else Err (InvalidPatchIndex index))"

definition from_top_index ::
  "'p locator_env \<Rightarrow> stack_view \<Rightarrow> int \<Rightarrow> ('p locator_error, int) outcome" where
  "from_top_index env v offset =
     obind (isize_arith (le_checks env) (as_isize (length (v_applied v)) - 1)) (\<lambda>top.
     obind (isize_arith (le_checks env) (top + offset)) (\<lambda>index.
     if 0 \<le> index \<and> nat index < length (all_patches v) then Ok index
     else Err (InvalidOffsetFrom (string_for_error env (DI_FromTop offset)))))"

definition from_last_index ::
  "'p locator_env \<Rightarrow> stack_view \<Rightarrow> int \<Rightarrow> ('p locator_error, int) outcome" where
  "from_last_index env v offset =
     (if all_patches v = [] then Err NoLastPatch
      else
        obind (usize_arith (le_checks env) (int (length (applied_and_unapplied v)) - 1)) (\<lambda>last_index.
        case usize_checked_add_signed last_index offset of
          Some index \<Rightarrow>
            if index < length (all_patches v) then Ok (as_isize index)
            else Err (InvalidOffsetFrom (string_for_error env (DI_FromLast offset)))
        | None \<Rightarrow> Err (InvalidOffsetFrom (string_for_error env (DI_FromLast offset)))))"

definition top_index :: "'p locator_env \<Rightarrow> stack_view \<Rightarrow> ('e, int) outcome" where
  "top_index env v = isize_arith (le_checks env) (as_isize (length (v_applied v)) - 1)"

primrec start_index ::
  "'p locator_env \<Rightarrow> stack_view \<Rightarrow> patch_offsets \<Rightarrow> 'p disambiguated_id \<Rightarrow> ('p locator_error, int) outcome" where
  "start_index env v offsets (DI_Name pn) = known_index env v pn"
| "start_index env v offsets (DI_CommitId oid_prefix) = commit_index env v oid_prefix"
| "start_index env v offsets DI_Top = top_index env v"
| "start_index env v offsets DI_Base = (if offsets_empty offsets then Err BaseNeedsOffset else Ok (- 1))"
| "start_index env v offsets (DI_Index index) = absolute_index v index"
| "start_index env v offsets (DI_FromTop offset) = from_top_index env v offset"
| "start_index env v offsets (DI_FromBase offset) =
     (if offset < 1 then Err BaseNeedsPositiveOffset
      else obind (isize_arith (le_checks env) (- 1 + offset)) (\<lambda>index.
           if nat index < length (all_patches v) then Ok index
           else Err (InvalidOffsetFrom (string_for_error env (DI_FromBase offset)))))"
| "start_index env v offsets (DI_FromLast offset) = from_last_index env v offset"

definition moved :: "int \<Rightarrow> offset_atom \<Rightarrow> int option" where
  "moved index atom =
     (case atom of
        OffsetPlus n \<Rightarrow> isize_checked (index + int (case n of Some n \<Rightarrow> n | None \<Rightarrow> 1))
      | OffsetTilde n \<Rightarrow> isize_checked (index - int (case n of Some n \<Rightarrow> n | None \<Rightarrow> 1)))"

primrec offset_loop ::
  "(int \<Rightarrow> bool) \<Rightarrow> 'e \<Rightarrow> int \<Rightarrow> offset_atom list \<Rightarrow> ('e, int) outcome" where
  "offset_loop inside e index [] = Ok index"
| "offset_loop inside e index (a # as) =
     (case moved index a of
        Some i \<Rightarrow> if inside i then offset_loop inside e i as else Err e
      | None \<Rightarrow> Err e)"

text \<open>Indexing a slice panics out of range.\<close>

definition patch_at :: "stack_view \<Rightarrow> int \<Rightarrow> ('e, patch_name) outcome" where
  "patch_at v index =
     (if 0 \<le> index \<and> nat index < length (all_patches v) then Ok (all_patches v ! nat index) else Panic)"

definition resolve_name ::
  "'p locator_env \<Rightarrow> patch_locator \<Rightarrow> stack_view \<Rightarrow> ('p locator_error, patch_name) outcome" where
  "resolve_name env l v =
     obind (disambiguate env l v) (\<lambda>(i, offsets).
     obind (start_index env v offsets i) (\<lambda>index.
     obind (offsets_atoms offsets) (\<lambda>atoms.
     obind (offset_loop (\<lambda>i. 0 \<le> i \<and> i < as_isize (length (all_patches v)))
             (InvalidPatchOffset (string_for_error env i) offsets) index atoms) (\<lambda>index.
     patch_at v index))))"

primrec revision_index ::
  "'p locator_env \<Rightarrow> stack_view \<Rightarrow> 'p disambiguated_id \<Rightarrow> ('p locator_error, int) outcome" where
  "revision_index env v (DI_Name pn) = known_index env v pn"
| "revision_index env v (DI_CommitId oid_prefix) = commit_index env v oid_prefix"
| "revision_index env v DI_Top = top_index env v"
| "revision_index env v DI_Base = Ok (- 1)"
| "revision_index env v (DI_Index index) = absolute_index v index"
| "revision_index env v (DI_FromTop offset) = from_top_index env v offset"
| "revision_index env v (DI_FromBase offset) =
     obind (isize_arith (le_checks env) (- 1 + offset)) (\<lambda>index.
     if index < 0 \<or> nat index < length (all_patches v) then Ok index
     else Err (InvalidOffsetFrom (string_for_error env (DI_FromBase offset))))"
| "revision_index env v (DI_FromLast offset) = from_last_index env v offset"

definition ancestor_revision ::
  "'p locator_env \<Rightarrow> commit \<Rightarrow> int \<Rightarrow> ('p locator_error, stgit_revision) outcome" where
  "ancestor_revision env base index =
     (case le_ancestors env (c_id base) of
        Inl e \<Rightarrow> Err (Ancestors e)
      | Inr walk \<Rightarrow>
          obind (if 1 \<le> nat \<bar>index\<bar> then Ok (nat \<bar>index\<bar> - 1) else Panic) (\<lambda>n.
          case (if n < length walk then walk ! n else None) of
            None \<Rightarrow> Err (Ancestors (str ''repository does not have enough commit depth''))
          | Some oid \<Rightarrow>
              (case le_object env oid of
                 None \<Rightarrow> Err (Ancestors (str ''id '' @ tick (le_hex env oid) @ str '' does not point to an object''))
               | Some None \<Rightarrow> Err (Ancestors (str ''id '' @ tick (le_hex env oid) @ str '' does not point to a commit''))
               | Some (Some c) \<Rightarrow> Ok \<lparr>sr_patchname = None, sr_commit = c\<rparr>)))"

definition resolve_revision ::
  "'p locator_env \<Rightarrow> patch_locator \<Rightarrow> stack_view \<Rightarrow> commit \<Rightarrow> ('p locator_error, stgit_revision) outcome" where
  "resolve_revision env l v base =
     obind (disambiguate env l v) (\<lambda>(i, offsets).
     obind (revision_index env v i) (\<lambda>index.
     obind (offsets_atoms offsets) (\<lambda>atoms.
     obind (offset_loop (\<lambda>i. i < as_isize (length (all_patches v)))
             (InvalidPatchOffset (string_for_error env i) offsets) index atoms) (\<lambda>index.
     if 0 \<le> index then
       obind (patch_at v index) (\<lambda>patchname.
       obind (get_patch_commit v patchname) (\<lambda>commit.
       Ok \<lparr>sr_patchname = Some patchname, sr_commit = commit\<rparr>))
     else if index = - 1 then Ok \<lparr>sr_patchname = None, sr_commit = base\<rparr>
     else ancestor_revision env base index))))"

end
