(* ===== verification/Range.thy ===== *)
theory Range
  imports Locator
begin

text \<open>
  Resolving patch ranges given on the command line into patch names: \<open>src/patch/range.rs\<close>.
\<close>

section \<open>Errors\<close>

datatype 'p range_error =
  RE_Name name_error
| RE_Locator "'p locator_error"
| InvalidPatchRange rstring
| RE_Duplicate patch_name
| NotContiguous rstring rstring
| BoundaryOrder patch_name patch_name

definition range_from_str :: "rstring \<Rightarrow> ('p range_error, patch_range) outcome" where
  "range_from_str s =
     (case parse_all parse_patch_range s of Some r \<Rightarrow> Ok r | None \<Rightarrow> Err (InvalidPatchRange s))"

section \<open>Revisions\<close>

definition patch_revision :: "stack_view \<Rightarrow> patch_name \<Rightarrow> ('e, stgit_revision) outcome" where
  "patch_revision v pn =
     obind (get_patch_commit v pn) (\<lambda>c. Ok \<lparr>sr_patchname = Some pn, sr_commit = c\<rparr>)"

definition base_revision :: "commit \<Rightarrow> stgit_revision" where
  "base_revision base = \<lparr>sr_patchname = None, sr_commit = base\<rparr>"

definition resolve_revisions ::
  "'p locator_env \<Rightarrow> range_bounds \<Rightarrow> stack_view \<Rightarrow> commit \<Rightarrow> bool \<Rightarrow>
   ('p range_error, stgit_revision \<times> stgit_revision) outcome" where
  "resolve_revisions env bounds v base applied_boundary =
     obind (case rb_begin bounds of
              Some patch_loc \<Rightarrow> omap_err RE_Locator (resolve_revision env patch_loc v base)
            | None \<Rightarrow>
                (case v_applied v of
                   first_patchname # _ \<Rightarrow> patch_revision v first_patchname
                 | [] \<Rightarrow> Ok (base_revision base))) (\<lambda>rev0.
     obind (case rb_end bounds of
              Some patch_loc \<Rightarrow> omap_err RE_Locator (resolve_revision env patch_loc v base)
            | None \<Rightarrow>
                if applied_boundary then
                  (if v_applied v \<noteq> [] then patch_revision v (last (v_applied v))
                   else Ok (base_revision base))
                else if applied_and_unapplied v \<noteq> [] then
                  patch_revision v (last (applied_and_unapplied v))
                else Ok (base_revision base)) (\<lambda>rev1.
     Ok (rev0, rev1)))"

section \<open>Names\<close>

text \<open>A boundary of a range: located, then constrained to the allowed patches.\<close>

definition resolve_bound ::
  "'p locator_env \<Rightarrow> stack_view \<Rightarrow> range_constraint \<Rightarrow> patch_locator \<Rightarrow> ('p range_error, patch_name) outcome" where
  "resolve_bound env v allow loc =
     obind (omap_err RE_Locator (resolve_name env loc v)) (\<lambda>pn.
     omap_err RE_Name (constrain v (location_of_range allow) pn))"

definition resolve_opt ::
  "'p locator_env \<Rightarrow> stack_view \<Rightarrow> range_constraint \<Rightarrow> patch_locator option \<Rightarrow>
   ('p range_error, patch_name option) outcome" where
  "resolve_opt env v allow loc =
     (case loc of
        None \<Rightarrow> Ok None
      | Some loc \<Rightarrow> obind (resolve_bound env v allow loc) (\<lambda>pn. Ok (Some pn)))"

definition allowed_pos :: "patch_name list \<Rightarrow> patch_name \<Rightarrow> ('e, nat) outcome" where
  "allowed_pos allowed pn = expect (position (\<lambda>q. q = pn) allowed)"

definition begin_position :: "patch_name list \<Rightarrow> patch_name option \<Rightarrow> ('e, nat) outcome" where
  "begin_position allowed b = (case b of None \<Rightarrow> Ok 0 | Some pn \<Rightarrow> allowed_pos allowed pn)"

text \<open>The end of a range without an end; \<open>None\<close> is the \<open>continue\<close>.\<close>

definition open_end :: "stack_view \<Rightarrow> range_constraint \<Rightarrow> patch_name list \<Rightarrow> nat \<Rightarrow> nat option" where
  "open_end v allow allowed begin_pos =
     (if use_applied_boundary allow \<and> v_applied v \<noteq> [] \<and> begin_pos < length (v_applied v)
      then Some (length (v_applied v) - 1)
      else if allowed \<noteq> [] then Some (length allowed - 1)
      else None)"

text \<open>\<open>&allowed[a..=b]\<close>.\<close>

definition slice :: "'a list \<Rightarrow> nat \<Rightarrow> nat \<Rightarrow> ('e, 'a list) outcome" where
  "slice xs a b = (if a \<le> Suc b \<and> b < length xs then Ok (take (Suc b - a) (drop a xs)) else Panic)"

primrec push_names ::
  "patch_name list \<Rightarrow> patch_name list \<Rightarrow> ('p range_error, patch_name list) outcome" where
  "push_names patches [] = Ok patches"
| "push_names patches (pn # ps) =
     (if pn \<in> set patches then Err (RE_Duplicate pn) else push_names (patches @ [pn]) ps)"

definition select_patches :: "patch_name list \<Rightarrow> nat \<Rightarrow> nat \<Rightarrow> ('e, patch_name list) outcome" where
  "select_patches allowed begin_pos end_pos =
     (if begin_pos \<le> end_pos then slice allowed begin_pos end_pos
      else obind (slice allowed end_pos begin_pos) (\<lambda>ps. Ok (rev ps)))"

definition resolve_range ::
  "'p locator_env \<Rightarrow> stack_view \<Rightarrow> range_constraint \<Rightarrow> patch_name list \<Rightarrow> patch_range \<Rightarrow>
   ('p range_error, patch_name list) outcome" where
  "resolve_range env v allow patches rg =
     (let allowed = get_allowed v (location_of_range allow) in
      case rg of
        PR_Range bounds \<Rightarrow>
          obind (resolve_opt env v allow (rb_begin bounds)) (\<lambda>b.
          obind (resolve_opt env v allow (rb_end bounds)) (\<lambda>e.
          obind (begin_position allowed b) (\<lambda>begin_pos.
          obind (case e of
                   Some pn \<Rightarrow> obind (allowed_pos allowed pn) (\<lambda>p. Ok (Some p))
                 | None \<Rightarrow> Ok (open_end v allow allowed begin_pos)) (\<lambda>end_pos.
          case end_pos of
            None \<Rightarrow> Ok patches
          | Some end_pos \<Rightarrow>
              obind (select_patches allowed begin_pos end_pos) (\<lambda>selected.
              push_names patches selected)))))
      | PR_Single loc \<Rightarrow>
          obind (resolve_bound env v allow loc) (\<lambda>pn.
          if pn \<in> set patches then Err (RE_Duplicate pn) else Ok (patches @ [pn])))"

primrec resolve_ranges ::
  "'p locator_env \<Rightarrow> stack_view \<Rightarrow> range_constraint \<Rightarrow> patch_name list \<Rightarrow> patch_range list \<Rightarrow>
   ('p range_error, patch_name list) outcome" where
  "resolve_ranges env v allow patches [] = Ok patches"
| "resolve_ranges env v allow patches (r # rs) =
     obind (resolve_range env v allow patches r) (\<lambda>patches. resolve_ranges env v allow patches rs)"

definition resolve_names ::
  "'p locator_env \<Rightarrow> stack_view \<Rightarrow> patch_range list \<Rightarrow> range_constraint \<Rightarrow>
   ('p range_error, patch_name list) outcome" where
  "resolve_names env v ranges allow = resolve_ranges env v allow [] ranges"

section \<open>Contiguous names\<close>

record contig =
  cg_patches :: "patch_name list"
  cg_next :: "nat option"
  cg_prev :: "patch_range option"

definition not_contiguous :: "contig \<Rightarrow> patch_range \<Rightarrow> ('p range_error, 'a) outcome" where
  "not_contiguous cg rg =
     obind (expect (cg_prev cg)) (\<lambda>prev. Err (NotContiguous (show_range rg) (show_range prev)))"

definition resolve_contiguous ::
  "'p locator_env \<Rightarrow> stack_view \<Rightarrow> range_constraint \<Rightarrow> contig \<Rightarrow> patch_range \<Rightarrow>
   ('p range_error, contig) outcome" where
  "resolve_contiguous env v allow cg rg =
     (let allowed = get_allowed v (location_of_range allow) in
      case rg of
        PR_Range bounds \<Rightarrow>
          obind (resolve_opt env v allow (rb_begin bounds)) (\<lambda>b.
          obind (resolve_opt env v allow (rb_end bounds)) (\<lambda>e.
          obind (begin_position allowed b) (\<lambda>begin_pos.
          if cg_next cg \<noteq> None \<and> Some begin_pos \<noteq> cg_next cg then not_contiguous cg rg
          else
            obind (case e of
                     Some pn \<Rightarrow>
                       obind (allowed_pos allowed pn) (\<lambda>end_pos.
                       if end_pos < begin_pos
                       then (if begin_pos < length allowed then Err (BoundaryOrder (allowed ! begin_pos) pn) else Panic)
                       else Ok (Some end_pos))
                   | None \<Rightarrow> Ok (open_end v allow allowed begin_pos)) (\<lambda>end_pos.
            case end_pos of
              None \<Rightarrow> Ok cg
            | Some end_pos \<Rightarrow>
                obind (slice allowed begin_pos end_pos) (\<lambda>selected.
                obind (push_names (cg_patches cg) selected) (\<lambda>patches.
                Ok \<lparr>cg_patches = patches, cg_next = Some (end_pos + 1), cg_prev = Some rg\<rparr>))))))
      | PR_Single loc \<Rightarrow>
          obind (resolve_bound env v allow loc) (\<lambda>pn.
          if pn \<in> set (cg_patches cg) then Err (RE_Duplicate pn)
          else
            obind (allowed_pos allowed pn) (\<lambda>pos.
            if cg_next cg \<noteq> None \<and> Some pos \<noteq> cg_next cg then not_contiguous cg rg
            else Ok \<lparr>cg_patches = cg_patches cg @ [pn], cg_next = Some (pos + 1), cg_prev = Some rg\<rparr>)))"

primrec resolve_contiguous_all ::
  "'p locator_env \<Rightarrow> stack_view \<Rightarrow> range_constraint \<Rightarrow> contig \<Rightarrow> patch_range list \<Rightarrow>
   ('p range_error, contig) outcome" where
  "resolve_contiguous_all env v allow cg [] = Ok cg"
| "resolve_contiguous_all env v allow cg (r # rs) =
     obind (resolve_contiguous env v allow cg r) (\<lambda>cg. resolve_contiguous_all env v allow cg rs)"

definition resolve_names_contiguous ::
  "'p locator_env \<Rightarrow> stack_view \<Rightarrow> patch_range list \<Rightarrow> range_constraint \<Rightarrow>
   ('p range_error, patch_name list) outcome" where
  "resolve_names_contiguous env v ranges allow =
     obind (resolve_contiguous_all env v allow \<lparr>cg_patches = [], cg_next = None, cg_prev = None\<rparr> ranges)
       (\<lambda>cg. Ok (cg_patches cg))"

end
