(* ===== verification/Locator_Props.thy ===== *)
theory Locator_Props
  imports Range Examples
begin

text \<open>
  Properties of the resolution of locators and ranges in a well-formed stack: what an offset means,
  that resolving to a name and to a revision agree, when resolution can panic, and that ranges resolve
  to distinct allowed patches, contiguous ones to a segment of the stack.
\<close>

section \<open>Offsets\<close>

text \<open>A vector has at most \<open>isize::MAX\<close> elements.\<close>

definition fits :: "stack_view \<Rightarrow> bool" where
  "fits v \<longleftrightarrow> int (length (all_patches v)) \<le> isize_max"

definition inside :: "stack_view \<Rightarrow> int \<Rightarrow> bool" where
  "inside v i \<longleftrightarrow> 0 \<le> i \<and> i < int (length (all_patches v))"

primrec delta :: "offset_atom \<Rightarrow> int" where
  "delta (OffsetPlus n) = int (case n of Some n \<Rightarrow> n | None \<Rightarrow> 1)"
| "delta (OffsetTilde n) = - int (case n of Some n \<Rightarrow> n | None \<Rightarrow> 1)"

definition offset_sum :: "offset_atom list \<Rightarrow> int" where
  "offset_sum as = sum_list (map delta as)"

lemma offset_sum_simps [simp]: "offset_sum [] = 0" "offset_sum (a # as) = delta a + offset_sum as"
  by (simp_all add: offset_sum_def)

lemma as_isize_small: "int n \<le> isize_max \<Longrightarrow> as_isize n = int n"
  by (simp add: as_isize_def wrap_isize_id isize_ok_def)

lemma as_isize_len: "fits v \<Longrightarrow> as_isize (length (all_patches v)) = int (length (all_patches v))"
  by (simp add: fits_def as_isize_small)

lemma as_isize_index: "fits v \<Longrightarrow> i \<le> length (all_patches v) \<Longrightarrow> as_isize i = int i"
  by (simp add: fits_def as_isize_small)

lemma moved_eq: "moved i a = isize_checked (i + delta a)"
  by (cases a) (simp_all add: moved_def)

lemma offset_loop_eq:
  assumes "fits v" "inside v i"
  shows "offset_loop (\<lambda>i. 0 \<le> i \<and> i < as_isize (length (all_patches v))) e i as =
    (if \<forall>k\<le>length as. inside v (i + offset_sum (take k as)) then Ok (i + offset_sum as) else Err e)"
  using assms(2)
proof (induction as arbitrary: i)
  case (Cons a as)
  have all: "(\<forall>k\<le>length (a # as). inside v (i + offset_sum (take k (a # as)))) \<longleftrightarrow>
      (\<forall>k\<le>length as. inside v (i + delta a + offset_sum (take k as)))"
  proof (intro iffI allI impI)
    fix k
    assume "\<forall>k\<le>length (a # as). inside v (i + offset_sum (take k (a # as)))" "k \<le> length as"
    then show "inside v (i + delta a + offset_sum (take k as))" by (auto dest: spec [of _ "Suc k"] simp: add.assoc)
  next
    fix k
    assume "\<forall>k\<le>length as. inside v (i + delta a + offset_sum (take k as))" "k \<le> length (a # as)"
    then show "inside v (i + offset_sum (take k (a # as)))" using Cons.prems
      by (cases k) (auto simp: add.assoc)
  qed
  show ?case
  proof (cases "inside v (i + delta a)")
    case True
    moreover have "isize_checked (i + delta a) = Some (i + delta a)"
      using True assms(1) by (auto simp: isize_checked_def isize_ok_def inside_def fits_def)
    ultimately show ?thesis using Cons.IH [OF True] all as_isize_len [OF assms(1)]
      by (simp add: moved_eq inside_def add.assoc)
  next
    case False
    then have "\<not> (\<forall>k\<le>length as. inside v (i + delta a + offset_sum (take k as)))" by force
    moreover have "isize_checked (i + delta a) = Some (i + delta a) \<or> isize_checked (i + delta a) = None"
      by (simp add: isize_checked_def)
    ultimately show ?thesis using False all as_isize_len [OF assms(1)]
      by (auto simp: moved_eq inside_def)
  qed
qed simp

lemma offsets_atoms_total: "\<exists>as. offsets_atoms os = Ok as"
  using repeat0_total [of patch_offset_atom "po_str os"] consuming_atom
  by (auto simp: offsets_atoms_def patch_offset_atoms_def)

lemma known_index_nth:
  assumes "view_ok v" "fits v" "i < length (all_patches v)"
  shows "known_index env v (all_patches v ! i) = Ok (int i)"
  using assms as_isize_index [OF assms(2), of i] view_ok_has [OF assms(1), of "all_patches v ! i"]
  by (simp add: known_index_def view_acc.index_of_nth)

lemma patch_at_inside: "inside v i \<Longrightarrow> patch_at v i = Ok (all_patches v ! nat i)"
  by (auto simp: inside_def patch_at_def)

text \<open>
  C27: A locator that names a patch of the stack and has offsets resolves to the patch at the sum of the
  offsets, provided that every partial sum stays inside the stack; otherwise the result is the error
  for the whole offset.  No sum overflows, and hidden patches count as part of the stack.
\<close>

theorem resolve_name_offsets:
  assumes "view_ok v" "fits v" "i < length (all_patches v)" "offsets_atoms os = (Ok as :: (unit, _) outcome)"
  shows "resolve_name env (mk_locator (PI_Name (all_patches v ! i)) os) v =
    (if \<forall>k\<le>length as. inside v (int i + offset_sum (take k as))
     then Ok (all_patches v ! nat (int i + offset_sum as))
     else Err (InvalidPatchOffset (tick (pn_str (all_patches v ! i))) os))"
proof -
  let ?pn = "all_patches v ! i"
  have "has_patch v ?pn" using assms(1,3) view_ok_has by simp
  then have d: "disambiguate env (mk_locator (PI_Name ?pn) os) v = Ok (DI_Name ?pn, os)"
    by (simp add: disambiguate_def mk_locator_def)
  have a: "offsets_atoms os = Ok as"
    using assms(4) by (auto simp: offsets_atoms_def split: presult.splits)
  have "inside v (int i)" using assms(3) by (simp add: inside_def)
  note loop = offset_loop_eq [OF assms(2) this, of "InvalidPatchOffset (tick (pn_str ?pn)) os" as]
  have "inside v (int i + offset_sum as)"
    if "\<forall>k\<le>length as. inside v (int i + offset_sum (take k as))"
    using that by (auto dest: spec [of _ "length as"])
  then show ?thesis unfolding resolve_name_def d
    by (simp add: known_index_nth [OF assms(1-3)] a loop patch_at_inside)
qed

theorem resolve_name_offsets_witness:
  "resolve_name (undefined :: unit locator_env) (mk_locator (PI_Name pa) (PatchOffsets (str ''+2~''))) (state_view ex_state) = Ok pb"
proof -
  let ?v = "state_view ex_state" and ?os = "PatchOffsets (str ''+2~'')"
  have as: "offsets_atoms ?os = (Ok [OffsetPlus (Some 2), OffsetTilde None] :: (unit, _) outcome)"
    by code_simp
  have all: "all_patches ?v = [pa, pb, pc, pd]" by (simp add: state_view_def ex_state_def all_patches_def)
  have "view_ok ?v" using ex_stack_ok by (simp add: stack_ok_def state_ok_def ex_stack_def)
  moreover have "fits ?v" by (simp add: fits_def all)
  ultimately have "resolve_name (undefined :: unit locator_env) (mk_locator (PI_Name (all_patches ?v ! 0)) ?os) ?v =
    (if \<forall>k\<le>length [OffsetPlus (Some 2), OffsetTilde None].
        inside ?v (int 0 + offset_sum (take k [OffsetPlus (Some 2), OffsetTilde None]))
     then Ok (all_patches ?v ! nat (int 0 + offset_sum [OffsetPlus (Some 2), OffsetTilde None]))
     else Err (InvalidPatchOffset (tick (pn_str (all_patches ?v ! 0))) ?os))"
    by (intro resolve_name_offsets [OF _ _ _ as]) (simp_all add: all)
  moreover have "\<forall>k\<le>2. inside ?v (offset_sum (take k [OffsetPlus (Some 2), OffsetTilde None]))"
    by (simp add: le_Suc_eq numeral_2_eq_2 inside_def all)
  ultimately show ?thesis by (simp add: all numeral_2_eq_2)
qed

section \<open>Names and revisions\<close>

lemma offset_loop_weaken:
  "offset_loop P e i as = Ok j \<Longrightarrow> (\<And>i. P i \<Longrightarrow> Q i) \<Longrightarrow> offset_loop Q e' i as = Ok j"
  by (induction as arbitrary: i) (auto split: option.splits if_splits)

lemma revision_index_start: "start_index env v os d = Ok i \<Longrightarrow> revision_index env v d = Ok i"
  by (cases d) (auto split: if_splits)

lemma patch_at_Ok: "patch_at v i = Ok pn \<longleftrightarrow> inside v i \<and> pn = all_patches v ! nat i"
  by (auto simp: patch_at_def inside_def)

text \<open>The steps of a successful resolution.\<close>

lemma resolve_name_run:
  fixes env :: "'p locator_env"
  shows "resolve_name env l v = Ok pn \<longleftrightarrow>
    (\<exists>d os i as j. disambiguate env l v = (Ok (d, os) :: ('p locator_error, _) outcome) \<and>
      start_index env v os d = Ok i \<and> offsets_atoms os = (Ok as :: ('p locator_error, _) outcome) \<and>
      offset_loop (\<lambda>i. 0 \<le> i \<and> i < as_isize (length (all_patches v)))
        (InvalidPatchOffset (string_for_error env d) os :: 'p locator_error) i as = Ok j \<and>
      inside v j \<and> pn = all_patches v ! nat j)"
  unfolding resolve_name_def obind_Ok_iff patch_at_Ok split_beta split_paired_Ex fst_conv snd_conv
  by fast

text \<open>
  C28: Resolving a locator to a revision extends resolving it to a patch name: whenever the locator
  names a patch of the stack, the revision is that patch with its commit.
\<close>

theorem resolve_revision_extends:
  assumes "view_ok v" "resolve_name env l v = Ok pn"
  shows "pn \<in> set (all_patches v) \<and>
    (\<exists>c. v_get v pn = Some \<lparr>ps_commit = c\<rparr> \<and>
      resolve_revision env l v base = Ok \<lparr>sr_patchname = Some pn, sr_commit = c\<rparr>)"
proof -
  obtain d os i as j where r: "disambiguate env l v = (Ok (d, os) :: ('a locator_error, _) outcome)"
    "start_index env v os d = Ok i" "offsets_atoms os = (Ok as :: ('a locator_error, _) outcome)"
    "offset_loop (\<lambda>i. 0 \<le> i \<and> i < as_isize (length (all_patches v)))
       (InvalidPatchOffset (string_for_error env d) os :: 'a locator_error) i as = Ok j"
    "inside v j" "pn = all_patches v ! nat j"
    using resolve_name_run [THEN iffD1, OF assms(2)] by blast
  have mem: "pn \<in> set (all_patches v)" using r(5,6) by (auto simp: inside_def)
  then obtain p where p: "v_get v pn = Some p" using view_ok_has [OF assms(1), of pn] by (auto simp: has_patch_def)
  then have c: "v_get v pn = Some \<lparr>ps_commit = ps_commit p\<rparr>" by simp
  have "offset_loop (\<lambda>i. i < as_isize (length (all_patches v)))
       (InvalidPatchOffset (string_for_error env d) os :: 'a locator_error) i as = Ok j"
    by (rule offset_loop_weaken [OF r(4)]) simp
  then have "resolve_revision env l v base = Ok \<lparr>sr_patchname = Some pn, sr_commit = ps_commit p\<rparr>"
    using r p revision_index_start [OF r(2)]
    by (simp add: resolve_revision_def patch_at_inside get_patch_commit_def del: obind_Ok_iff)
      (simp add: inside_def)
  then show ?thesis using mem c by blast
qed

definition ex_env :: "nat locator_env" where
  "ex_env =
     \<lparr>le_checks = False, le_from_hex = (\<lambda>s. if 4 \<le> length s then Some (length s) else None),
      le_matches = (\<lambda>p i. p = i), le_show_prefix = show_nat, le_similar = (\<lambda>a b. False), le_hex = show_nat,
      le_ancestors = (\<lambda>i. Inr [Some i]), le_object = (\<lambda>i. None)\<rparr>"

lemma ex_view_ok: "view_ok (state_view ex_state)"
  using ex_stack_ok by (simp add: stack_ok_def state_ok_def ex_stack_def)

lemma no_atoms: "offsets_atoms (PatchOffsets []) = Ok []"
proof -
  have "patch_offset_atoms [] = Parsed [] []" by code_simp
  then show ?thesis by (simp add: offsets_atoms_def)
qed

lemma ex_patches:
  "all_patches (state_view ex_state) = [pa, pb, pc, pd]"
  "applied_and_unapplied (state_view ex_state) = [pa, pb, pc]"
  by (simp_all add: state_view_def ex_state_def all_patches_def applied_and_unapplied_def)

theorem resolve_revision_extends_witness:
  "resolve_revision ex_env (mk_locator (PI_BelowLast None) (PatchOffsets [])) (state_view ex_state) k_base =
     Ok \<lparr>sr_patchname = Some pc, sr_commit = k_c\<rparr>"
proof -
  have "resolve_name ex_env (mk_locator (PI_BelowLast None) (PatchOffsets [])) (state_view ex_state) = Ok pc"
    by (simp add: resolve_name_def disambiguate_def mk_locator_def from_last_index_def usize_arith_def
        usize_checked_add_signed_def as_isize_small patch_at_def no_atoms ex_patches ex_env_def)
  from resolve_revision_extends [OF ex_view_ok this, of k_base]
  obtain c where "v_get (state_view ex_state) pc = Some \<lparr>ps_commit = c\<rparr>"
    "resolve_revision ex_env (mk_locator (PI_BelowLast None) (PatchOffsets [])) (state_view ex_state) k_base =
       Ok \<lparr>sr_patchname = Some pc, sr_commit = c\<rparr>"
    by blast
  moreover have "v_get (state_view ex_state) pc = Some \<lparr>ps_commit = k_c\<rparr>"
    by (simp add: state_view_def ex_state_def bt_get_def)
  ultimately show ?thesis by simp
qed

section \<open>Panics\<close>

text \<open>Locators and offsets as the parser makes them.\<close>

definition offsets_ok :: "patch_offsets \<Rightarrow> bool" where
  "offsets_ok os \<longleftrightarrow> parse_patch_offsets (po_str os) = Parsed os []"

definition locator_ok :: "patch_locator \<Rightarrow> bool" where
  "locator_ok l \<longleftrightarrow> offsets_ok (pl_offsets l) \<and> (\<forall>pn. pl_id l = PI_Name pn \<longrightarrow> valid (pn_str pn))"

definition starts_offset :: "rstring \<Rightarrow> bool" where
  "starts_offset s \<longleftrightarrow> s \<noteq> [] \<and> (hd s = c_plus \<or> hd s = c_tilde)"

lemma offsets_whole: "parse_patch_offsets u = Parsed os [] \<Longrightarrow> offsets_ok os"
  using offsets_again(3) [of u os "[]" "[]"] by (simp add: offsets_ok_def ends_def)

lemma offsets_start:
  assumes "offsets_ok os" shows "po_str os = [] \<or> starts_offset (po_str os)"
proof -
  obtain xs where "repeat0 patch_offset_atom (po_str os) = Parsed xs []"
    using assms unfolding offsets_ok_def parse_patch_offsets_Parsed by blast
  then show ?thesis
    by (cases xs) (auto simp: repeat_atom patch_offset_atom_Parsed starts_offset_def)
qed

lemma starts_offset_atoms:
  assumes "starts_offset (po_str os)"
  shows "\<exists>a as. offsets_atoms os = Ok (a # as)"
proof -
  obtain c u where c: "po_str os = c # u" "c = c_plus \<or> c = c_tilde"
    using assms by (cases "po_str os") (auto simp: starts_offset_def)
  have "\<exists>n r. opt unsigned_int u = Parsed n r"
    using unsigned_int_not_Cut [of u] by (cases "unsigned_int u") auto
  then obtain a r where "patch_offset_atom (po_str os) = Parsed a r"
    using c unfolding patch_offset_atom_Parsed by blast
  moreover obtain xs t where "repeat0 patch_offset_atom (po_str os) = Parsed xs t"
    using repeat0_total [OF consuming_atom patch_offset_atom_not_Cut] by blast
  ultimately show ?thesis
    by (cases xs) (auto simp: offsets_atoms_def patch_offset_atoms_def, simp add: repeat_atom)
qed

lemma starts_offset_join:
  "starts_offset (po_str os) \<Longrightarrow> starts_offset (po_str (offsets_join os os'))"
  by (cases "po_str os") (auto simp: starts_offset_def offsets_join_def)

lemma locator_parsed_ok:
  assumes "parse_patch_locator s = Parsed l []" shows "locator_ok l"
proof -
  consider (name) "patch_locator_name s = Parsed l []" | (last) "patch_locator_from_last s = Parsed l []"
    | (top) "patch_locator_top s = Parsed l []" | (base) "patch_locator_base s = Parsed l []"
    using assms by (auto simp: parse_patch_locator_def)
  then show ?thesis
  proof cases
    case name
    then show ?thesis
      by (auto simp: patch_locator_name_def locator_ok_def mk_locator_def offsets_whole dest: parse_name_sound)
  next
    case last
    then show ?thesis
      by (auto simp: patch_locator_from_last_def locator_ok_def mk_locator_def offsets_whole)
  next
    case top
    then show ?thesis
      by (cases rule: top_cases) (auto simp: locator_ok_def mk_locator_def offsets_whole)
  next
    case base
    then show ?thesis
      by (auto simp: patch_locator_base_def locator_ok_def mk_locator_def offsets_whole)
  qed
qed

definition matched :: "'p locator_env \<Rightarrow> stack_view \<Rightarrow> 'p \<Rightarrow> patch_name \<Rightarrow> bool" where
  "matched env v p pn \<longleftrightarrow> (\<exists>c. v_get v pn = Some c \<and> le_matches env p (c_id (ps_commit c)))"

text \<open>What disambiguation promises to the resolution.\<close>

definition resolvable :: "'p locator_env \<Rightarrow> stack_view \<Rightarrow> 'p disambiguated_id \<Rightarrow> patch_offsets \<Rightarrow> bool" where
  "resolvable env v d os \<longleftrightarrow>
     (case d of
        DI_Base \<Rightarrow> po_str os = [] \<or> starts_offset (po_str os)
      | DI_Top \<Rightarrow> v_applied v \<noteq> [] \<or> starts_offset (po_str os)
      | DI_CommitId p \<Rightarrow> (\<exists>pn\<in>set (all_patches v). matched env v p pn)
      | DI_FromBase n \<Rightarrow> isize_ok n
      | _ \<Rightarrow> True)"

lemma oid_matches_known:
  assumes "view_ok v" "pn \<in> set (all_patches v)"
  shows "oid_matches env v p pn = Ok (matched env v p pn)"
  using view_ok_has [OF assms(1), of pn] assms(2)
  by (auto simp: oid_matches_def matched_def get_patch_commit_def has_patch_def)

lemma oany_known: "(\<And>x. x \<in> set xs \<Longrightarrow> f x = Ok (P x)) \<Longrightarrow> oany f xs = Ok (\<exists>x\<in>set xs. P x)"
  by (induction xs) auto

lemma ofilter_known: "(\<And>x. x \<in> set xs \<Longrightarrow> f x = Ok (P x)) \<Longrightarrow> ofilter f xs = Ok (filter P xs)"
  by (induction xs) (auto simp del: obind_Ok_iff)

text \<open>The numbers of \<open>sign_number_offsets\<close>.\<close>

lemma sign_number_cases:
  assumes "sign_number_offsets s = Parsed (sg, n, os) r"
  obtains (minus) k where "sg = Some SignMinus" "n = Some k" "int k \<le> 9223372036854775808"
  | (plus) k where "sg = Some SignPlus" "n = Some k" "int k \<le> isize_max"
  | (index) k where "sg = None" "n = Some k"
  | (sign) sg' where "sg = Some sg'" "n = None"
proof -
  have neg: "negative_int u = Parsed i t \<Longrightarrow> isize_ok i" for u i t
    by (auto simp: negative_int_def intro: parse_isize_range)
  have pos: "plusative_int u = Parsed i t \<Longrightarrow> isize_ok i \<and> 0 \<le> i" for u i t
    by (auto simp: plusative_int_def intro: parse_isize_range)
      (auto simp: parse_isize_def Let_def take_Cons' split: list.splits option.splits if_splits)
  consider i t where "negative_int s = Parsed i t" "sg = Some SignMinus" "n = Some (nat \<bar>i\<bar>)"
    | i t where "plusative_int s = Parsed i t" "sg = Some SignPlus" "n = Some (nat \<bar>i\<bar>)"
    | k where "sg = None" "n = Some k" | sg' where "sg = Some sg'" "n = None"
    using assms unfolding sign_number_offsets_def by auto
  then show thesis
  proof cases
    case 1
    then show thesis using neg [OF 1(1)] by (intro minus) (auto simp: isize_ok_def)
  next
    case 2
    then show thesis using pos [OF 2(1)] by (intro plus) (auto simp: isize_ok_def)
  qed (auto intro: index sign)
qed

lemma signed_number_Panic:
  assumes "sign_number_offsets s = Parsed (sg, n, os) r" "signed_number chk v sg n = Panic"
  shows "sg = Some SignMinus \<and> n = Some 9223372036854775808"
  using assms(1)
proof (cases rule: sign_number_cases)
  case (minus k)
  then show ?thesis using assms(2)
    by (auto simp: signed_number_def isize_checked_def isize_ok_def split: if_splits)
next
  case (plus k)
  then show ?thesis using assms(2)
    by (auto simp: signed_number_def isize_checked_def isize_ok_def)
next
  case (index k)
  then show ?thesis using assms(2) by (simp add: signed_number_def)
next
  case (sign sg')
  then show ?thesis using assms(2)
    by (cases sg') (auto simp: signed_number_def isize_checked_def isize_ok_def)
qed

lemma isize_arith_release [simp]: "isize_arith False i = Ok (wrap_isize i)"
  by (simp add: isize_arith_def wrap_isize_id)

lemma usize_arith_release: "\<exists>k. usize_arith False i = Ok k"
  by (simp add: usize_arith_def)

lemma below_top_release:
  "below_top False n = Ok (DI_FromTop (case n of None \<Rightarrow> - 1 | Some n \<Rightarrow> wrap_isize (- as_isize n)))"
  by (cases n) (simp_all add: below_top_def)

definition matching_commit ::
  "'p locator_env \<Rightarrow> stack_view \<Rightarrow> rstring \<Rightarrow> ('p \<times> patch_offsets) option" where
  "matching_commit env v name =
     (case parse_all (oid_prefix_offsets (le_from_hex env)) name of
        Some (p, os) \<Rightarrow> if \<exists>pn\<in>set (all_patches v). matched env v p pn then Some (p, os) else None
      | None \<Rightarrow> None)"

lemma commit_match_known:
  assumes "view_ok v"
  shows "commit_match env v name = Ok (matching_commit env v name)"
  by (auto simp: commit_match_def matching_commit_def oany_known [OF oid_matches_known [OF assms]]
      split: option.split prod.split)

definition min_number :: "rstring \<Rightarrow> bool" where
  "min_number name \<longleftrightarrow>
     (\<exists>os. parse_all sign_number_offsets name = Some (Some SignMinus, Some 9223372036854775808, os))"

text \<open>A valid name that starts like a reserved one goes on with an offset.\<close>

lemma top_offsets:
  assumes "patch_locator_top n = Parsed l []" "valid n"
  shows "pl_id l = PI_Top \<and> starts_offset (po_str (pl_offsets l)) \<or> (\<exists>k. pl_id l = PI_BelowTop k)"
  using assms(1)
proof (cases rule: top_cases)
  case (at u os)
  then have "u \<noteq> []" using assms(2) by (auto simp: valid_iff at_name_def str_def)
  moreover have "u = po_str os" using at(2) by (simp add: parse_patch_offsets_Parsed)
  ultimately show ?thesis using at(3) offsets_start [OF offsets_whole [OF at(2)]] by (simp add: mk_locator_def)
qed (simp add: mk_locator_def)

lemma base_offsets:
  assumes "patch_locator_base n = Parsed l []" "valid n"
  shows "pl_id l = PI_Base \<and> starts_offset (po_str (pl_offsets l))"
proof -
  obtain u os where u: "n = base_name @ u" "parse_patch_offsets u = Parsed os []" "l = mk_locator PI_Base os"
    using assms(1) by (auto simp: patch_locator_base_def)
  then have "u \<noteq> []" "u = po_str os" using assms(2) by (auto simp: valid_iff parse_patch_offsets_Parsed)
  then show ?thesis using u(3) offsets_start [OF offsets_whole [OF u(2)]] by (simp add: mk_locator_def)
qed

primrec disambiguated ::
  "'p locator_env \<Rightarrow> stack_view \<Rightarrow> bool \<Rightarrow> ('e, 'p disambiguated_id \<times> patch_offsets) outcome \<Rightarrow> bool" where
  "disambiguated env v p (Ok x) = resolvable env v (fst x) (snd x)"
| "disambiguated env v p (Err e) = False"
| "disambiguated env v p Panic = p"

lemma disambiguate_name_outcome:
  fixes env :: "'p locator_env"
  assumes "view_ok v" "\<not> le_checks env" "valid (pn_str pn)"
  shows "disambiguated env v (min_number (pn_str pn))
    (disambiguate_name env pn os v :: ('e, 'p disambiguated_id \<times> patch_offsets) outcome)"
proof (cases "max_by_key (\<lambda>(pn, _). pn_len pn) (prefix_matches v (pn_str pn))")
  case (Some q)
  then show ?thesis by (cases q) (simp add: disambiguate_name_def resolvable_def)
next
  case pref: None
  show ?thesis
  proof (cases "parse_all patch_locator_top (pn_str pn)")
    case (Some l)
    then have "pl_id l = PI_Top \<and> starts_offset (po_str (pl_offsets l)) \<or> (\<exists>k. pl_id l = PI_BelowTop k)"
      using top_offsets [OF _ assms(3)] by (simp add: parse_all_iff)
    then show ?thesis
      using pref Some assms(2) starts_offset_join
      by (auto simp: disambiguate_name_def resolvable_def below_top_release simp del: obind_Ok_iff)
  next
    case top: None
    show ?thesis
    proof (cases "parse_all patch_locator_base (pn_str pn)")
      case (Some l)
      then have "pl_id l = PI_Base \<and> starts_offset (po_str (pl_offsets l))"
        using base_offsets [OF _ assms(3)] by (simp add: parse_all_iff)
      then show ?thesis using pref top Some starts_offset_join
        by (simp add: disambiguate_name_def resolvable_def del: obind_Ok_iff obind_Panic_iff)
    next
      case base: None
      note commit_match_known [OF assms(1), simp]
      show ?thesis
      proof (cases "matching_commit env v (pn_str pn)")
        case none: None
        show ?thesis
        proof (cases "parse_all sign_number_offsets (pn_str pn)")
          case None
          then show ?thesis using pref top base none by (simp add: disambiguate_name_def resolvable_def del: obind_Ok_iff obind_Panic_iff)
        next
          case (Some sno)
          obtain sg n o' where sno: "sno = (sg, n, o')" by (cases sno)
          show ?thesis
          proof (cases "signed_number (le_checks env) v sg n :: ('e, 'p disambiguated_id) outcome")
            case Panic
            then have "sg = Some SignMinus \<and> n = Some 9223372036854775808"
              using signed_number_Panic [OF _ Panic] Some sno unfolding parse_all_iff by blast
            then show ?thesis using pref top base none Some sno Panic
              by (simp add: disambiguate_name_def min_number_def)
          next
            case (Ok d)
            then have "resolvable env v d os'" for os'
              by (auto simp: signed_number_def resolvable_def isize_checked_def
                  split: option.splits if_splits num_sign.splits)
            then show ?thesis using pref top base none Some sno Ok
              by (simp add: disambiguate_name_def del: obind_Ok_iff obind_Panic_iff)
          next
            case (Err e)
            then show ?thesis
              by (auto simp: signed_number_def split: option.splits num_sign.splits) (metis num_sign.exhaust)+
          qed
        qed
      next
        case (Some po)
        obtain p o' where po: "po = (p, o')" by (cases po)
        then have "\<exists>pn\<in>set (all_patches v). matched env v p pn"
          using Some by (auto simp: matching_commit_def split: option.splits if_splits)
        then show ?thesis using pref top base Some po
          by (simp add: disambiguate_name_def resolvable_def del: obind_Ok_iff obind_Panic_iff)
      qed
    qed
  qed
qed

lemma disambiguate_outcome:
  fixes env :: "'p locator_env"
  assumes "view_ok v" "\<not> le_checks env" "locator_ok l"
  shows "disambiguated env v (\<exists>pn. pl_id l = PI_Name pn \<and> min_number (pn_str pn))
    (disambiguate env l v :: ('e, 'p disambiguated_id \<times> patch_offsets) outcome)"
proof (cases "pl_id l")
  case (PI_Name pn)
  then show ?thesis
    using disambiguate_name_outcome [OF assms(1,2), of pn "pl_offsets l", where ?'e = 'e] assms(3)
    by (auto simp: disambiguate_def locator_ok_def resolvable_def Let_def)
next
  case PI_Base
  then show ?thesis using assms(3) offsets_start
    by (auto simp: disambiguate_def locator_ok_def resolvable_def)
next
  case PI_Top
  then show ?thesis using assms(3) offsets_start
    by (auto simp: disambiguate_def locator_ok_def resolvable_def Let_def)
next
  case (PI_BelowLast n)
  then show ?thesis using assms(2) by (cases n) (simp_all add: disambiguate_def resolvable_def)
next
  case (PI_BelowTop n)
  then show ?thesis using assms(2) by (simp add: disambiguate_def resolvable_def below_top_release)
qed

text \<open>The index a resolvable locator starts from.\<close>

lemma commit_index_outcome:
  assumes "view_ok v" "fits v" "\<exists>pn\<in>set (all_patches v). matched env v p pn"
  shows "commit_index env v p \<noteq> Panic" "commit_index env v p = Ok i \<Longrightarrow> inside v i"
proof -
  let ?m = "filter (matched env v p) (all_patches v)"
  have f: "ofilter (oid_matches env v p) (all_patches v) = (Ok ?m :: ('a locator_error, _) outcome)"
    by (rule ofilter_known) (rule oid_matches_known [OF assms(1)])
  have ne: "?m \<noteq> []" using assms(3) by (auto simp: filter_empty_conv)
  have idx: "\<exists>k<length (all_patches v). index_of v pn = (Ok k :: ('a locator_error, _) outcome) \<and> as_isize k = int k"
    if "pn \<in> set (all_patches v)" for pn
    using that view_acc.index_of_nth [OF assms(1)] as_isize_index [OF assms(2)]
    by (metis in_set_conv_nth less_imp_le)
  obtain q qs where m: "?m = q # qs" using ne by (cases ?m) auto
  then have "q \<in> set ?m" by simp
  then obtain k where k: "k < length (all_patches v)" "index_of v q = (Ok k :: ('a locator_error, _) outcome)"
    "as_isize k = int k" using idx by auto
  show "commit_index env v p \<noteq> Panic" "commit_index env v p = Ok i \<Longrightarrow> inside v i"
    using k by (cases qs; auto simp: commit_index_def f m inside_def patchnames_string_def split: list.splits)+
qed

lemma start_index_outcome:
  assumes "view_ok v" "fits v" "\<not> le_checks env" "resolvable env v d os"
  shows "start_index env v os d \<noteq> Panic"
    and "start_index env v os d = Ok i \<Longrightarrow> inside v i \<or> starts_offset (po_str os)"
proof -
  have applied: "length (v_applied v) \<le> length (all_patches v)" by (simp add: all_patches_def)
  have "start_index env v os d \<noteq> Panic \<and>
    (\<forall>i. start_index env v os d = Ok i \<longrightarrow> inside v i \<or> starts_offset (po_str os))"
  proof (cases d)
    case (DI_Name pn)
    show ?thesis
    proof (cases "has_patch v pn")
      case True
      then obtain k where "k < length (all_patches v)" "pn = all_patches v ! k"
        using view_ok_has [OF assms(1), of pn] by (auto simp: in_set_conv_nth)
      then show ?thesis using DI_Name by (simp add: known_index_nth [OF assms(1,2)] inside_def)
    next
      case False
      then show ?thesis using DI_Name by (simp add: known_index_def split: option.split)
    qed
  next
    case (DI_CommitId p)
    then show ?thesis using assms(4) commit_index_outcome [OF assms(1,2), of env p]
      by (simp add: resolvable_def)
  next
    case DI_Top
    then show ?thesis using assms applied as_isize_index [OF assms(2) applied]
      by (auto simp: top_index_def resolvable_def inside_def fits_def wrap_isize_id isize_ok_def)
  next
    case DI_Base
    then show ?thesis using assms(4) by (auto simp: resolvable_def offsets_empty_def)
  next
    case (DI_Index n)
    then show ?thesis using assms(2) as_isize_index [of v n]
      by (auto simp: absolute_index_def inside_def)
  next
    case (DI_FromTop n)
    then show ?thesis using assms(3) by (auto simp: from_top_index_def inside_def)
  next
    case (DI_FromBase n)
    then have "n < 1 \<or> wrap_isize (n - 1) = n - 1"
      using assms(4) by (auto simp: resolvable_def isize_ok_def intro!: wrap_isize_id)
    then show ?thesis using DI_FromBase assms(3) by (auto simp: inside_def)
  next
    case (DI_FromLast n)
    obtain k where k: "usize_arith False (int (length (applied_and_unapplied v)) - 1) = (Ok k :: ('a locator_error, _) outcome)"
      using usize_arith_release by blast
    have "as_isize i = int i" if "i < length (all_patches v)" for i
      using that by (simp add: as_isize_index [OF assms(2)])
    then show ?thesis using DI_FromLast assms(3) k
      by (simp add: from_last_index_def inside_def split: option.split)
  qed
  then show "start_index env v os d \<noteq> Panic"
    "start_index env v os d = Ok i \<Longrightarrow> inside v i \<or> starts_offset (po_str os)" by auto
qed

text \<open>
  C29: In a build without overflow checks, resolving a locator that was parsed from a string never
  panics, with one exception: the locator is a patch name that is not in the stack and spells
  the number \<open>isize::MIN\<close>, whose absolute value the code expects to fit into \<open>isize\<close>.
\<close>

theorem resolve_name_returns:
  fixes env :: "'p locator_env"
  assumes "view_ok v" "fits v" "\<not> le_checks env"
    "locator_from_str s = (Ok l :: ('p locator_error, patch_locator) outcome)"
    "\<nexists>pn. pl_id l = PI_Name pn \<and> \<not> has_patch v pn \<and> min_number (pn_str pn)"
  shows "resolve_name env l v \<noteq> Panic"
proof -
  have l: "locator_ok l"
    using assms(4) by (intro locator_parsed_ok [of s]) (auto simp: locator_from_str_def parse_all_iff split: option.splits)
  have "disambiguated env v (\<exists>pn. pl_id l = PI_Name pn \<and> min_number (pn_str pn))
      (disambiguate env l v :: ('p locator_error, _) outcome)"
    by (rule disambiguate_outcome [OF assms(1,3) l])
  moreover have "disambiguate env l v \<noteq> (Panic :: ('p locator_error, _) outcome)"
    if "pl_id l = PI_Name pn" "has_patch v pn" for pn
    using that by (simp add: disambiguate_def)
  ultimately obtain d os where d: "disambiguate env l v = (Ok (d, os) :: ('p locator_error, _) outcome)"
    "resolvable env v d os"
    using assms(5) by (cases "disambiguate env l v :: ('p locator_error, _) outcome") auto
  note start = start_index_outcome [OF assms(1-3) d(2)]
  obtain as where as: "offsets_atoms os = (Ok as :: ('p locator_error, _) outcome)"
    using offsets_atoms_total by blast
  have "patch_at v j \<noteq> (Panic :: ('p locator_error, _) outcome)"
    if i: "start_index env v os d = Ok i"
      and j: "offset_loop (\<lambda>i. 0 \<le> i \<and> i < as_isize (length (all_patches v))) e i as = Ok j"
    for i j and e :: "'p locator_error"
  proof -
    have "as \<noteq> [] \<or> inside v i"
      using start(2) [OF i] starts_offset_atoms [of os, where ?'a = "'p locator_error"] as by auto
    then have "inside v j" using j
      by (induction as arbitrary: i)
        (auto simp: inside_def as_isize_len [OF assms(2)] split: option.splits if_splits)
    then show ?thesis by (simp add: patch_at_inside)
  qed
  moreover have "offset_loop P e i as \<noteq> Panic" for P and e :: "'p locator_error" and i
    by (induction as arbitrary: i) (auto split: option.splits)
  ultimately show ?thesis using d(1) start(1) as by (auto simp: resolve_name_def)
qed

theorem resolve_name_returns_witness:
  "resolve_name ex_env (mk_locator (PI_Name (PatchName (str ''9''))) (PatchOffsets [])) (state_view ex_state) \<noteq> Panic"
proof (rule resolve_name_returns [OF ex_view_ok])
  show "fits (state_view ex_state)" by (simp add: fits_def ex_patches)
  show "\<not> le_checks ex_env" by (simp add: ex_env_def)
  show "locator_from_str (str ''9'') =
      (Ok (mk_locator (PI_Name (PatchName (str ''9''))) (PatchOffsets [])) :: (nat locator_error, _) outcome)"
    by code_simp
  have "parse_patch_offsets [] = Parsed (PatchOffsets []) []" by code_simp
  then
  have "parse_all sign_number_offsets (str ''9'') = Some (None, Some 9, PatchOffsets [])"
    by (simp add: parse_all_def sign_number_offsets_def alt_def pmap_def pair_def pbind_def negative_int_def
       plusative_int_def try_map_def ptake_def pchar_def str_def unsigned_int_def digit1_def take_while1_def
       is_ascii_digit_def parse_isize_def parse_digits_def dec_value_def)
  then show "\<nexists>pn. pl_id (mk_locator (PI_Name (PatchName (str ''9''))) (PatchOffsets [])) = PI_Name pn \<and>
      \<not> has_patch (state_view ex_state) pn \<and> min_number (pn_str pn)"
    by (auto simp: mk_locator_def min_number_def)
qed

definition min_name :: patch_name where
  "min_name = PatchName (str ''-9223372036854775808'')"

lemma min_number_parsed:
  "parse_all sign_number_offsets (pn_str min_name) =
     Some (Some SignMinus, Some 9223372036854775808, PatchOffsets [])"
proof -
  have "parse_patch_offsets [] = Parsed (PatchOffsets []) []" by code_simp
  then show ?thesis
    by (simp add: min_name_def parse_all_def sign_number_offsets_def alt_def pmap_def pair_def pbind_def negative_int_def
       try_map_def ptake_def pchar_def str_def digit1_def take_while1_def
       is_ascii_digit_def parse_isize_def parse_digits_def dec_value_def Let_def)
qed

lemma min_name_free:
  "prefix_matches (state_view ex_state) (pn_str min_name) = []"
  "parse_all patch_locator_top (pn_str min_name) = None"
  "parse_all patch_locator_base (pn_str min_name) = None"
  "commit_match ex_env (state_view ex_state) (pn_str min_name) = Ok None"
  "\<not> has_patch (state_view ex_state) min_name"
  by (simp_all add: prefix_matches_def ex_patches strip_prefix_def min_name_def str_def pa_def pb_def pc_def pd_def
      List.map_filter_simps parse_all_def patch_locator_top_def patch_locator_base_def alt_def pmap_def pair_def
      pbind_def pchar_def literal_def base_name_def commit_match_def oid_prefix_offsets_def try_map_def hex_digit1_def
      take_while1_def is_ascii_hexdigit_def is_ascii_digit_def has_patch_def state_view_def ex_state_def bt_get_def
      all_patches_def)

text \<open>
  Not even a build without overflow checks can resolve a patch name that spells \<open>isize::MIN\<close>: the absolute
  value does not fit into \<open>isize\<close>, which \<open>disambiguate\<close> expects.
\<close>

lemma resolve_min_panics:
  "resolve_name ex_env (mk_locator (PI_Name min_name) (PatchOffsets [])) (state_view ex_state) = Panic"
  by (simp add: resolve_name_def disambiguate_def mk_locator_def disambiguate_name_def min_name_free
      min_number_parsed signed_number_def isize_checked_def isize_ok_def max_by_key_def)

end
