(* ===== verification/Range_Props.thy ===== *)
theory Range_Props
  imports Locator_Props
begin

text \<open>
  Properties of the resolution of patch ranges: the result consists of distinct allowed patches, a
  contiguous resolution is a segment of the stack, and neither panics unless a locator does.
\<close>

section \<open>Positions\<close>

abbreviation allowed_of :: "stack_view \<Rightarrow> range_constraint \<Rightarrow> patch_name list" where
  "allowed_of v allow \<equiv> get_allowed v (location_of_range allow)"

definition segment :: "nat \<Rightarrow> nat \<Rightarrow> 'a list \<Rightarrow> 'a list" where
  "segment a b xs = take (Suc b - a) (drop a xs)"

lemma segment_set: "set (segment a b xs) \<subseteq> set xs"
  unfolding segment_def by (meson order_trans set_drop_subset set_take_subset)

lemma segment_distinct: "distinct xs \<Longrightarrow> distinct (segment a b xs)"
  by (simp add: segment_def)

lemma resolve_bound_Ok:
  assumes "view_ok v" "resolve_bound env v allow loc = Ok pn"
  shows "pn \<in> set (allowed_of v allow)"
proof -
  obtain q where q: "resolve_name env loc v = Ok q" "constrain v (location_of_range allow) q = Ok pn"
    using assms(2) by (auto simp: resolve_bound_def)
  then have "q \<in> set (all_patches v)" unfolding resolve_name_run by (auto simp: inside_def)
  then show ?thesis using q(2) by (simp add: view_acc.constrain_iff(1) [OF assms(1)])
qed

lemma resolve_bound_Panic:
  assumes "view_ok v" "resolve_bound env v allow loc = Panic"
  shows "resolve_name env loc v = Panic"
proof (rule ccontr)
  assume "resolve_name env loc v \<noteq> Panic"
  then obtain q where q: "resolve_name env loc v = Ok q" "constrain v (location_of_range allow) q = Panic"
    using assms(2) by (auto simp: resolve_bound_def)
  then have "q \<in> set (all_patches v)" unfolding resolve_name_run by (auto simp: inside_def)
  then show False using q(2) by (simp add: view_acc.constrain_iff(2) [OF assms(1)])
qed

lemma resolve_opt_cases:
  assumes "view_ok v"
  shows "resolve_opt env v allow b = Ok (Some pn) \<Longrightarrow> pn \<in> set (allowed_of v allow)"
    and "resolve_opt env v allow b = Panic \<Longrightarrow> \<exists>loc. b = Some loc \<and> resolve_name env loc v = Panic"
  using resolve_bound_Ok [OF assms] resolve_bound_Panic [OF assms]
  by (auto simp: resolve_opt_def split: option.splits)

lemma allowed_pos_Ok:
  assumes "pn \<in> set allowed"
  obtains i where "allowed_pos allowed pn = Ok i" "i < length allowed" "allowed ! i = pn"
proof -
  obtain i where i: "position (\<lambda>q. q = pn) allowed = Some i" using position_mem [OF assms] by blast
  with position_SomeD [OF i] that show thesis by (simp add: allowed_pos_def)
qed

lemma begin_position_cases:
  assumes "\<And>pn. b = Some pn \<Longrightarrow> pn \<in> set allowed"
  shows "\<exists>i. begin_position allowed b = Ok i \<and> (i < length allowed \<or> i = 0 \<and> b = None)"
proof (cases b)
  case (Some pn)
  then show ?thesis using assms allowed_pos_Ok by (metis begin_position_def option.simps(5))
qed (simp add: begin_position_def)

lemma applied_within: "use_applied_boundary allow \<Longrightarrow> length (v_applied v) \<le> length (allowed_of v allow)"
  by (auto simp: use_applied_boundary_def all_patches_def applied_and_unapplied_def)

lemma open_end_cases:
  assumes "i < length (allowed_of v allow) \<or> i = 0"
  shows "open_end v allow (allowed_of v allow) i = Some j \<Longrightarrow> i \<le> j \<and> j < length (allowed_of v allow)"
    and "open_end v allow (allowed_of v allow) i = None \<Longrightarrow> allowed_of v allow = []"
  using assms applied_within [of allow v]
  by (auto simp: open_end_def split: if_splits)

lemma slice_segment: "i \<le> j \<Longrightarrow> j < length xs \<Longrightarrow> slice xs i j = Ok (segment i j xs)"
  by (simp add: slice_def segment_def)

lemma push_names_Ok:
  "push_names ps sel = Ok qs \<longleftrightarrow> qs = ps @ sel \<and> distinct sel \<and> set ps \<inter> set sel = {}"
  by (induction sel arbitrary: ps) auto

lemma push_names_not_Panic [simp]: "push_names ps sel \<noteq> Panic"
  by (induction sel arbitrary: ps) auto

lemma resolve_name_self:
  assumes "view_ok v" "fits v" "pn \<in> set (all_patches v)"
  shows "resolve_name env (mk_locator (PI_Name pn) (PatchOffsets [])) v = Ok pn"
proof -
  obtain i where i: "i < length (all_patches v)" "pn = all_patches v ! i"
    using assms(3) by (auto simp: in_set_conv_nth)
  then show ?thesis using view_ok_has [OF assms(1), of pn] assms(3) known_index_nth [OF assms(1,2) i(1), of env]
    by (simp add: resolve_name_def disambiguate_def mk_locator_def no_atoms patch_at_inside inside_def
        del: obind_Ok_iff)
qed

section \<open>One range\<close>

definition locators_of :: "patch_range \<Rightarrow> patch_locator set" where
  "locators_of rg =
     (case rg of PR_Single l \<Rightarrow> {l} | PR_Range b \<Rightarrow> set_option (rb_begin b) \<union> set_option (rb_end b))"

text \<open>The positions that a range with bounds stands for, and its error or panic otherwise.\<close>

lemma range_positions:
  fixes env :: "'p locator_env"
  assumes "view_ok v"
  obtains
    (err) e where "resolve_opt env v allow (rb_begin b) = Err e \<or>
      (\<exists>x. resolve_opt env v allow (rb_begin b) = Ok x \<and> resolve_opt env v allow (rb_end b) = Err e)"
  | (panic) "\<exists>loc\<in>locators_of (PR_Range b). resolve_name env loc v = Panic"
      "resolve_opt env v allow (rb_begin b) = Panic \<or>
      (\<exists>x. resolve_opt env v allow (rb_begin b) = Ok x \<and> resolve_opt env v allow (rb_end b) = Panic)"
  | (bounded) x i y j where "resolve_opt env v allow (rb_begin b) = Ok x"
      "begin_position (allowed_of v allow) x = (Ok i :: ('p range_error, nat) outcome)"
      "resolve_opt env v allow (rb_end b) = Ok (Some y)"
      "allowed_pos (allowed_of v allow) y = (Ok j :: ('p range_error, nat) outcome)"
      "i < length (allowed_of v allow)" "j < length (allowed_of v allow)"
  | (opened) x i where "resolve_opt env v allow (rb_begin b) = Ok x"
      "begin_position (allowed_of v allow) x = (Ok i :: ('p range_error, nat) outcome)"
      "resolve_opt env v allow (rb_end b) = Ok None"
      "i < length (allowed_of v allow) \<or> i = 0"
proof (cases "resolve_opt env v allow (rb_begin b)")
  case (Err e)
  then show thesis by (intro err) simp
next
  case Panic
  then show thesis using resolve_opt_cases(2) [OF assms Panic] by (intro panic) (auto simp: locators_of_def)
next
  case x: (Ok x)
  obtain i where i: "begin_position (allowed_of v allow) x = (Ok i :: ('p range_error, nat) outcome)"
    "i < length (allowed_of v allow) \<or> i = 0 \<and> x = None"
    using begin_position_cases [of x "allowed_of v allow"] resolve_opt_cases(1) [OF assms] x by blast
  show thesis
  proof (cases "resolve_opt env v allow (rb_end b)")
    case (Err e)
    then show thesis using x by (intro err) simp
  next
    case Panic
    then show thesis using x resolve_opt_cases(2) [OF assms Panic] by (intro panic) (auto simp: locators_of_def)
  next
    case (Ok y)
    show thesis
    proof (cases y)
      case None
      then show thesis using x i Ok by (intro opened [of x i]) auto
    next
      case (Some pn)
      then have "pn \<in> set (allowed_of v allow)" using resolve_opt_cases(1) [OF assms] Ok by blast
      then show thesis
        using allowed_pos_Ok [of pn "allowed_of v allow"] x i Ok Some
        by (metis bounded gr_implies_not0 length_greater_0_conv less_imp_Suc_add list.set(1) empty_iff
            length_pos_if_in_set)
    qed
  qed
qed

text \<open>The patches between two positions, in the order in which the bounds are given.\<close>

definition between :: "nat \<Rightarrow> nat \<Rightarrow> 'a list \<Rightarrow> 'a list" where
  "between i j xs = (if i \<le> j then segment i j xs else rev (segment j i xs))"

lemma select_between:
  "i < length xs \<Longrightarrow> j < length xs \<Longrightarrow> select_patches xs i j = Ok (between i j xs)"
  by (simp add: select_patches_def between_def slice_segment)

lemma between_set: "set (between i j xs) \<subseteq> set xs"
  using segment_set [of i j xs] segment_set [of j i xs] by (auto simp: between_def)

lemma resolve_range_step:
  assumes "view_ok v"
  shows "resolve_range env v allow ps rg = Ok qs \<Longrightarrow> distinct ps \<Longrightarrow>
      distinct qs \<and> set qs \<subseteq> set ps \<union> set (allowed_of v allow)"
    and "resolve_range env v allow ps rg = Panic \<Longrightarrow>
      \<exists>loc\<in>locators_of rg. resolve_name env loc v = Panic"
proof -
  let ?A = "allowed_of v allow"
  have "(resolve_range env v allow ps rg = Panic \<longrightarrow> (\<exists>loc\<in>locators_of rg. resolve_name env loc v = Panic)) \<and>
    (\<forall>qs. resolve_range env v allow ps rg = Ok qs \<longrightarrow> distinct ps \<longrightarrow> distinct qs \<and> set qs \<subseteq> set ps \<union> set ?A)"
  proof (cases rg)
    case (PR_Single loc)
    then show ?thesis
      using resolve_bound_Ok [OF assms, of env allow loc] resolve_bound_Panic [OF assms, of env allow loc]
      by (auto simp: resolve_range_def locators_of_def)
  next
    case (PR_Range b)
    show ?thesis
      using assms
    proof (cases rule: range_positions [where env = env and allow = allow and b = b])
      case (err e)
      then show ?thesis using PR_Range by (auto simp: resolve_range_def)
    next
      case panic
      then show ?thesis using PR_Range by (auto simp: resolve_range_def)
    next
      case (bounded x i y j)
      then have "resolve_range env v allow ps rg = push_names ps (between i j ?A)"
        using PR_Range by (simp add: resolve_range_def select_between)
      then show ?thesis using between_set [of i j ?A] by (auto simp: push_names_Ok)
    next
      case (opened x i)
      show ?thesis
      proof (cases "open_end v allow ?A i")
        case None
        then have "resolve_range env v allow ps rg = Ok ps" using opened PR_Range by (simp add: resolve_range_def)
        then show ?thesis by auto
      next
        case (Some j)
        then have "i \<le> j" "j < length ?A" using open_end_cases(1) [OF opened(4)] by auto
        then have "resolve_range env v allow ps rg = push_names ps (between i j ?A)"
          using Some opened PR_Range by (simp add: resolve_range_def select_between)
        then show ?thesis using between_set [of i j ?A] by (auto simp: push_names_Ok)
      qed
    qed
  qed
  then show "resolve_range env v allow ps rg = Ok qs \<Longrightarrow> distinct ps \<Longrightarrow>
      distinct qs \<and> set qs \<subseteq> set ps \<union> set ?A"
    "resolve_range env v allow ps rg = Panic \<Longrightarrow> \<exists>loc\<in>locators_of rg. resolve_name env loc v = Panic"
    by blast+
qed

lemma resolve_ranges_all:
  assumes "view_ok v"
  shows "resolve_ranges env v allow ps rgs = Ok qs \<Longrightarrow> distinct ps \<Longrightarrow>
      distinct qs \<and> set qs \<subseteq> set ps \<union> set (allowed_of v allow)"
    and "resolve_ranges env v allow ps rgs = Panic \<Longrightarrow>
      \<exists>rg\<in>set rgs. \<exists>loc\<in>locators_of rg. resolve_name env loc v = Panic"
proof (induction rgs arbitrary: ps)
  case (Cons rg rgs)
  {
    case 1
    then show ?case using Cons.IH(1) resolve_range_step(1) [OF assms] by fastforce
  next
    case 2
    then show ?case using Cons.IH(2) resolve_range_step(2) [OF assms] by fastforce
  }
qed simp_all

section \<open>Contiguous ranges\<close>

text \<open>
  The state of the loop: nothing yet, or a segment of the allowed patches that ends before the
  next position.
\<close>

definition contig_ok :: "'a list \<Rightarrow> 'a list \<Rightarrow> nat option \<Rightarrow> bool" where
  "contig_ok A ps n \<longleftrightarrow>
     (case n of None \<Rightarrow> ps = [] | Some n \<Rightarrow> \<exists>k\<le>n. n \<le> length A \<and> ps = take (n - k) (drop k A))"

lemma contig_ok_step:
  assumes "contig_ok A ps n" "n = None \<or> n = Some i" "i \<le> j" "j < length A"
  shows "contig_ok A (ps @ segment i j A) (Some (Suc j))"
proof (cases n)
  case None
  then show ?thesis using assms by (auto simp: contig_ok_def segment_def intro!: exI [of _ i])
next
  case (Some m)
  then obtain k where k: "k \<le> i" "ps = take (i - k) (drop k A)"
    using assms(1,2) by (auto simp: contig_ok_def)
  have "take (i - k) (drop k A) @ take (Suc j - i) (drop (i - k) (drop k A)) = take (i - k + (Suc j - i)) (drop k A)"
    by (simp add: take_add)
  then have "ps @ segment i j A = take (Suc j - k) (drop k A)"
    using k assms(3) by (simp add: segment_def)
  then show ?thesis using assms(3,4) k(1) by (auto simp: contig_ok_def intro!: exI [of _ k])
qed

lemma segment_one: "i < length xs \<Longrightarrow> segment i i xs = [xs ! i]"
  by (simp add: segment_def Suc_diff_le take_Suc hd_drop_conv_nth)

lemma resolve_contiguous_step:
  fixes env :: "'p locator_env"
  assumes "view_ok v" "contig_ok (allowed_of v allow) (cg_patches cg) (cg_next cg)"
  shows "resolve_contiguous env v allow cg rg = Ok cg' \<Longrightarrow>
      contig_ok (allowed_of v allow) (cg_patches cg') (cg_next cg') \<and>
      (cg_prev cg' = None \<longrightarrow> cg_prev cg = None \<and> cg_next cg' = cg_next cg) \<and>
      resolve_range env v allow (cg_patches cg) rg = Ok (cg_patches cg')"
    and "resolve_contiguous env v allow cg rg = Panic \<Longrightarrow> cg_next cg = None \<or> cg_prev cg \<noteq> None \<Longrightarrow>
      \<exists>loc\<in>locators_of rg. resolve_name env loc v = Panic"
proof -
  let ?A = "allowed_of v allow"
  let ?goal = "(resolve_contiguous env v allow cg rg = Panic \<longrightarrow> cg_next cg = None \<or> cg_prev cg \<noteq> None \<longrightarrow>
      (\<exists>loc\<in>locators_of rg. resolve_name env loc v = Panic)) \<and>
    (\<forall>cg'. resolve_contiguous env v allow cg rg = Ok cg' \<longrightarrow>
      contig_ok ?A (cg_patches cg') (cg_next cg') \<and>
      (cg_prev cg' = None \<longrightarrow> cg_prev cg = None \<and> cg_next cg' = cg_next cg) \<and>
      resolve_range env v allow (cg_patches cg) rg = Ok (cg_patches cg'))"
  have ?goal
  proof (cases rg)
    case (PR_Single loc)
    show ?thesis
    proof (cases "resolve_bound env v allow loc")
      case (Ok pn)
      obtain i where i: "allowed_pos ?A pn = (Ok i :: ('p range_error, nat) outcome)" "i < length ?A" "?A ! i = pn"
        using allowed_pos_Ok [OF resolve_bound_Ok [OF assms(1) Ok]] by blast
      have "cg_next cg = None \<or> cg_next cg = Some i \<Longrightarrow> contig_ok ?A (cg_patches cg @ [pn]) (Some (Suc i))"
        using contig_ok_step [OF assms(2), of i i] i segment_one [of i ?A] by simp
      then show ?thesis using PR_Single Ok i
        by (auto simp: resolve_contiguous_def resolve_range_def not_contiguous_def)
    next
      case Panic
      then show ?thesis using PR_Single resolve_bound_Panic [OF assms(1), of env allow loc]
        by (auto simp: resolve_contiguous_def locators_of_def)
    qed (use PR_Single in \<open>auto simp: resolve_contiguous_def\<close>)
  next
    case (PR_Range b)
    have run: "resolve_contiguous env v allow cg rg =
        (if cg_next cg \<noteq> None \<and> Some i \<noteq> cg_next cg then not_contiguous cg rg
         else obind (push_names (cg_patches cg) (segment i j ?A)) (\<lambda>ps.
           Ok \<lparr>cg_patches = ps, cg_next = Some (j + 1), cg_prev = Some rg\<rparr>)) \<and>
        resolve_range env v allow (cg_patches cg) rg = push_names (cg_patches cg) (segment i j ?A) \<Longrightarrow>
        i \<le> j \<Longrightarrow> j < length ?A \<Longrightarrow> ?goal" for i j
      using contig_ok_step [OF assms(2), of i j]
      by (auto simp: not_contiguous_def push_names_Ok split: if_splits)
    show ?thesis
      using assms(1)
    proof (cases rule: range_positions [where env = env and allow = allow and b = b])
      case (err e)
      then show ?thesis using PR_Range by (auto simp: resolve_contiguous_def)
    next
      case panic
      then show ?thesis using PR_Range by (auto simp: resolve_contiguous_def)
    next
      case (bounded x i y j)
      show ?thesis
      proof (cases "i \<le> j")
        case True
        then show ?thesis using bounded PR_Range
          by (intro run [of i j])
            (simp_all add: resolve_contiguous_def resolve_range_def select_patches_def slice_segment)
      next
        case False
        then show ?thesis using bounded PR_Range
          by (auto simp: resolve_contiguous_def not_contiguous_def Let_def split: if_splits)
      qed
    next
      case (opened x i)
      show ?thesis
      proof (cases "open_end v allow ?A i")
        case None
        then show ?thesis using opened PR_Range assms(2)
          by (auto simp: resolve_contiguous_def resolve_range_def not_contiguous_def Let_def split: if_splits)
      next
        case (Some j)
        then have "i \<le> j" "j < length ?A" using open_end_cases(1) [OF opened(4)] by auto
        then show ?thesis using opened Some PR_Range
          by (intro run [of i j])
            (simp_all add: resolve_contiguous_def resolve_range_def select_patches_def slice_segment)
      qed
    qed
  qed
  then show "resolve_contiguous env v allow cg rg = Ok cg' \<Longrightarrow>
      contig_ok ?A (cg_patches cg') (cg_next cg') \<and>
      (cg_prev cg' = None \<longrightarrow> cg_prev cg = None \<and> cg_next cg' = cg_next cg) \<and>
      resolve_range env v allow (cg_patches cg) rg = Ok (cg_patches cg')"
    "resolve_contiguous env v allow cg rg = Panic \<Longrightarrow> cg_next cg = None \<or> cg_prev cg \<noteq> None \<Longrightarrow>
      \<exists>loc\<in>locators_of rg. resolve_name env loc v = Panic"
    by blast+
qed

lemma resolve_contiguous_all_steps:
  assumes "view_ok v" "contig_ok (allowed_of v allow) (cg_patches cg) (cg_next cg)"
  shows "resolve_contiguous_all env v allow cg rgs = Ok cg' \<Longrightarrow>
      contig_ok (allowed_of v allow) (cg_patches cg') (cg_next cg') \<and>
      resolve_ranges env v allow (cg_patches cg) rgs = Ok (cg_patches cg')"
    and "resolve_contiguous_all env v allow cg rgs = Panic \<Longrightarrow> cg_next cg = None \<or> cg_prev cg \<noteq> None \<Longrightarrow>
      \<exists>rg\<in>set rgs. \<exists>loc\<in>locators_of rg. resolve_name env loc v = Panic"
  using assms(2)
proof (induction rgs arbitrary: cg)
  case (Cons rg rgs)
  note step = resolve_contiguous_step [OF assms(1), where rg = rg and env = env]
  {
    case 1
    then show ?case using step(1) [OF 1(2)] Cons.IH(1) by fastforce
  next
    case 2
    then show ?case using step [OF 2(3)] Cons.IH(2) by fastforce
  }
qed simp_all

section \<open>Properties\<close>

text \<open>
  C33: The text of a parsed patch range is parsed back to the same range, whatever redundant
  spelling (leading zeros, an escaped dash) the first text had.
\<close>

theorem range_parses_back:
  assumes "range_from_str s = (Ok rg :: ('p range_error, patch_range) outcome)"
  shows "range_from_str (show_range rg) = (Ok rg :: ('p range_error, patch_range) outcome)"
proof -
  have "parse_all parse_patch_range s = Some rg"
    using assms by (auto simp: range_from_str_def split: option.splits)
  then have "parse_all parse_patch_range (show_range rg) = Some rg"
    unfolding parse_all_iff by (rule range_again)
  then show ?thesis by (simp add: range_from_str_def)
qed

theorem range_parses_back_witness:
  "range_from_str (str ''^7..~3'') =
     (Ok (PR_Range \<lparr>rb_begin = Some (mk_locator (PI_BelowLast (Some 7)) (PatchOffsets [])),
       rb_end = Some (mk_locator (PI_BelowTop (Some 3)) (PatchOffsets []))\<rparr>) :: (nat range_error, patch_range) outcome)"
proof -
  have "range_from_str (str ''^007..~03'') =
     (Ok (PR_Range \<lparr>rb_begin = Some (mk_locator (PI_BelowLast (Some 7)) (PatchOffsets [])),
       rb_end = Some (mk_locator (PI_BelowTop (Some 3)) (PatchOffsets []))\<rparr>) :: (nat range_error, patch_range) outcome)"
    by code_simp
  from range_parses_back [OF this] show ?thesis
    by (simp add: show_bounds_def show_locator_def mk_locator_def show_int_def show_nat.simps dotdot_def str_def)
qed

text \<open>
  C30: Resolving patch ranges gives distinct patches, all of them allowed by the constraint, and it can
  only panic where resolving one of the locators panics: none of the assertions about positions in
  the allowed patches fails, and no slice is out of range.
\<close>

theorem resolve_names_sound:
  assumes "view_ok v"
  shows "case resolve_names env v rgs allow of
      Ok ps \<Rightarrow> distinct ps \<and> set ps \<subseteq> set (get_allowed v (location_of_range allow))
    | Err e \<Rightarrow> True
    | Panic \<Rightarrow> \<exists>rg\<in>set rgs. \<exists>loc\<in>locators_of rg. resolve_name env loc v = Panic"
  using resolve_ranges_all [OF assms, of env allow "[]" rgs]
  by (auto simp: resolve_names_def split: outcome.split)

theorem resolve_names_sound_witness:
  "case resolve_names ex_env (state_view ex_state) [PR_Range \<lparr>rb_begin = None, rb_end = None\<rparr>] RC_All of
     Ok ps \<Rightarrow> distinct ps \<and> set ps \<subseteq> {pa, pb, pc, pd} | Err e \<Rightarrow> True | Panic \<Rightarrow> False"
  using resolve_names_sound [OF ex_view_ok, where env = ex_env and rgs = "[PR_Range \<lparr>rb_begin = None, rb_end = None\<rparr>]"
      and allow = RC_All]
  by (simp add: ex_patches locators_of_def split: outcome.splits)

text \<open>
  C31: Resolving contiguous ranges gives a segment of the allowed patches in stack order, the same
  patches as the resolution without the contiguity check, and panics only where a locator does.
\<close>

theorem resolve_names_contiguous_segment:
  assumes "view_ok v"
  shows "case resolve_names_contiguous env v rgs allow of
      Ok ps \<Rightarrow> sublist ps (get_allowed v (location_of_range allow)) \<and>
        resolve_names env v rgs allow = Ok ps
    | Err e \<Rightarrow> True
    | Panic \<Rightarrow> \<exists>rg\<in>set rgs. \<exists>loc\<in>locators_of rg. resolve_name env loc v = Panic"
proof -
  let ?cg = "\<lparr>cg_patches = [], cg_next = None, cg_prev = None\<rparr>"
  have start: "contig_ok (allowed_of v allow) (cg_patches ?cg) (cg_next ?cg)" by (simp add: contig_ok_def)
  have seg: "contig_ok A ps n \<Longrightarrow> sublist ps A" for A ps :: "patch_name list" and n
    by (auto simp: contig_ok_def split: option.splits)
      (meson sublist_drop sublist_order.order_trans sublist_take)
  show ?thesis
    using resolve_contiguous_all_steps [OF assms start, of env rgs] seg
    by (auto simp: resolve_names_contiguous_def resolve_names_def split: outcome.split)
qed

theorem resolve_names_contiguous_segment_witness:
  "resolve_names_contiguous ex_env (state_view ex_state) [PR_Range \<lparr>rb_begin = None, rb_end = None\<rparr>] RC_Visible
     = Ok [pa, pb, pc] \<and> sublist [pa, pb, pc] (get_allowed (state_view ex_state) LC_Visible)"
proof -
  have "resolve_names_contiguous ex_env (state_view ex_state) [PR_Range \<lparr>rb_begin = None, rb_end = None\<rparr>] RC_Visible
     = Ok [pa, pb, pc]" by code_simp
  then show ?thesis
    using resolve_names_contiguous_segment [OF ex_view_ok, where env = ex_env
        and rgs = "[PR_Range \<lparr>rb_begin = None, rb_end = None\<rparr>]" and allow = RC_Visible]
    by simp
qed

text \<open>
  C32: A range between two patches of the allowed ones stands for the patches between them, the bounds
  included, in the order of the stack if the first bound comes first and in reverse order otherwise.
\<close>

theorem resolve_names_between:
  assumes "view_ok v" "fits v" "get_allowed v (location_of_range allow) = A" "i < length A" "j < length A"
  shows "resolve_names env v
      [PR_Range \<lparr>rb_begin = Some (mk_locator (PI_Name (A ! i)) (PatchOffsets [])),
        rb_end = Some (mk_locator (PI_Name (A ! j)) (PatchOffsets []))\<rparr>] allow =
    Ok (if i \<le> j then take (Suc j - i) (drop i A) else rev (take (Suc i - j) (drop j A)))"
proof -
  have A: "set A \<subseteq> set (all_patches v)" "distinct A"
    using view_acc.get_allowed_subset [of v] view_acc.get_allowed_distinct [OF assms(1)] assms(3) by auto
  have bound: "resolve_opt env v allow (Some (mk_locator (PI_Name (A ! k)) (PatchOffsets []))) = Ok (Some (A ! k))"
    if "k < length A" for k
  proof -
    have "A ! k \<in> set A" "A ! k \<in> set (all_patches v)" using that A(1) nth_mem by blast+
    then have "constrain v (location_of_range allow) (A ! k) = Ok (A ! k)"
      "resolve_name env (mk_locator (PI_Name (A ! k)) (PatchOffsets [])) v = Ok (A ! k)"
      using view_acc.constrain_iff(1) [OF assms(1)] resolve_name_self [OF assms(1,2)] assms(3) by simp_all
    then show ?thesis by (simp add: resolve_opt_def resolve_bound_def)
  qed
  have pos: "allowed_pos A (A ! k) = Ok k" if "k < length A" for k
    using position_eq_nth [OF A(2) that] by (simp add: allowed_pos_def)
  have "resolve_range env v allow [] (PR_Range \<lparr>rb_begin = Some (mk_locator (PI_Name (A ! i)) (PatchOffsets [])),
        rb_end = Some (mk_locator (PI_Name (A ! j)) (PatchOffsets []))\<rparr>) = push_names [] (between i j A)"
    using assms(3-5) by (simp add: resolve_range_def bound begin_position_def pos select_between)
  moreover have "distinct (between i j A)" using A(2) by (simp add: between_def segment_distinct)
  then have "push_names [] (between i j A) = Ok (between i j A)" by (simp add: push_names_Ok)
  ultimately have "resolve_names env v
      [PR_Range \<lparr>rb_begin = Some (mk_locator (PI_Name (A ! i)) (PatchOffsets [])),
        rb_end = Some (mk_locator (PI_Name (A ! j)) (PatchOffsets []))\<rparr>] allow = Ok (between i j A)"
    by (simp add: resolve_names_def)
  then show ?thesis unfolding between_def segment_def .
qed

theorem resolve_names_between_witness:
  "resolve_names ex_env (state_view ex_state)
     [PR_Range \<lparr>rb_begin = Some (mk_locator (PI_Name pc) (PatchOffsets [])),
       rb_end = Some (mk_locator (PI_Name pa) (PatchOffsets []))\<rparr>] RC_Visible = Ok [pc, pb, pa]"
proof -
  have "get_allowed (state_view ex_state) (location_of_range RC_Visible) = [pa, pb, pc]" by (simp add: ex_patches)
  from resolve_names_between [OF ex_view_ok _ this, of 2 0 ex_env] show ?thesis
    by (simp add: fits_def ex_patches)
qed

end
