(* ===== verification/Undo.thy ===== *)
theory Undo
  imports Execute
begin

text \<open>
  The commands \<open>undo\<close> and \<open>redo\<close>: \<open>src/cmd/undo.rs\<close> and \<open>src/cmd/redo.rs\<close>.

  The state log is the chain of state commits from the stack reference along the recorded previous
  states.  The messages of the commits tell undo and redo commands from the others.  The walk is a
  loop whose end depends on the repository, so it is a partial function: \<open>None\<close> means that it does not
  return.
\<close>

section \<open>Messages\<close>

datatype ur_state = URUndo int | URRedo int

text \<open>\<open>ByteSlice::fields_with\<close>: the non-empty pieces between separators.\<close>

fun fields_from :: "('a \<Rightarrow> bool) \<Rightarrow> 'a list \<Rightarrow> 'a list \<Rightarrow> 'a list list" where
  "fields_from sep cur [] = (if cur = [] then [] else [cur])"
| "fields_from sep cur (c # cs) =
     (if sep c then (if cur = [] then fields_from sep [] cs else cur # fields_from sep [] cs)
      else fields_from sep (cur @ [c]) cs)"

definition fields_with :: "('a \<Rightarrow> bool) \<Rightarrow> 'a list \<Rightarrow> 'a list list" where
  "fields_with sep s = fields_from sep [] s"

definition parse_undo_redo_message :: "rstring \<Rightarrow> ur_state option" where
  "parse_undo_redo_message msg =
     (case fields_with is_ascii_whitespace msg of
        [f0, f1] \<Rightarrow>
          (case parse_isize f1 of
             Some n \<Rightarrow>
               if f0 = str ''undo'' then Some (URUndo n)
               else if f0 = str ''redo'' then Some (URRedo n)
               else None
           | None \<Rightarrow> None)
      | _ \<Rightarrow> None)"

section \<open>Finding a state\<close>

definition no_redo_msg :: rstring where "no_redo_msg = str ''no more redo information available''"
definition no_undo_msg :: rstring where "no_undo_msg = str ''not enough undo information available''"

text \<open>One round of the loop: the steps that are left after a state with the given message.\<close>

definition next_steps :: "bool \<Rightarrow> int \<Rightarrow> ur_state option \<Rightarrow> (trans_error, int) outcome" where
  "next_steps chk undo_steps urstate =
     (if undo_steps > 0 then
        (case urstate of
           Some (URUndo n) \<Rightarrow> isize_arith chk (undo_steps + n)
         | _ \<Rightarrow> isize_arith chk (undo_steps - 1))
      else
        (case urstate of
           Some (URUndo _) \<Rightarrow> isize_arith chk (undo_steps + 1)
         | Some (URRedo n) \<Rightarrow> isize_arith chk (undo_steps - n)
         | None \<Rightarrow> Err (OtherError no_redo_msg)))"

partial_function (option) find_undo_loop ::
  "('x, 'w) git \<Rightarrow> bool \<Rightarrow> 'w repository \<Rightarrow> int \<Rightarrow> commit \<Rightarrow> (trans_error, stack_state) outcome option" where
  "find_undo_loop g chk repo undo_steps commit =
     (case from_commit g repo commit of
        Err e \<Rightarrow> Some (Err e)
      | Panic \<Rightarrow> Some Panic
      | Ok st \<Rightarrow>
          if undo_steps = 0 then Some (Ok st)
          else
            (case next_steps chk undo_steps (parse_undo_redo_message (c_message commit)) of
               Err e \<Rightarrow> Some (Err e)
             | Panic \<Rightarrow> Some Panic
             | Ok steps \<Rightarrow>
                 (case st_prev st of
                    None \<Rightarrow> Some (Err (OtherError no_undo_msg))
                  | Some prev \<Rightarrow> find_undo_loop g chk repo steps prev)))"

definition find_undo_state ::
  "('x, 'w) git \<Rightarrow> bool \<Rightarrow> 'w repository \<Rightarrow> stack \<Rightarrow> int \<Rightarrow> (trans_error, stack_state) outcome option" where
  "find_undo_state g chk repo sk undo_steps =
     (case peel_reference repo (sk_stack_refname sk) of
        Err e \<Rightarrow> Some (Err e)
      | Panic \<Rightarrow> Some Panic
      | Ok commit \<Rightarrow> find_undo_loop g chk repo undo_steps commit)"

section \<open>Commands\<close>

definition undo_options :: "bool \<Rightarrow> trans_options" where
  "undo_options hard =
     discard_changes hard (allow_bad_head True (use_index_and_worktree True default_options))"

text \<open>The closure given to \<open>transact\<close>; the search reads the repository as the transaction found it.\<close>

definition reset_closure :: "(trans_error, stack_state) outcome \<Rightarrow> ('w, unit) tm" where
  "reset_closure found = sbind (pure (\<lambda>_. found)) reset_to_state"

definition undo ::
  "('x, 'w) git \<Rightarrow> bool \<Rightarrow> bool \<Rightarrow> stack \<Rightarrow> int option \<Rightarrow> bool \<Rightarrow> 'w repository \<Rightarrow>
   ((trans_error, stack) outcome \<times> 'w repository) option" where
  "undo g chk interrupted sk number hard repo =
     (let undo_steps = (case number of Some n \<Rightarrow> n | None \<Rightarrow> 1) in
      map_option (\<lambda>found.
        run_transaction g interrupted sk (undo_options hard) (reset_closure found)
          (str ''undo '' @ show_int undo_steps) repo)
        (find_undo_state g chk repo sk undo_steps))"

text \<open>\<open>redo_steps as isize\<close> wraps, its negation may overflow.\<close>

definition redo ::
  "('x, 'w) git \<Rightarrow> bool \<Rightarrow> bool \<Rightarrow> stack \<Rightarrow> nat option \<Rightarrow> bool \<Rightarrow> 'w repository \<Rightarrow>
   ((trans_error, stack) outcome \<times> 'w repository) option" where
  "redo g chk interrupted sk number hard repo =
     (let redo_steps = (case number of Some n \<Rightarrow> n | None \<Rightarrow> 1) in
      map_option (\<lambda>found.
        run_transaction g interrupted sk (undo_options hard) (reset_closure found)
          (str ''redo '' @ show_nat redo_steps) repo)
        (case isize_arith chk (- wrap_isize (int redo_steps)) of
           Ok undo_steps \<Rightarrow> find_undo_state g chk repo sk undo_steps
         | Err e \<Rightarrow> Some (Err e)
         | Panic \<Rightarrow> Some Panic))"

end
