(* ===== verification/Undo_Props.thy ===== *)
theory Undo_Props
  imports Undo Execute_Props Trans_Props
begin

text \<open>
  Undo and redo against an abstract history.

  The log read from the repository is a list of messages and states (\<open>logged\<close>); \<open>find_in_log\<close> is the search
  on such a list.  \<open>history\<close> interprets a log as the states that undo can go back to and those that
  redo can restore.
\<close>

section \<open>The log as a list\<close>

type_synonym log_entry = "ur_state option \<times> stack_state"

primrec logged :: "('x, 'w) git \<Rightarrow> 'w repository \<Rightarrow> commit option \<Rightarrow> log_entry list \<Rightarrow> bool" where
  "logged g repo c [] = (c = None)"
| "logged g repo c (e # es) =
     (\<exists>k. c = Some k \<and> from_commit g repo k = Ok (snd e) \<and> parse_undo_redo_message (c_message k) = fst e \<and>
        logged g repo (st_prev (snd e)) es)"

text \<open>The search over exact integers.\<close>

definition step_count :: "int \<Rightarrow> ur_state option \<Rightarrow> int option" where
  "step_count n u =
     (if n > 0 then Some (case u of Some (URUndo m) \<Rightarrow> n + m | _ \<Rightarrow> n - 1)
      else (case u of Some (URUndo _) \<Rightarrow> Some (n + 1) | Some (URRedo m) \<Rightarrow> Some (n - m) | None \<Rightarrow> None))"

primrec find_in_log :: "int \<Rightarrow> log_entry list \<Rightarrow> (trans_error, stack_state) outcome" where
  "find_in_log n [] = Err (OtherError no_undo_msg)"
| "find_in_log n (e # es) =
     (if n = 0 then Ok (snd e)
      else case step_count n (fst e) of
             None \<Rightarrow> Err (OtherError no_redo_msg)
           | Some m \<Rightarrow> find_in_log m es)"

text \<open>All numbers in the messages, added to the first, stay in range.\<close>

primrec weight :: "ur_state option \<Rightarrow> int" where
  "weight None = 1"
| "weight (Some u) = (case u of URUndo m \<Rightarrow> \<bar>m\<bar> + 1 | URRedo m \<Rightarrow> \<bar>m\<bar> + 1)"

definition log_fits :: "int \<Rightarrow> log_entry list \<Rightarrow> bool" where
  "log_fits n es \<longleftrightarrow> \<bar>n\<bar> + sum_list (map (weight \<circ> fst) es) \<le> isize_max"

lemma weight_pos: "0 < weight u"
  by (cases u) (auto split: ur_state.split)

lemma weights_nonneg: "0 \<le> sum_list (map (weight \<circ> fst) es)"
  by (induction es) (auto simp: less_imp_le weight_pos add_nonneg_nonneg)

lemma step_count_bound: "step_count n u = Some m \<Longrightarrow> \<bar>m\<bar> \<le> \<bar>n\<bar> + weight u"
  by (cases u) (auto simp: step_count_def split: if_splits ur_state.splits)

lemma next_steps_step_count:
  "next_steps chk n u =
     (case step_count n u of None \<Rightarrow> Err (OtherError no_redo_msg) | Some m \<Rightarrow> isize_arith chk m)"
  by (auto simp: next_steps_def step_count_def split: option.split ur_state.split)

lemma next_steps_exact:
  assumes "\<bar>n\<bar> + weight u \<le> isize_max"
  shows "next_steps chk n u = (case step_count n u of None \<Rightarrow> Err (OtherError no_redo_msg) | Some m \<Rightarrow> Ok m)"
proof (cases "step_count n u")
  case (Some m)
  then have "isize_arith chk m = Ok m"
    using step_count_bound [OF Some] assms by (intro isize_arith_ok) (auto simp: isize_ok_def)
  then show ?thesis using Some by (simp add: next_steps_step_count)
qed (simp add: next_steps_step_count)

lemma find_undo_loop_log:
  assumes "logged g repo (Some c) es" "log_fits n es"
  shows "find_undo_loop g chk repo n c = Some (find_in_log n es)"
  using assms
proof (induction es arbitrary: c n)
  case (Cons e es)
  have c: "from_commit g repo c = Ok (snd e)" "parse_undo_redo_message (c_message c) = fst e"
    "logged g repo (st_prev (snd e)) es"
    using Cons.prems(1) by auto
  have w: "\<bar>n\<bar> + weight (fst e) + sum_list (map (weight \<circ> fst) es) \<le> isize_max"
    using Cons.prems(2) by (simp add: log_fits_def add.assoc)
  then have "\<bar>n\<bar> + weight (fst e) \<le> isize_max" using weights_nonneg [of es] by linarith
  note steps = next_steps_exact [OF this, of chk]
  show ?case
  proof (cases "n = 0 \<or> step_count n (fst e) = None")
    case True
    then show ?thesis using c steps by (subst find_undo_loop.simps) auto
  next
    case False
    then obtain m where m: "step_count n (fst e) = Some m" "n \<noteq> 0" by auto
    then have fits: "log_fits m es"
      using step_count_bound [OF m(1)] w by (simp add: log_fits_def)
    show ?thesis
    proof (cases "st_prev (snd e)")
      case None
      then have "es = []" using c(3) by (cases es) auto
      then show ?thesis using c steps m None by (subst find_undo_loop.simps) simp
    next
      case (Some p)
      then have "find_undo_loop g chk repo m p = Some (find_in_log m es)"
        using Cons.IH c(3) fits by simp
      then show ?thesis using c steps m Some by (subst find_undo_loop.simps) simp
    qed
  qed
qed simp

section \<open>Histories\<close>

text \<open>
  The states before a command, the current one first, and the states that can be redone.  Every
  command appends one state: \<open>undo n\<close> goes back \<open>n\<close> states and makes the present one available to redo,
  \<open>redo n\<close> restores the \<open>n\<close>-th of the undone states, and any other command forgets them.  A restored state
  is a new entry of the log, so states are compared without their predecessors.
\<close>

definition content :: "stack_state \<Rightarrow> stack_state" where
  "content s = s\<lparr>st_prev := None\<rparr>"

record history =
  h_past :: "stack_state list"
  h_future :: "stack_state list"

definition do_other :: "stack_state \<Rightarrow> history \<Rightarrow> history" where
  "do_other s h = \<lparr>h_past = content s # h_past h, h_future = []\<rparr>"

definition do_undo :: "nat \<Rightarrow> history \<Rightarrow> history option" where
  "do_undo n h =
     (if n < length (h_past h)
      then Some \<lparr>h_past = drop n (h_past h), h_future = hd (h_past h) # h_future h\<rparr> else None)"

definition do_redo :: "nat \<Rightarrow> history \<Rightarrow> history option" where
  "do_redo n h =
     (if 1 \<le> n \<and> n \<le> length (h_future h)
      then Some \<lparr>h_past = h_future h ! (n - 1) # h_past h, h_future = drop n (h_future h)\<rparr> else None)"

text \<open>The history of a log, if every undo and redo in it was possible and recorded its state.\<close>

fun history_of :: "log_entry list \<Rightarrow> history option" where
  "history_of [] = Some \<lparr>h_past = [], h_future = []\<rparr>"
| "history_of ((u, s) # es) =
     Option.bind (history_of es) (\<lambda>h.
     case u of
       None \<Rightarrow> Some (do_other s h)
     | Some (URUndo n) \<Rightarrow>
         if 1 \<le> n then Option.bind (do_undo (nat n) h) (\<lambda>h'. if hd (h_past h') = content s then Some h' else None) else None
     | Some (URRedo n) \<Rightarrow>
         if 1 \<le> n then Option.bind (do_redo (nat n) h) (\<lambda>h'. if hd (h_past h') = content s then Some h' else None) else None)"

lemma history_past: "history_of es = Some h \<Longrightarrow> h_past h = [] \<longleftrightarrow> es = []"
  by (cases es) (auto simp: do_other_def do_undo_def do_redo_def split: bind_splits option.splits ur_state.splits if_splits)

lemma history_current: "history_of (e # es) = Some h \<Longrightarrow> hd (h_past h) = content (snd e)"
  by (cases e) (auto simp: do_other_def split: bind_splits option.splits ur_state.splits if_splits)

text \<open>Undo finds the states of the past, redo those of the future, and nothing else.\<close>

definition undo_target :: "int \<Rightarrow> history \<Rightarrow> stack_state option" where
  "undo_target n h =
     (if 0 \<le> n then (if nat n < length (h_past h) then Some (h_past h ! nat n) else None)
      else (if nat (- n) \<le> length (h_future h) then Some (h_future h ! (nat (- n) - 1)) else None))"

lemma history_other: "history_of ((None, s) # es) = Some h \<longleftrightarrow> (\<exists>h'. history_of es = Some h' \<and> h = do_other s h')"
  by (auto split: bind_splits)

lemma history_undo:
  "history_of ((Some (URUndo n), s) # es) = Some h \<longleftrightarrow>
   (\<exists>h'. history_of es = Some h' \<and> 1 \<le> n \<and> do_undo (nat n) h' = Some h \<and> hd (h_past h) = content s)"
  by (auto split: bind_splits if_splits)

lemma history_redo:
  "history_of ((Some (URRedo n), s) # es) = Some h \<longleftrightarrow>
   (\<exists>h'. history_of es = Some h' \<and> 1 \<le> n \<and> do_redo (nat n) h' = Some h \<and> hd (h_past h) = content s)"
  by (auto split: bind_splits if_splits)

lemma undo_target_other:
  "n \<noteq> 0 \<Longrightarrow> undo_target n (do_other s h) = (if 0 < n then undo_target (n - 1) h else None)"
  by (cases "nat n") (auto simp: undo_target_def do_other_def nat_diff_distrib)

lemma undo_target_undo:
  assumes "do_undo (nat k) h' = Some h" "1 \<le> k" "n \<noteq> 0"
  shows "undo_target n h = (if 0 < n then undo_target (n + k) h' else undo_target (n + 1) h')"
proof -
  have h: "nat k < length (h_past h')" "h_past h = drop (nat k) (h_past h')" "h_future h = hd (h_past h') # h_future h'"
    using assms(1) by (auto simp: do_undo_def split: if_splits)
  have "nat (- n) = Suc (nat (- (n + 1)))" if "n < 0" using that by simp
  then show ?thesis using assms(2,3) h
    by (cases "n = - 1") (auto simp: undo_target_def nat_add_distrib add.commute hd_conv_nth)
qed

lemma undo_target_redo:
  assumes "do_redo (nat k) h' = Some h" "1 \<le> k" "n \<noteq> 0"
  shows "undo_target n h = (if 0 < n then undo_target (n - 1) h' else undo_target (n - k) h')"
proof -
  have h: "nat k \<le> length (h_future h')" "h_past h = h_future h' ! (nat k - 1) # h_past h'" "h_future h = drop (nat k) (h_future h')"
    using assms(1) by (auto simp: do_redo_def split: if_splits)
  have "nat (k - n) = nat k + nat (- n)" if "n < 0" using that assms(2) by simp
  moreover have "nat n = Suc (nat (n - 1))" if "0 < n" using that by simp
  ultimately show ?thesis using assms(2,3) h by (auto simp: undo_target_def)
qed

lemma undo_target_step:
  assumes "history_of ((u, s) # es) = Some h" "history_of es = Some h'" "n \<noteq> 0"
  shows "undo_target n h =
    (case step_count n u of None \<Rightarrow> None | Some m \<Rightarrow> undo_target m h')"
proof (cases u)
  case None
  then show ?thesis using assms undo_target_other [of n s h']
    by (auto simp: step_count_def history_other simp del: history_of.simps)
next
  case (Some v)
  then show ?thesis using assms undo_target_undo [of _ h' h n] undo_target_redo [of _ h' h n]
    by (cases v) (auto simp: step_count_def history_undo history_redo simp del: history_of.simps)
qed

lemma find_in_log_history:
  assumes "history_of es = Some h"
  shows "case undo_target n h of
           Some s \<Rightarrow> \<exists>s'. find_in_log n es = Ok s' \<and> content s' = s
         | None \<Rightarrow> find_in_log n es \<in> {Err (OtherError no_undo_msg), Err (OtherError no_redo_msg)}"
  using assms
proof (induction es arbitrary: n h)
  case Nil
  then show ?case by (auto simp: undo_target_def)
next
  case (Cons e es)
  obtain u s where e: "e = (u, s)" by force
  obtain h' where h': "history_of es = Some h'" using Cons.prems by (auto simp: e split: bind_splits)
  show ?case
  proof (cases "n = 0")
    case True
    then show ?thesis using history_current [OF Cons.prems] history_past [OF Cons.prems]
      by (auto simp: undo_target_def hd_conv_nth split: option.splits)
  next
    case False
    note target = undo_target_step [OF Cons.prems [unfolded e] h' False]
    show ?thesis
    proof (cases "step_count n u")
      case (Some m)
      then show ?thesis using Cons.IH [OF h', of m] target False by (auto simp: e split: option.splits)
    qed (use target False in \<open>simp add: e\<close>)
  qed
qed

section \<open>Messages\<close>

lemma fields_from_word:
  "list_all (\<lambda>c. \<not> sep c) w \<Longrightarrow> fields_from sep cur (w @ s) = fields_from sep (cur @ w) s"
  by (induction w arbitrary: cur) simp_all

lemma fields_with_two:
  assumes "list_all (\<lambda>c. \<not> sep c) w" "list_all (\<lambda>c. \<not> sep c) v" "w \<noteq> []" "v \<noteq> []" "sep b"
  shows "fields_with sep (w @ b # v) = [w, v]"
  using assms fields_from_word [of sep w "[]" "b # v"] fields_from_word [of sep v "[]" "[]"]
  by (simp add: fields_with_def)

lemma show_int_field: "list_all (\<lambda>c. \<not> is_ascii_whitespace c) (show_int i)" "show_int i \<noteq> []"
proof -
  have "list_all (\<lambda>c. \<not> is_ascii_whitespace c) (show_nat n)" for n
    using show_nat_digits [of n] by (rule list.pred_mono_strong) (auto simp: is_ascii_digit_def is_ascii_whitespace_def)
  then show "list_all (\<lambda>c. \<not> is_ascii_whitespace c) (show_int i)" "show_int i \<noteq> []"
    by (simp_all add: show_int_def is_ascii_whitespace_def)
qed

lemma command_message:
  assumes "list_all (\<lambda>c. \<not> is_ascii_whitespace c) w" "w \<noteq> []"
  shows "fields_with is_ascii_whitespace (w @ 32 # show_int i) = [w, show_int i]"
  using assms show_int_field [of i] by (intro fields_with_two) (auto simp: is_ascii_whitespace_def)

text \<open>
  The message that \<open>undo\<close> or \<open>redo\<close> leaves in the state log is read back by the later searches as the
  same command with the same number of steps, whatever the number.
\<close>

theorem undo_redo_message_round_trip:
  assumes "isize_ok n"
  shows "parse_undo_redo_message (str ''undo '' @ show_int n) = Some (URUndo n) \<and>
         parse_undo_redo_message (str ''redo '' @ show_int n) = Some (URRedo n)"
  using command_message [of "str ''undo''" n] command_message [of "str ''redo''" n] assms
  by (simp add: parse_undo_redo_message_def str_def is_ascii_whitespace_def parse_isize_show_int)

theorem undo_redo_message_round_trip_witness:
  "parse_undo_redo_message (str ''undo '' @ show_int (- 12)) = Some (URUndo (- 12))"
  using undo_redo_message_round_trip [of "- 12"] by (simp add: isize_ok_def)

section \<open>Example\<close>

text \<open>A log of three states: the initial one, one patch popped, and the pop undone.\<close>

definition k_pop :: commit where "k_pop = mk_commit 41 [40, 6] 33\<lparr>c_message := str ''pop''\<rparr>"
definition k_undo :: commit where "k_undo = mk_commit 42 [43, 41] 35\<lparr>c_message := str ''undo 1''\<rparr>"

definition undo_state :: stack_state where
  "undo_state = ex_state\<lparr>st_prev := Some k_pop\<rparr>"

definition undo_git :: "(oid, oid) git" where
  "undo_git = ex_git\<lparr>g_unjson :=
     (\<lambda>s. Inr (serialize ex_git (if s = [] then ex_state else if s = [1] then pop_state else undo_state)))\<rparr>"

definition undo_repo :: "oid repository" where
  "undo_repo = ex_repo\<lparr>
     objects := (objects ex_repo)(41 \<mapsto> k_pop, 42 \<mapsto> k_undo),
     blobs := [9 \<mapsto> [], 34 \<mapsto> [1], 36 \<mapsto> [2]], state_trees := [20 \<mapsto> (8, 9), 33 \<mapsto> (8, 34), 35 \<mapsto> (8, 36)],
     refs := [(str ''refs/heads/master'', Direct 3), (str ''refs/stacks/master'', Direct 42)]\<rparr>"

definition undo_log :: "log_entry list" where
  "undo_log = [(Some (URUndo 1), undo_state), (None, pop_state), (None, ex_state)]"

lemmas undo_ex_defs = undo_repo_def ex_repo_def undo_git_def ex_git_def undo_state_def pop_state_def ex_state_def
  k_pop_def k_undo_def ex_commits

lemma replicate_neq_Cons: "x \<noteq> y \<Longrightarrow> replicate n x \<noteq> y # ys"
  by (cases n) simp_all

lemma undo_ex_states:
  "from_tree undo_git undo_repo 35 = Ok undo_state" "from_tree undo_git undo_repo 33 = Ok pop_state"
  "from_tree undo_git undo_repo 20 = Ok ex_state"
  by (simp_all add: from_tree_def deserialize_def serialize_def from_raw_state_def bt_get_def str_def replicate_neq_Cons undo_ex_defs)

lemma undo_ex_peel: "peel_reference undo_repo (sk_stack_refname ex_stack) = Ok k_undo"
  by (simp add: peel_reference_def undo_repo_def bt_get_def eval_nat_numeral str_def find_commit_def)

lemma undo_ex_messages:
  "parse_undo_redo_message (c_message k_undo) = Some (URUndo 1)" "parse_undo_redo_message (c_message k_pop) = None"
  "parse_undo_redo_message (c_message k_state) = None"
  by (simp_all add: parse_undo_redo_message_def fields_with_def str_def is_ascii_whitespace_def parse_isize_def
      parse_digits_def is_ascii_digit_def dec_value_def k_pop_def k_undo_def k_state_def mk_commit_def)

lemma undo_ex_logged: "logged undo_git undo_repo (Some k_undo) undo_log"
  using undo_ex_states undo_ex_messages
  by (simp add: undo_log_def from_commit_def) (simp add: k_pop_def k_undo_def mk_commit_def undo_state_def ex_state_def)

definition undo_history :: history where
  "undo_history = \<lparr>h_past = [content ex_state], h_future = [content pop_state]\<rparr>"

lemma undo_ex_history: "history_of undo_log = Some undo_history"
  by (simp add: undo_log_def undo_history_def do_other_def do_undo_def) (simp add: content_def undo_state_def)

lemma undo_ex_fits: "\<bar>n\<bar> \<le> 10 \<Longrightarrow> log_fits n undo_log"
  by (simp add: log_fits_def undo_log_def)

lemma undo_ex_target: "undo_target (- 1) undo_history = Some (content pop_state)"
  by (simp add: undo_target_def undo_history_def)

section \<open>Properties\<close>

lemma find_undo_state_log:
  assumes "peel_reference repo (sk_stack_refname sk) = Ok c" "logged g repo (Some c) es" "log_fits n es"
  shows "find_undo_state g chk repo sk n = Some (find_in_log n es)"
  using assms by (simp add: find_undo_state_def find_undo_loop_log)

text \<open>
  C11: The search for a state refines the abstract history: over a log whose undo and redo entries did
  what they say, \<open>n\<close> steps back find the \<open>n\<close>-th state of the past and \<open>n\<close> steps forward the \<open>n\<close>-th undone state;
  where the history has no such state, the search ends with an error.  The search returns in every case
  and does not overflow.
\<close>

theorem find_undo_state_history:
  assumes "peel_reference repo (sk_stack_refname sk) = Ok c" "logged g repo (Some c) es" "log_fits n es"
    and "history_of es = Some h"
  shows "case undo_target n h of
           Some s \<Rightarrow> \<exists>s'. find_undo_state g chk repo sk n = Some (Ok s') \<and> content s' = s
         | None \<Rightarrow> \<exists>m. find_undo_state g chk repo sk n = Some (Err (OtherError m)) \<and> m \<in> {no_undo_msg, no_redo_msg}"
  using find_undo_state_log [OF assms(1-3), of chk] find_in_log_history [OF assms(4), of n]
  by (auto split: option.splits)

theorem find_undo_state_history_witness:
  "\<exists>s'. find_undo_state undo_git True undo_repo ex_stack (- 1) = Some (Ok s') \<and> content s' = content pop_state"
  using find_undo_state_history [OF undo_ex_peel undo_ex_logged undo_ex_fits undo_ex_history, of "- 1" True]
  by (simp add: undo_ex_target)

lemma reset_to_state_content: "reset_to_state (content s) = reset_to_state s"
  by (simp add: reset_to_state_def content_def fun_eq_iff cong: list.case_cong)

text \<open>
  C12: The transaction of \<open>undo\<close> and \<open>redo\<close>: when the history has the state asked for, the patch lists,
  the commits of the patches and the head become those of that state, and the transaction stays
  well formed.
\<close>

theorem undo_restores:
  assumes "trans_ok t"
    and "peel_reference (tr_repo t) (sk_stack_refname (tr_stack t)) = Ok c" "logged g (tr_repo t) (Some c) es"
    and "log_fits n es" "history_of es = Some h" "undo_target n h = Some s" "state_ok s"
    and "\<And>pn. trans_get t pn \<noteq> None \<Longrightarrow> has_patch (stack_view_of (tr_stack t)) pn"
    and "\<And>pn p. st_applied s \<noteq> [] \<Longrightarrow> pn = hd (st_applied s) \<Longrightarrow> bt_get (st_patches s) pn = Some p \<Longrightarrow>
      get_parent_commit (tr_repo t) (ps_commit p) = Ok base"
    and "st_applied s = [] \<Longrightarrow> base = st_head s"
  shows "\<exists>found t'. find_undo_state g chk (tr_repo t) (tr_stack t) n = Some found \<and>
           reset_closure found t = (Ok (), t') \<and> trans_ok t' \<and>
           tr_applied t' = st_applied s \<and> tr_unapplied t' = st_unapplied s \<and> tr_hidden t' = st_hidden s \<and>
           trans_get t' = bt_get (st_patches s) \<and> t_head t' = Ok (st_head s)"
proof -
  obtain s' where s': "find_undo_state g chk (tr_repo t) (tr_stack t) n = Some (Ok s')" "content s' = s"
    using find_undo_state_log [OF assms(2-4), of chk] find_in_log_history [OF assms(5), of n] assms(6) by auto
  have "reset_to_state s t = reset_closure (Ok s') t"
    by (simp add: reset_closure_def sbind_def pure_def reset_to_state_content flip: s'(2))
  moreover have "\<exists>t'. reset_to_state s t = (Ok (), t') \<and> trans_ok t' \<and>
      tr_applied t' = st_applied s \<and> tr_unapplied t' = st_unapplied s \<and> tr_hidden t' = st_hidden s \<and>
      trans_get t' = bt_get (st_patches s) \<and> t_head t' = Ok (st_head s) \<and> t_base t' = base"
    using assms(1,7-10) by (rule reset_to_state_run)
  ultimately show ?thesis using s'(1) by auto
qed

definition undo_trans :: "oid transaction" where
  "undo_trans = ex_trans\<lparr>tr_repo := undo_repo\<rparr>"

lemma undo_trans_sel [simp]:
  "tr_repo undo_trans = undo_repo" "tr_stack undo_trans = ex_stack" "tr_updated_patches undo_trans = []"
  "trans_get undo_trans = trans_get ex_trans" "trans_view undo_trans = trans_view ex_trans"
  by (simp_all add: undo_trans_def trans_view_def trans_get_def)

lemma undo_trans_ok: "trans_ok undo_trans"
proof -
  have "odb_ok undo_repo"
    using ex_odb_ok by (auto simp: odb_ok_def undo_repo_def k_pop_def k_undo_def mk_commit_def)
  then show ?thesis using ex_trans_ok by (simp add: trans_ok_def)
qed

lemma undo_ex_state_ok: "state_ok (content pop_state)"
  by (auto simp: content_def pop_state_def state_ok_def view_ok_def ex_state_def state_view_def
      all_patches_def has_patch_def bt_get_def bt_ok_def bt_keys_def)

lemma ex_trans_patches: "trans_get ex_trans pn \<noteq> None \<Longrightarrow> has_patch (stack_view_of ex_stack) pn"
  using ex_get(5) [of pn]
  by (cases "pn \<in> {pa, pb, pc, pd}") (auto simp: has_patch_def state_view_def ex_stack_def ex_state_def bt_get_def)

theorem undo_restores_witness:
  "\<exists>found t'. find_undo_state undo_git True undo_repo ex_stack (- 1) = Some found \<and>
     reset_closure found undo_trans = (Ok (), t') \<and> tr_applied t' = [pa] \<and> tr_unapplied t' = [pb, pc]"
proof -
  let ?s = "content pop_state"
  have "\<exists>found t'. find_undo_state undo_git True (tr_repo undo_trans) (tr_stack undo_trans) (- 1) = Some found \<and>
           reset_closure found undo_trans = (Ok (), t') \<and> trans_ok t' \<and>
           tr_applied t' = st_applied ?s \<and> tr_unapplied t' = st_unapplied ?s \<and> tr_hidden t' = st_hidden ?s \<and>
           trans_get t' = bt_get (st_patches ?s) \<and> t_head t' = Ok (st_head ?s)"
  proof (rule undo_restores [OF undo_trans_ok _ _ _ undo_ex_history undo_ex_target undo_ex_state_ok])
    show "get_parent_commit (tr_repo undo_trans) (ps_commit p) = Ok k_base"
      if "pn = hd (st_applied ?s)" "bt_get (st_patches ?s) pn = Some p" for pn p
      using that by (auto simp: content_def bt_get_def get_parent_commit_def undo_ex_defs)
  qed (use undo_ex_peel undo_ex_logged undo_ex_fits ex_trans_patches in \<open>simp_all add: content_def\<close>)
  then show ?thesis by (auto simp: content_def)
qed

end
