(* ===== verification/Commands.thy ===== *)
theory Commands
  imports Range Execute
begin

text \<open>
  Commands that rearrange the stack: \<open>push\<close>, \<open>pop\<close>, \<open>goto\<close>, \<open>float\<close>, \<open>sink\<close>, \<open>hide\<close>, \<open>unhide\<close>, \<open>delete\<close>,
  \<open>commit\<close>, \<open>clean\<close>, \<open>reset\<close> and \<open>rename\<close> of \<open>src/cmd\<close>.

  A command selects patches, checks the repository and then runs one transaction.  Everything before
  the transaction only reads, so a command is modelled by a plan: the options, the closure and the
  message of its transaction, or nothing to do.  The arguments are those that \<open>clap\<close> has parsed; the
  opened stack is an argument, too.
\<close>

section \<open>Context of a command\<close>

text \<open>\<open>gix::state::InProgress\<close>.\<close>

datatype in_progress =
  ApplyMailbox | ApplyMailboxRebase | Bisect | CherryPick | CherryPickSequence | Merge | Rebase
| RebaseInteractive | Revert | RevertSequence

record 'p cmd_env =
  cm_locator :: "'p locator_env"
  cm_state :: "in_progress option"

datatype 'p cmd_error =
  CE_Range "'p range_error"
| CE_Locator "'p locator_error"
| CE_Name name_error
| CE_Trans trans_error
| NoAppliedPatches
| CE_Msg rstring

datatype 'w plan = NothingToDo | Transaction trans_options "('w, unit) tm" rstring

primrec state_str :: "in_progress \<Rightarrow> string" where
  "state_str ApplyMailbox = ''apply mailbox''"
| "state_str ApplyMailboxRebase = ''rebase or apply mailbox''"
| "state_str Bisect = ''bisect''"
| "state_str CherryPick = ''cherry-pick''"
| "state_str CherryPickSequence = ''cherry-pick''"
| "state_str Merge = ''merge''"
| "state_str Rebase = ''rebase''"
| "state_str RebaseInteractive = ''interactive rebase''"
| "state_str Revert = ''revert''"
| "state_str RevertSequence = ''revert''"

definition check_repository_state :: "'p cmd_env \<Rightarrow> ('p cmd_error, unit) outcome" where
  "check_repository_state env =
     (case cm_state env of
        Some state \<Rightarrow> Err (CE_Msg (str (''complete the in-progress `'' @ state_str state @ ''` before trying again'')))
      | None \<Rightarrow> Ok ())"

abbreviation (input) trans_check :: "(trans_error, 'a) outcome \<Rightarrow> ('p cmd_error, 'a) outcome" where
  "trans_check \<equiv> omap_err CE_Trans"

text \<open>The checks that most commands make, in their order; \<open>want_clean\<close> says whether local changes are an error.\<close>

definition check_ready ::
  "('x, 'w) git \<Rightarrow> 'p cmd_env \<Rightarrow> stack \<Rightarrow> bool \<Rightarrow> 'w repository \<Rightarrow> ('p cmd_error, unit) outcome" where
  "check_ready g env sk want_clean repo =
     obind (check_repository_state env) (\<lambda>_.
     obind (trans_check (statuses_of g (work repo))) (\<lambda>ss.
     obind (trans_check (check_status_conflicts ss)) (\<lambda>_.
     obind (trans_check (check_head_top_mismatch sk)) (\<lambda>_.
     if want_clean then trans_check (check_index_and_worktree_clean ss) else Ok ()))))"

text \<open>\<open>argset::resolve_allow_push_conflicts\<close>.\<close>

definition resolve_allow_push_conflicts :: "('x, 'w) git \<Rightarrow> rstring option \<Rightarrow> bool" where
  "resolve_allow_push_conflicts g conflicts =
     (case conflicts of
        Some s \<Rightarrow> s = str ''allow''
      | None \<Rightarrow> (case g_allow_conflicts g of Some b \<Rightarrow> b | None \<Rightarrow> True))"

text \<open>\<open>resolve_names\<close> with the error of a patch in the wrong place replaced.\<close>

definition resolve_or ::
  "'p cmd_env \<Rightarrow> stack_view \<Rightarrow> patch_range list \<Rightarrow> range_constraint \<Rightarrow> (patch_name \<Rightarrow> bool) \<Rightarrow> string \<Rightarrow>
   ('p cmd_error, patch_name list) outcome" where
  "resolve_or env v ranges allow p text =
     omap_err (\<lambda>e. case e of
         RE_Name (PatchNotAllowed pn _) \<Rightarrow>
           if p pn then CE_Msg (str ''patch `'' @ pn_str pn @ str text) else CE_Range e
       | _ \<Rightarrow> CE_Range e)
       (resolve_names (cm_locator env) v ranges allow)"

section \<open>Push\<close>

record push_args =
  pu_ranges :: "patch_range list option"
  pu_all :: bool
  pu_number :: "int option"
  pu_reverse :: bool
  pu_noapply :: bool
  pu_settree :: bool
  pu_merged :: bool
  pu_keep :: bool
  pu_conflicts :: "rstring option"
  pu_committer_date :: bool

definition num_to_push :: "int \<Rightarrow> nat \<Rightarrow> nat" where
  "num_to_push number num_unapplied =
     (if number \<ge> 0 then min (nat number) num_unapplied
      else if nat \<bar>number\<bar> < num_unapplied then num_unapplied - nat \<bar>number\<bar>
      else 0)"

definition push_select ::
  "'p cmd_env \<Rightarrow> stack_view \<Rightarrow> push_args \<Rightarrow> ('p cmd_error, patch_name list) outcome" where
  "push_select env v a =
     (case pu_ranges a of
        Some ranges \<Rightarrow> resolve_or env v ranges RC_Unapplied (is_applied v) ''` is already applied''
      | None \<Rightarrow>
          if v_unapplied v = [] then Err (CE_Msg (str ''no unapplied patches''))
          else if pu_all a then Ok (v_unapplied v)
          else (case pu_number a of
                  Some number \<Rightarrow> Ok (take (num_to_push number (length (v_unapplied v))) (v_unapplied v))
                | None \<Rightarrow> Ok (take 1 (v_unapplied v))))"

text \<open>\<open>for (i, patchname) in patches.iter().enumerate()\<close>.\<close>

primrec push_trees :: "('x, 'w) git \<Rightarrow> patch_name list \<Rightarrow> ('w, unit) tm" where
  "push_trees g [] = ret ()"
| "push_trees g (pn # pns) = sthen (push_tree g pn (pns = [])) (push_trees g pns)"

definition push_closure :: "('x, 'w) git \<Rightarrow> push_args \<Rightarrow> patch_name list \<Rightarrow> ('w, unit) tm" where
  "push_closure g a patches =
     (if pu_settree a then push_trees g patches
      else if pu_noapply a then
        sbind (gets tr_unapplied) (\<lambda>un.
        reorder_patches g None (Some (patches @ filter (\<lambda>pn. pn \<notin> set patches) un)) None)
      else push_patches g patches (pu_merged a))"

definition push_plan ::
  "('x, 'w) git \<Rightarrow> 'p cmd_env \<Rightarrow> stack \<Rightarrow> push_args \<Rightarrow> 'w repository \<Rightarrow> ('p cmd_error, 'w plan) outcome" where
  "push_plan g env sk a repo =
     (if pu_number a = Some 0 then Ok NothingToDo
      else
        obind (push_select env (stack_view_of sk) a) (\<lambda>patches.
        obind (oassert (patches \<noteq> [])) (\<lambda>_.
        obind (check_ready g env sk (\<not> pu_keep a \<and> \<not> pu_noapply a) repo) (\<lambda>_.
        Ok (Transaction
          (committer_date_is_author_date (pu_committer_date a)
            (allow_push_conflicts (resolve_allow_push_conflicts g (pu_conflicts a))
              (use_index_and_worktree True default_options)))
          (push_closure g a (if pu_reverse a then rev patches else patches)) (str ''push''))))))"

section \<open>Pop\<close>

record pop_args =
  po_ranges :: "patch_range list option"
  po_all :: bool
  po_number :: "int option"
  po_keep :: bool
  po_spill :: bool

text \<open>\<open>None\<close> is the early return when more patches are to be kept than are applied.\<close>

definition pop_select ::
  "'p cmd_env \<Rightarrow> stack_view \<Rightarrow> pop_args \<Rightarrow> ('p cmd_error, patch_name list option) outcome" where
  "pop_select env v a =
     (if po_all a then Ok (Some (v_applied v))
      else case po_number a of
        Some number \<Rightarrow>
          let num_applied = length (v_applied v) in
          if number \<ge> 0 then Ok (Some (take (min (nat number) num_applied) (rev (v_applied v))))
          else if nat \<bar>number\<bar> < num_applied then Ok (Some (take (num_applied - nat \<bar>number\<bar>) (rev (v_applied v))))
          else Ok None
      | None \<Rightarrow>
          (case po_ranges a of
             Some ranges \<Rightarrow>
               obind (resolve_or env v ranges RC_Applied (is_unapplied v) ''` is already unapplied'') (\<lambda>ps. Ok (Some ps))
           | None \<Rightarrow> Ok (Some (take 1 (rev (v_applied v))))))"

text \<open>The loop over the applied patches; taking a patch from the set of selected ones finds it once.\<close>

definition pop_split :: "patch_name list \<Rightarrow> patch_name list \<Rightarrow> patch_name list \<times> patch_name list" where
  "pop_split patches applied =
     (filter (\<lambda>pn. pn \<notin> set patches) applied, filter (\<lambda>pn. pn \<in> set patches) applied)"

definition pop_plan ::
  "('x, 'w) git \<Rightarrow> 'p cmd_env \<Rightarrow> stack \<Rightarrow> pop_args \<Rightarrow> 'w repository \<Rightarrow> ('p cmd_error, 'w plan) outcome" where
  "pop_plan g env sk a repo =
     (let v = stack_view_of sk in
      if po_number a = Some 0 then Ok NothingToDo
      else if v_applied v = [] then Err NoAppliedPatches
      else
        obind (pop_select env v a) (\<lambda>selected. case selected of
          None \<Rightarrow> Ok NothingToDo
        | Some patches \<Rightarrow>
            obind (oassert (patches \<noteq> [])) (\<lambda>_.
            obind (check_ready g env sk (\<not> po_keep a \<and> \<not> po_spill a) repo) (\<lambda>_.
            let (new_applied, popped) = pop_split patches (v_applied v) in
            if po_spill a \<and> popped \<noteq> drop (length (v_applied v) - length popped) (v_applied v)
            then Err (CE_Msg (str ''only topmost patches may be spilled''))
            else
              Ok (Transaction (use_index_and_worktree (\<not> po_spill a) default_options)
                (reorder_patches g (Some new_applied) (Some (popped @ v_unapplied v)) None) (str ''pop''))))))"

section \<open>Goto\<close>

record goto_args =
  go_patch :: patch_locator
  go_keep :: bool
  go_merged :: bool
  go_conflicts :: "rstring option"
  go_committer_date :: bool

definition goto_closure :: "('x, 'w) git \<Rightarrow> bool \<Rightarrow> patch_name \<Rightarrow> ('w, unit) tm" where
  "goto_closure g merged patchname =
     sbind (gets (\<lambda>t. (tr_applied t, tr_unapplied t))) (\<lambda>(ap, un).
     case position (\<lambda>pn. pn = patchname) ap of
       Some pos \<Rightarrow> reorder_patches g (Some (take (Suc pos) ap)) (Some (drop (Suc pos) ap @ un)) None
     | None \<Rightarrow>
         (case position (\<lambda>pn. pn = patchname) un of
            None \<Rightarrow> crash
          | Some pos \<Rightarrow> push_patches g (take (Suc pos) un) merged))"

definition goto_plan ::
  "('x, 'w) git \<Rightarrow> 'p cmd_env \<Rightarrow> stack \<Rightarrow> goto_args \<Rightarrow> 'w repository \<Rightarrow> ('p cmd_error, 'w plan) outcome" where
  "goto_plan g env sk a repo =
     obind (check_ready g env sk (\<not> go_keep a) repo) (\<lambda>_.
     obind (omap_err CE_Locator (resolve_name (cm_locator env) (go_patch a) (stack_view_of sk))) (\<lambda>pn.
     obind (omap_err CE_Name (constrain (stack_view_of sk) LC_Visible pn)) (\<lambda>patchname.
     Ok (Transaction
       (committer_date_is_author_date (go_committer_date a)
         (allow_push_conflicts (resolve_allow_push_conflicts g (go_conflicts a))
           (use_index_and_worktree True default_options)))
       (goto_closure g (go_merged a) patchname) (str ''goto'')))))"

section \<open>Float\<close>

text \<open>The patches come from ranges or from the text of a series file, which \<open>fl_series\<close> holds.\<close>

record float_args =
  fl_ranges :: "patch_range list"
  fl_series :: "rstring option"
  fl_noapply :: bool
  fl_keep :: bool
  fl_committer_date :: bool

definition series_line :: "rstring \<Rightarrow> rstring" where
  "series_line line = trim (takeWhile (\<lambda>c. c \<noteq> c_hash) line)"

primrec series_ranges :: "rstring list \<Rightarrow> ('p range_error, patch_range list) outcome" where
  "series_ranges [] = Ok []"
| "series_ranges (s # ss) =
     obind (range_from_str s) (\<lambda>r. obind (series_ranges ss) (\<lambda>rs. Ok (r # rs)))"

definition parse_series ::
  "'p cmd_env \<Rightarrow> stack_view \<Rightarrow> rstring \<Rightarrow> ('p cmd_error, patch_name list) outcome" where
  "parse_series env v contents =
     omap_err CE_Range
       (obind (series_ranges (filter (\<lambda>s. s \<noteq> []) (map series_line (lines contents)))) (\<lambda>series.
        resolve_names (cm_locator env) v series RC_Visible))"

definition float_lists :: "bool \<Rightarrow> patch_name list \<Rightarrow> stack_view \<Rightarrow> patch_name list \<times> patch_name list" where
  "float_lists noapply patches v =
     (if noapply then
        (filter (\<lambda>pn. pn \<notin> set patches) (v_applied v),
         patches @ filter (\<lambda>pn. pn \<notin> set patches) (v_unapplied v))
      else
        (filter (\<lambda>pn. pn \<notin> set patches) (v_applied v) @ patches,
         filter (\<lambda>pn. pn \<notin> set patches) (v_unapplied v)))"

definition float_plan ::
  "('x, 'w) git \<Rightarrow> 'p cmd_env \<Rightarrow> stack \<Rightarrow> float_args \<Rightarrow> 'w repository \<Rightarrow> ('p cmd_error, 'w plan) outcome" where
  "float_plan g env sk a repo =
     (let v = stack_view_of sk in
      obind (check_repository_state env) (\<lambda>_.
      obind (trans_check (statuses_of g (work repo))) (\<lambda>ss.
      obind (trans_check (check_status_conflicts ss)) (\<lambda>_.
      obind (trans_check (check_head_top_mismatch sk)) (\<lambda>_.
      obind (case fl_series a of
               Some contents \<Rightarrow> parse_series env v contents
             | None \<Rightarrow> omap_err CE_Range (resolve_names (cm_locator env) v (fl_ranges a) RC_Visible)) (\<lambda>patches.
      if patches = [] then Err (CE_Msg (str ''no patches to float''))
      else
        obind (if \<not> fl_keep a \<and> (\<not> fl_noapply a \<or> list_ex (is_applied v) patches)
               then trans_check (check_index_and_worktree_clean ss) else Ok ()) (\<lambda>_.
        let (applied, unapplied) = float_lists (fl_noapply a) patches v in
        Ok (Transaction
          (committer_date_is_author_date (fl_committer_date a) (use_index_and_worktree True default_options))
          (reorder_patches g (Some applied) (Some unapplied) None) (str ''float'')))))))))"

section \<open>Sink\<close>

datatype sink_target = SinkAbove patch_locator | SinkBelow patch_locator

record sink_args =
  si_ranges :: "patch_range list option"
  si_target :: "sink_target option"
  si_nopush :: bool
  si_keep :: bool
  si_committer_date :: bool

text \<open>
  The code asks \<open>contains_id("keep")\<close>.  A flag has a default value, and \<open>contains_id\<close> is true of an
  argument with a default value, so the answer does not depend on the command line.
\<close>

definition sink_keep_flag :: "sink_args \<Rightarrow> bool" where
  "sink_keep_flag a = True"

primrec target_locator :: "sink_target \<Rightarrow> patch_locator" where
  "target_locator (SinkAbove loc) = loc"
| "target_locator (SinkBelow loc) = loc"

primrec is_above :: "sink_target \<Rightarrow> bool" where
  "is_above (SinkAbove loc) = True"
| "is_above (SinkBelow loc) = False"

text \<open>The error of an unresolved target is printed with a prefix; here it is kept as it is.\<close>

definition sink_target_patch ::
  "'p cmd_env \<Rightarrow> stack_view \<Rightarrow> sink_target option \<Rightarrow> ('p cmd_error, patch_name option) outcome" where
  "sink_target_patch env v target =
     (case target of
        None \<Rightarrow> Ok None
      | Some tg \<Rightarrow>
          obind (omap_err CE_Locator (resolve_name (cm_locator env) (target_locator tg) v)) (\<lambda>pn.
          omap_err (\<lambda>e. case e of
              PatchNotAllowed q _ \<Rightarrow>
                CE_Msg (str (''cannot sink '' @ (if is_above tg then ''above'' else ''below'') @ '' `'') @ pn_str q @
                        str ''` since it is not applied'')
            | _ \<Rightarrow> CE_Name e)
            (obind (constrain v LC_Applied pn) (\<lambda>q. Ok (Some q)))))"

definition sink_select ::
  "'p cmd_env \<Rightarrow> stack_view \<Rightarrow> sink_args \<Rightarrow> ('p cmd_error, patch_name list) outcome" where
  "sink_select env v a =
     (case si_ranges a of
        Some ranges \<Rightarrow> omap_err CE_Range (resolve_names (cm_locator env) v ranges RC_All)
      | None \<Rightarrow> if v_applied v \<noteq> [] then Ok [last (v_applied v)] else Err NoAppliedPatches)"

definition sink_lists ::
  "bool \<Rightarrow> nat \<Rightarrow> patch_name list \<Rightarrow> patch_name list \<Rightarrow> patch_name list \<Rightarrow> patch_name list \<times> patch_name list" where
  "sink_lists nopush target_pos patches remaining_applied remaining_unapplied =
     (if nopush then
        (take target_pos remaining_applied @ patches, drop target_pos remaining_applied @ remaining_unapplied)
      else
        (take target_pos remaining_applied @ patches @ drop target_pos remaining_applied, remaining_unapplied))"

definition sink_plan ::
  "('x, 'w) git \<Rightarrow> 'p cmd_env \<Rightarrow> stack \<Rightarrow> sink_args \<Rightarrow> 'w repository \<Rightarrow> ('p cmd_error, 'w plan) outcome" where
  "sink_plan g env sk a repo =
     (let v = stack_view_of sk in
      obind (check_ready g env sk (\<not> sink_keep_flag a) repo) (\<lambda>_.
      obind (sink_target_patch env v (si_target a)) (\<lambda>opt_target.
      obind (sink_select env v a) (\<lambda>patches.
      if (\<exists>tp\<in>set_option opt_target. tp \<in> set patches) then
        Err (CE_Msg (str ''target patch `'' @ pn_str (the opt_target) @ str ''` may not also be a patch to sink''))
      else
        let remaining_applied = filter (\<lambda>pn. pn \<notin> set patches) (v_applied v);
            remaining_unapplied = filter (\<lambda>pn. pn \<notin> set patches) (v_unapplied v) in
        obind (case opt_target of
                 Some tp \<Rightarrow>
                   obind (expect (position (\<lambda>pn. pn = tp) remaining_applied)) (\<lambda>pos.
                   Ok (if (case si_target a of Some tg \<Rightarrow> is_above tg | None \<Rightarrow> False) then pos + 1 else pos))
               | None \<Rightarrow> Ok 0) (\<lambda>target_pos.
        let (applied, unapplied) = sink_lists (si_nopush a) target_pos patches remaining_applied remaining_unapplied in
        Ok (Transaction
          (committer_date_is_author_date (si_committer_date a) (use_index_and_worktree True default_options))
          (reorder_patches g (Some applied) (Some unapplied) None) (str ''sink'')))))))"

section \<open>Hide and unhide\<close>

definition hide_plan ::
  "('x, 'w) git \<Rightarrow> 'p cmd_env \<Rightarrow> stack \<Rightarrow> patch_range list \<Rightarrow> ('p cmd_error, 'w plan) outcome" where
  "hide_plan g env sk ranges =
     (let v = stack_view_of sk in
      obind (trans_check (check_head_top_mismatch sk)) (\<lambda>_.
      obind (omap_err CE_Range (resolve_names (cm_locator env) v ranges RC_All)) (\<lambda>patches.
      Ok (Transaction default_options (hide_patches g (filter (\<lambda>pn. \<not> is_hidden v pn) patches)) (str ''hide'')))))"

definition unhide_plan ::
  "('x, 'w) git \<Rightarrow> 'p cmd_env \<Rightarrow> stack \<Rightarrow> patch_range list \<Rightarrow> ('p cmd_error, 'w plan) outcome" where
  "unhide_plan g env sk ranges =
     (let v = stack_view_of sk in
      obind (trans_check (check_head_top_mismatch sk)) (\<lambda>_.
      obind (resolve_or env v ranges RC_Hidden (\<lambda>_. True) ''` is not hidden'') (\<lambda>patches.
      Ok (Transaction (allow_conflicts True default_options) (unhide_patches g patches) (str ''unhide'')))))"

section \<open>Delete\<close>

record delete_args =
  de_top :: bool
  de_ranges :: "patch_range list option"
  de_all :: bool
  de_applied :: bool
  de_unapplied :: bool
  de_hidden :: bool
  de_other_branch :: bool
  de_spill :: bool
  de_conflicts :: "rstring option"

definition delete_select ::
  "'p cmd_env \<Rightarrow> stack_view \<Rightarrow> delete_args \<Rightarrow> ('p cmd_error, patch_name list) outcome" where
  "delete_select env v a =
     (if de_top a then (if v_applied v \<noteq> [] then Ok [last (v_applied v)] else Err NoAppliedPatches)
      else case de_ranges a of
        Some ranges \<Rightarrow> omap_err CE_Range (resolve_names (cm_locator env) v ranges RC_AllWithAppliedBoundary)
      | None \<Rightarrow>
          if de_all a then Ok (all_patches v)
          else Ok ((if de_applied a then v_applied v else []) @
                   (if de_unapplied a then v_unapplied v else []) @
                   (if de_hidden a then v_hidden v else [])))"

definition delete_closure :: "('x, 'w) git \<Rightarrow> patch_name list \<Rightarrow> ('w, unit) tm" where
  "delete_closure g patches =
     sbind (delete_patches (\<lambda>pn. pn \<in> set patches)) (\<lambda>to_push. push_patches g to_push False)"

definition delete_plan ::
  "('x, 'w) git \<Rightarrow> 'p cmd_env \<Rightarrow> stack \<Rightarrow> delete_args \<Rightarrow> 'w repository \<Rightarrow> ('p cmd_error, 'w plan) outcome" where
  "delete_plan g env sk a repo =
     (let v = stack_view_of sk in
      obind (delete_select env v a) (\<lambda>patches.
      if de_spill a \<and> list_ex (\<lambda>pn. pn \<notin> set patches) (take (length patches) (rev (v_applied v)))
      then Err (CE_Msg (str ''can only spill topmost applied patches''))
      else
        obind (check_ready g env sk False repo) (\<lambda>_.
        if patches = [] then Ok NothingToDo
        else
          Ok (Transaction
            (allow_push_conflicts (resolve_allow_push_conflicts g (de_conflicts a))
              (use_index_and_worktree (\<not> de_other_branch a \<and> \<not> de_spill a) default_options))
            (delete_closure g patches) (str ''delete'')))))"

section \<open>Commit\<close>

record commit_args =
  co_ranges :: "patch_range list option"
  co_number :: "nat option"
  co_all :: bool
  co_allow_empty :: bool

text \<open>The position used as the sort key exists for every selected patch.\<close>

definition commit_sort :: "patch_name list \<Rightarrow> patch_name list \<Rightarrow> ('e, patch_name list) outcome" where
  "commit_sort visible requested =
     (if list_all (\<lambda>pn. pn \<in> set visible) requested
      then Ok (sort_key (\<lambda>pn. the (position (\<lambda>q. q = pn) visible)) requested) else Panic)"

definition commit_select ::
  "'p cmd_env \<Rightarrow> stack_view \<Rightarrow> commit_args \<Rightarrow> ('p cmd_error, patch_name list option) outcome" where
  "commit_select env v a =
     (case co_ranges a of
        Some ranges \<Rightarrow>
          obind (omap_err CE_Range (resolve_names (cm_locator env) v ranges RC_VisibleWithAppliedBoundary)) (\<lambda>requested.
          obind (commit_sort (applied_and_unapplied v) requested) (\<lambda>ps. Ok (Some ps)))
      | None \<Rightarrow>
          (case co_number a of
             Some number \<Rightarrow>
               if number = 0 then Ok None
               else if number > length (v_applied v) then
                 Err (CE_Msg (str ''there are not `'' @ show_nat number @ str ''` applied patches to commit''))
               else Ok (Some (take number (v_applied v)))
           | None \<Rightarrow>
               if v_applied v = [] then Err NoAppliedPatches
               else if co_all a then Ok (Some (v_applied v))
               else Ok (Some [hd (v_applied v)])))"

primrec empty_patches_of ::
  "'w repository \<Rightarrow> stack_view \<Rightarrow> patch_name list \<Rightarrow> (trans_error, patch_name list) outcome" where
  "empty_patches_of repo v [] = Ok []"
| "empty_patches_of repo v (pn # pns) =
     obind (get_patch_commit v pn) (\<lambda>patch_commit.
     obind (get_parent_commit repo patch_commit) (\<lambda>parent.
     obind (empty_patches_of repo v pns) (\<lambda>rest.
     Ok (if c_tree patch_commit = c_tree parent then pn # rest else rest))))"

definition check_no_empty ::
  "'w repository \<Rightarrow> stack_view \<Rightarrow> patch_name list \<Rightarrow> ('p cmd_error, unit) outcome" where
  "check_no_empty repo v patches =
     obind (trans_check (empty_patches_of repo v patches)) (\<lambda>empty_patches.
     if length empty_patches = 1 then
       Err (CE_Msg (str ''attempt to commit empty patch `'' @ pn_str (hd empty_patches) @
                    str ''`; use --allow-empty to override''))
     else if empty_patches \<noteq> [] then
       Err (CE_Msg (str ''attempt to commit '' @ show_nat (length empty_patches) @
                    str '' empty patches; use `--allow-empty` to override''))
     else Ok ())"

definition commit_plan ::
  "('x, 'w) git \<Rightarrow> 'p cmd_env \<Rightarrow> stack \<Rightarrow> commit_args \<Rightarrow> 'w repository \<Rightarrow> ('p cmd_error, 'w plan) outcome" where
  "commit_plan g env sk a repo =
     (let v = stack_view_of sk in
      obind (commit_select env v a) (\<lambda>selected. case selected of
        None \<Rightarrow> Ok NothingToDo
      | Some patches \<Rightarrow>
          obind (if co_allow_empty a then Ok () else check_no_empty repo v patches) (\<lambda>_.
          obind (trans_check (check_head_top_mismatch sk)) (\<lambda>_.
          Ok (Transaction (allow_conflicts_if_same_top True (use_index_and_worktree True default_options))
            (commit_patches g patches) (str ''commit''))))))"

section \<open>Clean\<close>

definition clean_modes :: "bool \<Rightarrow> bool \<Rightarrow> bool \<times> bool" where
  "clean_modes applied unapplied =
     (if \<not> applied \<and> \<not> unapplied then (True, True) else (applied, unapplied))"

text \<open>
  The topmost patch is kept when conflicts are outstanding: \<open>check_conflicts().is_ok()\<close>, where an error
  of \<open>statuses\<close> ends the command.
\<close>

primrec clean_applied ::
  "('x, 'w) git \<Rightarrow> 'w repository \<Rightarrow> stack_view \<Rightarrow> patch_name list \<Rightarrow> (trans_error, patch_name list) outcome" where
  "clean_applied g repo v [] = Ok []"
| "clean_applied g repo v (pn # pns) =
     obind (get_patch_commit v pn) (\<lambda>c.
     obind (is_no_change repo c) (\<lambda>no_change.
     obind (if \<not> no_change then Ok False
            else if pns = [] then
              obind (statuses_of g (work repo)) (\<lambda>ss. case check_status_conflicts ss of
                Ok _ \<Rightarrow> Ok True | Err _ \<Rightarrow> Ok False | Panic \<Rightarrow> Panic)
            else Ok True) (\<lambda>del.
     obind (clean_applied g repo v pns) (\<lambda>rest.
     Ok (if del then pn # rest else rest)))))"

primrec clean_unapplied ::
  "'w repository \<Rightarrow> stack_view \<Rightarrow> patch_name list \<Rightarrow> (trans_error, patch_name list) outcome" where
  "clean_unapplied repo v [] = Ok []"
| "clean_unapplied repo v (pn # pns) =
     obind (get_patch_commit v pn) (\<lambda>c.
     obind (is_no_change repo c) (\<lambda>no_change.
     obind (clean_unapplied repo v pns) (\<lambda>rest.
     Ok (if no_change then pn # rest else rest))))"

definition clean_select ::
  "('x, 'w) git \<Rightarrow> 'w repository \<Rightarrow> stack_view \<Rightarrow> bool \<Rightarrow> bool \<Rightarrow> (trans_error, patch_name list) outcome" where
  "clean_select g repo v applied unapplied =
     (let (ca, cu) = clean_modes applied unapplied in
      obind (if ca then clean_applied g repo v (v_applied v) else Ok []) (\<lambda>a.
      obind (if cu then clean_unapplied repo v (v_unapplied v) else Ok []) (\<lambda>u.
      Ok (a @ u))))"

definition clean_plan ::
  "('x, 'w) git \<Rightarrow> 'p cmd_env \<Rightarrow> stack \<Rightarrow> bool \<Rightarrow> bool \<Rightarrow> 'w repository \<Rightarrow> ('p cmd_error, 'w plan) outcome" where
  "clean_plan g env sk applied unapplied repo =
     obind (trans_check (check_head_top_mismatch sk)) (\<lambda>_.
     obind (check_repository_state env) (\<lambda>_.
     obind (trans_check (clean_select g repo (stack_view_of sk) applied unapplied)) (\<lambda>to_delete.
     if to_delete \<noteq> [] then
       Ok (Transaction (use_index_and_worktree False (allow_conflicts True default_options))
         (delete_closure g to_delete) (str ''delete''))
     else Ok NothingToDo)))"

section \<open>Rename\<close>

text \<open>One name renames the topmost patch, two names the first to the second.\<close>

datatype rename_args = RenameTop rstring | RenamePatch rstring rstring

definition rename_names ::
  "'p cmd_env \<Rightarrow> stack_view \<Rightarrow> rename_args \<Rightarrow> ('p cmd_error, patch_name \<times> patch_name) outcome" where
  "rename_names env v a =
     (case a of
        RenameTop s \<Rightarrow>
          obind (omap_err CE_Name (from_str s)) (\<lambda>new.
          if v_applied v \<noteq> [] then Ok (last (v_applied v), new) else Err NoAppliedPatches)
      | RenamePatch s1 s2 \<Rightarrow>
          obind (omap_err CE_Locator (locator_from_str s1)) (\<lambda>loc.
          obind (omap_err CE_Locator (resolve_name (cm_locator env) loc v)) (\<lambda>old.
          obind (omap_err CE_Name (from_str s2)) (\<lambda>new.
          Ok (old, new)))))"

definition rename_plan ::
  "'p cmd_env \<Rightarrow> stack \<Rightarrow> rename_args \<Rightarrow> ('p cmd_error, 'w plan) outcome" where
  "rename_plan env sk a =
     (let v = stack_view_of sk in
      obind (rename_names env v a) (\<lambda>(old, new).
      let ok = Ok (Transaction (allow_conflicts True default_options) (rename_patch old new)
                 (str ''rename '' @ pn_str old @ [c_space] @ pn_str new)) in
      case stack_collides v new of
        Some colliding \<Rightarrow>
          if has_patch v new then Err (CE_Msg (str ''patch `'' @ pn_str new @ str ''` already exists''))
          else if colliding \<noteq> old then
            Err (CE_Msg (str ''new name `'' @ pn_str new @ str ''` collides with `'' @ pn_str colliding @ str ''`''))
          else ok
      | None \<Rightarrow> ok))"

section \<open>Reset\<close>

text \<open>
  \<open>stg reset <committish>\<close>; the committish is already resolved to a commit id.  Without one, the command
  is a hard checkout of the head.  The text of an error of the ranges is left out.
\<close>

definition reset_state_closure ::
  "('x, 'w) git \<Rightarrow> 'p cmd_env \<Rightarrow> oid \<Rightarrow> patch_range list option \<Rightarrow> ('w, unit) tm" where
  "reset_state_closure g env commit_id ranges =
     sbind (commit_of_id commit_id) (\<lambda>commit.
     sbind (pure (\<lambda>t. from_commit g (tr_repo t) commit)) (\<lambda>st.
     case ranges of
       Some rs \<Rightarrow>
         sbind (pure (\<lambda>_. omap_err (\<lambda>_. OtherError []) (resolve_names (cm_locator env) (state_view st) rs RC_All))) (\<lambda>pns.
         reset_to_state_partially g st pns)
     | None \<Rightarrow> reset_to_state st))"

definition reset_plan ::
  "('x, 'w) git \<Rightarrow> 'p cmd_env \<Rightarrow> oid \<Rightarrow> patch_range list option \<Rightarrow> bool \<Rightarrow> 'w plan" where
  "reset_plan g env commit_id ranges hard =
     Transaction
       (allow_bad_head (ranges = None) (discard_changes hard (use_index_and_worktree True default_options)))
       (reset_state_closure g env commit_id ranges) (str ''reset'')"

definition reset_hard ::
  "('x, 'w) git \<Rightarrow> 'w repository \<Rightarrow> (trans_error, commit) outcome \<Rightarrow> (trans_error, unit) outcome \<times> 'w repository" where
  "reset_hard g repo head_commit =
     (case head_commit of
        Err e \<Rightarrow> (Err e, repo)
      | Panic \<Rightarrow> (Panic, repo)
      | Ok c \<Rightarrow> (case w_checkout_hard g (c_tree c) (work repo) of (r, w) \<Rightarrow> (of_sum OtherError r, repo\<lparr>work := w\<rparr>)))"

section \<open>Running a plan\<close>

definition run_plan ::
  "('x, 'w) git \<Rightarrow> bool \<Rightarrow> stack \<Rightarrow> ('p cmd_error, 'w plan) outcome \<Rightarrow> 'w repository \<Rightarrow>
   ('p cmd_error, stack) outcome \<times> 'w repository" where
  "run_plan g interrupted sk plan repo =
     (case plan of
        Err e \<Rightarrow> (Err e, repo)
      | Panic \<Rightarrow> (Panic, repo)
      | Ok NothingToDo \<Rightarrow> (Ok sk, repo)
      | Ok (Transaction opts f msg) \<Rightarrow>
          (case run_transaction g interrupted sk opts f msg repo of (r, repo') \<Rightarrow> (omap_err CE_Trans r, repo')))"

end
