(* ===== verification/Repair.thy ===== *)
theory Repair
  imports Commands
begin

text \<open>
  The commands \<open>repair\<close> and \<open>uncommit\<close>, which turn commits of the branch into patches:
  \<open>src/cmd/repair.rs\<close> and \<open>src/cmd/uncommit.rs\<close>.

  Both follow the history, which the types do not bound, and both call \<open>uniquify\<close>; so they are partial,
  with \<open>None\<close> for a loop that does not end.
\<close>

section \<open>Commits and patches\<close>

text \<open>\<open>all_patches().find(|pn| get_patch_commit_id(pn) == id)\<close>.\<close>

primrec find_by_commit :: "stack_view \<Rightarrow> oid \<Rightarrow> patch_name list \<Rightarrow> (trans_error, patch_name option) outcome" where
  "find_by_commit v i [] = Ok None"
| "find_by_commit v i (pn # pns) =
     obind (get_patch_commit v pn) (\<lambda>c. if c_id c = i then Ok (Some pn) else find_by_commit v i pns)"

text \<open>
  What the loop over the history has found: applied patches, commits to make patches of, and commits to make
  patches of if a patch is found below, each with the newest first.
\<close>

record repair_walk =
  rw_applied :: "patch_name list"
  rw_patchify :: "commit list"
  rw_maybe :: "commit list"

text \<open>\<open>patchify.append(&mut maybe_patchify)\<close>.\<close>

definition patchify_all :: "repair_walk \<Rightarrow> repair_walk" where
  "patchify_all w = w\<lparr>rw_patchify := rw_patchify w @ rw_maybe w, rw_maybe := []\<rparr>"

definition walk_commit :: "stack_view \<Rightarrow> commit \<Rightarrow> repair_walk \<Rightarrow> (trans_error, repair_walk) outcome" where
  "walk_commit v commit w =
     obind (find_by_commit v (c_id commit) (all_patches v)) (\<lambda>found.
       case found of
         Some pn \<Rightarrow> Ok (patchify_all (w\<lparr>rw_applied := rw_applied w @ [pn]\<rparr>))
       | None \<Rightarrow> Ok (w\<lparr>rw_maybe := rw_maybe w @ [commit]\<rparr>))"

partial_function (option) walk_loop ::
  "'w repository \<Rightarrow> stack \<Rightarrow> commit \<Rightarrow> repair_walk \<Rightarrow> (trans_error, commit \<times> repair_walk) outcome option" where
  "walk_loop repo sk commit w =
     (if length (c_parents commit) \<noteq> 1 then Some (Ok (commit, w))
      else
        (case get_parent_commit repo commit of
           Err e \<Rightarrow> Some (Err e)
         | Panic \<Rightarrow> Some Panic
         | Ok parent \<Rightarrow>
             (case walk_commit (stack_view_of sk) commit w of
                Err e \<Rightarrow> Some (Err e)
              | Panic \<Rightarrow> Some Panic
              | Ok w' \<Rightarrow>
                  if c_id (sk_base sk) = c_id parent then Some (Ok (parent, patchify_all w'))
                  else walk_loop repo sk parent w')))"

definition repair_walk_from_head ::
  "'w repository \<Rightarrow> stack \<Rightarrow> (trans_error, commit \<times> repair_walk) outcome option" where
  "repair_walk_from_head repo sk =
     walk_loop repo sk (sk_branch_head sk) \<lparr>rw_applied = [], rw_patchify = [], rw_maybe = []\<rparr>"

section \<open>Patches behind a merge\<close>

text \<open>\<open>todo\<close> and \<open>seen\<close> are ordered sets; \<open>todo.pop()\<close> takes the last element.\<close>

partial_function (option) unreachable_loop ::
  "'w repository \<Rightarrow> stack_view \<Rightarrow> oid list \<Rightarrow> oid list \<Rightarrow> nat \<Rightarrow> (trans_error, nat) outcome option" where
  "unreachable_loop repo v todo seen unreachable =
     (if todo = [] then Some (Ok unreachable)
      else
        let i = last todo; seen' = index_set (seen @ [i])
        in (case find_commit repo i of
              Err e \<Rightarrow> Some (Err e)
            | Panic \<Rightarrow> Some Panic
            | Ok commit \<Rightarrow>
                let unseen = filter (\<lambda>p. p \<notin> set seen') (index_set (c_parents commit));
                    todo' = index_set (butlast todo @ unseen)
                in (case find_by_commit v i (all_patches v) of
                      Err e \<Rightarrow> Some (Err e)
                    | Panic \<Rightarrow> Some Panic
                    | Ok found \<Rightarrow>
                        unreachable_loop repo v todo' seen' (if found \<noteq> None then unreachable + 1 else unreachable))))"

text \<open>The warning; the text leaves out the id of the merge commit.\<close>

definition unreachable_warning :: "nat \<Rightarrow> rstring list" where
  "unreachable_warning n =
     (if n > 0 then
        [show_nat n @ str '' patch'' @ (if n = 1 then str '' is'' else str ''es are'')
           @ str '' hidden below the merge commit and will be considered unapplied'']
      else [])"

definition check_unreachable ::
  "'w repository \<Rightarrow> stack \<Rightarrow> commit \<Rightarrow> (trans_error, rstring list) outcome option" where
  "check_unreachable repo sk commit =
     (if c_id commit \<noteq> c_id (sk_base sk) then
        map_option (\<lambda>r. obind r (\<lambda>n. Ok (unreachable_warning n)))
          (unreachable_loop repo (stack_view_of sk) [c_id commit] [] 0)
      else Some (Ok []))"

section \<open>The repaired lists\<close>

definition repaired_unapplied :: "stack_view \<Rightarrow> patch_name list \<Rightarrow> patch_name list" where
  "repaired_unapplied v applied =
     filter (\<lambda>pn. pn \<notin> set applied) (v_applied v) @ filter (\<lambda>pn. pn \<notin> set applied) (v_unapplied v)"

definition repaired_hidden :: "stack_view \<Rightarrow> patch_name list \<Rightarrow> patch_name list" where
  "repaired_hidden v applied = filter (\<lambda>pn. pn \<notin> set applied) (v_hidden v)"

definition repair_messages :: "stack_view \<Rightarrow> patch_name list \<Rightarrow> patch_name list \<Rightarrow> rstring list" where
  "repair_messages v applied unapplied =
     map (\<lambda>pn. str ''`'' @ pn_str pn @ str ''` is now applied'') (filter (\<lambda>pn. pn \<notin> set (v_applied v)) applied)
     @ map (\<lambda>pn. str ''`'' @ pn_str pn @ str ''` is now unapplied'') (filter (\<lambda>pn. pn \<notin> set (v_unapplied v)) unapplied)"

text \<open>
  A name from the message of a commit, made unique.  \<open>cfg_lower\<close> is \<open>str::to_lowercase\<close>, \<open>cfg_checks\<close> says
  whether the build checks for overflow, \<open>cfg_limit\<close> is the limit from the configuration.
\<close>

record naming =
  cfg_lower :: "rstring \<Rightarrow> rstring"
  cfg_checks :: bool
  cfg_limit :: "nat option"

definition name_for :: "naming \<Rightarrow> patch_name list \<Rightarrow> commit \<Rightarrow> (name_error, patch_name) outcome option" where
  "name_for cfg disallow commit =
     (case Patch_Name.make (cfg_lower cfg) (c_message commit) True (cfg_limit cfg) of
        Ok pn \<Rightarrow> uniquify (cfg_checks cfg) [] disallow pn
      | Err e \<Rightarrow> Some (Err e)
      | Panic \<Rightarrow> Some Panic)"

text \<open>\<open>make\<close> and \<open>uniquify\<close> return no errors, so the branch of an error is not reached.\<close>

primrec patchify_loop ::
  "naming \<Rightarrow> commit list \<Rightarrow> 'w transaction \<Rightarrow> ((trans_error, unit) outcome \<times> 'w transaction) option" where
  "patchify_loop cfg [] t = Some (Ok (), t)"
| "patchify_loop cfg (c # cs) t =
     (case name_for cfg (all_patches (trans_view t)) c of
        None \<Rightarrow> None
      | Some (Ok pn) \<Rightarrow>
          (case new_applied pn (c_id c) t of
             (Ok _, t') \<Rightarrow> patchify_loop cfg cs t'
           | (Err e, t') \<Rightarrow> Some (Err e, t')
           | (Panic, t') \<Rightarrow> Some (Panic, t'))
      | Some _ \<Rightarrow> Some (Panic, t))"

definition repair_closure ::
  "naming \<Rightarrow> stack_view \<Rightarrow> patch_name list \<Rightarrow> commit list \<Rightarrow> 'w transaction \<Rightarrow>
   ((trans_error, unit) outcome \<times> 'w transaction) option" where
  "repair_closure cfg v applied patchify t =
     (case repair_appliedness applied (repaired_unapplied v applied) (repaired_hidden v applied) t of
        (Ok _, t') \<Rightarrow> patchify_loop cfg patchify t'
      | (Err e, t') \<Rightarrow> Some (Err e, t')
      | (Panic, t') \<Rightarrow> Some (Panic, t'))"

definition creating_message :: "nat \<Rightarrow> rstring list" where
  "creating_message n =
     (if n = 0 then []
      else [str ''Creating '' @ show_nat n @ str '' new patch'' @ (if n = 1 then [] else str ''es'')])"

definition repair_options :: trans_options where
  "repair_options = use_index_and_worktree False default_options"

text \<open>
  The messages are those printed before the transaction is executed.  A closure that returns is run by
  giving its result to the transaction.
\<close>

definition run_closure ::
  "('x, 'w) git \<Rightarrow> bool \<Rightarrow> stack \<Rightarrow> trans_options \<Rightarrow>
   ('w transaction \<Rightarrow> ((trans_error, unit) outcome \<times> 'w transaction) option) \<Rightarrow> rstring \<Rightarrow> 'w repository \<Rightarrow>
   ((trans_error, stack) outcome \<times> 'w repository) option" where
  "run_closure g interrupted sk opts f msg repo =
     (case f (start_transaction sk opts repo) of
        None \<Rightarrow> None
      | Some res \<Rightarrow> Some (run_transaction g interrupted sk opts (\<lambda>t. res) msg repo))"

definition repair ::
  "('x, 'w) git \<Rightarrow> bool \<Rightarrow> naming \<Rightarrow> bool \<Rightarrow> stack \<Rightarrow> 'w repository \<Rightarrow>
   ((trans_error, stack) outcome \<times> 'w repository \<times> rstring list) option" where
  "repair g interrupted cfg protected sk repo =
     (if protected then
        Some (Err (other ''this branch is protected; modification is not permitted.''), repo, [])
      else
        (case repair_walk_from_head repo sk of
           None \<Rightarrow> None
         | Some (Err e) \<Rightarrow> Some (Err e, repo, [])
         | Some Panic \<Rightarrow> Some (Panic, repo, [])
         | Some (Ok (commit, w)) \<Rightarrow>
             (case check_unreachable repo sk commit of
                None \<Rightarrow> None
              | Some (Err e) \<Rightarrow> Some (Err e, repo, [])
              | Some Panic \<Rightarrow> Some (Panic, repo, [])
              | Some (Ok warning) \<Rightarrow>
                  let v = stack_view_of sk; applied = rev (rw_applied w); patchify = rev (rw_patchify w) in
                  map_option
                    (\<lambda>(r, repo'). (r, repo', warning @ repair_messages v applied (repaired_unapplied v applied)
                       @ creating_message (length patchify)))
                    (run_closure g interrupted sk repair_options (repair_closure cfg v applied patchify)
                       (str ''repair'') repo))))"

section \<open>Uncommit\<close>

text \<open>\<open>make_patchnames\<close>: the oldest commit, which is the last, is named first.\<close>

primrec make_names_loop ::
  "naming \<Rightarrow> patch_name list \<Rightarrow> commit list \<Rightarrow> (name_error, patch_name list) outcome option" where
  "make_names_loop cfg taken [] = Some (Ok [])"
| "make_names_loop cfg taken (c # cs) =
     (case name_for cfg taken c of
        None \<Rightarrow> None
      | Some (Ok pn) \<Rightarrow>
          map_option (\<lambda>r. obind r (\<lambda>pns. Ok (pn # pns))) (make_names_loop cfg (taken @ [pn]) cs)
      | Some (Err e) \<Rightarrow> Some (Err e)
      | Some Panic \<Rightarrow> Some Panic)"

definition make_patchnames ::
  "naming \<Rightarrow> stack_view \<Rightarrow> commit list \<Rightarrow> (name_error, patch_name list) outcome option" where
  "make_patchnames cfg v commits =
     map_option (\<lambda>r. obind r (\<lambda>pns. Ok (rev pns))) (make_names_loop cfg (all_patches v) (rev commits))"

primrec check_names_loop ::
  "stack_view \<Rightarrow> patch_name list \<Rightarrow> patch_name list \<Rightarrow> (trans_error, unit) outcome" where
  "check_names_loop v taken [] = Ok ()"
| "check_names_loop v taken (pn # pns) =
     (case stack_collides v pn of
        Some q \<Rightarrow> Err (OtherError (str ''patch `'' @ pn_str q @ str ''` already exists''))
      | None \<Rightarrow>
          (case find (collides pn) taken of
             Some q \<Rightarrow> Err (OtherError (str ''patch name `'' @ pn_str pn @ str ''` collides with `'' @ pn_str q @ str ''`''))
           | None \<Rightarrow> check_names_loop v (taken @ [pn]) pns))"

definition check_patchnames :: "stack_view \<Rightarrow> patch_name list \<Rightarrow> (trans_error, unit) outcome" where
  "check_patchnames v pns = check_names_loop v [] pns"

definition check_commit :: "commit \<Rightarrow> (trans_error, unit) outcome" where
  "check_commit c =
     (if length (c_parents c) = 1 then Ok ()
      else Err (other ''cannot uncommit commit which does not have exactly one parent''))"

text \<open>The loop of \<open>--to\<close>: from the base down to the target.\<close>

partial_function (option) commits_to ::
  "'w repository \<Rightarrow> oid \<Rightarrow> bool \<Rightarrow> commit \<Rightarrow> commit list \<Rightarrow> (trans_error, commit list) outcome option" where
  "commits_to repo target exclusive c acc =
     (if c_id c = target then
        Some (if exclusive then Ok acc else obind (check_commit c) (\<lambda>_. Ok (acc @ [c])))
      else
        (case check_commit c of
           Err e \<Rightarrow> Some (Err e)
         | Panic \<Rightarrow> Some Panic
         | Ok _ \<Rightarrow>
             (case get_parent_commit repo c of
                Err e \<Rightarrow> Some (Err e)
              | Panic \<Rightarrow> Some Panic
              | Ok parent \<Rightarrow> commits_to repo target exclusive parent (acc @ [c]))))"

text \<open>The loops over a number of commits.\<close>

primrec commits_down :: "'w repository \<Rightarrow> nat \<Rightarrow> commit \<Rightarrow> (trans_error, commit list) outcome" where
  "commits_down repo 0 c = Ok []"
| "commits_down repo (Suc n) c =
     obind (check_commit c) (\<lambda>_.
     obind (get_parent_commit repo c) (\<lambda>parent.
     obind (commits_down repo n parent) (\<lambda>cs. Ok (c # cs))))"

text \<open>Names with a prefix, from the highest number down.\<close>

primrec numbered_names :: "patch_name \<Rightarrow> nat \<Rightarrow> (name_error, patch_name list) outcome" where
  "numbered_names p 0 = Ok []"
| "numbered_names p (Suc n) =
     obind (try_from (pn_str p @ show_nat (Suc n))) (\<lambda>pn.
     obind (numbered_names p n) (\<lambda>pns. Ok (pn # pns)))"

text \<open>
  The selected commits and their names.  With \<open>--to\<close>, the target has been resolved by git; \<open>un_bases\<close>
  are the merge bases of the target and the base of the stack.
\<close>

datatype uncommit_args =
  UncommitTo "(trans_error, commit) outcome" "oid \<Rightarrow> (trans_error, oid list) outcome" bool
| UncommitNumber nat "patch_name list option"
| UncommitNames "patch_name list"
| UncommitOne

definition name_err :: "(name_error, 'a) outcome \<Rightarrow> (trans_error, 'a) outcome" where
  "name_err r = omap_err (\<lambda>e. OtherError (str ''invalid patch name'')) r"

definition named_commits ::
  "naming \<Rightarrow> stack_view \<Rightarrow> (trans_error, commit list) outcome \<Rightarrow>
   (trans_error, commit list \<times> patch_name list) outcome option" where
  "named_commits cfg v commits =
     (case commits of
        Ok cs \<Rightarrow> map_option (\<lambda>r. obind (name_err r) (\<lambda>pns. Ok (cs, pns))) (make_patchnames cfg v cs)
      | Err e \<Rightarrow> Some (Err e)
      | Panic \<Rightarrow> Some Panic)"

text \<open>\<open>bases[0]\<close> panics when there is no common ancestor.\<close>

definition to_target ::
  "'w repository \<Rightarrow> stack \<Rightarrow> (trans_error, commit) outcome \<Rightarrow> (oid \<Rightarrow> (trans_error, oid list) outcome) \<Rightarrow> bool \<Rightarrow>
   (trans_error, commit \<times> bool) outcome" where
  "to_target repo sk target bases exclusive =
     obind target (\<lambda>t.
     obind (bases (c_id t)) (\<lambda>bs.
       if c_id t \<in> set bs then Ok (t, exclusive)
       else if bs = [] then Panic
       else obind (find_commit repo (hd bs)) (\<lambda>b. Ok (b, True))))"

fun uncommit_select ::
  "naming \<Rightarrow> 'w repository \<Rightarrow> stack \<Rightarrow> uncommit_args \<Rightarrow>
   (trans_error, commit list \<times> patch_name list) outcome option" where
  "uncommit_select cfg repo sk (UncommitTo target bases exclusive) =
     (case to_target repo sk target bases exclusive of
        Err e \<Rightarrow> Some (Err e)
      | Panic \<Rightarrow> Some Panic
      | Ok (t, excl) \<Rightarrow>
          Option.bind (commits_to repo (c_id t) excl (sk_base sk) [])
            (named_commits cfg (stack_view_of sk)))"
| "uncommit_select cfg repo sk (UncommitNumber n None) =
     named_commits cfg (stack_view_of sk) (commits_down repo n (sk_base sk))"
| "uncommit_select cfg repo sk (UncommitNumber n (Some names)) =
     Some (obind (commits_down repo n (sk_base sk)) (\<lambda>cs.
       (case names of
          [p] \<Rightarrow>
            obind (name_err (numbered_names p n)) (\<lambda>pns.
            obind (check_patchnames (stack_view_of sk) pns) (\<lambda>_. Ok (cs, pns)))
        | _ \<Rightarrow> Err (other ''when using `--number`, specify at most one patch name''))))"
| "uncommit_select cfg repo sk (UncommitNames pns) =
     Some (obind (check_patchnames (stack_view_of sk) pns) (\<lambda>_.
           obind (commits_down repo (length pns) (sk_base sk)) (\<lambda>cs. Ok (cs, pns))))"
| "uncommit_select cfg repo sk UncommitOne =
     named_commits cfg (stack_view_of sk) (obind (check_commit (sk_base sk)) (\<lambda>_. Ok [sk_base sk]))"

definition uncommit_options :: trans_options where
  "uncommit_options = set_head False (allow_conflicts True (use_index_and_worktree False default_options))"

definition uncommit ::
  "('x, 'w) git \<Rightarrow> bool \<Rightarrow> naming \<Rightarrow> stack \<Rightarrow> uncommit_args \<Rightarrow> 'w repository \<Rightarrow>
   ((trans_error, stack) outcome \<times> 'w repository) option" where
  "uncommit g interrupted cfg sk a repo =
     (case check_head_top_mismatch sk of
        Err e \<Rightarrow> Some (Err e, repo)
      | Panic \<Rightarrow> Some (Panic, repo)
      | Ok _ \<Rightarrow>
          (case uncommit_select cfg repo sk a of
             None \<Rightarrow> None
           | Some (Err e) \<Rightarrow> Some (Err e, repo)
           | Some Panic \<Rightarrow> Some (Panic, repo)
           | Some (Ok (commits, pns)) \<Rightarrow>
               if length commits \<noteq> length pns then Some (Panic, repo)
               else Some (run_transaction g interrupted sk uncommit_options
                      (uncommit_patches (rev (zip pns (map c_id commits)))) (str ''uncommit'') repo)))"

end
