(* ===== verification/Commands_Inv.thy ===== *)
theory Commands_Inv
  imports Commands Range_Props Trans_Props
begin

text \<open>
  The transactions that the commands plan keep the invariants of the stack.
\<close>

section \<open>Pushing trees\<close>

lemma finish_pushed:
  assumes "st \<noteq> PS_Conflict"
  shows "sthen (make_applied pn) (print (print_pushed pn st l)) t = push_finish pn l st t"
  using assms by (simp add: push_finish_def make_applied_def print_def sm_defs)

text \<open>The commit of a patch whose tree is pushed.\<close>

definition tree_commit ::
  "('x, 'w) git \<Rightarrow> patch_name \<Rightarrow> commit \<Rightarrow> commit \<Rightarrow> ('w, push_status) tm" where
  "tree_commit g pn k tc =
     (if hd (c_parents k) = c_id tc then ret PS_Unmodified
      else
        sbind (author_of g k) (\<lambda>author.
        sbind (committer_of g) (\<lambda>default_committer.
        sbind (recommit g k author default_committer (c_tree k) (c_id tc)) (\<lambda>commit.
        sthen (set_patch pn (Some \<lparr>ps_commit = commit\<rparr>)) (ret PS_Modified)))))"

lemma tree_commit_cases:
  assumes run: "tree_commit g pn k tc t = (r, t')" and ok: "trans_ok t"
    and get: "trans_get t pn = Some \<lparr>ps_commit = k\<rparr>" and parent: "c_parents k \<noteq> []"
  obtains (done_commit) c st where "r = Ok st" "st \<noteq> PS_Conflict" "with_commit pn c t t'" "c_parents c \<noteq> []" "hd (c_parents c) = c_id tc"
  | (failed) e where "r = Err e" "no_conflict e" "t' = t"
proof (cases "hd (c_parents k) = c_id tc")
  case True
  have "(trans_get t)(pn \<mapsto> \<lparr>ps_commit = k\<rparr>) = trans_get t" using get by (simp add: fun_upd_idem)
  then have "with_commit pn k t t" using trans_okD [OF ok] by (simp add: with_commit_def)
  with True show ?thesis using run parent that(1) by (simp add: tree_commit_def)
next
  case False
  obtain a where a: "author_of g k t = (a, t)" by (simp add: author_of_def)
  obtain d where d: "committer_of g t = (d, t)" by (simp add: committer_of_def)
  show ?thesis
  proof (cases "\<exists>author dc. a = Ok author \<and> d = Ok dc")
    case True
    then obtain author dc where ad: "a = Ok author" "d = Ok dc" by blast
    obtain q t1 where q: "recommit g k author dc (c_tree k) (c_id tc) t = (q, t1)" by fastforce
    have run': "(case q of Ok c \<Rightarrow> (Ok PS_Modified, t1\<lparr>tr_updated_patches := bt_insert (tr_updated_patches t1) pn (Some \<lparr>ps_commit = c\<rparr>)\<rparr>)
        | Err e \<Rightarrow> (Err e, t1) | Panic \<Rightarrow> (Panic, t1)) = (r, t')"
      using run a d ad False q by (cases q) (simp_all add: tree_commit_def sm_defs set_patch_def)
    from q trans_ok_odb [OF ok] show ?thesis
    proof (cases rule: recommit_cases)
      case (written c repo)
      then have "with_commit pn c t t'"
        using run' trans_ok_bt [OF ok] by (auto simp: with_commit_def bt_ok_insert split: if_splits intro!: trans_get_insert)
      then show ?thesis using that(1) written run' by auto
    next
      case (failed e)
      then show ?thesis using that(2) run' by (auto simp: no_conflict_def)
    qed
  next
    case False2: False
    then show ?thesis
      using run a d False author_of_run [OF a] committer_of_run [OF d] that(2)
      by (cases a; cases d) (auto simp: tree_commit_def sm_defs)
  qed
qed

lemma t_top_commit: "trans_ok t \<Longrightarrow> t_top t = Ok (top_commit t)"
  unfolding top_commit_def by (rule t_top_ok)

lemma push_tree_cases:
  assumes run: "push_tree g pn l t = (r, t')" and ok: "trans_ok t"
    and pn: "pn \<in> set (tr_unapplied t) \<union> set (tr_hidden t)"
  obtains (pushed) "r = Ok ()" "trans_ok t'" "pushed pn t t'"
  | (failed) e where "r = Err e" "no_conflict e" "t' = t"
proof -
  from pn obtain k where get: "trans_get t pn = Some \<lparr>ps_commit = k\<rparr>"
    using trans_ok_get [OF ok, of pn] by (metis UnE UnI2 option.exhaust_sel patch_state.cases set_append)
  have k: "patch_commit_of pn t = (Ok k, t)" using get by (simp add: patch_commit_of_def get_patch_commit_def pure_def)
  show ?thesis
  proof (cases "get_parent_commit (tr_repo t) k")
    case (Err e)
    then have "r = outcome.Err e" "t' = t" using run k by (simp_all add: push_tree_def sbind_def parent_of_def pure_def)
    then show ?thesis using that(2) get_parent_err [OF Err] by blast
  next
    case (Ok op)
    obtain q t1 where q: "tree_commit g pn k (top_commit t) t = (q, t1)" by fastforce
    from q ok get get_parent_commit_OkD(1) [OF Ok] show ?thesis
    proof (cases rule: tree_commit_cases)
      case (failed e)
      then have "r = Err e" "t' = t"
        using run k Ok t_top_commit [OF ok] q
        by (simp_all add: push_tree_def sbind_def parent_of_def pure_def tree_commit_def [symmetric])
      then show ?thesis using that(2) failed(2) by blast
    next
      case (done_commit c st)
      let ?st = "if c_tree op = c_tree k then PS_Empty else st"
      have l1: "pn \<in> set (tr_unapplied t1) \<or> pn \<in> set (tr_hidden t1)"
        "distinct (tr_unapplied t1 @ tr_hidden t1)"
        using done_commit(3) pn trans_ok_distinct [OF ok] by (auto simp: with_commit_def)
      have "sthen (make_applied pn) (print (print_pushed pn ?st l)) t1 = (r, t')"
        using run k Ok t_top_commit [OF ok] q done_commit(1) l1(1)
        by (simp add: push_tree_def sbind_def parent_of_def pure_def tree_commit_def [symmetric] gets_def sassert_def
            sthen_def [of "ret ()"] ret_def)
      then have run': "push_finish pn l ?st t1 = (r, t')" using finish_pushed [of ?st pn l t1] done_commit(2) by simp
      note fin = push_finish_run [OF l1(2) run']
      have ok': "trans_ok t'"
        by (rule moved_ok [OF ok pn done_commit(3)]) (use fin done_commit(3) in \<open>auto simp: with_commit_def\<close>)
      have "trans_get t' = (trans_get t)(pn \<mapsto> \<lparr>ps_commit = c\<rparr>)"
        using fin done_commit(3) trans_get_cong [of t' t1] by (simp add: with_commit_def)
      then have "pushed pn t t'"
        unfolding pushed_def using fin done_commit(3-5) by (auto simp: with_commit_def intro!: exI [of _ c])
      then show ?thesis using that(1) fin ok' done_commit(2) by auto
    qed
  qed simp
qed

lemma push_trees_outcome:
  assumes "push_trees g pns t = (r, t')" "trans_ok t" "pushable t pns"
  shows "push_outcome pns r t t'"
  using assms
proof (induction pns arbitrary: t)
  case Nil
  then show ?case by (auto simp: push_outcome_def same_patches_refl)
next
  case (Cons pn pns)
  obtain q t1 where q: "push_tree g pn (pns = []) t = (q, t1)" by fastforce
  have pn: "pn \<in> set (tr_unapplied t) \<union> set (tr_hidden t)" using Cons.prems(3) by (simp add: pushable_def)
  have r: "(case q of Ok u \<Rightarrow> push_trees g pns t1 | Err e \<Rightarrow> (Err e, t1) | Panic \<Rightarrow> (Panic, t1)) = (r, t')"
    using Cons.prems(1) q by (simp add: sthen_def sbind_def)
  from q Cons.prems(2) pn show ?case
  proof (cases rule: push_tree_cases)
    case pushed
    then have "push_outcome pns r t1 t'"
      using Cons.IH [of t1] r pushable_tl [OF Cons.prems(3) pushed(3) Cons.prems(2)] by simp
    then show ?thesis by (rule push_outcome_step [OF pushed(3)])
  next
    case (failed e)
    then have "t = t'" "r = Err e" using r by auto
    moreover have "pushed_list (take 0 (pn # pns)) t t" by (simp add: same_patches_refl)
    ultimately show ?thesis unfolding push_outcome_def using failed(2) Cons.prems(2) by blast
  qed
qed

section \<open>Safe closures\<close>

text \<open>A closure that does not panic and keeps the invariants of the transaction, whatever its result.\<close>

definition safe :: "('w, unit) tm \<Rightarrow> 'w transaction \<Rightarrow> bool" where
  "safe f t \<longleftrightarrow> (case f t of (r, t') \<Rightarrow> r \<noteq> Panic \<and> trans_ok t' \<and> chain_ok t')"

lemma safeI:
  assumes "\<And>r t'. f t = (r, t') \<Longrightarrow> r \<noteq> Panic \<and> trans_ok t' \<and> chain_ok t'"
  shows "safe f t"
  using assms by (cases "f t") (simp add: safe_def)

definition good :: "'w transaction \<Rightarrow> bool" where
  "good t \<longleftrightarrow> trans_ok t \<and> chain_ok t"

lemma push_patches_safe: "good t \<Longrightarrow> pushable t pns \<Longrightarrow> safe (push_patches g pns m) t"
  by (rule safeI) (metis good_def push_outcome_chain push_outcome_no_panic push_outcome_ok push_patches_outcome)

lemma push_trees_safe: "good t \<Longrightarrow> pushable t pns \<Longrightarrow> safe (push_trees g pns) t"
  by (rule safeI) (metis good_def push_outcome_chain push_outcome_no_panic push_outcome_ok push_trees_outcome)

text \<open>Without a new list of hidden patches, those that become applied leave it.\<close>

lemma reorder_without_hidden:
  assumes ok: "trans_ok t" and a: "distinct (case ap of Some a \<Rightarrow> a | None \<Rightarrow> [])"
      "set (case ap of Some a \<Rightarrow> a | None \<Rightarrow> []) \<subseteq> set (all_patches (trans_view t))"
  shows "reorder_patches g ap (Some un) None t =
    reorder_patches g ap (Some un) (Some (filter (\<lambda>pn. pn \<notin> set (case ap of Some a \<Rightarrow> a | None \<Rightarrow> [])) (tr_hidden t))) t"
proof (cases ap)
  case None
  then show ?thesis by (simp add: reorder_patches_def sm_defs)
next
  case (Some a)
  obtain r t1 where r: "reorder_applied g a t = (r, t1)" by fastforce
  have "tr_hidden t1 = filter (\<lambda>pn. pn \<notin> set a) (tr_hidden t)" if "r = Ok ()"
    using reorder_applied_outcome(4) [OF r ok] assms(2,3) Some that by (simp add: reordered_def)
  then show ?thesis using Some r by (cases r) (auto simp: reorder_patches_def sm_defs)
qed

lemma reorder_keeping_hidden:
  assumes run: "reorder_patches g (Some ap) (Some un) None t = (r, t')" and ok: "trans_ok t" and ch: "chain_ok t"
    and m: "mset (ap @ un @ filter (\<lambda>pn. pn \<notin> set ap) (tr_hidden t)) = mset (all_patches (trans_view t))"
  shows "r \<noteq> Panic \<and> trans_ok t' \<and> chain_ok t' \<and>
    (r = Ok () \<longrightarrow> tr_applied t' = ap \<and> tr_unapplied t' = un \<and> tr_hidden t' = filter (\<lambda>pn. pn \<notin> set ap) (tr_hidden t))"
proof -
  have d: "distinct ap" "set ap \<subseteq> set (all_patches (trans_view t))"
    using m trans_ok_distinct [OF ok] by (metis all_patches_trans distinct_append mset_eq_imp_distinct_iff, metis Un_upper1 mset_eq_setD set_append)
  then have run': "reorder_patches g (Some ap) (Some un) (Some (filter (\<lambda>pn. pn \<notin> set ap) (tr_hidden t))) t = (r, t')"
    using run reorder_without_hidden [OF ok, of "Some ap" g un] by simp
  show ?thesis using reorder_patches_outcome [OF run' ok] m ch by simp
qed

lemma reorder_safe:
  assumes "good t" "mset (ap @ un @ filter (\<lambda>pn. pn \<notin> set ap) (tr_hidden t)) = mset (all_patches (trans_view t))"
  shows "safe (reorder_patches g (Some ap) (Some un) None) t"
  using assms reorder_keeping_hidden [of g ap un t] by (intro safeI) (auto simp: good_def)

lemma reorder_unapplied_safe:
  assumes "good t" "mset un = mset (tr_unapplied t)"
  shows "safe (reorder_patches g None (Some un) None) t"
proof (rule safeI)
  fix r t' assume "reorder_patches g None (Some un) None t = (r, t')"
  then have run: "reorder_patches g None (Some un) (Some (tr_hidden t)) t = (r, t')"
    by (auto simp: reorder_patches_def sm_defs)
  show "r \<noteq> Panic \<and> trans_ok t' \<and> chain_ok t'"
    using reorder_patches_outcome(1-3) [OF run] assms by (simp add: good_def)
qed

lemma ui_irrelevant: "trans_ok (t\<lparr>tr_ui := u\<rparr>) = trans_ok t" "chain_ok (t\<lparr>tr_ui := u\<rparr>) = chain_ok t"
proof -
  have "trans_get (t\<lparr>tr_ui := u\<rparr>) = trans_get t" by (rule trans_get_cong) simp_all
  then show "trans_ok (t\<lparr>tr_ui := u\<rparr>) = trans_ok t" "chain_ok (t\<lparr>tr_ui := u\<rparr>) = chain_ok t"
    by (simp_all add: trans_ok_def view_ok_trans chain_ok_def t_base_def split: option.split)
qed

lemma hide_safe:
  assumes good: "good t" and th: "distinct th" "set th \<subseteq> set (tr_applied t) \<union> set (tr_unapplied t)"
  shows "safe (hide_patches g th) t"
proof (rule safeI)
  fix r t' assume run: "hide_patches g th t = (r, t')"
  let ?ap = "filter (\<lambda>pn. pn \<notin> set th) (tr_applied t)" and ?un = "filter (\<lambda>pn. pn \<notin> set th) (tr_unapplied t)"
  obtain q t1 where q: "reorder_patches g (Some ?ap) (Some ?un) (Some (th @ tr_hidden t)) t = (q, t1)" by fastforce
  have d: "distinct (tr_applied t @ tr_unapplied t @ tr_hidden t)" using trans_ok_distinct good by (auto simp: good_def)
  have "distinct (?ap @ ?un @ th @ tr_hidden t)" using d th by auto
  moreover have "set (?ap @ ?un @ th @ tr_hidden t) = set (tr_applied t @ tr_unapplied t @ tr_hidden t)" using th by auto
  ultimately have "mset (?ap @ ?un @ th @ tr_hidden t) = mset (tr_applied t @ tr_unapplied t @ tr_hidden t)"
    using d by (metis set_eq_iff_mset_eq_distinct)
  then have "q \<noteq> Panic \<and> trans_ok t1 \<and> chain_ok t1"
    using reorder_patches_outcome [OF q] good by (simp add: good_def)
  then show "r \<noteq> Panic \<and> trans_ok t' \<and> chain_ok t'"
    using run q by (cases q) (auto simp: hide_patches_def sm_defs print_def ui_irrelevant)
qed

lemma unhide_safe:
  assumes good: "good t" and th: "distinct th" "set th \<subseteq> set (tr_hidden t)"
  shows "safe (unhide_patches g th) t"
proof (rule safeI)
  fix r t' assume run: "unhide_patches g th t = (r, t')"
  let ?hi = "filter (\<lambda>pn. pn \<notin> set th) (tr_hidden t)"
  obtain q t1 where q: "reorder_patches g None (Some (tr_unapplied t @ th)) (Some ?hi) t = (q, t1)" by fastforce
  have d: "distinct (tr_applied t @ tr_unapplied t @ tr_hidden t)" using trans_ok_distinct good by (auto simp: good_def)
  have "distinct (tr_applied t @ (tr_unapplied t @ th) @ ?hi)" using d th by auto
  moreover have "set (tr_applied t @ (tr_unapplied t @ th) @ ?hi) = set (tr_applied t @ tr_unapplied t @ tr_hidden t)"
    using th by auto
  ultimately have "mset (tr_applied t @ (tr_unapplied t @ th) @ ?hi) = mset (tr_applied t @ tr_unapplied t @ tr_hidden t)"
    using d by (metis set_eq_iff_mset_eq_distinct)
  then have "q \<noteq> Panic \<and> trans_ok t1 \<and> chain_ok t1"
    using reorder_patches_outcome(1-3) [OF q] good by (simp add: good_def)
  then show "r \<noteq> Panic \<and> trans_ok t' \<and> chain_ok t'"
    using run q by (cases q) (auto simp: unhide_patches_def sm_defs print_def ui_irrelevant)
qed

lemma chained_take: "chained b xs \<Longrightarrow> chained b (take n xs)"
  by (induction b xs arbitrary: n rule: chained.induct) (auto simp: take_Cons' )

lemma delete_patches_good:
  assumes good: "good t" and orig: "\<And>pn. p pn \<Longrightarrow> trans_get t pn \<noteq> None \<Longrightarrow> has_patch (stack_view_of (tr_stack t)) pn"
  obtains t1 where "delete_patches p t = (Ok (filter (\<lambda>pn. \<not> p pn) (popped_of p t)), t1)" "good t1"
    "tr_applied t1 = takeWhile (\<lambda>pn. \<not> p pn) (tr_applied t)"
    "tr_unapplied t1 = filter (\<lambda>pn. \<not> p pn) (popped_of p t) @ filter (\<lambda>pn. \<not> p pn) (tr_unapplied t)"
    "tr_hidden t1 = filter (\<lambda>pn. \<not> p pn) (tr_hidden t)"
    "\<And>pn. \<not> p pn \<Longrightarrow> trans_get t1 pn = trans_get t pn" "tr_stack t1 = tr_stack t" "tr_repo t1 = tr_repo t"
proof -
  obtain t1 where run: "delete_patches p t = (Ok (filter (\<lambda>pn. \<not> p pn) (popped_of p t)), t1)"
    and lists: "tr_applied t1 = takeWhile (\<lambda>pn. \<not> p pn) (tr_applied t)"
      "tr_unapplied t1 = filter (\<lambda>pn. \<not> p pn) (popped_of p t) @ filter (\<lambda>pn. \<not> p pn) (tr_unapplied t)"
      "tr_hidden t1 = filter (\<lambda>pn. \<not> p pn) (tr_hidden t)"
    and m: "marked p (set (tr_applied t) \<union> set (tr_unapplied t) \<union> set (tr_hidden t)) (t\<lparr>tr_applied := tr_applied t1\<rparr>) t1"
    by (rule delete_patches_run [of p t])
  have ok1: "trans_ok t1" using delete_patches_ok [OF _ _ run] good orig by (auto simp: good_def)
  have get: "trans_get t1 pn = trans_get t pn" if "\<not> p pn" for pn
    using m that by (simp add: trans_get_def marked_def split: option.split)
  have "commits_of (trans_get t1) (tr_applied t1) = commits_of (trans_get t) (tr_applied t1)"
    unfolding lists commits_of_def using get by (intro map_cong) (auto dest: set_takeWhileD)
  moreover have "tr_applied t1 = take (length (tr_applied t1)) (tr_applied t)"
    unfolding lists by (rule takeWhile_eq_take)
  ultimately have "commits_of (trans_get t1) (tr_applied t1) = take (length (tr_applied t1)) (commits_of (trans_get t) (tr_applied t))"
    by (metis commits_of_def take_map)
  moreover have "t_base t1 = t_base t" using m by (simp add: marked_def t_base_def split: option.split)
  ultimately have "chain_ok t1" using good chained_take by (simp add: chain_ok_def good_def)
  then have "good t1" using ok1 by (simp add: good_def)
  then show ?thesis using that run lists get m by (simp add: marked_def)
qed

lemma delete_safe:
  assumes good: "good t"
    and orig: "\<And>pn. trans_get t pn \<noteq> None \<Longrightarrow> has_patch (stack_view_of (tr_stack t)) pn"
  shows "safe (delete_closure g ps) t"
proof -
  let ?p = "\<lambda>pn. pn \<in> set ps"
  obtain t1 where run: "delete_patches ?p t = (Ok (filter (\<lambda>pn. \<not> ?p pn) (popped_of ?p t)), t1)" and good1: "good t1"
    and un: "tr_unapplied t1 = filter (\<lambda>pn. \<not> ?p pn) (popped_of ?p t) @ filter (\<lambda>pn. \<not> ?p pn) (tr_unapplied t)"
    using delete_patches_good [OF good, of ?p] orig by metis
  have "distinct (tr_unapplied t1)" using trans_ok_distinct good1 by (auto simp: good_def)
  then have "pushable t1 (filter (\<lambda>pn. \<not> ?p pn) (popped_of ?p t))" by (auto simp: pushable_def un)
  then have "safe (push_patches g (filter (\<lambda>pn. \<not> ?p pn) (popped_of ?p t)) False) t1"
    by (rule push_patches_safe [OF good1])
  then show ?thesis using run by (simp add: safe_def delete_closure_def sbind_def)
qed

lemma commit_safe:
  assumes "good t" "tc = filter P (tr_applied t @ tr_unapplied t)" "tc \<noteq> []"
    and "\<And>pn. trans_get t pn \<noteq> None \<Longrightarrow> has_patch (stack_view_of (tr_stack t)) pn"
  shows "safe (commit_patches g tc) t"
proof (rule safeI)
  fix r t' assume run: "commit_patches g tc t = (r, t')"
  have "\<forall>pn\<in>set tc. has_patch (stack_view_of (tr_stack t)) pn"
    using assms(1,2,4) trans_ok_get [of t] by (auto simp: good_def)
  then show "r \<noteq> Panic \<and> trans_ok t' \<and> chain_ok t'"
    using commit_patches_outcome(1-3) [OF run _ assms(2,3)] assms(1) by (simp add: good_def)
qed

lemma rename_safe:
  assumes "good t" "trans_get t old \<noteq> None" "has_patch (stack_view_of (tr_stack t)) old"
    and "trans_get t new = None" "stack_collides (stack_view_of (tr_stack t)) new \<in> {None, Some old}"
  shows "safe (rename_patch old new) t"
proof -
  obtain p where p: "trans_get t old = Some p" using assms(2) by auto
  have "trans_ok t" "chain_ok t" using assms(1) by (simp_all add: good_def)
  then show ?thesis using rename_patch_run [OF _ p assms(3-5)] by (auto simp: safe_def)
qed

end
