(* ===== verification/Commands_Props.thy ===== *)
theory Commands_Props
  imports Commands_Inv Execute_Props
begin

text \<open>
  Properties of the commands: what each of them does to the lists of patches, and that every sequence
  of commands keeps the stack well formed.
\<close>

section \<open>The stack a command starts from\<close>

definition ready :: "stack \<Rightarrow> 'w repository \<Rightarrow> bool" where
  "ready sk repo \<longleftrightarrow>
     stack_ok sk \<and> odb_ok repo \<and>
     chained (sk_base sk) (commits_of (bt_get (st_patches (sk_state sk))) (st_applied (sk_state sk)))"

lemma start_sel [simp]:
  "tr_applied (start_transaction sk opts repo) = st_applied (sk_state sk)"
  "tr_unapplied (start_transaction sk opts repo) = st_unapplied (sk_state sk)"
  "tr_hidden (start_transaction sk opts repo) = st_hidden (sk_state sk)"
  "tr_stack (start_transaction sk opts repo) = sk" "tr_repo (start_transaction sk opts repo) = repo"
  "trans_get (start_transaction sk opts repo) = bt_get (st_patches (sk_state sk))"
  "t_base (start_transaction sk opts repo) = sk_base sk"
  by (simp_all add: start_transaction_def trans_get_def t_base_def fun_eq_iff)

lemma start_good:
  assumes "ready sk repo"
  shows "good (start_transaction sk opts repo)"
proof -
  let ?t = "start_transaction sk opts repo"
  have v: "view_ok (stack_view_of sk)" using assms by (simp add: ready_def stack_ok_def state_ok_def)
  then have "view_ok (trans_view ?t)"
    by (simp add: view_ok_trans) (simp add: view_ok_def all_patches_def has_patch_def state_view_def)
  moreover have "tr_updated_patches ?t = []" by (simp add: start_transaction_def)
  ultimately show ?thesis using assms by (simp add: good_def trans_ok_def chain_ok_def ready_def)
qed

lemma start_original:
  "trans_get (start_transaction sk opts repo) pn \<noteq> None \<Longrightarrow> has_patch (stack_view_of sk) pn"
  by (simp add: has_patch_def state_view_def)

lemma ready_view: "ready sk repo \<Longrightarrow> view_ok (stack_view_of sk)"
  by (simp add: ready_def stack_ok_def state_ok_def)

lemma view_sel [simp]:
  "v_applied (state_view st) = st_applied st" "v_unapplied (state_view st) = st_unapplied st" "v_hidden (state_view st) = st_hidden st"
  by (simp_all add: state_view_def)

lemma ready_distinct: "ready sk repo \<Longrightarrow> distinct (st_applied (sk_state sk) @ st_unapplied (sk_state sk) @ st_hidden (sk_state sk))"
  using view_ok_distinct [OF ready_view] by (simp add: all_patches_def)

lemma resolve_names_ok:
  assumes "view_ok v" "resolve_names env v rgs allow = Ok ps"
  shows "distinct ps" "set ps \<subseteq> set (get_allowed v (location_of_range allow))"
  using resolve_ranges_all [OF assms(1), of env allow "[]" rgs] assms(2)
  by (auto simp: resolve_names_def)

lemma resolve_or_ok:
  assumes "view_ok v" "resolve_or env v rgs allow p m = Ok ps"
  shows "distinct ps" "set ps \<subseteq> set (get_allowed v (location_of_range allow))"
proof -
  have "resolve_names (cm_locator env) v rgs allow = Ok ps" using assms(2) by (simp add: resolve_or_def)
  note resolve_names_ok [OF assms(1) this]
  then show "distinct ps" "set ps \<subseteq> set (get_allowed v (location_of_range allow))" .
qed

text \<open>Two lists of distinct patches with the same members are rearrangements of each other.\<close>

lemma mset_same: "distinct xs \<Longrightarrow> distinct ys \<Longrightarrow> set xs = set ys \<Longrightarrow> mset xs = mset ys"
  by (metis set_eq_iff_mset_eq_distinct)

section \<open>Push\<close>

lemma push_select_ok:
  assumes "view_ok v" "push_select env v a = Ok ps"
  shows "distinct ps \<and> set ps \<subseteq> set (v_unapplied v)"
proof -
  have d: "distinct (v_unapplied v)" using view_ok_distinct [OF assms(1)] by (simp add: all_patches_def)
  show ?thesis
  proof (cases "pu_ranges a")
    case (Some rs)
    then show ?thesis using resolve_or_ok [OF assms(1)] assms(2) by (fastforce simp: push_select_def)
  next
    case None
    then show ?thesis using assms(2) d by (auto simp: push_select_def split: if_splits option.splits dest: in_set_takeD)
  qed
qed

lemma push_plan_safe:
  assumes r: "ready sk repo" and plan: "push_plan g env sk a repo = Ok (Transaction opts f msg)"
  shows "safe f (start_transaction sk opts repo)"
proof -
  obtain ps qs where ps: "push_select env (stack_view_of sk) a = Ok ps" and qs: "qs = (if pu_reverse a then rev ps else ps)"
    and f: "f = push_closure g a qs"
    using plan by (auto simp: push_plan_def split: if_splits)
  let ?t = "start_transaction sk opts repo"
  have s: "distinct qs" "set qs \<subseteq> set (st_unapplied (sk_state sk))"
    using push_select_ok [OF ready_view [OF r] ps] by (auto simp: qs)
  have d: "distinct (st_unapplied (sk_state sk))" using ready_distinct [OF r] by simp
  have "mset (qs @ filter (\<lambda>pn. pn \<notin> set qs) (tr_unapplied ?t)) = mset (tr_unapplied ?t)"
    using s d by (intro mset_same) auto
  then have "safe (reorder_patches g None (Some (qs @ filter (\<lambda>pn. pn \<notin> set qs) (tr_unapplied ?t))) None) ?t"
    by (rule reorder_unapplied_safe [OF start_good [OF r]])
  moreover have "pushable ?t qs" using s by (auto simp: pushable_def)
  ultimately show ?thesis
    using push_patches_safe [OF start_good [OF r], of opts qs g "pu_merged a"] push_trees_safe [OF start_good [OF r], of opts qs g]
    by (simp add: f push_closure_def safe_def)
qed

section \<open>Commands that rearrange\<close>

lemma reorder_mset:
  assumes r: "ready sk repo"
    and d: "distinct (ap @ un)" and s: "set (ap @ un) \<subseteq> set (all_patches (stack_view_of sk))"
      "set (st_applied (sk_state sk)) \<union> set (st_unapplied (sk_state sk)) \<subseteq> set (ap @ un)"
      "set un \<inter> set (st_hidden (sk_state sk)) = {}"
  shows "mset (ap @ un @ filter (\<lambda>pn. pn \<notin> set ap) (tr_hidden (start_transaction sk opts repo))) =
    mset (all_patches (trans_view (start_transaction sk opts repo)))"
proof -
  let ?hi = "filter (\<lambda>pn. pn \<notin> set ap) (st_hidden (sk_state sk))"
  have D: "distinct (st_applied (sk_state sk) @ st_unapplied (sk_state sk) @ st_hidden (sk_state sk))"
    by (rule ready_distinct [OF r])
  have "mset (ap @ un @ ?hi) = mset (st_applied (sk_state sk) @ st_unapplied (sk_state sk) @ st_hidden (sk_state sk))"
  proof (rule mset_same)
    show "distinct (ap @ un @ ?hi)" using d D s(3) by auto
    show "set (ap @ un @ ?hi) = set (st_applied (sk_state sk) @ st_unapplied (sk_state sk) @ st_hidden (sk_state sk))"
      using s by (auto simp: all_patches_def)
  qed (rule D)
  then show ?thesis by simp
qed

lemmas reorder_plan_safe = reorder_safe [OF start_good reorder_mset]

lemma pop_plan_safe:
  assumes r: "ready sk repo" and plan: "pop_plan g env sk a repo = Ok (Transaction opts f msg)"
  shows "safe f (start_transaction sk opts repo)"
proof -
  obtain ps where f: "f = reorder_patches g (Some (filter (\<lambda>pn. pn \<notin> set ps) (st_applied (sk_state sk))))
      (Some (filter (\<lambda>pn. pn \<in> set ps) (st_applied (sk_state sk)) @ st_unapplied (sk_state sk))) None"
    using plan by (auto simp: pop_plan_def pop_split_def Let_def split: if_splits option.splits)
  show ?thesis unfolding f
    by (rule reorder_plan_safe [OF r r]) (use ready_distinct [OF r] in \<open>auto simp: all_patches_def\<close>)
qed

lemma goto_plan_safe:
  assumes r: "ready sk repo" and plan: "goto_plan g env sk a repo = Ok (Transaction opts f msg)"
  shows "safe f (start_transaction sk opts repo)"
proof -
  obtain pn q where q: "constrain (stack_view_of sk) LC_Visible pn = Ok q" and f: "f = goto_closure g (go_merged a) q"
    using plan by (auto simp: goto_plan_def)
  let ?ap = "st_applied (sk_state sk)" and ?un = "st_unapplied (sk_state sk)"
  have D: "distinct (?ap @ ?un @ st_hidden (sk_state sk))" by (rule ready_distinct [OF r])
  have vis: "q \<in> set ?ap \<or> q \<in> set ?un"
    using q by (auto simp: constrain_def location_group_of_def split: if_splits)
  show ?thesis
  proof (cases "position (\<lambda>p. p = q) ?ap")
    case (Some pos)
    have "distinct (take (Suc pos) ?ap @ drop (Suc pos) ?ap @ ?un)" using D by (metis append_assoc append_take_drop_id distinct_append)
    moreover have "set (take (Suc pos) ?ap @ drop (Suc pos) ?ap @ ?un) = set ?ap \<union> set ?un"
      by (metis append_assoc append_take_drop_id set_append)
    ultimately have "safe (reorder_patches g (Some (take (Suc pos) ?ap)) (Some (drop (Suc pos) ?ap @ ?un)) None) (start_transaction sk opts repo)"
      using D by (intro reorder_plan_safe [OF r r]) (auto simp: all_patches_def dest: in_set_dropD)
    then show ?thesis using Some by (simp add: f goto_closure_def safe_def)
  next
    case None
    then have "q \<in> set ?un" using vis by auto
    then obtain pos where pos: "position (\<lambda>p. p = q) ?un = Some pos" using position_mem by metis
    have "pushable (start_transaction sk opts repo) (take (Suc pos) ?un)"
      using D by (auto simp: pushable_def dest: in_set_takeD)
    then have "safe (push_patches g (take (Suc pos) ?un) (go_merged a)) (start_transaction sk opts repo)"
      by (rule push_patches_safe [OF start_good [OF r]])
    then show ?thesis using None pos by (simp add: f goto_closure_def safe_def del: position_None_iff)
  qed
qed

lemma float_plan_safe:
  assumes r: "ready sk repo" and plan: "float_plan g env sk a repo = Ok (Transaction opts f msg)"
  shows "safe f (start_transaction sk opts repo)"
proof -
  obtain ps where ps: "(case fl_series a of
               Some contents \<Rightarrow> parse_series env (stack_view_of sk) contents
             | None \<Rightarrow> omap_err CE_Range (resolve_names (cm_locator env) (stack_view_of sk) (fl_ranges a) RC_Visible)) = Ok ps"
    and f: "f = (case float_lists (fl_noapply a) ps (stack_view_of sk) of (ap, un) \<Rightarrow> reorder_patches g (Some ap) (Some un) None)"
    using plan by (auto simp: float_plan_def Let_def split: if_splits prod.splits)
  obtain rgs where rgs: "resolve_names (cm_locator env) (stack_view_of sk) rgs RC_Visible = Ok ps"
    using ps by (auto simp: parse_series_def split: option.splits)
  have s: "distinct ps" "set ps \<subseteq> set (st_applied (sk_state sk)) \<union> set (st_unapplied (sk_state sk))"
    using resolve_names_ok [OF ready_view [OF r] rgs] by (auto simp: applied_and_unapplied_def)
  have D: "distinct (st_applied (sk_state sk) @ st_unapplied (sk_state sk) @ st_hidden (sk_state sk))"
    by (rule ready_distinct [OF r])
  obtain ap un where l: "float_lists (fl_noapply a) ps (stack_view_of sk) = (ap, un)" by fastforce
  have "distinct (ap @ un)" "set (ap @ un) = set (st_applied (sk_state sk)) \<union> set (st_unapplied (sk_state sk))"
    using l s D by (auto simp: float_lists_def split: if_splits)
  then show ?thesis unfolding f l prod.case using D
    by (intro reorder_plan_safe [OF r r]) (auto simp: all_patches_def)
qed

lemma sink_lists_facts:
  assumes "sink_lists np n ps ra ru = (ap, un)" "distinct (ps @ ra @ ru)"
  shows "distinct (ap @ un)" "set (ap @ un) = set ps \<union> set ra \<union> set ru" "set un \<subseteq> set ra \<union> set ru"
proof -
  have "mset (take n ra) + mset (drop n ra) = mset ra" by (metis append_take_drop_id mset_append)
  then have m: "mset (ap @ un) = mset (ps @ ra @ ru)"
    using assms(1) by (auto simp: sink_lists_def ac_simps split: if_splits)
  show "distinct (ap @ un)" using mset_eq_imp_distinct_iff [OF m] assms(2) by simp
  show "set (ap @ un) = set ps \<union> set ra \<union> set ru" using mset_eq_setD [OF m] by auto
  show "set un \<subseteq> set ra \<union> set ru" using assms(1) by (auto simp: sink_lists_def split: if_splits dest: in_set_dropD)
qed

lemma sink_plan_cases:
  assumes plan: "sink_plan g env sk a repo = Ok (Transaction opts f msg)"
  obtains ps n opt_target where "sink_select env (stack_view_of sk) a = Ok ps"
    "sink_target_patch env (stack_view_of sk) (si_target a) = Ok opt_target"
    "case opt_target of
       None \<Rightarrow> n = 0
     | Some tp \<Rightarrow>
         (\<exists>pos. position (\<lambda>pn. pn = tp) (filter (\<lambda>pn. pn \<notin> set ps) (st_applied (sk_state sk))) = Some pos \<and>
            n = (if (case si_target a of Some tg \<Rightarrow> is_above tg | None \<Rightarrow> False) then Suc pos else pos))"
    "f = (case sink_lists (si_nopush a) n ps (filter (\<lambda>pn. pn \<notin> set ps) (st_applied (sk_state sk)))
        (filter (\<lambda>pn. pn \<notin> set ps) (st_unapplied (sk_state sk))) of
      (ap, un) \<Rightarrow> reorder_patches g (Some ap) (Some un) None)"
  using plan
  by (fastforce simp: sink_plan_def Let_def case_prod_unfold split: if_splits option.splits)

lemma sink_select_ok:
  assumes "ready sk repo" "sink_select env (stack_view_of sk) a = Ok ps"
  shows "distinct ps \<and> set ps \<subseteq> set (all_patches (stack_view_of sk))"
proof (cases "si_ranges a")
  case None
  then show ?thesis using assms(2) by (auto simp: sink_select_def all_patches_def split: if_splits)
next
  case (Some rs)
  then have "resolve_names (cm_locator env) (stack_view_of sk) rs RC_All = Ok ps" using assms(2) by (simp add: sink_select_def)
  from resolve_names_ok [OF ready_view [OF assms(1)] this] show ?thesis by simp
qed

lemma sink_lists_ready:
  assumes r: "ready sk repo" and ps: "sink_select env (stack_view_of sk) a = Ok ps"
    and l: "sink_lists np n ps (filter (\<lambda>pn. pn \<notin> set ps) (st_applied (sk_state sk)))
      (filter (\<lambda>pn. pn \<notin> set ps) (st_unapplied (sk_state sk))) = (ap, un)"
  shows "distinct (ap @ un)" "set (ap @ un) \<subseteq> set (all_patches (stack_view_of sk))"
    "set (st_applied (sk_state sk)) \<union> set (st_unapplied (sk_state sk)) \<subseteq> set (ap @ un)" "set un \<inter> set (st_hidden (sk_state sk)) = {}"
proof -
  let ?ap = "st_applied (sk_state sk)" and ?un = "st_unapplied (sk_state sk)"
  note s = sink_select_ok [OF r ps]
  have D: "distinct (?ap @ ?un @ st_hidden (sk_state sk))" by (rule ready_distinct [OF r])
  have "distinct (ps @ filter (\<lambda>pn. pn \<notin> set ps) ?ap @ filter (\<lambda>pn. pn \<notin> set ps) ?un)" using s D by auto
  note facts = sink_lists_facts [OF l this]
  have "set (ap @ un) = set ps \<union> set ?ap \<union> set ?un" "set un \<subseteq> set ?ap \<union> set ?un" using facts(2,3) by auto
  then show "distinct (ap @ un)" "set (ap @ un) \<subseteq> set (all_patches (stack_view_of sk))"
    "set ?ap \<union> set ?un \<subseteq> set (ap @ un)" "set un \<inter> set (st_hidden (sk_state sk)) = {}"
    using D s facts(1) by (auto simp: all_patches_def)
qed

lemma sink_plan_safe:
  assumes r: "ready sk repo" and plan: "sink_plan g env sk a repo = Ok (Transaction opts f msg)"
  shows "safe f (start_transaction sk opts repo)"
  using plan
proof (rule sink_plan_cases)
  fix ps n
  assume ps: "sink_select env (stack_view_of sk) a = Ok ps"
    and f: "f = (case sink_lists (si_nopush a) n ps (filter (\<lambda>pn. pn \<notin> set ps) (st_applied (sk_state sk)))
        (filter (\<lambda>pn. pn \<notin> set ps) (st_unapplied (sk_state sk))) of
      (ap, un) \<Rightarrow> reorder_patches g (Some ap) (Some un) None)"
  obtain ap un where l: "sink_lists (si_nopush a) n ps (filter (\<lambda>pn. pn \<notin> set ps) (st_applied (sk_state sk)))
      (filter (\<lambda>pn. pn \<notin> set ps) (st_unapplied (sk_state sk))) = (ap, un)" by fastforce
  show ?thesis unfolding f l prod.case by (rule reorder_plan_safe [OF r r sink_lists_ready [OF r ps l]])
qed

section \<open>Other commands\<close>

lemma hide_plan_safe:
  assumes r: "ready sk repo" and plan: "hide_plan g env sk rs = Ok (Transaction opts f msg)"
  shows "safe f (start_transaction sk opts repo)"
proof -
  obtain ps where ps: "resolve_names (cm_locator env) (stack_view_of sk) rs RC_All = Ok ps"
    and f: "f = hide_patches g (filter (\<lambda>pn. \<not> is_hidden (stack_view_of sk) pn) ps)"
    using plan by (auto simp: hide_plan_def Let_def)
  show ?thesis unfolding f using resolve_names_ok [OF ready_view [OF r] ps]
    by (intro hide_safe [OF start_good [OF r]]) (auto simp: is_hidden_def all_patches_def)
qed

lemma unhide_plan_safe:
  assumes r: "ready sk repo" and plan: "unhide_plan g env sk rs = Ok (Transaction opts f msg)"
  shows "safe f (start_transaction sk opts repo)"
proof -
  obtain ps m p where ps: "resolve_or env (stack_view_of sk) rs RC_Hidden p m = Ok ps" and f: "f = unhide_patches g ps"
    using plan by (auto simp: unhide_plan_def Let_def)
  show ?thesis unfolding f using resolve_or_ok [OF ready_view [OF r] ps]
    by (intro unhide_safe [OF start_good [OF r]]) auto
qed

lemma delete_plan_safe:
  assumes r: "ready sk repo" and plan: "delete_plan g env sk a repo = Ok (Transaction opts f msg)"
  shows "safe f (start_transaction sk opts repo)"
proof -
  obtain ps where f: "f = delete_closure g ps"
    using plan by (auto simp: delete_plan_def Let_def split: if_splits)
  show ?thesis unfolding f by (rule delete_safe [OF start_good [OF r]]) (simp add: has_patch_def state_view_def)
qed

lemma clean_plan_safe:
  assumes r: "ready sk repo" and plan: "clean_plan g env sk x y repo = Ok (Transaction opts f msg)"
  shows "safe f (start_transaction sk opts repo)"
proof -
  obtain ps where f: "f = delete_closure g ps"
    using plan by (auto simp: clean_plan_def split: if_splits)
  show ?thesis unfolding f by (rule delete_safe [OF start_good [OF r]]) (simp add: has_patch_def state_view_def)
qed

lemma resolve_name_member: "resolve_name env l v = Ok pn \<Longrightarrow> pn \<in> set (all_patches v)"
  by (auto simp: resolve_name_run inside_def)

lemma rename_names_old: "rename_names env v a = Ok (old, new) \<Longrightarrow> old \<in> set (all_patches v)"
  by (auto simp: rename_names_def all_patches_def dest!: resolve_name_member split: rename_args.splits if_splits)

lemma rename_plan_safe:
  assumes r: "ready sk repo" and plan: "rename_plan env sk a = Ok (Transaction opts f msg)"
  shows "safe f (start_transaction sk opts repo)"
proof -
  let ?v = "stack_view_of sk"
  obtain old new where n: "rename_names env ?v a = Ok (old, new)" using plan by (auto simp: rename_plan_def Let_def)
  have f: "f = rename_patch old new"
    and free: "stack_collides ?v new = None \<or> \<not> has_patch ?v new \<and> stack_collides ?v new = Some old"
    using plan n by (cases "stack_collides ?v new"; auto simp: rename_plan_def Let_def split: if_splits)+
  have "collides new new" by (simp add: collides_def eq_ignore_ascii_case_def)
  then have "\<not> has_patch ?v new" if "stack_collides ?v new = None"
    using that view_ok_has [OF ready_view [OF r], of new] by (auto simp: stack_collides_def find_None_iff)
  then have new: "\<not> has_patch ?v new" using free by auto
  have "has_patch ?v old" using rename_names_old [OF n] view_ok_has [OF ready_view [OF r], of old] by simp
  then show ?thesis unfolding f using new free
    by (intro rename_safe [OF start_good [OF r]]) (auto simp: has_patch_def state_view_def)
qed

section \<open>Commit\<close>

lemma sort_by_position:
  assumes "distinct xs" "distinct ys" "set ys \<subseteq> set xs"
  shows "sort_key (\<lambda>pn. the (position (\<lambda>q. q = pn) xs)) ys = filter (\<lambda>x. x \<in> set ys) xs"
proof (rule sort_key_inj_key_eq)
  let ?f = "\<lambda>pn. the (position (\<lambda>q. q = pn) xs)"
  have m: "map ?f xs = [0..<length xs]"
    using position_eq_nth [OF assms(1)] by (intro nth_equalityI) simp_all
  show "mset ys = mset (filter (\<lambda>x. x \<in> set ys) xs)" using assms by (intro mset_same) auto
  have "distinct (map ?f xs)" unfolding m by simp
  then have "inj_on ?f (set xs)" by (simp only: distinct_map)
  then show "inj_on ?f (set ys)" using assms(3) by (rule inj_on_subset)
  have "sorted (map ?f xs)" unfolding m by simp
  then show "sorted (map ?f (filter (\<lambda>x. x \<in> set ys) xs))" by (rule sorted_filter)
qed

lemma take_as_filter: "distinct (xs @ ys) \<Longrightarrow> take n xs = filter (\<lambda>x. x \<in> set (take n xs)) (xs @ ys)"
proof -
  assume d: "distinct (xs @ ys)"
  then have "distinct (take n xs @ drop n xs)" by simp
  then have "filter (\<lambda>x. x \<in> set (take n xs)) (take n xs @ drop n xs) = take n xs" 
    by (simp only: filter_append distinct_append) (auto simp: filter_empty_conv)
  moreover have "filter (\<lambda>x. x \<in> set (take n xs)) ys = []" using d by (auto simp: filter_empty_conv dest: in_set_takeD)
  ultimately show ?thesis by simp
qed

lemma commit_select_ok:
  assumes v: "view_ok v" and sel: "commit_select env v a = Ok (Some ps)"
  shows "\<exists>P. ps = filter P (v_applied v @ v_unapplied v)"
proof -
  have d: "distinct (v_applied v @ v_unapplied v)" using view_ok_distinct [OF v] by (auto simp: all_patches_def)
  have prefix_list: "\<exists>P. take n (v_applied v) = filter P (v_applied v @ v_unapplied v)" for n
    using take_as_filter [OF d] by metis
  show ?thesis
  proof (cases "co_ranges a")
    case (Some rs)
    then obtain req where req: "resolve_names (cm_locator env) v rs RC_VisibleWithAppliedBoundary = Ok req"
        "ps = sort_key (\<lambda>pn. the (position (\<lambda>q. q = pn) (v_applied v @ v_unapplied v))) req"
      using sel by (auto simp: commit_select_def commit_sort_def applied_and_unapplied_def split: if_splits)
    have "distinct req" "set req \<subseteq> set (v_applied v @ v_unapplied v)"
      using resolve_names_ok [OF v req(1)] by (auto simp: applied_and_unapplied_def)
    then show ?thesis using sort_by_position [OF d] req(2) by blast
  next
    case None
    then consider n where "ps = take n (v_applied v)" | "ps = v_applied v" | "ps = [hd (v_applied v)]" "v_applied v \<noteq> []"
      using sel by (auto simp: commit_select_def split: option.splits if_splits)
    then show ?thesis
    proof cases
      case 2
      then show ?thesis using prefix_list [of "length (v_applied v)"] by simp
    next
      case 3
      then show ?thesis using prefix_list [of 1] by (simp add: take_Suc)
    qed (use prefix_list in simp)
  qed
qed

lemma commit_plan_safe:
  assumes r: "ready sk repo" and plan: "commit_plan g env sk a repo = Ok (Transaction opts f msg)"
    and some: "commit_select env (stack_view_of sk) a \<noteq> Ok (Some [])"
  shows "safe f (start_transaction sk opts repo)"
proof -
  obtain ps where ps: "commit_select env (stack_view_of sk) a = Ok (Some ps)" and f: "f = commit_patches g ps"
    using plan by (auto simp: commit_plan_def Let_def split: option.splits)
  obtain P where "ps = filter P (v_applied (stack_view_of sk) @ v_unapplied (stack_view_of sk))"
    using commit_select_ok [OF ready_view [OF r] ps] by blast
  then show ?thesis unfolding f using some ps
    by (intro commit_safe [OF start_good [OF r], where P = P]) (auto simp: has_patch_def state_view_def)
qed

section \<open>All commands\<close>

datatype stack_command =
  CmdPush push_args | CmdPop pop_args | CmdGoto goto_args | CmdFloat float_args | CmdSink sink_args
| CmdHide "patch_range list" | CmdUnhide "patch_range list" | CmdDelete delete_args | CmdCommit commit_args
| CmdClean bool bool | CmdRename rename_args

primrec command_plan ::
  "('x, 'w) git \<Rightarrow> 'p cmd_env \<Rightarrow> stack \<Rightarrow> 'w repository \<Rightarrow> stack_command \<Rightarrow> ('p cmd_error, 'w plan) outcome" where
  "command_plan g env sk repo (CmdPush a) = push_plan g env sk a repo"
| "command_plan g env sk repo (CmdPop a) = pop_plan g env sk a repo"
| "command_plan g env sk repo (CmdGoto a) = goto_plan g env sk a repo"
| "command_plan g env sk repo (CmdFloat a) = float_plan g env sk a repo"
| "command_plan g env sk repo (CmdSink a) = sink_plan g env sk a repo"
| "command_plan g env sk repo (CmdHide rs) = hide_plan g env sk rs"
| "command_plan g env sk repo (CmdUnhide rs) = unhide_plan g env sk rs"
| "command_plan g env sk repo (CmdDelete a) = delete_plan g env sk a repo"
| "command_plan g env sk repo (CmdCommit a) = commit_plan g env sk a repo"
| "command_plan g env sk repo (CmdClean applied unapplied) = clean_plan g env sk applied unapplied repo"
| "command_plan g env sk repo (CmdRename a) = rename_plan env sk a"

text \<open>The one case of a panic: committing an empty selection.\<close>

definition commits_nothing :: "'p cmd_env \<Rightarrow> stack \<Rightarrow> stack_command \<Rightarrow> bool" where
  "commits_nothing env sk cmd \<longleftrightarrow>
     (\<exists>a. cmd = CmdCommit a \<and> commit_select env (stack_view_of sk) a = Ok (Some []))"

lemma command_plan_safe:
  assumes "ready sk repo" "command_plan g env sk repo cmd = Ok (Transaction opts f msg)" "\<not> commits_nothing env sk cmd"
  shows "safe f (start_transaction sk opts repo)"
proof (cases cmd)
  case (CmdCommit a)
  then show ?thesis using assms by (intro commit_plan_safe [of sk repo g env a]) (auto simp: commits_nothing_def)
qed (use assms push_plan_safe pop_plan_safe goto_plan_safe float_plan_safe sink_plan_safe hide_plan_safe unhide_plan_safe
      delete_plan_safe clean_plan_safe rename_plan_safe in \<open>simp_all, fast+\<close>)

section \<open>Sessions\<close>

lemma prepare_odb: "prepare g t repo = (Ok sk, repo0) \<Longrightarrow> odb_ok repo \<Longrightarrow> odb_ok repo0"
  by (auto simp: prepare_def split: if_splits elim!: log_external_OkE dest: keepsD [OF state_commit_odb])

lemma publish_odb: "publish g t sk th msg repo = (Ok sk', repo') \<Longrightarrow> odb_ok repo \<Longrightarrow> odb_ok repo'"
  by (auto elim!: publish_OkE dest: keepsD [OF state_commit_odb])

lemma execute_Ok:
  assumes ok: "trans_ok t" and run: "execute g interrupted msg t = (Ok sk', repo', u')"
  shows "published t sk' repo'" "odb_ok repo'" "\<not> interrupted" "tr_error t = None"
proof -
  have "published t sk' repo' \<and> odb_ok repo' \<and> \<not> interrupted \<and> tr_error t = None"
    using run outcome.distinct(3)
  proof (cases rule: executeE)
    case (publishing sk repo0 repo1 repo2 th b rm)
    obtain rs: "rm = Ok sk'" "repo' = repo2" "\<not> interrupted" "tr_error t = None"
      using publishing(7,10,11) by (cases rm) (auto split: option.splits if_splits)
    have "published t sk' repo2"
      by (rule publish_published [OF ok publishing(1) publishing(4) publishing(2)]) (use publishing(6) rs in simp)
    moreover have "odb_ok repo1"
      using prepare_odb [OF publishing(1) trans_ok_odb [OF ok]] publishing(3) by (simp add: odb_ok_def)
    ultimately show ?thesis using publish_odb [of g t sk th "state_msg b msg" repo1 sk' repo2] publishing(6) rs by simp
  qed auto
  then show "published t sk' repo'" "odb_ok repo'" "\<not> interrupted" "tr_error t = None" by auto
qed

text \<open>
  The next command opens the stack again and computes the base anew: the parent of the first applied
  patch, or the head of the branch.
\<close>

definition reopened :: "'w repository \<Rightarrow> stack \<Rightarrow> stack \<Rightarrow> bool" where
  "reopened repo sk sk' \<longleftrightarrow>
     (\<exists>base. sk' = sk\<lparr>sk_base := base\<rparr> \<and>
        (case st_applied (sk_state sk) of
           [] \<Rightarrow> base = sk_branch_head sk
         | pn # _ \<Rightarrow>
             (\<exists>p. bt_get (st_patches (sk_state sk)) pn = Some p \<and> c_parents (ps_commit p) \<noteq> [] \<and>
                find_commit repo (hd (c_parents (ps_commit p))) = Ok base)))"

inductive session ::
  "('x, 'w) git \<Rightarrow> 'p locator_env \<Rightarrow> stack \<times> 'w repository \<Rightarrow> stack \<times> 'w repository \<Rightarrow> bool"
  for g :: "('x, 'w) git" and loc :: "'p locator_env" where
  session_start: "session g loc s s"
| session_command: "session g loc s (sk, repo) \<Longrightarrow> cm_locator env = loc \<Longrightarrow> \<not> commits_nothing env sk cmd \<Longrightarrow>
    run_plan g interrupted sk (command_plan g env sk repo cmd) repo = (Ok sk1, repo') \<Longrightarrow>
    reopened repo' sk1 sk' \<Longrightarrow> session g loc s (sk', repo')"

lemma reopened_ready:
  assumes "stack_ok sk" "odb_ok repo" "chained b (commits_of (bt_get (st_patches (sk_state sk))) (st_applied (sk_state sk)))"
    and "reopened repo sk sk'"
  shows "ready sk' repo"
proof -
  obtain base where sk': "sk' = sk\<lparr>sk_base := base\<rparr>"
    and base: "case st_applied (sk_state sk) of [] \<Rightarrow> base = sk_branch_head sk
         | pn # _ \<Rightarrow> (\<exists>p. bt_get (st_patches (sk_state sk)) pn = Some p \<and> c_parents (ps_commit p) \<noteq> [] \<and>
                find_commit repo (hd (c_parents (ps_commit p))) = Ok base)"
    using assms(4) unfolding reopened_def by blast
  have "chained base (commits_of (bt_get (st_patches (sk_state sk))) (st_applied (sk_state sk)))"
    using base assms(3) odb_okD [OF assms(2)] by (cases "st_applied (sk_state sk)") (auto simp: commits_of_def)
  then show ?thesis using assms(1,2) by (simp add: ready_def sk' stack_ok_def)
qed

lemma run_transaction_Ok:
  assumes run: "run_transaction g interrupted sk opts f msg repo = (Ok sk1, repo')"
    and safe: "safe f (start_transaction sk opts repo)"
  obtains t where "f (start_transaction sk opts repo) = (Ok (), t)" "trans_ok t" "chain_ok t" "published t sk1 repo'" "odb_ok repo'"
proof -
  obtain r t where f: "f (start_transaction sk opts repo) = (r, t)" by fastforce
  have s: "r \<noteq> Panic" "trans_ok t" "chain_ok t" using safe f by (auto simp: safe_def)
  let ?t = "case r of Err e \<Rightarrow> t\<lparr>tr_error := Some e\<rparr> | _ \<Rightarrow> t"
  obtain u where ex: "execute g interrupted msg ?t = (Ok sk1, repo', u)"
    using run f s(1) by (auto simp: run_transaction_def transact_def split: if_splits outcome.splits prod.splits)
  have ok: "trans_ok ?t"
    using s(2) by (cases r) (auto intro!: trans_ok_same [OF s(2)] simp: same_patches_def trans_ok_odb)
  note e = execute_Ok [OF ok ex]
  have "r = Ok ()" using e(4) s(1) by (cases r) auto
  then show ?thesis using that [of t] f s e by simp
qed

lemma command_ready:
  assumes "ready sk repo" "\<not> commits_nothing env sk cmd"
    and run: "run_plan g interrupted sk (command_plan g env sk repo cmd) repo = (Ok sk1, repo')" and re: "reopened repo' sk1 sk'"
  shows "ready sk' repo'"
proof (cases "command_plan g env sk repo cmd")
  case (Ok plan)
  show ?thesis
  proof (cases plan)
    case NothingToDo
    then have "sk1 = sk" "repo' = repo" using run Ok by (simp_all add: run_plan_def)
    then show ?thesis using reopened_ready [OF _ _ _ re] assms(1) by (auto simp: ready_def)
  next
    case (Transaction opts f msg)
    then have "run_transaction g interrupted sk opts f msg repo = (outcome.Ok sk1, repo')"
      using run Ok by (auto simp: run_plan_def split: prod.splits)
    moreover have "safe f (start_transaction sk opts repo)"
      using command_plan_safe [OF assms(1) _ assms(2)] Ok Transaction by auto
    ultimately obtain t where t: "trans_ok t" "chain_ok t" "published t sk1 repo'" "odb_ok repo'"
      by (rule run_transaction_Ok)
    then show ?thesis
      using reopened_ready [OF _ t(4) _ re, of "t_base t"] by (auto simp: published_def chain_ok_def)
  qed
qed (use run in \<open>auto simp: run_plan_def\<close>)

section \<open>Example\<close>

definition ex_cmd_env :: "oid cmd_env" where
  "ex_cmd_env = \<lparr>cm_locator = ex_env, cm_state = None\<rparr>"

definition ex_sink :: sink_args where
  "ex_sink = \<lparr>si_ranges = None, si_target = None, si_nopush = False, si_keep = False, si_committer_date = False\<rparr>"

definition ex_push :: push_args where
  "ex_push = \<lparr>pu_ranges = None, pu_all = False, pu_number = Some 0, pu_reverse = False, pu_noapply = False,
     pu_settree = False, pu_merged = False, pu_keep = False, pu_conflicts = None, pu_committer_date = False\<rparr>"

lemma ex_ready: "ready ex_stack ex_repo"
  using ex_stack_ok ex_odb_ok
  by (simp add: ready_def) (simp add: ex_stack_def ex_state_def commits_of_def bt_get_def ex_commits)

lemma ex_check_ready: "check_ready ex_git ex_cmd_env ex_stack True ex_repo = Ok ()"
  by (simp add: check_ready_def check_repository_state_def ex_cmd_env_def statuses_of_def ex_git_def from_data_def
      from_data_loop.simps check_status_conflicts_def check_conflicts_filter_def iter_def check_head_top_mismatch_def
      is_head_top_def check_index_and_worktree_clean_def is_empty_def del: obind_Ok_iff)

lemma ex_check_ready': "check_ready ex_git ex_cmd_env ex_stack False ex_repo = Ok ()"
  using ex_check_ready by (auto simp: check_ready_def)

lemma ex_sink_plan:
  "\<exists>opts msg. sink_plan ex_git ex_cmd_env ex_stack ex_sink ex_repo =
     Ok (Transaction opts (reorder_patches ex_git (Some [pb, pa]) (Some [pc]) None) msg)"
  using ex_check_ready'
  by (simp add: sink_plan_def sink_keep_flag_def sink_target_patch_def sink_select_def ex_sink_def Let_def sink_lists_def
      state_view_def del: obind_Ok_iff) (simp add: ex_state_def)

section \<open>Properties\<close>





text \<open>A commit of no patches panics.\<close>

lemma commit_nothing_panics:
  assumes "commits_nothing env sk cmd" "command_plan g env sk repo cmd = Ok (Transaction opts f msg)"
  shows "fst (f t) = Panic"
  using assms
  by (auto simp: commits_nothing_def commit_plan_def Let_def commit_patches_def common_prefix_len_def sbind_def gets_def ret_def
      pure_def print_committed_def)

text \<open>\<open>stg commit ..\<close> on a stack without patches selects nothing.\<close>

lemma commit_empty_range:
  assumes "v_applied (stack_view_of sk) = []" "v_unapplied (stack_view_of sk) = []"
  shows "commits_nothing env sk (CmdCommit \<lparr>co_ranges = Some [PR_Range \<lparr>rb_begin = None, rb_end = None\<rparr>],
    co_number = None, co_all = False, co_allow_empty = False\<rparr>)"
  using assms
  by (simp add: commits_nothing_def commit_select_def resolve_names_def resolve_range_def resolve_opt_def begin_position_def
      open_end_def applied_and_unapplied_def commit_sort_def Let_def)

section \<open>Sink\<close>

lemma constrain_same: "constrain v c pn = Ok q \<Longrightarrow> q = pn"
  by (cases c) (auto simp: constrain_def location_group_of_def split: if_splits)

lemma position_split:
  "position (\<lambda>q. q = x) xs = Some i \<Longrightarrow> take (Suc i) xs = take i xs @ [x] \<and> drop i xs = x # drop (Suc i) xs"
  by (auto dest!: position_SomeD simp: take_Suc_conv_app_nth Cons_nth_drop_Suc)

text \<open>
  C19: What \<open>sink\<close> does when its transaction succeeds: the selected patches, hidden ones too, are
  adjacent in the applied list, at the bottom of the stack or next to the target on the asked side, all
  other patches keep their order, and with \<open>nopush\<close> nothing above them stays applied.
\<close>

theorem sink_result:
  assumes r: "ready sk repo" and plan: "sink_plan g env sk a repo = Ok (Transaction opts f msg)"
    and run: "f (start_transaction sk opts repo) = (res, t)"
  shows "\<exists>ps below above. sink_select env (stack_view_of sk) a = Ok ps \<and>
    (res = Ok () \<longrightarrow>
       tr_applied t = below @ ps @ above \<and> (si_nopush a \<longrightarrow> above = []) \<and>
       below @ above @ tr_unapplied t = filter (\<lambda>pn. pn \<notin> set ps) (st_applied (sk_state sk) @ st_unapplied (sk_state sk)) \<and>
       tr_hidden t = filter (\<lambda>pn. pn \<notin> set ps) (st_hidden (sk_state sk)) \<and>
       (case si_target a of
          None \<Rightarrow> below = []
        | Some (SinkAbove loc) \<Rightarrow> below \<noteq> [] \<and> resolve_name (cm_locator env) loc (stack_view_of sk) = Ok (last below)
        | Some (SinkBelow loc) \<Rightarrow> above @ tr_unapplied t \<noteq> [] \<and>
            resolve_name (cm_locator env) loc (stack_view_of sk) = Ok (hd (above @ tr_unapplied t))))"
  using plan
proof (rule sink_plan_cases)
  fix ps n opt_target
  let ?ra = "filter (\<lambda>pn. pn \<notin> set ps) (st_applied (sk_state sk))" and ?ru = "filter (\<lambda>pn. pn \<notin> set ps) (st_unapplied (sk_state sk))"
  let ?v = "stack_view_of sk" and ?t = "start_transaction sk opts repo"
  assume ps: "sink_select env ?v a = Ok ps" and tgt: "sink_target_patch env ?v (si_target a) = Ok opt_target"
    and n: "case opt_target of None \<Rightarrow> n = 0
     | Some tp \<Rightarrow> (\<exists>pos. position (\<lambda>pn. pn = tp) ?ra = Some pos \<and>
            n = (if (case si_target a of Some tg \<Rightarrow> is_above tg | None \<Rightarrow> False) then Suc pos else pos))"
    and f: "f = (case sink_lists (si_nopush a) n ps ?ra ?ru of (ap, un) \<Rightarrow> reorder_patches g (Some ap) (Some un) None)"
  obtain ap un where l: "sink_lists (si_nopush a) n ps ?ra ?ru = (ap, un)" by fastforce
  have good: "trans_ok ?t" "chain_ok ?t" using start_good [OF r] by (simp_all add: good_def)
  have "reorder_patches g (Some ap) (Some un) None ?t = (res, t)" using run by (simp add: f l)
  note out = reorder_keeping_hidden [OF this good reorder_mset [OF r sink_lists_ready [OF r ps l]]]
  have lists: "ap = take n ?ra @ ps @ (if si_nopush a then [] else drop n ?ra)" "un = (if si_nopush a then drop n ?ra @ ?ru else ?ru)"
    using l by (auto simp: sink_lists_def split: if_splits)
  have "set ap \<subseteq> set ps \<union> set (st_applied (sk_state sk))" "set ps \<subseteq> set ap"
    by (auto simp: lists dest!: in_set_takeD in_set_dropD split: if_splits)
  then have "pn \<notin> set ap \<longleftrightarrow> pn \<notin> set ps" if "pn \<in> set (st_hidden (sk_state sk))" for pn
    using that ready_distinct [OF r] by auto
  then have hidden: "filter (\<lambda>pn. pn \<notin> set ap) (st_hidden (sk_state sk)) = filter (\<lambda>pn. pn \<notin> set ps) (st_hidden (sk_state sk))"
    by (intro filter_cong) auto
  have resolved: "resolve_name (cm_locator env) (target_locator tg) ?v = Ok tp" if "si_target a = Some tg" "opt_target = Some tp" for tg tp
    using tgt that by (auto simp: sink_target_patch_def dest: constrain_same)
  have targets: "opt_target = None \<longleftrightarrow> si_target a = None"
    using tgt by (auto simp: sink_target_patch_def split: option.splits)
  show ?thesis
  proof (intro exI conjI impI)
    show "sink_select env ?v a = Ok ps" by (rule ps)
    assume ok: "res = Ok ()"
    have t: "tr_applied t = ap" "tr_unapplied t = un" "tr_hidden t = filter (\<lambda>pn. pn \<notin> set ap) (st_hidden (sk_state sk))"
      using out ok by simp_all
    show "tr_applied t = take n ?ra @ ps @ (if si_nopush a then [] else drop n ?ra)" by (simp add: t lists)
    show "take n ?ra @ (if si_nopush a then [] else drop n ?ra) @ tr_unapplied t =
        filter (\<lambda>pn. pn \<notin> set ps) (st_applied (sk_state sk) @ st_unapplied (sk_state sk))"
      by (simp add: t lists flip: append_assoc)
    show "tr_hidden t = filter (\<lambda>pn. pn \<notin> set ps) (st_hidden (sk_state sk))" by (simp add: t hidden)
    show "case si_target a of
          None \<Rightarrow> take n ?ra = []
        | Some (SinkAbove loc) \<Rightarrow> take n ?ra \<noteq> [] \<and> resolve_name (cm_locator env) loc ?v = Ok (last (take n ?ra))
        | Some (SinkBelow loc) \<Rightarrow> (if si_nopush a then [] else drop n ?ra) @ tr_unapplied t \<noteq> [] \<and>
            resolve_name (cm_locator env) loc ?v = Ok (hd ((if si_nopush a then [] else drop n ?ra) @ tr_unapplied t))"
    proof (cases opt_target)
      case None
      then show ?thesis using n targets by auto
    next
      case (Some tp)
      then obtain tg pos where tg: "si_target a = Some tg" and pos: "position (\<lambda>pn. pn = tp) ?ra = Some pos"
        "n = (if is_above tg then Suc pos else pos)"
        using n targets by auto
      note split = position_split [OF pos(1)] and res = resolved [OF tg Some]
      show ?thesis
        using split res pos(2) by (cases tg) (simp_all add: tg t lists)
    qed
  qed simp
qed

theorem sink_result_witness:
  "\<exists>opts f msg r t below above. sink_plan ex_git ex_cmd_env ex_stack ex_sink ex_repo = Ok (Transaction opts f msg) \<and>
     f (start_transaction ex_stack opts ex_repo) = (r, t) \<and> r \<noteq> Panic \<and>
     (r = Ok () \<longrightarrow> tr_applied t = below @ [pb] @ above \<and> below = [])"
proof -
  obtain opts f msg where plan: "sink_plan ex_git ex_cmd_env ex_stack ex_sink ex_repo = Ok (Transaction opts f msg)"
    using ex_sink_plan by blast
  obtain r t where run: "f (start_transaction ex_stack opts ex_repo) = (r, t)" by fastforce
  have "r \<noteq> Panic" using sink_plan_safe [OF ex_ready plan] run by (simp add: safe_def)
  moreover have "sink_select ex_cmd_env (stack_view_of ex_stack) ex_sink = Ok [pb]"
    by (simp add: sink_select_def ex_sink_def)
  moreover have "si_target ex_sink = None" by (simp add: ex_sink_def)
  ultimately show ?thesis using sink_result [OF ex_ready plan run] plan run by auto
qed

end
