(* ===== verification/Repair_Inv.thy ===== *)
theory Repair_Inv
  imports Repair Commands_Props
begin

text \<open>
  What \<open>repair\<close> does: the walk over the history ends, the repaired lists are a rearrangement of
  the patches, and the commits on top of them become patches.
\<close>

section \<open>The walk over the history\<close>

text \<open>A history without cycles, in which commits are older than their children.\<close>

definition ranked :: "'w repository \<Rightarrow> (oid \<Rightarrow> nat) \<Rightarrow> bool" where
  "ranked repo rank \<longleftrightarrow> (\<forall>i c. objects repo i = Some c \<longrightarrow> (\<forall>p\<in>set (c_parents c). rank p < rank i))"

definition dag :: "'w repository \<Rightarrow> bool" where
  "dag repo \<longleftrightarrow> (\<exists>rank. ranked repo rank)"

lemma rankedD: "ranked repo rank \<Longrightarrow> objects repo i = Some c \<Longrightarrow> p \<in> set (c_parents c) \<Longrightarrow> rank p < rank i"
  unfolding ranked_def by blast

text \<open>\<open>linear repo c cs e\<close>: the commits \<open>cs\<close>, from \<open>c\<close> on, each the only parent of the one before, lead to \<open>e\<close>.\<close>

fun linear :: "'w repository \<Rightarrow> commit \<Rightarrow> commit list \<Rightarrow> commit \<Rightarrow> bool" where
  "linear repo c [] e \<longleftrightarrow> c = e"
| "linear repo c (d # ds) e \<longleftrightarrow>
     d = c \<and> (\<exists>p. c_parents c = [p] \<and> (\<exists>pc. objects repo p = Some pc \<and> linear repo pc ds e))"

definition patch_at :: "stack_view \<Rightarrow> commit \<Rightarrow> patch_name option" where
  "patch_at v c = find (\<lambda>pn. c_id (ps_commit (the (v_get v pn))) = c_id c) (all_patches v)"

abbreviation (input) is_new :: "stack_view \<Rightarrow> commit \<Rightarrow> bool" where
  "is_new v c \<equiv> patch_at v c = None"

definition patches_at :: "stack_view \<Rightarrow> commit list \<Rightarrow> patch_name list" where
  "patches_at v cs = map (\<lambda>c. the (patch_at v c)) (filter (\<lambda>c. \<not> is_new v c) cs)"

text \<open>The commits without the ones below the lowest patch.\<close>

definition above_patch :: "stack_view \<Rightarrow> commit list \<Rightarrow> commit list" where
  "above_patch v cs = rev (dropWhile (is_new v) (rev cs))"

lemma find_by_commit_ok:
  assumes "\<And>pn. pn \<in> set pns \<Longrightarrow> v_get v pn \<noteq> None"
  shows "find_by_commit v i pns = Ok (find (\<lambda>pn. c_id (ps_commit (the (v_get v pn))) = i) pns)"
  using assms
proof (induction pns)
  case (Cons pn pns)
  then obtain p where "v_get v pn = Some p" by fastforce
  then show ?case using Cons by (simp add: get_patch_commit_def del: obind_Ok_iff)
qed simp

lemma find_patch_ok:
  assumes "view_ok v"
  shows "find_by_commit v (c_id c) (all_patches v) = Ok (patch_at v c)"
  unfolding patch_at_def
  by (rule find_by_commit_ok) (use assms in \<open>auto simp: view_ok_def has_patch_def\<close>)

lemma patches_at_simps [simp]:
  "patches_at v [] = []" "patches_at v (cs @ ds) = patches_at v cs @ patches_at v ds"
  "patches_at v [c] = (case patch_at v c of None \<Rightarrow> [] | Some pn \<Rightarrow> [pn])"
  by (auto simp: patches_at_def split: option.split)

lemma above_patch_snoc:
  "above_patch v (cs @ [c]) = (if is_new v c then above_patch v cs else cs @ [c])"
  by (simp add: above_patch_def)

text \<open>What the walk has found after the commits \<open>cs\<close>.\<close>

definition walked :: "stack_view \<Rightarrow> commit list \<Rightarrow> repair_walk" where
  "walked v cs =
     \<lparr>rw_applied = patches_at v cs, rw_patchify = filter (is_new v) (above_patch v cs),
      rw_maybe = rev (takeWhile (is_new v) (rev cs))\<rparr>"

lemma above_patch_split: "cs = above_patch v cs @ rev (takeWhile (is_new v) (rev cs))"
  unfolding above_patch_def by (metis rev_append rev_rev_ident takeWhile_dropWhile_id)

lemma maybe_new: "filter (is_new v) (rev (takeWhile (is_new v) (rev cs))) = rev (takeWhile (is_new v) (rev cs))"
  by (auto simp: filter_id_conv dest: set_takeWhileD)

lemma patchify_walked: "patchify_all (walked v cs) = \<lparr>rw_applied = patches_at v cs, rw_patchify = filter (is_new v) cs, rw_maybe = []\<rparr>"
proof -
  have "filter (is_new v) cs = filter (is_new v) (above_patch v cs @ rev (takeWhile (is_new v) (rev cs)))"
    using above_patch_split by metis
  then show ?thesis unfolding filter_append maybe_new by (simp add: patchify_all_def walked_def)
qed

lemma walk_commit_walked:
  assumes "view_ok v"
  shows "walk_commit v c (walked v cs) = Ok (walked v (cs @ [c]))"
proof (cases "patch_at v c")
  case None
  then show ?thesis using find_patch_ok [OF assms, of c]
    by (simp add: walk_commit_def) (simp add: walked_def above_patch_snoc)
next
  case (Some pn)
  have "walked v (cs @ [c]) = (patchify_all (walked v cs))\<lparr>rw_applied := patches_at v cs @ [pn]\<rparr>"
    unfolding patchify_walked using Some by (simp add: walked_def above_patch_snoc)
  then show ?thesis using find_patch_ok [OF assms, of c] Some
    by (simp add: walk_commit_def) (simp add: walked_def patchify_all_def)
qed

text \<open>The loop ends, and finds what the commits it has passed contain.\<close>

definition walk_result :: "'w repository \<Rightarrow> stack \<Rightarrow> commit \<Rightarrow> commit list \<Rightarrow> (trans_error, commit \<times> repair_walk) outcome \<Rightarrow> bool" where
  "walk_result repo sk c cs r \<longleftrightarrow>
     (\<exists>e. r = Err e) \<or>
     (\<exists>e ds. linear repo c ds e \<and>
        (r = Ok (e, walked (stack_view_of sk) (cs @ ds)) \<and> (ds = [] \<or> c_id e \<noteq> c_id (sk_base sk)) \<and> length (c_parents e) \<noteq> 1 \<or>
         r = Ok (e, patchify_all (walked (stack_view_of sk) (cs @ ds))) \<and> ds \<noteq> [] \<and> c_id e = c_id (sk_base sk)))"

lemma walk_loop_result:
  assumes v: "view_ok (stack_view_of sk)" and odb: "odb_ok repo"
    and rank: "ranked repo rank"
    and c: "objects repo (c_id c) = Some c"
  shows "\<exists>r. walk_loop repo sk c (walked (stack_view_of sk) cs) = Some r \<and> walk_result repo sk c cs r"
  using c
proof (induction "rank (c_id c)" arbitrary: c cs rule: less_induct)
  case less
  note simps = walk_loop.simps [of repo sk c "walked (stack_view_of sk) cs"]
  show ?case
  proof (cases "length (c_parents c) = 1")
    case False
    then show ?thesis using simps by (auto simp: walk_result_def intro!: exI [of _ "[]"] exI [of _ c])
  next
    case True
    then obtain p where p: "c_parents c = [p]" by (cases "c_parents c") auto
    show ?thesis
    proof (cases "objects repo p")
      case None
      then have "\<exists>e. get_parent_commit repo c = Err e" using p by (simp add: get_parent_commit_def)
      then show ?thesis using simps True by (auto simp: walk_result_def)
    next
      case (Some pc)
      then have gp: "get_parent_commit repo c = Ok pc" and id: "c_id pc = p"
        using p odb_okD [OF odb] by (auto simp: get_parent_commit_def)
      have lin: "linear repo c (c # ds) e \<longleftrightarrow> linear repo pc ds e" for ds e using p Some by auto
      show ?thesis
      proof (cases "c_id (sk_base sk) = c_id pc")
        case base: True
        then have "walk_loop repo sk c (walked (stack_view_of sk) cs) =
            Some (Ok (pc, patchify_all (walked (stack_view_of sk) (cs @ [c]))))"
          using simps True gp walk_commit_walked [OF v] by simp
        moreover have "linear repo c [c] pc" using lin [of "[]" pc] by simp
        ultimately show ?thesis unfolding walk_result_def using base by (metis list.distinct(1))
      next
        case base: False
        have "rank (c_id pc) < rank (c_id c)" using rankedD [OF rank less.prems] p id by simp
        then obtain r where r: "walk_loop repo sk pc (walked (stack_view_of sk) (cs @ [c])) = Some r"
            "walk_result repo sk pc (cs @ [c]) r"
          using less.hyps [of pc "cs @ [c]"] Some id by auto
        have "walk_result repo sk c cs r"
        proof (cases "\<exists>e. r = Err e")
          case False
          then obtain e ds where ds: "linear repo pc ds e"
              "r = Ok (e, walked (stack_view_of sk) ((cs @ [c]) @ ds)) \<and> (ds = [] \<or> c_id e \<noteq> c_id (sk_base sk)) \<and> length (c_parents e) \<noteq> 1 \<or>
               r = Ok (e, patchify_all (walked (stack_view_of sk) ((cs @ [c]) @ ds))) \<and> ds \<noteq> [] \<and> c_id e = c_id (sk_base sk)"
            using r(2) unfolding walk_result_def by blast
          have "ds = [] \<Longrightarrow> c_id e \<noteq> c_id (sk_base sk)" using ds(1) base by auto
          then show ?thesis unfolding walk_result_def using ds lin [of ds e]
            by (intro disjI2 exI [of _ e] exI [of _ "c # ds"]) auto
        qed (simp add: walk_result_def)
        moreover have "walk_loop repo sk c (walked (stack_view_of sk) cs) = Some r"
          using simps True gp walk_commit_walked [OF v] base r(1) by simp
        ultimately show ?thesis by blast
      qed
    qed
  qed
qed

text \<open>The commits that the repaired stack consists of.\<close>

definition kept :: "stack \<Rightarrow> commit \<Rightarrow> commit list \<Rightarrow> commit list" where
  "kept sk e cs = (if c_id e = c_id (sk_base sk) then cs else above_patch (stack_view_of sk) cs)"

definition found :: "stack \<Rightarrow> commit list \<Rightarrow> repair_walk \<Rightarrow> bool" where
  "found sk ks w \<longleftrightarrow>
     rw_applied w = patches_at (stack_view_of sk) ks \<and> rw_patchify w = filter (is_new (stack_view_of sk)) ks"

lemma patches_above [simp]: "patches_at v (above_patch v cs) = patches_at v cs"
proof -
  have "filter (\<lambda>c. \<not> is_new v c) (rev (takeWhile (is_new v) (rev cs))) = []"
    by (auto simp: filter_empty_conv dest: set_takeWhileD)
  then have "patches_at v (rev (takeWhile (is_new v) (rev cs))) = []" unfolding patches_at_def by simp
  then show ?thesis by (metis above_patch_split append_Nil2 patches_at_simps(2))
qed

lemma above_patch_Nil [simp]: "above_patch v [] = []"
  by (simp add: above_patch_def)

lemma repair_walk_ends:
  assumes v: "view_ok (stack_view_of sk)" and odb: "odb_ok repo" and dag: "dag repo"
    and head: "objects repo (c_id (sk_branch_head sk)) = Some (sk_branch_head sk)"
  obtains (error) e where "repair_walk_from_head repo sk = Some (Err e)"
  | (found) e cs w where "repair_walk_from_head repo sk = Some (Ok (e, w))" "linear repo (sk_branch_head sk) cs e"
      "found sk (kept sk e cs) w"
proof -
  obtain rank where rank: "ranked repo rank"
    using dag unfolding dag_def by blast
  have "walked (stack_view_of sk) [] = \<lparr>rw_applied = [], rw_patchify = [], rw_maybe = []\<rparr>" by (simp add: walked_def)
  with walk_loop_result [OF v odb rank head, of "[]"]
  obtain r where r: "repair_walk_from_head repo sk = Some r" "walk_result repo sk (sk_branch_head sk) [] r"
    unfolding repair_walk_from_head_def by metis
  from r(2) [unfolded walk_result_def append_Nil] consider (e) e where "r = Err e"
    | (top) e ds where "linear repo (sk_branch_head sk) ds e" "r = Ok (e, walked (stack_view_of sk) ds)" "ds = [] \<or> c_id e \<noteq> c_id (sk_base sk)"
    | (base) e ds where "linear repo (sk_branch_head sk) ds e" "r = Ok (e, patchify_all (walked (stack_view_of sk) ds))"
        "c_id e = c_id (sk_base sk)"
    by blast
  then show ?thesis
  proof cases
    case e
    then show ?thesis using error r(1) by simp
  next
    case (top e ds)
    have "found sk (kept sk e ds) (walked (stack_view_of sk) ds)"
      using top(3) by (auto simp: found_def kept_def walked_def)
    then show ?thesis using found [of e "walked (stack_view_of sk) ds" ds] r(1) top by simp
  next
    case (base e ds)
    have "found sk (kept sk e ds) (patchify_all (walked (stack_view_of sk) ds))"
      unfolding patchify_walked using base(3) by (simp add: found_def kept_def)
    then show ?thesis using found [of e _ ds] r(1) base by simp
  qed
qed

section \<open>The repaired lists\<close>

lemma linear_objects:
  assumes "odb_ok repo" "objects repo (c_id c) = Some c" "linear repo c cs e" "d \<in> set cs"
  shows "objects repo (c_id d) = Some d"
  using assms(2-) by (induction cs arbitrary: c) (auto dest: odb_okD [OF assms(1)])

lemma linear_rank:
  assumes odb: "odb_ok repo" and rank: "ranked repo rank"
    and "objects repo (c_id c) = Some c" "linear repo c cs e"
  shows "sorted_wrt (\<lambda>a b. rank (c_id b) < rank (c_id a)) cs \<and> (\<forall>d\<in>set cs. rank (c_id d) \<le> rank (c_id c))"
  using assms(3-)
proof (induction cs arbitrary: c)
  case (Cons d ds)
  then obtain p pc where p: "d = c" "c_parents c = [p]" "objects repo p = Some pc" "linear repo pc ds e" by auto
  have "c_id pc = p" using odb_okD [OF odb p(3)] .
  then have "sorted_wrt (\<lambda>a b. rank (c_id b) < rank (c_id a)) ds" "\<forall>d\<in>set ds. rank (c_id d) \<le> rank p" "rank p < rank (c_id c)"
    using Cons.IH [of pc] p Cons.prems rankedD [OF rank] by auto
  then show ?case using p(1) by fastforce
qed simp

lemma linear_distinct:
  assumes "odb_ok repo" "dag repo" "objects repo (c_id c) = Some c" "linear repo c cs e"
  shows "distinct (map c_id cs)"
proof -
  obtain rank where r: "ranked repo rank"
    using assms(2) unfolding dag_def by blast
  from linear_rank [OF assms(1) r assms(3,4)]
  have "sorted_wrt (\<lambda>a b. rank (c_id b) < rank (c_id a)) cs" by simp
  then have "sorted_wrt (\<lambda>a b. a \<noteq> b) (map c_id cs)"
    unfolding sorted_wrt_map by (rule sorted_wrt_mono_rel [rotated]) auto
  then show ?thesis by (simp add: distinct_conv_nth sorted_wrt_iff_nth_less) (metis linorder_neqE_nat)
qed

lemma patch_at_Some:
  assumes "patch_at v c = Some pn"
  shows "pn \<in> set (all_patches v)" "c_id (ps_commit (the (v_get v pn))) = c_id c"
  using assms by (auto simp: patch_at_def find_Some_iff)

lemma patches_at_ok:
  assumes "distinct (map c_id cs)"
  shows "distinct (patches_at v cs)" "set (patches_at v cs) \<subseteq> set (all_patches v)"
proof -
  let ?ps = "filter (\<lambda>c. \<not> is_new v c) cs"
  have ids: "map (\<lambda>pn. c_id (ps_commit (the (v_get v pn)))) (patches_at v cs) = map c_id ?ps"
    unfolding patches_at_def using patch_at_Some(2) by auto
  have "distinct (map c_id ?ps)" using assms by (rule distinct_map_filter)
  then show "distinct (patches_at v cs)" unfolding ids [symmetric] using distinct_map by blast
  show "set (patches_at v cs) \<subseteq> set (all_patches v)" unfolding patches_at_def using patch_at_Some(1) by auto
qed

lemma repaired_mset:
  assumes v: "view_ok v" and ap: "distinct ap" "set ap \<subseteq> set (all_patches v)"
  shows "mset (ap @ repaired_unapplied v ap @ repaired_hidden v ap) = mset (all_patches v)"
proof -
  have d: "distinct (v_applied v @ v_unapplied v @ v_hidden v)" using view_ok_distinct [OF v] by (simp add: all_patches_def)
  then have "distinct (ap @ repaired_unapplied v ap @ repaired_hidden v ap)"
    using ap(1) by (auto simp: repaired_unapplied_def repaired_hidden_def)
  moreover have "set (ap @ repaired_unapplied v ap @ repaired_hidden v ap) = set (all_patches v)"
    using ap(2) by (auto simp: repaired_unapplied_def repaired_hidden_def all_patches_def)
  ultimately show ?thesis using view_ok_distinct [OF v] by (metis set_eq_iff_mset_eq_distinct)
qed

section \<open>New patches\<close>

text \<open>
  A commit whose message gives a name that \<open>uniquify\<close> can number: it is not one of the messages on which \<open>make\<close>
  panics, and no number in the name gets near the largest \<open>usize\<close> with \<open>n\<close> names taken.
\<close>

definition nameable :: "naming \<Rightarrow> nat \<Rightarrow> commit \<Rightarrow> bool" where
  "nameable cfg n c \<longleftrightarrow>
     (\<exists>p. Patch_Name.make (cfg_lower cfg) (c_message c) True (cfg_limit cfg) = Ok p \<and>
        trailing_number p + n + 2 \<le> usize_max)"

lemma make_valid:
  assumes "Patch_Name.make to_lower raw lower limit = Ok p"
  shows "valid (pn_str p)"
proof -
  have x: "expect_ok q = Ok p \<longleftrightarrow> q = (Ok p :: (name_error, patch_name) outcome)" for q :: "(name_error, patch_name) outcome"
    by (cases q) auto
  show ?thesis
    using assms from_str_Ok_valid
    by (auto simp: Patch_Name.make_def Let_def x try_from_eq_from_str split: if_splits)
qed

lemma name_for_ok:
  assumes "nameable cfg n c" "length taken \<le> n"
  obtains pn where "name_for cfg taken c = Some (Ok pn)" "valid (pn_str pn)" "\<forall>q\<in>set taken. \<not> collides pn q" "pn \<notin> set taken"
proof -
  obtain p where p: "Patch_Name.make (cfg_lower cfg) (c_message c) True (cfg_limit cfg) = Ok p"
      "trailing_number p + length taken + 2 \<le> usize_max"
    using assms unfolding nameable_def by fastforce
  from uniquify_ends [OF make_valid [OF p(1)] p(2), of "cfg_checks cfg" "[]"]
  obtain q where q: "uniquify (cfg_checks cfg) [] taken p = Some (Ok q)" "valid (pn_str q)" "\<forall>d\<in>set taken. \<not> collides q d" by auto
  have "q \<notin> set taken" using q(3) collides_refl [of q] by blast
  then show ?thesis using that [of q] p(1) q by (simp add: name_for_def)
qed

lemma new_applied_run:
  assumes "trans_ok t" "objects (tr_repo t) (c_id c) = Some c"
  shows "new_applied pn (c_id c) t =
    (if c_parents c \<noteq> [] \<and> hd (c_parents c) = c_id (top_commit t)
     then (Ok (), t\<lparr>tr_applied := tr_applied t @ [pn],
            tr_updated_patches := bt_insert (tr_updated_patches t) pn (Some \<lparr>ps_commit = c\<rparr>),
            tr_ui := print_pushed pn PS_New True (tr_ui t)\<rparr>)
     else (Panic, t))"
proof -
  show ?thesis
    unfolding new_applied_def commit_of_id_def set_patch_def print_def
    by (simp add: sm_defs t_top_commit [OF assms(1)] find_commit_def assms(2))
qed

text \<open>A transaction with a new applied patch.\<close>

lemma new_applied_ok:
  assumes ok: "trans_ok t" and new: "pn \<notin> set (all_patches (trans_view t))"
    and t': "t' = t\<lparr>tr_applied := tr_applied t @ [pn],
            tr_updated_patches := bt_insert (tr_updated_patches t) pn (Some \<lparr>ps_commit = c\<rparr>), tr_ui := u\<rparr>"
  shows "trans_ok t'" "trans_get t' = (trans_get t)(pn \<mapsto> \<lparr>ps_commit = c\<rparr>)"
    "commits_of (trans_get t') (tr_applied t') = commits_of (trans_get t) (tr_applied t) @ [c]"
    "top_commit t' = c"
proof -
  show get: "trans_get t' = (trans_get t)(pn \<mapsto> \<lparr>ps_commit = c\<rparr>)"
    unfolding t' by (rule trans_get_insert) simp_all
  have sel: "tr_applied t' = tr_applied t @ [pn]" "tr_unapplied t' = tr_unapplied t" "tr_hidden t' = tr_hidden t"
    "tr_stack t' = tr_stack t" "tr_repo t' = tr_repo t" unfolding t' by simp_all
  have "distinct ((tr_applied t @ [pn]) @ tr_unapplied t @ tr_hidden t)"
    using trans_ok_distinct [OF ok] new by simp
  moreover have "((trans_get t)(pn \<mapsto> \<lparr>ps_commit = c\<rparr>)) q \<noteq> None \<longleftrightarrow> q \<in> set ((tr_applied t @ [pn]) @ tr_unapplied t @ tr_hidden t)" for q
    using trans_ok_get [OF ok, of q] by (cases "q = pn") auto
  ultimately have "view_ok (trans_view t')" unfolding view_ok_trans get sel by blast
  moreover have "bt_ok (tr_updated_patches t')" unfolding t' using trans_ok_bt [OF ok] by (simp add: bt_ok_insert)
  moreover have "bt_get (tr_updated_patches t') q = Some None \<Longrightarrow> has_patch (stack_view_of (tr_stack t')) q" for q
    unfolding t' using trans_ok_deleted [OF ok, of q] by (simp split: if_splits)
  ultimately show ok': "trans_ok t'"
    unfolding trans_ok_def using trans_ok_stack [OF ok] trans_ok_odb [OF ok] sel by simp
  show cs: "commits_of (trans_get t') (tr_applied t') = commits_of (trans_get t) (tr_applied t) @ [c]"
    unfolding get sel using new by simp
  show "top_commit t' = c" unfolding top_commit_def cs by simp
qed

text \<open>The transaction after new patches for \<open>cs\<close>.\<close>

definition with_new :: "commit list \<Rightarrow> 'w transaction \<Rightarrow> 'w transaction \<Rightarrow> bool" where
  "with_new cs t t' \<longleftrightarrow>
     (\<exists>pns. tr_applied t' = tr_applied t @ pns \<and> length pns = length cs \<and> list_all (\<lambda>pn. valid (pn_str pn)) pns) \<and>
     tr_unapplied t' = tr_unapplied t \<and> tr_hidden t' = tr_hidden t \<and>
     commits_of (trans_get t') (tr_applied t') = commits_of (trans_get t) (tr_applied t) @ cs \<and>
     tr_stack t' = tr_stack t \<and> tr_repo t' = tr_repo t \<and> t_base t' = t_base t \<and> tr_options t' = tr_options t \<and>
     tr_updated_head t' = tr_updated_head t \<and> tr_error t' = tr_error t"

lemma patchify_loop_ok:
  assumes "trans_ok t" "\<forall>c\<in>set cs. objects (tr_repo t) (c_id c) = Some c \<and> nameable cfg n c"
    and "length (all_patches (trans_view t)) + length cs \<le> n" "chained (top_commit t) cs"
  shows "\<exists>t'. patchify_loop cfg cs t = Some (Ok (), t') \<and> trans_ok t' \<and> with_new cs t t'"
  using assms
proof (induction cs arbitrary: t)
  case Nil
  then show ?case by (simp add: with_new_def)
next
  case (Cons c cs)
  have "nameable cfg n c" "length (all_patches (trans_view t)) \<le> n" using Cons.prems(2,3) by auto
  then obtain pn where pn: "name_for cfg (all_patches (trans_view t)) c = Some (Ok pn)" "valid (pn_str pn)"
      "pn \<notin> set (all_patches (trans_view t))" by (rule name_for_ok)
  define t1 where "t1 = t\<lparr>tr_applied := tr_applied t @ [pn],
            tr_updated_patches := bt_insert (tr_updated_patches t) pn (Some \<lparr>ps_commit = c\<rparr>),
            tr_ui := print_pushed pn PS_New True (tr_ui t)\<rparr>"
  have run: "new_applied pn (c_id c) t = (Ok (), t1)"
    using new_applied_run [OF Cons.prems(1), of c pn] Cons.prems(2,4) by (simp add: t1_def)
  note n = new_applied_ok [OF Cons.prems(1) pn(3) t1_def]
  have sel: "tr_applied t1 = tr_applied t @ [pn]" "tr_unapplied t1 = tr_unapplied t" "tr_hidden t1 = tr_hidden t"
    "tr_stack t1 = tr_stack t" "tr_repo t1 = tr_repo t" "t_base t1 = t_base t" "tr_options t1 = tr_options t"
    "tr_updated_head t1 = tr_updated_head t" "tr_error t1 = tr_error t" unfolding t1_def by simp_all
  have "\<exists>t'. patchify_loop cfg cs t1 = Some (Ok (), t') \<and> trans_ok t' \<and> with_new cs t1 t'"
    using Cons.IH [of t1] n(1,4) Cons.prems(2,3,4) sel by simp
  then obtain t' where t': "patchify_loop cfg cs t1 = Some (Ok (), t')" "trans_ok t'" "with_new cs t1 t'" by blast
  have "with_new (c # cs) t t'"
    using t'(3) pn(2) n(3) unfolding with_new_def sel by auto
  then show ?case using t'(1,2) pn(1) run by auto
qed

text \<open>A commit that does not sit on the topmost patch fails the assertion of \<open>new_applied\<close>.\<close>

lemma patchify_loop_panics:
  assumes "trans_ok t" "objects (tr_repo t) (c_id c) = Some c" "nameable cfg n c"
    and "length (all_patches (trans_view t)) \<le> n" "c_parents c = [] \<or> hd (c_parents c) \<noteq> c_id (top_commit t)"
  shows "patchify_loop cfg (c # cs) t = Some (Panic, t)"
proof -
  obtain pn where "name_for cfg (all_patches (trans_view t)) c = Some (Ok pn)"
    using assms(3,4) by (rule name_for_ok)
  then show ?thesis using new_applied_run [OF assms(1,2), of pn] assms(5) by auto
qed

section \<open>The transaction of \<open>repair\<close>\<close>

text \<open>The stack as it is opened: well formed, with its head and the commits of its patches in the object database.\<close>

definition opened :: "stack \<Rightarrow> 'w repository \<Rightarrow> bool" where
  "opened sk repo \<longleftrightarrow>
     stack_ok sk \<and> odb_ok repo \<and> objects repo (c_id (sk_branch_head sk)) = Some (sk_branch_head sk) \<and>
     (\<forall>pn p. bt_get (st_patches (sk_state sk)) pn = Some p \<longrightarrow> objects repo (c_id (ps_commit p)) = Some (ps_commit p))"

lemma openedD:
  assumes "opened sk repo"
  shows "view_ok (stack_view_of sk)" "odb_ok repo" "objects repo (c_id (sk_branch_head sk)) = Some (sk_branch_head sk)"
    "\<And>pn p. bt_get (st_patches (sk_state sk)) pn = Some p \<Longrightarrow> objects repo (c_id (ps_commit p)) = Some (ps_commit p)"
  using assms by (auto simp: opened_def stack_ok_def state_ok_def)

lemma start_trans_ok:
  assumes "opened sk repo"
  shows "trans_ok (start_transaction sk opts repo)"
proof -
  let ?t = "start_transaction sk opts repo"
  have "view_ok (trans_view ?t)"
    using openedD(1) [OF assms] by (simp add: view_ok_trans) (simp add: view_ok_def all_patches_def has_patch_def state_view_def)
  moreover have "tr_updated_patches ?t = []" by (simp add: start_transaction_def)
  ultimately show ?thesis using assms by (simp add: trans_ok_def opened_def)
qed

lemma linear_hd: "linear repo c cs e \<Longrightarrow> hd (cs @ [e]) = c"
  by (cases cs) auto

lemma linear_chained:
  assumes "odb_ok repo" "linear repo c cs e"
  shows "chained e (rev cs)"
  using assms(2)
proof (induction cs arbitrary: c)
  case (Cons d ds)
  then obtain p pc where p: "d = c" "c_parents c = [p]" "objects repo p = Some pc" "linear repo pc ds e" by auto
  have "last (e # rev ds) = pc" using linear_hd [OF p(4)] by (cases ds) auto
  then show ?case using Cons.IH [OF p(4)] p odb_okD [OF assms(1) p(3)] by simp
qed simp

lemma chained_base_cong: "c_id b = c_id b' \<Longrightarrow> chained b cs = chained b' cs"
  by (cases cs) auto

lemma kept_prefix: "\<exists>rest. cs = kept sk e cs @ rest"
  using above_patch_split [of cs "stack_view_of sk"] by (auto simp: kept_def)

text \<open>No commit that is not a patch lies below a patch.\<close>

definition on_top :: "stack_view \<Rightarrow> commit list \<Rightarrow> bool" where
  "on_top v ks \<longleftrightarrow> list_all (\<lambda>c. \<not> is_new v c) (dropWhile (is_new v) ks)"

lemma on_top_split:
  assumes "on_top v ks"
  shows "ks = filter (is_new v) ks @ filter (\<lambda>c. \<not> is_new v c) ks"
proof -
  let ?a = "takeWhile (is_new v) ks" and ?b = "dropWhile (is_new v) ks"
  have "filter (is_new v) ?a = ?a" "filter (\<lambda>c. \<not> is_new v c) ?a = []"
    by (auto simp: filter_id_conv filter_empty_conv dest: set_takeWhileD)
  moreover have "filter (is_new v) ?b = []" "filter (\<lambda>c. \<not> is_new v c) ?b = ?b"
    using assms by (auto simp: on_top_def list_all_iff filter_id_conv filter_empty_conv)
  moreover have "ks = ?a @ ?b" by simp
  ultimately show ?thesis by (metis append_Nil append_Nil2 filter_append)
qed

lemma kept_no_patch:
  assumes "filter (\<lambda>c. \<not> is_new (stack_view_of sk) c) (kept sk e cs) = []" "kept sk e cs \<noteq> []"
  shows "c_id e = c_id (sk_base sk)"
proof (rule ccontr)
  assume "c_id e \<noteq> c_id (sk_base sk)"
  then have k: "rev (kept sk e cs) = dropWhile (is_new (stack_view_of sk)) (rev cs)" by (simp add: kept_def above_patch_def)
  have "dropWhile (is_new (stack_view_of sk)) (rev cs) \<noteq> []" unfolding k [symmetric] using assms(2) by simp
  then have "\<not> is_new (stack_view_of sk) (hd (rev (kept sk e cs)))" unfolding k by (rule hd_dropWhile)
  then have "\<not> is_new (stack_view_of sk) (last (kept sk e cs))" by (simp add: hd_rev)
  moreover have "last (kept sk e cs) \<in> set (kept sk e cs)" using assms(2) by simp
  ultimately show False using assms(1) by (auto simp: filter_empty_conv)
qed

text \<open>The commits of the patches found by the walk are the commits of the history.\<close>

lemma commits_patches_at:
  assumes "opened sk repo" "\<And>c. c \<in> set ks \<Longrightarrow> objects repo (c_id c) = Some c"
  shows "commits_of (bt_get (st_patches (sk_state sk))) (patches_at (stack_view_of sk) ks) =
    filter (\<lambda>c. \<not> is_new (stack_view_of sk) c) ks"
proof -
  let ?v = "stack_view_of sk" and ?get = "bt_get (st_patches (sk_state sk))"
  have "ps_commit (the (?get (the (patch_at ?v c)))) = c" if c: "c \<in> set ks" "\<not> is_new ?v c" for c
  proof -
    obtain pn where pn: "patch_at ?v c = Some pn" using c(2) by auto
    note s = patch_at_Some [OF pn]
    obtain p where p: "?get pn = Some p"
      using s(1) openedD(1) [OF assms(1)] by (auto simp: view_ok_def has_patch_def state_view_def)
    have "c_id (ps_commit p) = c_id c" using s(2) p by (simp add: state_view_def)
    then have "ps_commit p = c" using openedD(4) [OF assms(1) p] assms(2) [OF c(1)] by (metis option.inject)
    then show ?thesis using pn p by simp
  qed
  then have "map (\<lambda>c. ps_commit (the (?get (the (patch_at ?v c))))) (filter (\<lambda>c. \<not> is_new ?v c) ks) =
      map (\<lambda>c. c) (filter (\<lambda>c. \<not> is_new ?v c) ks)"
    by (intro map_cong) auto
  then show ?thesis by (simp add: commits_of_def patches_at_def comp_def)
qed

text \<open>The transaction after \<open>repair_appliedness\<close>.\<close>

definition relisted :: "stack_view \<Rightarrow> patch_name list \<Rightarrow> 'w transaction \<Rightarrow> 'w transaction" where
  "relisted v ap t = t\<lparr>tr_applied := ap, tr_unapplied := repaired_unapplied v ap, tr_hidden := repaired_hidden v ap\<rparr>"

lemma relisted_sel [simp]:
  "tr_applied (relisted v ap t) = ap" "tr_unapplied (relisted v ap t) = repaired_unapplied v ap"
  "tr_hidden (relisted v ap t) = repaired_hidden v ap" "trans_get (relisted v ap t) = trans_get t"
  "tr_stack (relisted v ap t) = tr_stack t" "tr_repo (relisted v ap t) = tr_repo t" "t_base (relisted v ap t) = t_base t"
  "tr_options (relisted v ap t) = tr_options t" "tr_updated_head (relisted v ap t) = tr_updated_head t"
  "tr_error (relisted v ap t) = tr_error t" "tr_updated_patches (relisted v ap t) = tr_updated_patches t"
  by (simp_all add: relisted_def)

lemma relisted_run:
  fixes opts :: trans_options
  assumes o: "opened sk repo" and ap: "distinct ap" "set ap \<subseteq> set (all_patches (stack_view_of sk))"
  defines "t \<equiv> start_transaction sk opts repo" and "v \<equiv> stack_view_of sk"
  shows "repair_closure cfg v ap patchify t = patchify_loop cfg patchify (relisted v ap t)" "trans_ok (relisted v ap t)"
    "length (all_patches (trans_view (relisted v ap t))) = length (all_patches v)"
proof -
  have ok: "trans_ok t" unfolding t_def by (rule start_trans_ok [OF o])
  have all: "all_patches (trans_view t) = all_patches v" by (simp add: t_def v_def all_patches_def)
  have m: "mset (ap @ repaired_unapplied v ap @ repaired_hidden v ap) = mset (all_patches v)"
    unfolding v_def by (rule repaired_mset [OF openedD(1) [OF o] ap])
  then show "repair_closure cfg v ap patchify t = patchify_loop cfg patchify (relisted v ap t)"
    using repair_appliedness_run [OF ok, of ap "repaired_unapplied v ap" "repaired_hidden v ap"]
    unfolding repair_closure_def all by (simp add: relisted_def)
  show "trans_ok (relisted v ap t)"
    by (rule trans_ok_rearrange [OF ok]) (use m all trans_ok_odb [OF ok] in simp_all)
  show "length (all_patches (trans_view (relisted v ap t))) = length (all_patches v)"
    using arg_cong [OF m, of size] by simp
qed

text \<open>What the walk found is a part of the history and of the patches.\<close>

lemma kept_facts:
  assumes o: "opened sk repo" and dag: "dag repo" and lin: "linear repo (sk_branch_head sk) cs e"
  defines "v \<equiv> stack_view_of sk" and "ks \<equiv> kept sk e cs"
  shows "\<And>c. c \<in> set ks \<Longrightarrow> objects repo (c_id c) = Some c" "distinct (rev (patches_at v ks))"
    "set (rev (patches_at v ks)) \<subseteq> set (all_patches v)" "\<exists>b. chained b (rev ks) \<and> (c_id e = c_id (sk_base sk) \<longrightarrow> b = e)"
    "commits_of (bt_get (st_patches (sk_state sk))) (rev (patches_at v ks)) = rev (filter (\<lambda>c. \<not> is_new v c) ks)"
proof -
  obtain rest where rest: "cs = ks @ rest" unfolding ks_def using kept_prefix by blast
  show obj: "objects repo (c_id c) = Some c" if "c \<in> set ks" for c
    using linear_objects [OF openedD(2,3) [OF o] lin] that rest by simp
  have "distinct (map c_id ks)" using linear_distinct [OF openedD(2) [OF o] dag openedD(3) [OF o] lin] rest by simp
  then show "distinct (rev (patches_at v ks))" "set (rev (patches_at v ks)) \<subseteq> set (all_patches v)"
    using patches_at_ok by auto
  have "chained e (rev rest @ rev ks)" using linear_chained [OF openedD(2) [OF o] lin] rest by simp
  then have "chained (last (e # rev rest)) (rev ks)" by simp
  moreover have "c_id e = c_id (sk_base sk) \<Longrightarrow> rest = []" using rest by (simp add: ks_def kept_def)
  ultimately show "\<exists>b. chained b (rev ks) \<and> (c_id e = c_id (sk_base sk) \<longrightarrow> b = e)" by (metis last_ConsL rev.simps(1))
  show "commits_of (bt_get (st_patches (sk_state sk))) (rev (patches_at v ks)) = rev (filter (\<lambda>c. \<not> is_new v c) ks)"
    using commits_patches_at [where ks = ks, OF o obj] unfolding v_def commits_of_def rev_map [symmetric] by simp
qed

lemma repair_closure_ok:
  fixes opts :: trans_options
  assumes o: "opened sk repo" and dag: "dag repo" and lin: "linear repo (sk_branch_head sk) cs e"
  defines "v \<equiv> stack_view_of sk" and "ks \<equiv> kept sk e cs" and "t \<equiv> start_transaction sk opts repo"
  assumes top: "on_top v ks"
    and names: "\<forall>c\<in>set ks. is_new v c \<longrightarrow> nameable cfg (length (all_patches v) + length ks) c"
  shows "\<exists>t'. repair_closure cfg v (rev (patches_at v ks)) (rev (filter (is_new v) ks)) t = Some (Ok (), t') \<and>
    trans_ok t' \<and> commits_of (trans_get t') (tr_applied t') = rev ks \<and>
    with_new (rev (filter (is_new v) ks)) (relisted v (rev (patches_at v ks)) t) t'"
proof -
  note k = kept_facts [OF o dag lin, folded v_def ks_def]
  let ?ap = "rev (patches_at v ks)" and ?new = "filter (is_new v) ks" and ?old = "filter (\<lambda>c. \<not> is_new v c) ks"
  note r = relisted_run [where opts = opts, OF o k(2,3) [unfolded v_def], folded v_def t_def]
  let ?t = "relisted v ?ap t"
  have cs: "commits_of (trans_get ?t) ?ap = rev ?old" using k(5) by (simp add: t_def)
  have split: "rev ks = rev ?old @ rev ?new" using on_top_split [OF top] by (metis rev_append)
  obtain b where b: "chained b (rev ?old @ rev ?new)" "c_id e = c_id (sk_base sk) \<longrightarrow> b = e" using k(4) split by auto
  have "chained (top_commit ?t) (rev ?new)"
  proof (cases "?old = []")
    case True
    show ?thesis
    proof (cases "ks = []")
      case False
      then have "c_id e = c_id (sk_base sk)" using kept_no_patch [of sk e cs] True by (simp add: ks_def v_def)
      then show ?thesis using b True cs chained_base_cong [of "sk_base sk" e]
        by (simp add: top_commit_def) (simp add: t_def)
    qed simp
  next
    case False
    have "chained (last (b # rev ?old)) (rev ?new)" using b(1) by simp
    moreover have "top_commit ?t = last (b # rev ?old)" unfolding top_commit_def relisted_sel(1) cs using False by simp
    ultimately show ?thesis by simp
  qed
  moreover have "\<forall>c\<in>set (rev ?new). objects (tr_repo ?t) (c_id c) = Some c \<and> nameable cfg (length (all_patches v) + length ks) c"
    using k(1) names by (auto simp: t_def)
  moreover have "length (all_patches (trans_view ?t)) + length (rev ?new) \<le> length (all_patches v) + length ks"
    using r(3) by simp
  ultimately obtain t' where "patchify_loop cfg (rev ?new) ?t = Some (Ok (), t')" "trans_ok t'" "with_new (rev ?new) ?t t'"
    using patchify_loop_ok [OF r(2)] by blast
  moreover from this(3) have "commits_of (trans_get t') (tr_applied t') = rev ks"
    unfolding with_new_def relisted_sel(1) cs split by blast
  ultimately show ?thesis unfolding r(1) by blast
qed

text \<open>A commit below a patch makes the transaction panic.\<close>

lemma repair_closure_panics:
  fixes opts :: trans_options
  assumes o: "opened sk repo" and dag: "dag repo" and lin: "linear repo (sk_branch_head sk) cs e"
  defines "v \<equiv> stack_view_of sk" and "ks \<equiv> kept sk e cs" and "t \<equiv> start_transaction sk opts repo"
  assumes top: "\<not> on_top v ks"
    and names: "\<forall>c\<in>set ks. is_new v c \<longrightarrow> nameable cfg (length (all_patches v) + length ks) c"
  shows "\<exists>t'. repair_closure cfg v (rev (patches_at v ks)) (rev (filter (is_new v) ks)) t = Some (Panic, t')"
proof -
  note k = kept_facts [OF o dag lin, folded v_def ks_def]
  let ?ap = "rev (patches_at v ks)" and ?new = "filter (is_new v) ks" and ?old = "filter (\<lambda>c. \<not> is_new v c) ks"
  note r = relisted_run [where opts = opts, OF o k(2,3) [unfolded v_def], folded v_def t_def]
  let ?t = "relisted v ?ap t"
  have cs: "commits_of (trans_get ?t) ?ap = rev ?old" using k(5) by (simp add: t_def)
  obtain p bs where pb: "dropWhile (is_new v) ks = p # bs" using top by (cases "dropWhile (is_new v) ks") (auto simp: on_top_def)
  have p: "\<not> is_new v p" using hd_dropWhile [of "is_new v" ks] pb by simp
  then have new: "filter (is_new v) bs \<noteq> []" using top pb by (auto simp: on_top_def list_all_iff filter_empty_conv)
  have ks: "ks = takeWhile (is_new v) ks @ p # bs" using pb by (metis takeWhile_dropWhile_id)
  have old: "?old = p # filter (\<lambda>c. \<not> is_new v c) bs"
    by (subst ks) (use p in \<open>auto simp: filter_empty_conv dest: set_takeWhileD\<close>)
  obtain n ns where n: "rev ?new = n # ns" "n \<in> set bs" "is_new v n"
  proof -
    have "rev ?new = rev (filter (is_new v) bs) @ rev (filter (is_new v) (takeWhile (is_new v) ks))"
      by (subst ks) (use p in simp)
    then show ?thesis using that [of "last (filter (is_new v) bs)"] new last_in_set [OF new]
      by (cases "rev (filter (is_new v) bs)") (auto simp: hd_rev [symmetric])
  qed
  obtain rank where rank: "ranked repo rank" using dag unfolding dag_def by blast
  obtain rest where "cs = ks @ rest" unfolding ks_def using kept_prefix by blast
  then have "sorted_wrt (\<lambda>a b. rank (c_id b) < rank (c_id a)) ks"
    using linear_rank [OF openedD(2) [OF o] rank openedD(3) [OF o] lin] by (simp add: sorted_wrt_append)
  then have "rank (c_id n) < rank (c_id p)" using n(2) by (subst (asm) ks) (auto simp: sorted_wrt_append)
  moreover have nk: "n \<in> set ks" using n(2) by (subst ks) simp
  ultimately have "c_parents n = [] \<or> hd (c_parents n) \<noteq> c_id p"
    using rankedD [OF rank k(1) [OF nk]] by (metis hd_in_set not_less_iff_gr_or_eq)
  moreover have "top_commit ?t = p" unfolding top_commit_def relisted_sel(1) cs old by simp
  ultimately have "patchify_loop cfg (n # ns) ?t = Some (Panic, ?t)"
    using patchify_loop_panics [OF r(2), of n cfg "length (all_patches v) + length ks"] k(1) [OF nk] names nk n(3) r(3)
    by (simp add: t_def)
  then show ?thesis unfolding r(1) n(1) by blast
qed

section \<open>The command \<open>repair\<close>\<close>

text \<open>The search behind a merge ends in a finite history: every round visits a commit it has not seen.\<close>

lemma unreachable_loop_returns:
  assumes fin: "finite (dom (objects repo))" and v: "view_ok v" and "distinct todo" "set todo \<inter> set seen = {}"
  shows "\<exists>r. unreachable_loop repo v todo seen n = Some r \<and> r \<noteq> Panic"
  using assms(3-)
proof (induction "card (dom (objects repo) - set seen)" arbitrary: todo seen n rule: less_induct)
  case less
  note simps = unreachable_loop.simps [of repo v todo seen n]
  show ?case
  proof (cases "todo = [] \<or> objects repo (last todo) = None")
    case True
    then show ?thesis using simps by (auto simp: find_commit_def)
  next
    case False
    then obtain c where c: "todo \<noteq> []" "objects repo (last todo) = Some c" by auto
    let ?seen = "index_set (seen @ [last todo])"
    let ?todo = "index_set (butlast todo @ filter (\<lambda>p. p \<notin> set ?seen) (index_set (c_parents c)))"
    have td: "todo = butlast todo @ [last todo]" using c(1) by simp
    have "distinct (butlast todo @ [last todo])" using less.prems(1) td by metis
    then have "last todo \<notin> set (butlast todo)" unfolding distinct_append by simp
    with c(1) have i: "last todo \<in> set todo" "last todo \<notin> set (butlast todo)" "set (butlast todo) \<subseteq> set todo"
      by (auto dest: in_set_butlastD)
    have "set ?todo \<inter> set ?seen = {}" using i less.prems(2) by auto
    moreover have "card (dom (objects repo) - set ?seen) < card (dom (objects repo) - set seen)"
    proof (rule psubset_card_mono)
      have "last todo \<in> dom (objects repo) - set seen" using i(1) c(2) less.prems(2) by blast
      then show "dom (objects repo) - set ?seen \<subset> dom (objects repo) - set seen" by auto
    qed (simp add: fin)
    ultimately have "\<exists>r. unreachable_loop repo v ?todo ?seen m = Some r \<and> r \<noteq> Panic" for m
      using less.hyps by simp
    moreover have "find_commit repo (last todo) = Ok c" using c(2) by simp
    moreover obtain q where "find_by_commit v (last todo) (all_patches v) = Ok q"
      using find_by_commit_ok [of "all_patches v" v "last todo"] v by (auto simp: view_ok_def has_patch_def)
    ultimately show ?thesis using simps c(1) by (simp add: Let_def find_commit_def c(2))
  qed
qed

lemma check_unreachable_returns:
  assumes "finite (dom (objects repo))" "view_ok (stack_view_of sk)"
  shows "\<exists>r. check_unreachable repo sk c = Some r \<and> r \<noteq> Panic"
proof -
  obtain r where r: "unreachable_loop repo (stack_view_of sk) [c_id c] [] 0 = Some r" "r \<noteq> Panic"
    using unreachable_loop_returns [OF assms, of "[c_id c]" "[]" 0] by auto
  then show ?thesis by (cases r) (auto simp: check_unreachable_def)
qed

text \<open>A repository in which \<open>repair\<close> can name every commit.\<close>

definition repairable :: "naming \<Rightarrow> stack \<Rightarrow> 'w repository \<Rightarrow> bool" where
  "repairable cfg sk repo \<longleftrightarrow>
     opened sk repo \<and> dag repo \<and> finite (dom (objects repo)) \<and>
     (\<forall>i c. objects repo i = Some c \<longrightarrow>
        nameable cfg (length (all_patches (stack_view_of sk)) + card (dom (objects repo))) c)"

lemma repairable_names:
  assumes r: "repairable cfg sk repo" and lin: "linear repo (sk_branch_head sk) cs e"
  shows "\<forall>c\<in>set (kept sk e cs). nameable cfg (length (all_patches (stack_view_of sk)) + length (kept sk e cs)) c"
proof
  fix c assume c: "c \<in> set (kept sk e cs)"
  have o: "opened sk repo" and dag: "dag repo" and fin: "finite (dom (objects repo))" using r by (auto simp: repairable_def)
  note k = kept_facts [OF o dag lin]
  obtain rest where rest: "cs = kept sk e cs @ rest" using kept_prefix by blast
  have "distinct (map c_id (kept sk e cs))"
    using linear_distinct [OF openedD(2) [OF o] dag openedD(3) [OF o] lin] by (subst (asm) rest) simp
  then have "length (kept sk e cs) = card (set (map c_id (kept sk e cs)))" by (metis distinct_card length_map)
  also have "\<dots> \<le> card (dom (objects repo))" using k(1) fin by (intro card_mono) auto
  finally show "nameable cfg (length (all_patches (stack_view_of sk)) + length (kept sk e cs)) c"
    using r k(1) [OF c] unfolding repairable_def nameable_def by (meson add_le_mono1 add_left_mono le_trans)
qed

text \<open>The closure returns, and it panics exactly when a commit that is not a patch lies below a patch.\<close>

lemma repair_closure_returns:
  assumes r: "repairable cfg sk repo" and lin: "linear repo (sk_branch_head sk) cs e" and w: "found sk (kept sk e cs) w"
  defines "v \<equiv> stack_view_of sk" and "ks \<equiv> kept sk e cs"
  obtains (fits) t' where "on_top v ks"
      "repair_closure cfg v (rev (rw_applied w)) (rev (rw_patchify w)) (start_transaction sk opts repo) = Some (Ok (), t')"
      "trans_ok t'" "commits_of (trans_get t') (tr_applied t') = rev ks"
      "with_new (rev (filter (is_new v) ks)) (relisted v (rev (patches_at v ks)) (start_transaction sk opts repo)) t'"
  | (misfit) t' where "\<not> on_top v ks"
      "repair_closure cfg v (rev (rw_applied w)) (rev (rw_patchify w)) (start_transaction sk opts repo) = Some (Panic, t')"
proof (cases "on_top v ks")
  case True
  then show ?thesis
    using repair_closure_ok [where opts = opts, OF _ _ lin, of cfg] repairable_names [OF r lin] r w that(1)
    unfolding v_def ks_def repairable_def found_def by force
next
  case False
  then show ?thesis
    using repair_closure_panics [where opts = opts, OF _ _ lin, of cfg] repairable_names [OF r lin] r w that(2)
    unfolding v_def ks_def repairable_def found_def by force
qed

end
