(* ===== verification/Repair_Props.thy ===== *)
theory Repair_Props
  imports Repair_Inv
begin

text \<open>
  Properties of the commands \<open>repair\<close> and \<open>uncommit\<close>.
\<close>

section \<open>Running \<open>repair\<close>\<close>

lemma run_transaction_const:
  assumes "trans_ok t" "run_transaction g interrupted sk opts (\<lambda>_. (Ok (), t)) msg repo = (Ok sk1, repo')"
  shows "published t sk1 repo'"
proof -
  obtain u where "execute g interrupted msg t = (Ok sk1, repo', u)"
    using assms(2) by (auto simp: run_transaction_def transact_def split: if_splits prod.splits)
  then show ?thesis by (rule execute_Ok(1) [OF assms(1)])
qed

lemma start_more [simp]:
  "tr_updated_head (start_transaction sk opts repo) = None" "tr_options (start_transaction sk opts repo) = opts"
  by (simp_all add: start_transaction_def)

lemma set_head_options [simp]: "o_set_head repair_options" "\<not> o_set_head uncommit_options"
  by (simp_all add: repair_options_def uncommit_options_def use_index_and_worktree_def allow_conflicts_def set_head_def
      default_options_def)

text \<open>The steps of \<open>repair\<close> on a branch that is not protected.\<close>

lemma repair_steps:
  assumes r: "repairable cfg sk repo"
  obtains (walk_error) e where "repair_walk_from_head repo sk = Some (Err e)"
      "repair g interrupted cfg False sk repo = Some (Err e, repo, [])"
  | (search_error) e w err where "repair_walk_from_head repo sk = Some (Ok (e, w))" "check_unreachable repo sk e = Some (Err err)"
      "repair g interrupted cfg False sk repo = Some (Err err, repo, [])"
  | (run) e cs w res msgs where "repair_walk_from_head repo sk = Some (Ok (e, w))"
      "linear repo (sk_branch_head sk) cs e" "found sk (kept sk e cs) w"
      "repair_closure cfg (stack_view_of sk) (rev (rw_applied w)) (rev (rw_patchify w))
         (start_transaction sk repair_options repo) = Some res"
      "repair g interrupted cfg False sk repo =
         (case run_transaction g interrupted sk repair_options (\<lambda>_. res) (str ''repair'') repo of
            (q, repo') \<Rightarrow> Some (q, repo', msgs))"
proof -
  have o: "opened sk repo" "dag repo" "finite (dom (objects repo))" using r by (auto simp: repairable_def)
  from openedD(1,2) [OF o(1)] o(2) openedD(3) [OF o(1)] show ?thesis
  proof (cases rule: repair_walk_ends)
    case (error e)
    then show ?thesis using that(1) by (simp add: repair_def)
  next
    case (found e cs w)
    obtain q where q: "check_unreachable repo sk e = Some q" "q \<noteq> Panic"
      using check_unreachable_returns [OF o(3) openedD(1) [OF o(1)]] by blast
    obtain res where res: "repair_closure cfg (stack_view_of sk) (rev (rw_applied w)) (rev (rw_patchify w))
         (start_transaction sk repair_options repo) = Some res"
      using repair_closure_returns [OF r found(2,3), where opts = repair_options] by metis
    show ?thesis
    proof (cases q)
      case (Err e')
      then show ?thesis using that(2) found(1) q(1) by (simp add: repair_def)
    next
      case (Ok warning)
      show ?thesis
        by (rule that(3) [OF found(1) found(2) found(3) res])
          (simp add: repair_def found(1) q(1) Ok Let_def run_closure_def res case_prod_unfold)
    qed (use q(2) in simp)
  qed
qed

lemma repair_top:
  assumes o: "opened sk repo" "dag repo" and lin: "linear repo (sk_branch_head sk) cs e"
    and cs: "commits_of (trans_get t) (tr_applied t) = rev (kept sk e cs)" and ok: "trans_ok t"
    and t: "t_base t = sk_base sk" "tr_updated_head t = None"
  shows "t_head t = Ok (if kept sk e cs = [] then sk_base sk else sk_branch_head sk)"
proof -
  obtain rest where "cs = kept sk e cs @ rest" using kept_prefix by blast
  then have "kept sk e cs \<noteq> [] \<Longrightarrow> hd (kept sk e cs) = sk_branch_head sk"
    using linear_hd [OF lin] by (metis append_is_Nil_conv hd_append2)
  then show ?thesis
    using t_top_ok [OF ok] t cs by (simp add: t_head_def last_rev)
qed

text \<open>The transaction that \<open>repair\<close> executes.\<close>

lemma repair_fits:
  assumes r: "repairable cfg sk repo" and lin: "linear repo (sk_branch_head sk) cs e" and t: "trans_ok t'"
    "commits_of (trans_get t') (tr_applied t') = rev (kept sk e cs)"
    "with_new (rev (filter (is_new (stack_view_of sk)) (kept sk e cs)))
       (relisted (stack_view_of sk) (rev (patches_at (stack_view_of sk) (kept sk e cs))) (start_transaction sk repair_options repo)) t'"
  shows "t_head t' = Ok (if kept sk e cs = [] then sk_base sk else sk_branch_head sk)"
    "tr_unapplied t' = repaired_unapplied (stack_view_of sk) (rev (patches_at (stack_view_of sk) (kept sk e cs)))"
    "tr_hidden t' = repaired_hidden (stack_view_of sk) (rev (patches_at (stack_view_of sk) (kept sk e cs)))"
    "tr_stack t' = sk" "o_set_head (tr_options t')"
proof -
  have "t_base t' = sk_base sk" "tr_updated_head t' = None" using t(3) by (simp_all add: with_new_def)
  then show "t_head t' = Ok (if kept sk e cs = [] then sk_base sk else sk_branch_head sk)"
    using repair_top [OF _ _ lin t(2,1)] r by (simp add: repairable_def)
qed (use t(3) in \<open>simp_all add: with_new_def\<close>)

text \<open>
  After a successful \<open>repair\<close> the applied patches are the commits of the branch, from the head down to the base of
  the stack or to the lowest patch, in the order of the history; the patches that are not among them keep their order as
  unapplied and hidden ones.  The branch stays at its head if there is such a commit; otherwise it is moved to the former base
  of the stack.
\<close>

lemma repair_spec:
  assumes r: "repairable cfg sk repo" and run: "repair g interrupted cfg False sk repo = Some (Ok sk', repo', msgs)"
  shows "\<exists>e cs. linear repo (sk_branch_head sk) cs e \<and> on_top (stack_view_of sk) (kept sk e cs) \<and> stack_ok sk' \<and>
    commits_of (bt_get (st_patches (sk_state sk'))) (st_applied (sk_state sk')) = rev (kept sk e cs) \<and>
    st_unapplied (sk_state sk') = repaired_unapplied (stack_view_of sk) (rev (patches_at (stack_view_of sk) (kept sk e cs))) \<and>
    st_hidden (sk_state sk') = repaired_hidden (stack_view_of sk) (rev (patches_at (stack_view_of sk) (kept sk e cs))) \<and>
    bt_get (refs repo') (sk_branch_refname sk) =
       Some (Direct (c_id (if kept sk e cs = [] then sk_base sk else sk_branch_head sk)))"
  using r
proof (cases rule: repair_steps [where g = g and interrupted = interrupted])
  case (run e cs w res msgs')
  have rt: "run_transaction g interrupted sk repair_options (\<lambda>_. res) (str ''repair'') repo = (Ok sk', repo')"
    using run(5) assms(2) by (auto split: prod.splits)
  from r run(2,3) show ?thesis
  proof (cases rule: repair_closure_returns [where opts = repair_options])
    case (misfit t')
    then have "res = (Panic, t')" using run(4) by simp
    then show ?thesis using rt by (simp add: run_transaction_def transact_def split: if_splits)
  next
    case (fits t')
    then have res: "res = (Ok (), t')" using run(4) by simp
    note p = run_transaction_const [OF fits(3) rt [unfolded res]]
    note t' = repair_fits [OF r run(2) fits(3,4,5)]
    show ?thesis
      by (rule exI [of _ e], rule exI [of _ cs]) (use p t' fits run(2) in \<open>simp add: published_def\<close>)
  qed
qed (use run in auto)

section \<open>Example\<close>

text \<open>
  The patch \<open>a\<close> was changed after \<open>b\<close> had been popped, so the commit below that of \<open>b\<close> is an old version of \<open>a\<close>; then
  the branch was reset to the commit of \<open>b\<close>.
\<close>

definition ex_naming :: naming where
  "ex_naming = \<lparr>cfg_lower = ascii_lower, cfg_checks = True, cfg_limit = Some 30\<rparr>"

definition mis_state :: stack_state where
  "mis_state =
     \<lparr>st_prev = None, st_head = k_c, st_applied = [pa], st_unapplied = [pb], st_hidden = [],
      st_patches = [(pa, \<lparr>ps_commit = k_c\<rparr>), (pb, \<lparr>ps_commit = k_b\<rparr>)]\<rparr>"

definition mis_stack :: stack where
  "mis_stack = ex_stack\<lparr>sk_state := mis_state\<rparr>"

lemma mis_sel [simp]:
  "sk_state mis_stack = mis_state" "sk_branch_head mis_stack = k_b" "sk_base mis_stack = k_base"
  "st_applied mis_state = [pa]" "st_unapplied mis_state = [pb]" "st_hidden mis_state = []"
  "bt_get (st_patches mis_state) pn = (if pn = pa then Some \<lparr>ps_commit = k_c\<rparr> else if pn = pb then Some \<lparr>ps_commit = k_b\<rparr> else None)"
  by (auto simp: mis_stack_def mis_state_def bt_get_def) (simp_all add: ex_stack_def)

lemma k_ids [simp]: "c_id k_base = 1" "c_id k_a = 2" "c_id k_b = 3" "c_id k_c = 4" "c_id k_d = 5"
  "c_parents k_base = [0]" "c_parents k_a = [1]" "c_parents k_b = [2]" "c_parents k_c = [1]" "c_parents k_d = [1]"
  by (simp_all add: ex_commits)

lemma ex_objects [simp]:
  "objects ex_repo = [1 \<mapsto> k_base, 2 \<mapsto> k_a, 3 \<mapsto> k_b, 4 \<mapsto> k_c, 5 \<mapsto> k_d, 6 \<mapsto> k_state]"
  by (simp add: ex_repo_def fun_eq_iff)

lemma ex_dag: "dag ex_repo"
  unfolding dag_def ranked_def by (rule exI [of _ "\<lambda>i. if i = 7 then 0 else i + 1"]) auto

lemma view_get [simp]: "v_get (state_view st) = bt_get (st_patches st)"
  by (simp add: state_view_def)

lemma mis_view [simp]: "all_patches (state_view mis_state) = [pa, pb]"
  by (simp add: all_patches_def)

lemma mis_opened: "opened mis_stack ex_repo"
proof -
  have "view_ok (state_view mis_state)"
    by (simp add: view_ok_def has_patch_def)
  moreover have "bt_ok (st_patches mis_state)" by (simp add: mis_state_def bt_ok_def bt_keys_def)
  ultimately show ?thesis
    using ex_odb_ok by (simp add: opened_def stack_ok_def state_ok_def)
qed

lemma ex_make: "Patch_Name.make ascii_lower [] True (Some 30) = Ok (PatchName default_name)"
proof -
  have 1: "make_base [] = default_name"
    by (simp add: make_base_def lines_def)
  have 2: "make_chars c_nul default_name = default_name" by (simp add: str_def default_name_def char_class_defs)
  have 3: "strip_loop (ascii_lower default_name) = default_name" "default_name \<noteq> []"
    "str_len default_name = 5" "from_str default_name = Ok (PatchName default_name)"
    by code_simp+
  show ?thesis by (simp add: Patch_Name.make_def make_candidate_def over_limit_def 1 2 3)
qed

lemma ex_nameable: "objects ex_repo i = Some c \<Longrightarrow> n \<le> 20 \<Longrightarrow> nameable ex_naming n c"
proof -
  assume "objects ex_repo i = Some c" "n \<le> 20"
  moreover have "trailing_number (PatchName default_name) = 0" by code_simp
  ultimately show ?thesis
    using ex_make by (auto simp: nameable_def ex_naming_def ex_commits split: if_splits)
qed

lemma mis_repairable: "repairable ex_naming mis_stack ex_repo"
proof -
  have "dom (objects ex_repo) = {1, 2, 3, 4, 5, 6}" by auto
  then show ?thesis
    using mis_opened ex_dag ex_nameable by (simp add: repairable_def)
qed

lemma mis_walk:
  "repair_walk_from_head ex_repo mis_stack =
     Some (Ok (k_base, \<lparr>rw_applied = [pb], rw_patchify = [k_a], rw_maybe = []\<rparr>))"
proof -
  have w: "walk_commit (state_view mis_state) k_b \<lparr>rw_applied = [], rw_patchify = [], rw_maybe = []\<rparr> =
      Ok \<lparr>rw_applied = [pb], rw_patchify = [], rw_maybe = []\<rparr>"
    "walk_commit (state_view mis_state) k_a \<lparr>rw_applied = [pb], rw_patchify = [], rw_maybe = []\<rparr> =
      Ok \<lparr>rw_applied = [pb], rw_patchify = [], rw_maybe = [k_a]\<rparr>"
    by (simp_all add: walk_commit_def get_patch_commit_def patchify_all_def del: obind_Ok_iff)
  have p: "get_parent_commit ex_repo k_b = Ok k_a" "get_parent_commit ex_repo k_a = Ok k_base"
    by (simp_all add: get_parent_commit_def)
  show ?thesis
    unfolding repair_walk_from_head_def
    by (subst walk_loop.simps, simp add: p w, subst walk_loop.simps, simp add: p w patchify_all_def)
qed

lemma mis_linear: "linear ex_repo k_b cs k_base \<Longrightarrow> cs = [k_b, k_a]"
proof -
  assume l: "linear ex_repo k_b cs k_base"
  have neq: "k_b \<noteq> k_base" "k_a \<noteq> k_base" by (simp_all add: ex_commits)
  show ?thesis using l neq by (cases cs; cases "tl cs"; cases "tl (tl cs)") auto
qed

lemma mis_not_on_top: "\<not> on_top (stack_view_of mis_stack) (kept mis_stack k_base [k_b, k_a])"
  by (simp add: on_top_def kept_def patch_at_def)

section \<open>Properties\<close>

text \<open>
  C18: \<open>repair\<close> returns: in a finite history without cycles whose commits can be named, the walk from the
  head, the search behind a merge and the naming of new patches all end.
\<close>

theorem repair_returns:
  assumes "repairable cfg sk repo"
  shows "\<exists>r repo' msgs. repair g interrupted cfg protected sk repo = Some (r, repo', msgs)"
proof (cases protected)
  case False
  from assms show ?thesis
    by (cases rule: repair_steps [where g = g and interrupted = interrupted]) (use False in \<open>auto split: prod.splits\<close>)
qed (simp add: repair_def)

theorem repair_returns_witness:
  "\<exists>r repo' msgs. repair ex_git False ex_naming False mis_stack ex_repo = Some (r, repo', msgs)"
  by (rule repair_returns [OF mis_repairable])

text \<open>
  C13: What \<open>repair\<close> does after the walk from the head.  If no commit that is not a patch lies below a patch, it executes a
  transaction whose applied patches are the commits of the branch, from the head down to the base of the stack or to the
  lowest patch, in the order of the history; the other patches keep their order as unapplied and hidden ones.  The head of the
  transaction is the head of the branch if there is such a commit, and otherwise the former base of the stack, to which the branch
  is moved.  If a commit that is not a patch lies below a patch, \<open>repair\<close> panics.
\<close>

theorem repair_transaction:
  assumes r: "repairable cfg sk repo" and w: "repair_walk_from_head repo sk = Some (Ok (e, w))"
    and u: "check_unreachable repo sk e = Some (Ok warning)"
  defines "v \<equiv> stack_view_of sk"
  shows "\<exists>cs. linear repo (sk_branch_head sk) cs e \<and>
    (let ks = kept sk e cs; ap = rev (patches_at v ks) in
     (if on_top v ks then
        (\<exists>t msgs. repair g interrupted cfg False sk repo =
            (case run_transaction g interrupted sk repair_options (\<lambda>_. (Ok (), t)) (str ''repair'') repo of
               (q, repo') \<Rightarrow> Some (q, repo', msgs)) \<and>
           trans_ok t \<and> commits_of (trans_get t) (tr_applied t) = rev ks \<and>
           tr_unapplied t = repaired_unapplied v ap \<and> tr_hidden t = repaired_hidden v ap \<and>
           t_head t = Ok (if ks = [] then sk_base sk else sk_branch_head sk))
      else (\<exists>msgs. repair g interrupted cfg False sk repo = Some (Panic, repo, msgs))))"
  using r
proof (cases rule: repair_steps [where g = g and interrupted = interrupted])
  case (run e' cs w' res msgs')
  have [simp]: "e' = e" "w' = w" using run(1) w by simp_all
  from r run(2,3) show ?thesis
  proof (cases rule: repair_closure_returns [where opts = repair_options])
    case (misfit t')
    then have "res = (Panic, t')" using run(4) by simp
    then have "run_transaction g interrupted sk repair_options (\<lambda>_. res) (str ''repair'') repo = (Panic, repo)"
      by (simp add: run_transaction_def transact_def)
    then show ?thesis using run(2,5) misfit(1) unfolding v_def by (intro exI [of _ cs]) simp
  next
    case (fits t')
    then have res: "res = (Ok (), t')" using run(4) by simp
    note t' = repair_fits [OF r run(2) fits(3,4,5)]
    show ?thesis
      using run(2,5) fits(1,3,4) t' unfolding v_def res by (intro exI [of _ cs]) (auto simp: Let_def)
  qed
qed (use w u in auto)


theorem repair_transaction_witness:
  "\<exists>msgs. repair ex_git False ex_naming False mis_stack ex_repo = Some (Panic, ex_repo, msgs)"
proof -
  have "check_unreachable ex_repo mis_stack k_base = Some (Ok [])" by (simp add: check_unreachable_def)
  from repair_transaction [OF mis_repairable mis_walk this, of ex_git False]
  obtain cs where cs: "linear ex_repo k_b cs k_base"
    "\<not> on_top (stack_view_of mis_stack) (kept mis_stack k_base cs) \<Longrightarrow>
       \<exists>msgs. repair ex_git False ex_naming False mis_stack ex_repo = Some (Panic, ex_repo, msgs)"
    unfolding Let_def mis_sel by meson
  then show ?thesis using mis_linear [OF cs(1)] mis_not_on_top by simp
qed

end
