(* ===== verification/Uncommit_Props.thy ===== *)
theory Uncommit_Props
  imports Repair_Props
begin

text \<open>
  Properties of \<open>uncommit\<close>: the new names are fresh, and the commits below the base become the bottommost patches of
  the same history.
\<close>

section \<open>Names\<close>

lemma collides_sym: "collides p q \<longleftrightarrow> collides q p"
  by (auto simp: collides_def eq_ignore_ascii_case_def)

lemma uniquify_usable:
  assumes "uniquify chk allow disallow p = Some r"
  shows "\<forall>q. r = Ok q \<longrightarrow> usable allow disallow q"
proof (rule uniquify.raw_induct [where P = "\<lambda>chk allow disallow p r. \<forall>q. r = Ok q \<longrightarrow> usable allow disallow q", OF _ assms])
  fix f chk allow disallow p r
  assume IH: "\<And>chk allow disallow p r. f chk allow disallow p = Some r \<Longrightarrow> \<forall>q. r = Ok q \<longrightarrow> usable allow disallow q"
    and run: "(if usable allow disallow p then Some (Ok p)
      else (case next_candidate chk p of Ok c \<Rightarrow> f chk allow disallow c | Err e \<Rightarrow> Some (Err e) | Panic \<Rightarrow> Some Panic)) = Some r"
  show "\<forall>q. r = Ok q \<longrightarrow> usable allow disallow q"
    using run IH by (cases "usable allow disallow p"; cases "next_candidate chk p") auto
qed

lemma name_for_fresh:
  assumes "name_for cfg taken c = Some (Ok pn)"
  shows "\<forall>q\<in>set taken. \<not> collides pn q"
  using assms uniquify_usable [of "cfg_checks cfg" "[]" taken _ "Ok pn"]
  by (auto simp: name_for_def usable_def list_all_iff split: outcome.splits)

text \<open>Names that collide neither with those taken nor with each other.\<close>

definition fresh_names :: "patch_name list \<Rightarrow> patch_name list \<Rightarrow> bool" where
  "fresh_names taken pns \<longleftrightarrow>
     distinct pns \<and> (\<forall>p\<in>set pns. \<forall>q\<in>set taken \<union> set pns. collides p q \<longrightarrow> p = q \<and> q \<notin> set taken)"

lemma fresh_Nil [simp]: "fresh_names taken []"
  by (simp add: fresh_names_def)

lemma fresh_Cons:
  assumes "\<forall>q\<in>set taken. \<not> collides pn q" "fresh_names (taken @ [pn]) pns"
  shows "fresh_names taken (pn # pns)"
proof -
  have a: "distinct pns" "\<And>p q. p \<in> set pns \<Longrightarrow> q \<in> set taken \<union> {pn} \<union> set pns \<Longrightarrow> collides p q \<Longrightarrow> p = q \<and> q \<notin> set taken \<and> q \<noteq> pn"
    using assms(2) unfolding fresh_names_def by auto
  have "pn \<notin> set pns" using a(2) [of pn pn] by auto
  moreover have "p = q \<and> q \<notin> set taken" if "p \<in> set (pn # pns)" "q \<in> set taken \<union> set (pn # pns)" "collides p q" for p q
  proof (cases "p = pn")
    case True
    show ?thesis
    proof (cases "q \<in> set pns")
      case q: True
      then show ?thesis using a(2) [of q pn] True that(3) collides_sym [of p q] by blast
    next
      case False
      then have "q = pn \<or> q \<in> set taken" using that(2) by auto
      then show ?thesis using assms(1) True that(3) collides_refl [of pn] by blast
    qed
  next
    case False
    then have "p \<in> set pns" "q \<in> set taken \<union> {pn} \<union> set pns" using that(1,2) by auto
    then show ?thesis using a(2) that(3) by blast
  qed
  moreover have "pn \<notin> set taken" using assms(1) by auto
  ultimately show ?thesis using a(1) unfolding fresh_names_def by auto
qed

lemma fresh_rev [simp]: "fresh_names taken (rev pns) = fresh_names taken pns"
  by (simp add: fresh_names_def)

lemma fresh_disjoint: "fresh_names taken pns \<Longrightarrow> set pns \<inter> set taken = {}"
  unfolding fresh_names_def using collides_refl by blast

lemma make_names_fresh:
  assumes "make_names_loop cfg taken cs = Some (Ok pns)"
  shows "length pns = length cs \<and> fresh_names taken pns"
  using assms
proof (induction cs arbitrary: taken pns)
  case (Cons c cs)
  from Cons.prems obtain pn ps where p: "name_for cfg taken c = Some (Ok pn)" "make_names_loop cfg (taken @ [pn]) cs = Some (Ok ps)" "pns = pn # ps"
    by (auto split: option.splits outcome.splits)
  then show ?case using Cons.IH [OF p(2)] fresh_Cons [OF name_for_fresh [OF p(1)], of ps] by simp
qed simp

lemma make_patchnames_fresh:
  assumes "make_patchnames cfg v cs = Some (Ok pns)"
  shows "length pns = length cs \<and> fresh_names (all_patches v) pns"
  using assms make_names_fresh by (fastforce simp: make_patchnames_def)

lemma check_names_fresh:
  assumes "check_names_loop v taken pns = Ok ()"
  shows "fresh_names (all_patches v @ taken) pns"
  using assms
proof (induction pns arbitrary: taken)
  case (Cons pn pns)
  from Cons.prems have "stack_collides v pn = None" "find (collides pn) taken = None" "check_names_loop v (taken @ [pn]) pns = Ok ()"
    by (auto split: option.splits)
  then show ?case using Cons.IH [of "taken @ [pn]"]
    by (intro fresh_Cons) (auto simp: stack_collides_def find_None_iff)
qed simp

lemma check_patchnames_fresh: "check_patchnames v pns = Ok () \<Longrightarrow> fresh_names (all_patches v) pns"
  using check_names_fresh [of v "[]" pns] by (simp add: check_patchnames_def)

lemma numbered_length: "numbered_names p n = Ok pns \<Longrightarrow> length pns = n"
  by (induction n arbitrary: pns) auto

section \<open>Commits\<close>

text \<open>Commits with one parent each, from \<open>c\<close> downwards.\<close>

fun descends :: "'w repository \<Rightarrow> commit \<Rightarrow> commit list \<Rightarrow> bool" where
  "descends repo c [] \<longleftrightarrow> True"
| "descends repo c (d # ds) \<longleftrightarrow>
     d = c \<and> (\<exists>p. c_parents c = [p] \<and> (ds \<noteq> [] \<longrightarrow> (\<exists>pc. objects repo p = Some pc \<and> descends repo pc ds)))"

lemma check_commit_Ok: "check_commit c = Ok u \<longleftrightarrow> length (c_parents c) = 1"
  by (simp add: check_commit_def)

lemma one_parent: "length (c_parents c) = 1 \<longleftrightarrow> (\<exists>p. c_parents c = [p])"
  by (cases "c_parents c") auto

lemma commits_down_descends:
  assumes "commits_down repo n c = Ok cs"
  shows "length cs = n \<and> descends repo c cs"
  using assms
proof (induction n arbitrary: c cs)
  case (Suc n)
  then obtain p ds where d: "length (c_parents c) = 1" "get_parent_commit repo c = Ok p" "commits_down repo n p = Ok ds" "cs = c # ds"
    by (auto simp: check_commit_Ok)
  from d(1) obtain i where "c_parents c = [i]" unfolding one_parent by blast
  then show ?case using Suc.IH [OF d(3)] get_parent_commit_OkD(2) [OF d(2)] d(4) by auto
qed simp

lemma commits_to_descends:
  assumes "commits_to repo target exclusive c acc = Some r"
  shows "\<forall>cs. r = Ok cs \<longrightarrow> (\<exists>ds. cs = acc @ ds \<and> descends repo c ds)"
proof (rule commits_to.raw_induct [where P = "\<lambda>repo target exclusive c acc r. \<forall>cs. r = Ok cs \<longrightarrow> (\<exists>ds. cs = acc @ ds \<and> descends repo c ds)", OF _ assms])
  fix f :: "'w repository \<Rightarrow> _" and repo target exclusive c acc r
  assume IH: "\<And>repo target exclusive c acc r. f repo target exclusive c acc = Some r \<Longrightarrow>
      \<forall>cs. r = Ok cs \<longrightarrow> (\<exists>ds. cs = acc @ ds \<and> descends repo c ds)"
    and run: "(if c_id c = target then Some (if exclusive then Ok acc else obind (check_commit c) (\<lambda>_. Ok (acc @ [c])))
      else (case check_commit c of Err e \<Rightarrow> Some (Err e) | Panic \<Rightarrow> Some Panic
         | Ok _ \<Rightarrow> (case get_parent_commit repo c of Err e \<Rightarrow> Some (Err e) | Panic \<Rightarrow> Some Panic
              | Ok parent \<Rightarrow> f repo target exclusive parent (acc @ [c])))) = Some r"
  show "\<forall>cs. r = Ok cs \<longrightarrow> (\<exists>ds. cs = acc @ ds \<and> descends repo c ds)"
  proof (intro allI impI)
    fix cs assume r: "r = Ok cs"
    show "\<exists>ds. cs = acc @ ds \<and> descends repo c ds"
    proof (cases "c_id c = target")
      case True
      then show ?thesis using run r
        by (cases exclusive) (auto simp: check_commit_Ok one_parent [simplified] intro: exI [of _ "[]"] exI [of _ "[c]"])
    next
      case False
      then obtain p where p: "length (c_parents c) = 1" "get_parent_commit repo c = Ok p"
          "f repo target exclusive p (acc @ [c]) = Some r"
        using run r by (cases "check_commit c"; cases "get_parent_commit repo c") (auto simp: check_commit_Ok)
      from IH [OF p(3)] r obtain ds where "cs = (acc @ [c]) @ ds" "descends repo p ds" by blast
      moreover from p(1) obtain i where "c_parents c = [i]" unfolding one_parent by blast
      ultimately show ?thesis using get_parent_commit_OkD(2) [OF p(2)] by (intro exI [of _ "c # ds"]) auto
    qed
  qed
qed

lemma descends_objects:
  assumes "odb_ok repo" "objects repo (c_id c) = Some c" "descends repo c cs" "d \<in> set cs"
  shows "objects repo (c_id d) = Some d"
  using assms(2-)
proof (induction cs arbitrary: c)
  case (Cons x xs)
  show ?case
  proof (cases "d = c")
    case False
    then obtain p pc where "d \<in> set xs" "objects repo p = Some pc" "descends repo pc xs" using Cons.prems by (cases xs) auto
    then show ?thesis using Cons.IH [of pc] odb_okD [OF assms(1)] by blast
  qed (use Cons.prems in simp)
qed simp

text \<open>The commits are a chain, up to the commit they start from.\<close>

lemma descends_chained:
  assumes "odb_ok repo" "descends repo c cs" "cs \<noteq> []" "c_id b = hd (c_parents (last cs))"
  shows "chained b (rev cs) \<and> last (b # rev cs) = c"
  using assms(2-)
proof (induction cs arbitrary: c)
  case (Cons x xs)
  show ?case
  proof (cases "xs = []")
    case True
    then show ?thesis using Cons.prems by auto
  next
    case False
    then obtain p pc where p: "x = c" "c_parents c = [p]" "objects repo p = Some pc" "descends repo pc xs" using Cons.prems(1) by auto
    have "chained b (rev xs) \<and> last (b # rev xs) = pc" using Cons.IH [OF p(4) False] Cons.prems(3) False by simp
    then show ?thesis using p odb_okD [OF assms(1) p(3)] by simp
  qed
qed simp

lemma name_err_Ok [simp]: "name_err r = Ok x \<longleftrightarrow> r = Ok x"
  by (cases r) (auto simp: name_err_def)

lemma named_commits_ok:
  assumes "named_commits cfg v q = Some (Ok (cs, pns))"
  shows "q = Ok cs" "length pns = length cs" "fresh_names (all_patches v) pns"
  using assms make_patchnames_fresh by (fastforce simp: named_commits_def split: outcome.splits)+

lemma uncommit_selected:
  assumes "uncommit_select cfg repo sk a = Some (Ok (cs, pns))"
  shows "length pns = length cs" "fresh_names (all_patches (stack_view_of sk)) pns" "descends repo (sk_base sk) cs"
proof -
  have "length pns = length cs \<and> fresh_names (all_patches (stack_view_of sk)) pns \<and> descends repo (sk_base sk) cs"
  proof (cases rule: uncommit_select.cases [of "(cfg, repo, sk, a)"])
    case (1 cfg' repo' sk' target bases exclusive)
    then obtain t :: commit and excl q where "commits_to repo (c_id t) excl (sk_base sk) [] = Some q"
        "named_commits cfg (stack_view_of sk) q = Some (Ok (cs, pns))"
      using assms by (auto split: outcome.splits bind_splits)
    then show ?thesis using named_commits_ok commits_to_descends by fastforce
  next
    case (2 cfg' repo' sk' n)
    then show ?thesis using assms named_commits_ok commits_down_descends by fastforce
  next
    case (3 cfg' repo' sk' n names)
    then obtain p where "names = [p]" "commits_down repo n (sk_base sk) = Ok cs" "numbered_names p n = Ok pns"
        "check_patchnames (stack_view_of sk) pns = Ok ()"
      using assms by (cases names; cases "tl names") auto
    then show ?thesis using numbered_length commits_down_descends check_patchnames_fresh by blast
  next
    case (4 cfg' repo' sk' names)
    then show ?thesis using assms commits_down_descends check_patchnames_fresh by auto
  next
    case (5 cfg' repo' sk')
    then have "named_commits cfg (stack_view_of sk) (obind (check_commit (sk_base sk)) (\<lambda>_. Ok [sk_base sk])) = Some (Ok (cs, pns))"
      using assms by simp
    note n = named_commits_ok [OF this]
    from n(1) have "cs = [sk_base sk]" "length (c_parents (sk_base sk)) = 1" by (auto simp: check_commit_Ok)
    then show ?thesis using n(2,3) unfolding one_parent by auto
  qed
  then show "length pns = length cs" "fresh_names (all_patches (stack_view_of sk)) pns" "descends repo (sk_base sk) cs" by auto
qed

section \<open>The transaction of \<open>uncommit\<close>\<close>

definition loaded :: "'w transaction \<Rightarrow> patch_name \<times> oid \<Rightarrow> patch_state option" where
  "loaded t e = Some \<lparr>ps_commit = the (objects (tr_repo t) (snd e))\<rparr>"

lemma uncommit_loop_run:
  assumes "\<forall>e\<in>set es. objects (tr_repo t) (snd e) \<noteq> None"
  shows "uncommit_loop es t =
    (Ok (), t\<lparr>tr_updated_patches := foldl (\<lambda>m e. bt_insert m (fst e) (loaded t e)) (tr_updated_patches t) es\<rparr>)"
  using assms
proof (induction es arbitrary: t)
  case (Cons e es)
  then obtain c where c: "objects (tr_repo t) (snd e) = Some c" by fastforce
  let ?t = "t\<lparr>tr_updated_patches := bt_insert (tr_updated_patches t) (fst e) (Some \<lparr>ps_commit = c\<rparr>)\<rparr>"
  have l: "loaded ?t = loaded t" by (simp add: loaded_def fun_eq_iff)
  have "uncommit_loop (e # es) t = uncommit_loop es ?t"
    by (simp add: commit_of_id_def set_patch_def sm_defs find_commit_def c)
  then show ?case using Cons.IH [of ?t] Cons.prems unfolding l by (simp add: loaded_def c)
qed (simp add: sm_defs)

text \<open>The transaction with the commits \<open>ks\<close> as the bottommost patches \<open>ps\<close>, in application order.\<close>

lemma uncommit_run:
  assumes ok: "trans_ok t" and len: "length ps = length ks" and d: "distinct ps" "set ps \<inter> set (all_patches (trans_view t)) = {}"
    and obj: "\<And>c. c \<in> set ks \<Longrightarrow> objects (tr_repo t) (c_id c) = Some c"
  shows "\<exists>t'. uncommit_patches (zip ps (map c_id ks)) t = (Ok (), t') \<and> trans_ok t' \<and> tr_applied t' = ps @ tr_applied t \<and>
    tr_unapplied t' = tr_unapplied t \<and> tr_hidden t' = tr_hidden t \<and>
    commits_of (trans_get t') (tr_applied t') = ks @ commits_of (trans_get t) (tr_applied t)"
proof -
  let ?es = "zip ps (map c_id ks)"
  let ?m = "foldl (\<lambda>m e. bt_insert m (fst e) (loaded t e)) (tr_updated_patches t) ?es"
  define t' where "t' = t\<lparr>tr_updated_patches := ?m, tr_ui := print_uncommitted (map fst ?es) (tr_ui t), tr_applied := map fst ?es @ tr_applied t\<rparr>"
  have fst: "map fst ?es = ps" using len by simp
  have "\<forall>e\<in>set ?es. objects (tr_repo t) (snd e) \<noteq> None" using obj by (fastforce dest: set_zip_rightD)
  then have run: "uncommit_patches ?es t = (Ok (), t')"
    by (simp add: uncommit_patches_def sthen_def sbind_def uncommit_loop_run print_def modify_def t'_def)
  have sel: "tr_applied t' = ps @ tr_applied t" "tr_unapplied t' = tr_unapplied t" "tr_hidden t' = tr_hidden t"
    "tr_stack t' = tr_stack t" "tr_repo t' = tr_repo t" "tr_updated_patches t' = ?m" using fst by (simp_all add: t'_def)
  have pairs: "map (\<lambda>e. (fst e, loaded t e)) ?es = zip ps (map (\<lambda>c. Some \<lparr>ps_commit = c\<rparr>) ks)"
    using obj len by (intro nth_equalityI) (simp_all add: loaded_def)
  have get_m: "bt_get ?m k = (case map_of (zip ps (map (\<lambda>c. Some \<lparr>ps_commit = c\<rparr>) ks)) k of Some v \<Rightarrow> Some v
      | None \<Rightarrow> bt_get (tr_updated_patches t) k)" for k
    unfolding pairs [symmetric] by (rule bt_get_insert_all) (simp add: fst d(1))
  have new: "trans_get t' (ps ! i) = Some \<lparr>ps_commit = ks ! i\<rparr>" if "i < length ps" for i
    using that len d(1) by (simp add: trans_get_def sel get_m map_of_zip_nth)
  have none: "map_of (zip ps (map (\<lambda>c. Some \<lparr>ps_commit = c\<rparr>) ks)) k = None" if "k \<notin> set ps" for k
    using that len by simp
  have old: "trans_get t' k = trans_get t k" if "k \<notin> set ps" for k
    unfolding trans_get_def sel get_m using none [OF that] by simp
  have cs: "commits_of (trans_get t') (tr_applied t') = ks @ commits_of (trans_get t) (tr_applied t)"
  proof -
    have "commits_of (trans_get t') ps = ks" unfolding commits_of_def using new len by (intro nth_equalityI) simp_all
    moreover have "commits_of (trans_get t') (tr_applied t) = commits_of (trans_get t) (tr_applied t)"
      by (rule commits_of_cong) (use old d(2) in auto)
    ultimately show ?thesis unfolding sel by simp
  qed
  have "distinct ((ps @ tr_applied t) @ tr_unapplied t @ tr_hidden t)" using d trans_ok_distinct [OF ok] by auto
  moreover have "trans_get t' k \<noteq> None \<longleftrightarrow> k \<in> set ((ps @ tr_applied t) @ tr_unapplied t @ tr_hidden t)" for k
  proof (cases "k \<in> set ps")
    case True
    then show ?thesis using new by (auto simp: in_set_conv_nth)
  next
    case False
    then show ?thesis using old [OF False] trans_ok_get [OF ok, of k] by (simp del: not_None_eq)
  qed
  ultimately have "view_ok (trans_view t')" unfolding view_ok_trans sel by blast
  moreover have "bt_ok ?m" using trans_ok_bt [OF ok] by (rule bt_ok_insert_all)
  moreover have "has_patch (stack_view_of (tr_stack t)) k" if k: "bt_get ?m k = Some None" for k
  proof -
    have "trans_get t' k = None" unfolding trans_get_def sel using k by simp
    then have "k \<notin> set ps" using new by (auto simp: in_set_conv_nth)
    then have "bt_get (tr_updated_patches t) k = Some None" using k none by (simp add: get_m)
    then show ?thesis by (rule trans_ok_deleted [OF ok])
  qed
  ultimately have "trans_ok t'" unfolding trans_ok_def sel using trans_ok_stack [OF ok] trans_ok_odb [OF ok] by blast
  then show ?thesis using run sel cs by blast
qed

section \<open>Properties\<close>

text \<open>
  C17: What \<open>uncommit\<close> selects and does.  The names, given or made, are as many as the commits, so the assertion that
  compares their numbers holds; they collide neither with a patch of the stack nor with each other.  The transaction
  does not panic: it puts the commits below the former base as the bottommost applied patches, in the order of the
  history, and with the former patches they are a chain on the parent of the last commit.
\<close>

theorem uncommit_spec:
  assumes o: "opened sk repo" and base: "objects repo (c_id (sk_base sk)) = Some (sk_base sk)"
    and chain: "chained (sk_base sk) (commits_of (bt_get (st_patches (sk_state sk))) (st_applied (sk_state sk)))"
    and sel: "uncommit_select cfg repo sk a = Some (Ok (cs, pns))"
  shows "length cs = length pns \<and> fresh_names (all_patches (stack_view_of sk)) pns \<and>
    (\<exists>t. uncommit_patches (rev (zip pns (map c_id cs))) (start_transaction sk uncommit_options repo) = (Ok (), t) \<and>
       trans_ok t \<and> tr_applied t = rev pns @ st_applied (sk_state sk) \<and> tr_unapplied t = st_unapplied (sk_state sk) \<and>
       tr_hidden t = st_hidden (sk_state sk) \<and>
       commits_of (trans_get t) (tr_applied t) =
         rev cs @ commits_of (bt_get (st_patches (sk_state sk))) (st_applied (sk_state sk)) \<and>
       (\<forall>b. (if cs = [] then b = sk_base sk else c_id b = hd (c_parents (last cs))) \<longrightarrow>
          chained b (commits_of (trans_get t) (tr_applied t))))"
proof -
  note s = uncommit_selected [OF sel]
  let ?t = "start_transaction sk uncommit_options repo" and ?old = "commits_of (bt_get (st_patches (sk_state sk))) (st_applied (sk_state sk))"
  have all: "all_patches (trans_view ?t) = all_patches (stack_view_of sk)" by (simp add: all_patches_def)
  have "set (rev pns) \<inter> set (all_patches (trans_view ?t)) = {}" unfolding all using fresh_disjoint [OF s(2)] by simp
  moreover have "objects (tr_repo ?t) (c_id c) = Some c" if "c \<in> set (rev cs)" for c
    using descends_objects [OF openedD(2) [OF o] base s(3)] that by simp
  moreover have "distinct (rev pns)" using s(2) by (simp add: fresh_names_def)
  ultimately have "\<exists>t'. uncommit_patches (zip (rev pns) (map c_id (rev cs))) ?t = (Ok (), t') \<and> trans_ok t' \<and>
      tr_applied t' = rev pns @ tr_applied ?t \<and> tr_unapplied t' = tr_unapplied ?t \<and> tr_hidden t' = tr_hidden ?t \<and>
      commits_of (trans_get t') (tr_applied t') = rev cs @ commits_of (trans_get ?t) (tr_applied ?t)"
    using s(1) by (intro uncommit_run [OF start_trans_ok [OF o]]) simp_all
  then obtain t where t: "uncommit_patches (zip (rev pns) (map c_id (rev cs))) ?t = (Ok (), t)" "trans_ok t"
      "tr_applied t = rev pns @ st_applied (sk_state sk)" "tr_unapplied t = st_unapplied (sk_state sk)" "tr_hidden t = st_hidden (sk_state sk)"
      "commits_of (trans_get t) (tr_applied t) = rev cs @ ?old"
    unfolding start_sel by blast
  have "chained b (rev cs @ ?old)" if b: "if cs = [] then b = sk_base sk else c_id b = hd (c_parents (last cs))" for b
    using descends_chained [OF openedD(2) [OF o] s(3), of b] b chain by (cases "cs = []") auto
  moreover have "rev (zip pns (map c_id cs)) = zip (rev pns) (map c_id (rev cs))" using zip_rev [of pns "map c_id cs"] s(1) by (simp add: rev_map)
  ultimately show ?thesis using s(1,2) t by auto
qed

theorem uncommit_spec_witness:
  "\<exists>t. uncommit_patches [(PatchName default_name, 1)] (start_transaction mis_stack uncommit_options ex_repo) = (Ok (), t) \<and>
     tr_applied t = [PatchName default_name, pa] \<and> commits_of (trans_get t) (tr_applied t) = [k_base, k_c]"
proof -
  have "usable [] [pa, pb] (PatchName default_name)" by code_simp
  then have "uniquify True [] [pa, pb] (PatchName default_name) = Some (Ok (PatchName default_name))"
    by (simp add: uniquify.simps)
  then have "name_for ex_naming [pa, pb] k_base = Some (Ok (PatchName default_name))"
    using ex_make by (simp add: name_for_def ex_naming_def ex_commits)
  then have "uncommit_select ex_naming ex_repo mis_stack UncommitOne = Some (Ok ([k_base], [PatchName default_name]))"
    by (simp add: named_commits_def make_patchnames_def check_commit_def name_err_def)
  from uncommit_spec [OF mis_opened _ _ this] show ?thesis by simp blast
qed

end
