(* ===== verification/Utf8.thy ===== *)
theory Utf8
  imports Rust_Std
begin

text \<open>
  Strings as bytes: UTF-8, which \<open>str\<close> stores and \<open>str::from_utf8\<close> checks.  A byte is a number below 256; a
  \<open>char\<close> is a Unicode scalar value.
\<close>

definition scalar :: "rchar \<Rightarrow> bool" where
  "scalar c \<longleftrightarrow> c < 55296 \<or> 57344 \<le> c \<and> c < 1114112"

definition encode_char :: "rchar \<Rightarrow> nat list" where
  "encode_char c =
     (if c < 128 then [c]
      else if c < 2048 then [192 + c div 64, 128 + c mod 64]
      else if c < 65536 then [224 + c div 4096, 128 + c div 64 mod 64, 128 + c mod 64]
      else [240 + c div 262144, 128 + c div 4096 mod 64, 128 + c div 64 mod 64, 128 + c mod 64])"

definition encode :: "rstring \<Rightarrow> nat list" where
  "encode s = concat (map encode_char s)"

text \<open>The value of the bytes that continue a character.\<close>

definition continues :: "nat \<Rightarrow> bool" where
  "continues b \<longleftrightarrow> 128 \<le> b \<and> b < 192"

text \<open>
  The first character of the bytes, which must be in its shortest form and a scalar value, and the rest.
\<close>

fun decode_char :: "nat list \<Rightarrow> (rchar \<times> nat list) option" where
  "decode_char [] = None"
| "decode_char (a # bs) =
     (if a < 128 then Some (a, bs)
      else if 192 \<le> a \<and> a < 224 then
        (case bs of
           b # r \<Rightarrow>
             let c = (a - 192) * 64 + (b - 128) in
             if continues b \<and> 128 \<le> c then Some (c, r) else None
         | _ \<Rightarrow> None)
      else if 224 \<le> a \<and> a < 240 then
        (case bs of
           b # b' # r \<Rightarrow>
             let c = (a - 224) * 4096 + (b - 128) * 64 + (b' - 128) in
             if continues b \<and> continues b' \<and> 2048 \<le> c \<and> scalar c then Some (c, r) else None
         | _ \<Rightarrow> None)
      else if 240 \<le> a \<and> a < 248 then
        (case bs of
           b # b' # b'' # r \<Rightarrow>
             let c = (a - 240) * 262144 + (b - 128) * 4096 + (b' - 128) * 64 + (b'' - 128) in
             if continues b \<and> continues b' \<and> continues b'' \<and> 65536 \<le> c \<and> scalar c then Some (c, r) else None
         | _ \<Rightarrow> None)
      else None)"

lemma decode_char_shorter: "decode_char bs = Some (c, r) \<Longrightarrow> length r < length bs"
  by (cases bs) (auto simp: Let_def split: if_splits list.splits)

function decode :: "nat list \<Rightarrow> rstring option" where
  "decode bs =
     (if bs = [] then Some []
      else (case decode_char bs of Some (c, r) \<Rightarrow> map_option (Cons c) (decode r) | None \<Rightarrow> None))"
  by pat_completeness auto
termination by (relation "measure length") (auto dest: decode_char_shorter)

declare decode.simps [simp del]

text \<open>The law of a code that can be read off the front of the input, and what it gives for a whole text.\<close>

locale stream_code =
  fixes enc :: "'a \<Rightarrow> 'b list" and dec :: "'b list \<Rightarrow> ('a \<times> 'b list) option"
    and dec_all :: "'b list \<Rightarrow> 'a list option" and ok :: "'a \<Rightarrow> bool"
  assumes dec_enc: "ok x \<Longrightarrow> dec (enc x @ r) = Some (x, r)"
    and enc_ne: "enc x \<noteq> []"
    and dec_all_Nil: "dec_all [] = Some []"
    and dec_all_step: "bs \<noteq> [] \<Longrightarrow> dec bs = Some (x, r) \<Longrightarrow> dec_all bs = map_option (Cons x) (dec_all r)"
begin

lemma dec_all_concat:
  assumes "list_all ok xs"
  shows "dec_all (concat (map enc xs)) = Some xs"
  using assms by (induction xs) (simp_all add: dec_all_Nil dec_all_step [OF _ dec_enc] enc_ne)

end

lemma div64: "c div 4096 = c div 64 div (64 :: nat)" "c div 262144 = c div 64 div 64 div (64 :: nat)"
  by (simp_all flip: div_mult2_eq)

lemma digits64:
  "c div 4096 * 4096 + c div 64 mod 64 * 64 + c mod 64 = (c :: nat)"
  "c div 262144 * 262144 + c div 4096 mod 64 * 4096 + c div 64 mod 64 * 64 + c mod 64 = c"
proof -
  have a: "c = c div 64 * 64 + c mod 64" "c div 64 = c div 64 div 64 * 64 + c div 64 mod 64"
    "c div 64 div 64 = c div 64 div 64 div 64 * 64 + c div 64 div 64 mod 64"
    by (simp_all only: div_mult_mod_eq)
  show "c div 4096 * 4096 + c div 64 mod 64 * 64 + c mod 64 = c"
    unfolding div64 using a(1,2) by linarith
  show "c div 262144 * 262144 + c div 4096 mod 64 * 4096 + c div 64 mod 64 * 64 + c mod 64 = c"
    unfolding div64 using a by linarith
qed

lemma decode_encode_char:
  assumes "scalar c"
  shows "decode_char (encode_char c @ bs) = Some (c, bs)"
proof -
  have m: "continues (128 + n mod 64)" for n by (simp add: continues_def)
  consider (1) "c < 128" | (2) "128 \<le> c" "c < 2048" | (3) "2048 \<le> c" "c < 65536" | (4) "65536 \<le> c" by linarith
  then show ?thesis
  proof cases
    case 2
    then have "c div 64 < 32" "c div 64 * 64 + c mod 64 = c" by (simp_all add: less_mult_imp_div_less)
    then show ?thesis using 2 m [of c] by (simp add: encode_char_def)
  next
    case 3
    have "c div 4096 < 16" using 3 by (simp add: less_mult_imp_div_less)
    then show ?thesis using 3 assms m [of c] m [of "c div 64"] digits64(1) [of c] by (simp add: encode_char_def)
  next
    case 4
    have "c div 262144 < 8" using 4 assms by (simp add: scalar_def less_mult_imp_div_less)
    then show ?thesis
      using 4 assms m [of c] m [of "c div 64"] m [of "c div 4096"] digits64(2) [of c] by (simp add: encode_char_def)
  qed (simp add: encode_char_def)
qed

lemma encode_char_ne [simp]: "encode_char c \<noteq> []"
  by (simp add: encode_char_def)

interpretation utf8: stream_code encode_char decode_char decode scalar
proof
  fix bs x r
  assume "bs \<noteq> []" "decode_char bs = Some (x, r)"
  then show "decode bs = map_option (Cons x) (decode r)" by (simp add: decode.simps [of bs])
qed (simp_all add: decode_encode_char decode.simps [of "[]"])

lemma decode_encode: "list_all scalar s \<Longrightarrow> decode (encode s) = Some s"
  unfolding encode_def by (rule utf8.dec_all_concat)

lemma encode_simps [simp]:
  "encode [] = []" "encode (c # s) = encode_char c @ encode s" "encode (s @ t) = encode s @ encode t"
  by (simp_all add: encode_def)

lemma encode_char_ascii: "c < 128 \<Longrightarrow> encode_char c = [c]"
  by (simp add: encode_char_def)

text \<open>An ASCII byte stands only for itself.\<close>

lemma ascii_in_encode_char: "b < 128 \<Longrightarrow> b \<in> set (encode_char c) \<longleftrightarrow> b = c"
  by (auto simp: encode_char_def)

lemma ascii_in_encode: "b < 128 \<Longrightarrow> b \<in> set (encode s) \<longleftrightarrow> b \<in> set s"
  by (induction s) (auto simp: ascii_in_encode_char)

lemma encode_ascii: "list_all (\<lambda>c. c < 128) s \<Longrightarrow> encode s = s"
  by (induction s) (auto simp: encode_char_ascii)

lemma encode_eq_Nil [simp]: "encode s = [] \<longleftrightarrow> s = []"
  by (cases s) auto

lemma hd_encode: "s \<noteq> [] \<Longrightarrow> b < 128 \<Longrightarrow> hd (encode s) = b \<longleftrightarrow> hd s = b"
  by (cases s) (auto simp: encode_char_def)

end
