(* ===== verification/Description.thy ===== *)
theory Description
  imports Utf8 Repository
begin

text \<open>
  The text in which a patch is edited: \<open>src/patch/edit/description.rs\<close>, with the names and addresses of
  \<open>src/patch/edit/parse.rs\<close>, the dates of \<open>src/ext/time.rs\<close> and \<open>prettify\<close> of \<open>src/patch/edit/mod.rs\<close>.

  The file is a list of bytes.  Everything before the diff must be UTF-8, the diff may be any bytes.
\<close>

section \<open>Dates, names and addresses\<close>

text \<open>
  What is read from the clock and done by \<open>gix::date\<close>: its parser and its ISO 8601 format, the time now and the
  text of the local zone with the formats \<open>%z\<close> and \<open>%:z\<close>.
\<close>

record date_env =
  de_parse :: "rstring \<Rightarrow> int option"
  de_format :: "int \<Rightarrow> rstring"
  de_now :: int
  de_zone :: rstring
  de_colon_zone :: rstring

datatype edit_error =
  NonUtf8
| EmptyDescription
| EE_Name name_error
| NameBrackets
| EmailBrackets
| InvalidNameEmail rstring
| InvalidDate rstring

definition parse_time :: "date_env \<Rightarrow> rstring \<Rightarrow> (edit_error, int) outcome" where
  "parse_time env text0 =
     (let s = trim text0 in
      if s = str ''now'' then Ok (de_now env)
      else (case de_parse env s of
              Some t \<Rightarrow> Ok t
            | None \<Rightarrow>
                (case de_parse env (s @ [c_space] @ de_zone env) of
                   Some t \<Rightarrow> Ok t
                 | None \<Rightarrow>
                     (case de_parse env (s @ de_colon_zone env) of
                        Some t \<Rightarrow> Ok t
                      | None \<Rightarrow> Err (InvalidDate s)))))"

abbreviation (input) c_less :: rchar where "c_less \<equiv> 60"
abbreviation (input) c_greater :: rchar where "c_greater \<equiv> 62"

definition check_name :: "rstring \<Rightarrow> (edit_error, unit) outcome" where
  "check_name name = (if c_less \<in> set name \<or> c_greater \<in> set name then Err NameBrackets else Ok ())"

definition check_email :: "rstring \<Rightarrow> (edit_error, unit) outcome" where
  "check_email email = (if c_less \<in> set email \<or> c_greater \<in> set email then Err EmailBrackets else Ok ())"

definition parse_name_email :: "rstring \<Rightarrow> (edit_error, rstring \<times> rstring) outcome" where
  "parse_name_email name_email =
     (case split_once c_less name_email of
        None \<Rightarrow> Err (InvalidNameEmail name_email)
      | Some (name0, rest0) \<Rightarrow>
          (case split_once c_greater rest0 of
             None \<Rightarrow> Err (InvalidNameEmail name_email)
           | Some (email0, rest) \<Rightarrow>
               let name = trim name0; email = trim email0 in
               obind (check_name name) (\<lambda>_.
               obind (check_email email) (\<lambda>_.
                 if trim rest = [] then Ok (name, email) else Err (InvalidNameEmail name_email)))))"

section \<open>Writing a description\<close>

record editable =
  ed_patchname :: "patch_name option"
  ed_author :: "signature option"
  ed_message :: rstring
  ed_instruction :: "rstring option"
  ed_diff_instruction :: "rstring option"
  ed_diff :: "nat list option"

definition CUT_LINE :: rstring where
  "CUT_LINE = str ''# ------------------------ >8 ------------------------'' @ [c_newline]"

definition cut_note :: rstring where
  "cut_note = str ''# Do not modify or remove the line above.'' @ [c_newline]"

definition patch_header :: "patch_name option \<Rightarrow> rstring" where
  "patch_header pn = str ''Patch:  '' @ (case pn of Some p \<Rightarrow> pn_str p | None \<Rightarrow> []) @ [c_newline]"

definition author_header :: "date_env \<Rightarrow> signature option \<Rightarrow> rstring" where
  "author_header env author =
     (case author of
        Some a \<Rightarrow>
          str ''Author: '' @ sig_name a @ str '' <'' @ sig_email a @ str ''>'' @ [c_newline]
          @ str ''Date:   '' @ de_format env (sig_time a) @ [c_newline]
      | None \<Rightarrow> str ''Author: '' @ [c_newline] @ str ''Date:   '' @ [c_newline])"

definition message_part :: "rstring \<Rightarrow> rstring option \<Rightarrow> rstring" where
  "message_part message instruction =
     [c_newline] @ trim_end_matches (\<lambda>c. c = c_newline) message @ [c_newline]
     @ (case instruction of Some i \<Rightarrow> [c_newline] @ i | None \<Rightarrow> [c_newline])"

definition write_desc :: "date_env \<Rightarrow> editable \<Rightarrow> nat list" where
  "write_desc env d =
     encode (patch_header (ed_patchname d) @ author_header env (ed_author d)
             @ message_part (ed_message d) (ed_instruction d))
     @ (case ed_diff d of
          Some diff \<Rightarrow>
            encode ((case ed_diff_instruction d of Some i \<Rightarrow> i | None \<Rightarrow> []) @ CUT_LINE @ cut_note) @ diff
        | None \<Rightarrow> [])"

section \<open>Reading a description\<close>

record edited =
  et_patchname :: "patch_name option option"
  et_author :: "signature option option"
  et_message :: rstring
  et_diff :: "nat list option"

text \<open>The variables of the loop over the lines.\<close>

record desc_state =
  ds_patchname :: "rstring option option"
  ds_author :: "rstring option option"
  ds_date :: "rstring option option"
  ds_consuming :: bool
  ds_empty :: nat
  ds_message :: rstring
  ds_pos :: nat

definition desc_start :: desc_state where
  "desc_start =
     \<lparr>ds_patchname = None, ds_author = None, ds_date = None, ds_consuming = False, ds_empty = 0,
      ds_message = [], ds_pos = 0\<rparr>"

definition trim_end :: "rstring \<Rightarrow> rstring" where
  "trim_end s = trim_end_matches is_whitespace s"

definition raw_value :: "rstring \<Rightarrow> rstring option" where
  "raw_value v = (if trim v = [] then None else Some (trim v))"

text \<open>The state after a header line, if the line is one.\<close>

definition header_line :: "nat \<Rightarrow> rstring \<Rightarrow> desc_state \<Rightarrow> desc_state option" where
  "header_line n trimmed st =
     (case split_once c_colon trimmed of
        None \<Rightarrow> None
      | Some (key, v) \<Rightarrow>
          if n = 0 \<and> key = str ''Patch'' then Some (st\<lparr>ds_patchname := Some (raw_value v)\<rparr>)
          else if n = 1 \<and> key = str ''Author'' then Some (st\<lparr>ds_author := Some (raw_value v)\<rparr>)
          else if n = 2 \<and> key = str ''Date'' then Some (st\<lparr>ds_date := Some (raw_value v)\<rparr>)
          else None)"

definition desc_line :: "nat \<Rightarrow> rstring \<Rightarrow> desc_state \<Rightarrow> desc_state" where
  "desc_line n line st =
     (let trimmed = trim_end line in
      if ds_consuming st then
        (if trimmed = [] then
           st\<lparr>ds_message := (if ds_empty st = 0 then ds_message st @ [c_newline] else ds_message st),
              ds_empty := ds_empty st + 1\<rparr>
         else st\<lparr>ds_empty := 0, ds_message := ds_message st @ trimmed @ [c_newline]\<rparr>)
      else
        (case header_line n trimmed st of
           Some st' \<Rightarrow> st'
         | None \<Rightarrow>
             (if trimmed = [] then st\<lparr>ds_empty := ds_empty st + 1, ds_consuming := True\<rparr>
              else st\<lparr>ds_message := ds_message st @ trimmed @ [c_newline], ds_consuming := True\<rparr>)))"

text \<open>The result says whether the loop ended at the cut line.\<close>

primrec desc_loop :: "nat list list \<Rightarrow> nat \<Rightarrow> desc_state \<Rightarrow> (edit_error, bool \<times> desc_state) outcome" where
  "desc_loop [] n st = Ok (False, st)"
| "desc_loop (l # ls) n st =
     (let st = st\<lparr>ds_pos := ds_pos st + length l\<rparr> in
      if starts_with l CUT_LINE then Ok (True, st)
      else if starts_with l [c_hash] then desc_loop ls (Suc n) st
      else (case decode l of
              None \<Rightarrow> Err NonUtf8
            | Some line \<Rightarrow> desc_loop ls (Suc n) (desc_line n line st)))"

primrec read_patchname :: "rstring option option \<Rightarrow> (edit_error, patch_name option option) outcome" where
  "read_patchname None = Ok None"
| "read_patchname (Some maybe) =
     (case maybe of
        None \<Rightarrow> Ok (Some None)
      | Some s \<Rightarrow> obind (omap_err EE_Name (from_str s)) (\<lambda>pn. Ok (Some (Some pn))))"

definition read_author ::
  "date_env \<Rightarrow> rstring option option \<Rightarrow> rstring option option \<Rightarrow> (edit_error, signature option option) outcome" where
  "read_author env raw_author raw_date =
     (case raw_author of
        None \<Rightarrow> Ok None
      | Some None \<Rightarrow> Ok (Some None)
      | Some (Some name_email) \<Rightarrow>
          obind (parse_name_email name_email) (\<lambda>(name, email).
          obind (case raw_date of Some (Some date) \<Rightarrow> parse_time env date | _ \<Rightarrow> Ok (de_now env)) (\<lambda>time.
          Ok (Some (Some \<lparr>sig_name = name, sig_email = email, sig_time = time\<rparr>)))))"

definition read_message :: "rstring \<Rightarrow> rstring" where
  "read_message message0 =
     (let message = (if ends_with message0 [c_newline, c_newline] then butlast message0 else message0)
      in if trim message = [] then [] else message)"

text \<open>The diff after the cut line, without the comment lines at its start.\<close>

primrec skip_comments :: "nat list list \<Rightarrow> nat" where
  "skip_comments [] = 0"
| "skip_comments (l # ls) = (if starts_with l [c_hash] then length l + skip_comments ls else 0)"

definition read_diff :: "nat list \<Rightarrow> nat list option" where
  "read_diff rest =
     (let diff = drop (skip_comments (split_inclusive c_newline rest)) rest
      in if list_all is_ascii_whitespace diff then None else Some diff)"

definition try_from_desc :: "date_env \<Rightarrow> nat list \<Rightarrow> (edit_error, edited) outcome" where
  "try_from_desc env buf =
     obind (desc_loop (split_inclusive c_newline buf) 0 desc_start) (\<lambda>(consume_diff, st).
       if ds_patchname st = None \<and> ds_author st = None \<and> ds_date st = None \<and> trim (ds_message st) = [] then
         Err EmptyDescription
       else
         obind (read_patchname (ds_patchname st)) (\<lambda>patchname.
         obind (read_author env (ds_author st) (ds_date st)) (\<lambda>author.
         Ok \<lparr>et_patchname = patchname, et_author = author, et_message = read_message (ds_message st),
             et_diff = (if consume_diff then read_diff (drop (ds_pos st) buf) else None)\<rparr>)))"

section \<open>Messages given as arguments\<close>

text \<open>\<open>prettify\<close>: the loop, with the flag \<open>consecutive_empty\<close>.\<close>

primrec prettify_loop :: "rstring list \<Rightarrow> bool \<Rightarrow> rstring \<Rightarrow> rstring \<times> bool" where
  "prettify_loop [] blank pretty = (pretty, blank)"
| "prettify_loop (l # ls) blank pretty =
     (let trimmed = trim_end l in
      if trimmed = [] then
        (if \<not> blank then prettify_loop ls True (pretty @ [c_newline]) else prettify_loop ls blank pretty)
      else prettify_loop ls False (pretty @ trimmed @ [c_newline]))"

definition prettify :: "rstring \<Rightarrow> rstring" where
  "prettify message =
     (case prettify_loop (split_inclusive c_newline message) False [] of
        (pretty, blank) \<Rightarrow> if blank then butlast pretty else pretty)"

end
