(* ===== verification/Edit.thy ===== *)
theory Edit
  imports Description Repair
begin

text \<open>
  Editing a patch: \<open>EditBuilder\<close> of \<open>src/patch/edit/mod.rs\<close>, with \<open>trailers.rs\<close>, \<open>interactive.rs\<close> and the
  override of an author in \<open>src/ext/signature.rs\<close>.

  The editor, the files, the hooks and the calls of git for diffs and trailers are the parameter \<open>edit_env\<close>.
  Messages and names are text: commits whose message is not in UTF-8 are not modelled.  The names of patches
  are made unique by \<open>uniquify\<close>, a partial function, so an edit is partial, too.
\<close>

section \<open>Data\<close>

text \<open>
  \<open>ee_read\<close> and \<open>ee_write\<close> are the files named by arguments (\<open>-\<close> is the standard input or output); \<open>ee_editor\<close> gives
  the content of the file after the editor has run on the written one.  \<open>ee_hook\<close> is the hook \<open>commit-msg\<close>.
\<close>

record ('x, 'w) edit_env =
  ee_dates :: date_env
  ee_naming :: naming
  ee_read :: "rstring \<Rightarrow> git_error + nat list"
  ee_write :: "rstring \<Rightarrow> nat list \<Rightarrow> git_error + unit"
  ee_editor :: "nat list \<Rightarrow> git_error + nat list"
  ee_template :: "git_error + rstring option"
  ee_interpret_trailers :: "rstring \<Rightarrow> (rstring \<times> rstring) list \<Rightarrow> git_error + rstring"
  ee_autosign :: "rstring option"
  ee_verbose :: "bool option"
  ee_hook :: "rstring \<Rightarrow> git_error + rstring"
  ee_diff_tree :: "oid \<Rightarrow> oid \<Rightarrow> git_error + nat list"
  ee_diff_index :: "oid \<Rightarrow> 'w \<Rightarrow> git_error + nat list"
  ee_apply :: "nat list \<Rightarrow> 'x \<Rightarrow> git_error + 'x"

datatype edit_failure =
  EF_Git git_error
| EF_Description edit_error
| EF_Name name_error
| EF_Trans trans_error
| EF_NotApplied git_error "nat list"

text \<open>The arguments of \<open>add_args\<close>; a trailer has its position on the command line.\<close>

record edit_args =
  ea_edit :: bool
  ea_diff :: bool
  ea_message :: "rstring option"
  ea_file :: "rstring option"
  ea_no_verify :: bool
  ea_signoff :: "(nat \<times> rstring) list"
  ea_sign_by :: "(nat \<times> rstring) list"
  ea_ack :: "(nat \<times> rstring) list"
  ea_ack_by :: "(nat \<times> rstring) list"
  ea_review :: "(nat \<times> rstring) list"
  ea_review_by :: "(nat \<times> rstring) list"
  ea_author :: "(rstring \<times> rstring) option"
  ea_authname :: "rstring option"
  ea_authemail :: "rstring option"
  ea_authdate :: "int option"
  ea_committer_date_is_author_date :: bool
  ea_save_template :: "rstring option"

record edit_builder =
  eb_original_patchname :: "patch_name option"
  eb_template_patchname :: "patch_name option option"
  eb_allowed_patchnames :: "patch_name list"
  eb_patch_commit :: "commit option"
  eb_allow_autosign :: bool
  eb_allow_diff_edit :: bool
  eb_allow_implicit_edit :: bool
  eb_allow_template_save :: bool
  eb_overlay_author :: "signature option"
  eb_overlay_message :: "rstring option"
  eb_overlay_tree_id :: "oid option"
  eb_overlay_parent_id :: "oid option"

definition default_builder :: edit_builder where
  "default_builder =
     \<lparr>eb_original_patchname = None, eb_template_patchname = None, eb_allowed_patchnames = [], eb_patch_commit = None,
      eb_allow_autosign = False, eb_allow_diff_edit = False, eb_allow_implicit_edit = False, eb_allow_template_save = False,
      eb_overlay_author = None, eb_overlay_message = None, eb_overlay_tree_id = None, eb_overlay_parent_id = None\<rparr>"

definition original_patchname :: "patch_name option \<Rightarrow> edit_builder \<Rightarrow> edit_builder" where
  "original_patchname pn b =
     b\<lparr>eb_original_patchname := pn,
       eb_allowed_patchnames := eb_allowed_patchnames b @ (case pn of Some p \<Rightarrow> [p] | None \<Rightarrow> [])\<rparr>"

definition extra_allowed_patchnames :: "patch_name list \<Rightarrow> edit_builder \<Rightarrow> edit_builder" where
  "extra_allowed_patchnames pns b = b\<lparr>eb_allowed_patchnames := eb_allowed_patchnames b @ pns\<rparr>"

text \<open>The outcome of an edit; a saved template is given with its text.\<close>

datatype edit_outcome = TemplateSaved rstring "nat list" | Edited "patch_name option" "oid option"

type_synonym ('w, 'a) em = "'w repository \<Rightarrow> ((edit_failure, 'a) outcome \<times> 'w repository) option"

definition ebind :: "('w, 'a) em \<Rightarrow> ('a \<Rightarrow> ('w, 'b) em) \<Rightarrow> ('w, 'b) em" where
  "ebind m f repo =
     (case m repo of
        None \<Rightarrow> None
      | Some (Ok x, repo') \<Rightarrow> f x repo'
      | Some (Err e, repo') \<Rightarrow> Some (Err e, repo')
      | Some (Panic, repo') \<Rightarrow> Some (Panic, repo'))"

definition known :: "(edit_failure, 'a) outcome \<Rightarrow> ('w, 'a) em" where
  "known r repo = Some (r, repo)"

definition named :: "(name_error, patch_name) outcome option \<Rightarrow> ('w, patch_name) em" where
  "named r repo = map_option (\<lambda>r. (omap_err EF_Name r, repo)) r"

section \<open>Authors\<close>

definition override_author :: "edit_args \<Rightarrow> signature \<Rightarrow> signature" where
  "override_author a s =
     (case ea_author a of
        Some (name, email) \<Rightarrow> \<lparr>sig_name = name, sig_email = email, sig_time = (case ea_authdate a of Some t \<Rightarrow> t | None \<Rightarrow> sig_time s)\<rparr>
      | None \<Rightarrow>
          \<lparr>sig_name = (case ea_authname a of Some n \<Rightarrow> n | None \<Rightarrow> sig_name s),
           sig_email = (case ea_authemail a of Some e \<Rightarrow> e | None \<Rightarrow> sig_email s),
           sig_time = (case ea_authdate a of Some t \<Rightarrow> t | None \<Rightarrow> sig_time s)\<rparr>)"

definition author_from_args :: "edit_args \<Rightarrow> int option \<Rightarrow> signature option" where
  "author_from_args a time0 =
     (case (case ea_authdate a of Some t \<Rightarrow> Some t | None \<Rightarrow> time0) of
        None \<Rightarrow> None
      | Some time \<Rightarrow>
          (case ea_author a of
             Some (name, email) \<Rightarrow> Some \<lparr>sig_name = name, sig_email = email, sig_time = time\<rparr>
           | None \<Rightarrow>
               (case (ea_authname a, ea_authemail a) of
                  (Some name, Some email) \<Rightarrow> Some \<lparr>sig_name = name, sig_email = email, sig_time = time\<rparr>
                | _ \<Rightarrow> None)))"

definition edit_author ::
  "('x, 'w) git \<Rightarrow> edit_builder \<Rightarrow> edit_args \<Rightarrow> signature option option \<Rightarrow> (edit_failure, signature) outcome" where
  "edit_author g b a file_author =
     (case file_author of
        Some (Some author) \<Rightarrow> Ok author
      | _ \<Rightarrow>
          (case eb_overlay_author b of
             Some author \<Rightarrow> Ok (override_author a author)
           | None \<Rightarrow>
               (case eb_patch_commit b of
                  None \<Rightarrow> Panic
                | Some c \<Rightarrow>
                    (case author_from_args a (Some (sig_time (c_author c))) of
                       Some author \<Rightarrow> Ok author
                     | None \<Rightarrow> obind (of_sum EF_Git (g_author_strict g c)) (\<lambda>author. Ok (override_author a author))))))"

section \<open>The message\<close>

definition no_changes_given :: "edit_args \<Rightarrow> bool" where
  "no_changes_given a \<longleftrightarrow>
     ea_message a = None \<and> ea_file a = None \<and> ea_signoff a = [] \<and> ea_ack a = [] \<and> ea_review a = [] \<and>
     ea_sign_by a = [] \<and> ea_ack_by a = [] \<and> ea_review_by a = [] \<and>
     ea_author a = None \<and> ea_authname a = None \<and> ea_authemail a = None \<and> ea_authdate a = None"

definition wants_editor :: "edit_builder \<Rightarrow> edit_args \<Rightarrow> bool" where
  "wants_editor b a \<longleftrightarrow>
     ea_edit a \<or> (eb_allow_diff_edit b \<and> ea_diff a) \<or> (eb_allow_implicit_edit b \<and> no_changes_given a)"

text \<open>The message before the edit, and whether the editor is needed.\<close>

definition start_message ::
  "('x, 'w) edit_env \<Rightarrow> edit_builder \<Rightarrow> edit_args \<Rightarrow> rstring \<Rightarrow> (edit_failure, rstring \<times> bool) outcome" where
  "start_message env b a file_message =
     (let need = wants_editor b a in
      if ea_file a \<noteq> None then Ok (file_message, need)
      else
        (case ea_message a of
           Some m \<Rightarrow> Ok (prettify m, need)
         | None \<Rightarrow>
             (case eb_overlay_message b of
                Some m \<Rightarrow> Ok (m, need)
              | None \<Rightarrow>
                  (case eb_patch_commit b of
                     Some c \<Rightarrow> Ok (c_message c, need)
                   | None \<Rightarrow>
                       obind (of_sum EF_Git (ee_template env)) (\<lambda>template.
                         case template of
                           Some m \<Rightarrow> Ok (m, True)
                         | None \<Rightarrow> Ok ([], True))))))"

definition trailers_of :: "edit_args \<Rightarrow> (nat \<times> rstring \<times> rstring) list" where
  "trailers_of a =
     concat (map (\<lambda>(trailer, given). map (\<lambda>(index, v). (index, str trailer, v)) given)
       [(''Signed-off-by'', ea_signoff a @ ea_sign_by a), (''Acked-by'', ea_ack a @ ea_ack_by a),
        (''Reviewed-by'', ea_review a @ ea_review_by a)])"

definition add_trailers ::
  "('x, 'w) edit_env \<Rightarrow> rstring \<Rightarrow> edit_args \<Rightarrow> signature \<Rightarrow> rstring option \<Rightarrow> (edit_failure, rstring) outcome" where
  "add_trailers env message a signature autosign =
     (let trailers = trailers_of a in
      if trailers = [] \<and> autosign = None then Ok message
      else
        let default_value = sig_name signature @ str '' <'' @ sig_email signature @ str ''>'';
            trailers = trailers @ (case autosign of Some s \<Rightarrow> [(0, s, default_value)] | None \<Rightarrow> [])
        in of_sum EF_Git (ee_interpret_trailers env message
             (map (\<lambda>(_, trailer, v). (trailer, if v = [] then default_value else v)) (sort_key fst trailers))))"

section \<open>The name\<close>

definition unique_name ::
  "('x, 'w) edit_env \<Rightarrow> edit_builder \<Rightarrow> stack_view \<Rightarrow> patch_name \<Rightarrow> ('w, patch_name) em" where
  "unique_name env b v pn = named (uniquify (cfg_checks (ee_naming env)) (eb_allowed_patchnames b) (all_patches v) pn)"

definition made_name ::
  "('x, 'w) edit_env \<Rightarrow> edit_builder \<Rightarrow> stack_view \<Rightarrow> rstring \<Rightarrow> ('w, patch_name) em" where
  "made_name env b v message =
     ebind (known (omap_err EF_Name (Patch_Name.make (cfg_lower (ee_naming env)) message True (cfg_limit (ee_naming env)))))
       (unique_name env b v)"

definition start_name ::
  "('x, 'w) edit_env \<Rightarrow> edit_builder \<Rightarrow> stack_view \<Rightarrow> patch_name option option \<Rightarrow> rstring \<Rightarrow> bool \<Rightarrow>
   ('w, patch_name option) em" where
  "start_name env b v file_patchname message need =
     (case eb_template_patchname b of
        Some template_patchname \<Rightarrow> known (Ok template_patchname)
      | None \<Rightarrow>
          (case file_patchname of
             Some (Some pn) \<Rightarrow> ebind (unique_name env b v pn) (\<lambda>pn. known (Ok (Some pn)))
           | _ \<Rightarrow>
               (case eb_original_patchname b of
                  Some pn \<Rightarrow> known (Ok (Some pn))
                | None \<Rightarrow>
                    if message \<noteq> [] \<and> \<not> need then ebind (made_name env b v message) (\<lambda>pn. known (Ok (Some pn)))
                    else known (Ok None))))"

definition final_name ::
  "('x, 'w) edit_env \<Rightarrow> edit_builder \<Rightarrow> stack_view \<Rightarrow> patch_name option \<Rightarrow> rstring \<Rightarrow> ('w, patch_name) em" where
  "final_name env b v patchname message =
     (case patchname of
        Some pn \<Rightarrow> unique_name env b v pn
      | None \<Rightarrow>
          (case eb_template_patchname b of
             Some (Some pn) \<Rightarrow> unique_name env b v pn
           | _ \<Rightarrow> made_name env b v message))"

section \<open>The diff\<close>

definition show_diff ::
  "('x, 'w) git \<Rightarrow> ('x, 'w) edit_env \<Rightarrow> edit_builder \<Rightarrow> oid \<Rightarrow> oid \<Rightarrow> ('w, nat list) em" where
  "show_diff g env b tree_id parent_id repo =
     ebind (known (omap_err EF_Trans (find_commit repo parent_id))) (\<lambda>parent.
       let old_tree = c_tree parent in
       if eb_patch_commit b \<noteq> None \<or> old_tree \<noteq> tree_id then known (of_sum EF_Git (ee_diff_tree env old_tree tree_id))
       else (\<lambda>repo.
         case w_refresh g (work repo) of
           (Inl e, w) \<Rightarrow> Some (Err (EF_Git e), repo\<lparr>work := w\<rparr>)
         | (Inr _, w) \<Rightarrow> known (of_sum EF_Git (ee_diff_index env old_tree w)) (repo\<lparr>work := w\<rparr>))) repo"

text \<open>The diff of the description, and the one that was computed for it.\<close>

definition start_diff ::
  "('x, 'w) git \<Rightarrow> ('x, 'w) edit_env \<Rightarrow> edit_builder \<Rightarrow> edit_args \<Rightarrow> nat list option \<Rightarrow> bool \<Rightarrow> oid \<Rightarrow> oid \<Rightarrow>
   ('w, nat list option \<times> nat list option) em" where
  "start_diff g env b a file_diff need tree_id parent_id =
     (if file_diff \<noteq> None then known (Ok (file_diff, None))
      else if need \<and> (ea_diff a \<or> ee_verbose env = Some True) then
        ebind (show_diff g env b tree_id parent_id) (\<lambda>d. known (Ok (Some d, Some d)))
      else known (Ok (None, None)))"

text \<open>\<open>with_temp_index\<close> with the closure that applies the edited diff to the tree of the parent.\<close>

definition diff_tree_id :: "('x, 'w) git \<Rightarrow> ('x, 'w) edit_env \<Rightarrow> oid \<Rightarrow> nat list \<Rightarrow> git_error + oid" where
  "diff_tree_id g env parent_id diff =
     (case x_new g of
        Inl e \<Rightarrow> Inl e
      | Inr x \<Rightarrow>
          (case x_read_tree g parent_id x of
             Inl e \<Rightarrow> Inl e
           | Inr x \<Rightarrow>
               (case ee_apply env diff x of
                  Inl e \<Rightarrow> Inl e
                | Inr x \<Rightarrow> x_write_tree g x)))"

section \<open>The edit\<close>

abbreviation (input) c_quote :: rchar where "c_quote \<equiv> 39"

definition EDIT_INSTRUCTION :: rstring where
  "EDIT_INSTRUCTION =
     str ''# Please enter the message for your patch. Lines starting with'' @ [c_newline]
     @ str ''# '' @ [c_quote] @ str ''#'' @ [c_quote] @ str '' will be ignored. An empty message aborts the new patch.'' @ [c_newline]
     @ str ''# The patch name and author information may also be modified.'' @ [c_newline]"

definition EDIT_INSTRUCTION_READ_ONLY_DIFF :: rstring where
  "EDIT_INSTRUCTION_READ_ONLY_DIFF = str ''# The diff below is for reference. Any edits will be ignored.'' @ [c_newline]"

definition EDIT_INSTRUCTION_EDITABLE_DIFF :: rstring where
  "EDIT_INSTRUCTION_EDITABLE_DIFF = str ''# The diff below may be edited.'' @ [c_newline]"

definition description_of ::
  "edit_builder \<Rightarrow> patch_name option \<Rightarrow> signature \<Rightarrow> rstring \<Rightarrow> nat list option \<Rightarrow> editable" where
  "description_of b patchname author message diff =
     \<lparr>ed_patchname = patchname, ed_author = Some author, ed_message = message, ed_instruction = Some EDIT_INSTRUCTION,
      ed_diff_instruction =
        Some (if eb_allow_diff_edit b then EDIT_INSTRUCTION_EDITABLE_DIFF else EDIT_INSTRUCTION_READ_ONLY_DIFF),
      ed_diff = diff\<rparr>"

definition edit_interactive :: "('x, 'w) edit_env \<Rightarrow> editable \<Rightarrow> (edit_failure, edited) outcome" where
  "edit_interactive env d =
     obind (of_sum EF_Git (ee_editor env (write_desc (ee_dates env) d))) (\<lambda>buf.
       omap_err EF_Description (try_from_desc (ee_dates env) buf))"

text \<open>What is taken from the edited description, where a header is missing or empty.\<close>

definition edited_values ::
  "('x, 'w) git \<Rightarrow> edit_builder \<Rightarrow> editable \<Rightarrow> edited \<Rightarrow>
   (edit_failure, patch_name option \<times> signature \<times> rstring \<times> nat list option) outcome" where
  "edited_values g b d e =
     obind (case et_author e of
              Some (Some author) \<Rightarrow> Ok (Some author)
            | Some None \<Rightarrow>
                obind (case eb_patch_commit b of
                         Some c \<Rightarrow> of_sum EF_Git (g_author_strict g c)
                       | None \<Rightarrow> of_sum EF_Git (g_author g)) (\<lambda>author. Ok (Some author))
            | None \<Rightarrow> Ok (ed_author d)) (\<lambda>author.
     obind (expect author) (\<lambda>author.
       Ok (case et_patchname e of Some pn \<Rightarrow> pn | None \<Rightarrow> ed_patchname d, author, et_message e, et_diff e)))"

definition same_commit :: "commit \<Rightarrow> signature \<Rightarrow> signature \<Rightarrow> rstring \<Rightarrow> oid \<Rightarrow> oid \<Rightarrow> bool" where
  "same_commit c author committer message tree_id parent_id \<longleftrightarrow>
     sig_name (c_committer c) = sig_name committer \<and> sig_email (c_committer c) = sig_email committer \<and>
     c_author c = author \<and> c_message c = message \<and> c_tree c = tree_id \<and>
     (case c_parents c of p # _ \<Rightarrow> p = parent_id | [] \<Rightarrow> False)"

text \<open>The end of an edit: hook, name, and the new commit.\<close>

definition finish_edit ::
  "('x, 'w) git \<Rightarrow> ('x, 'w) edit_env \<Rightarrow> edit_builder \<Rightarrow> edit_args \<Rightarrow> stack_view \<Rightarrow> signature \<Rightarrow> bool \<Rightarrow>
   patch_name option \<Rightarrow> signature \<Rightarrow> rstring \<Rightarrow> oid \<Rightarrow> oid \<Rightarrow> ('w, edit_outcome) em" where
  "finish_edit g env b a v default_committer need_hook patchname author message0 tree_id parent_id =
     ebind (known (if need_hook then of_sum EF_Git (ee_hook env message0) else Ok message0)) (\<lambda>message.
     ebind (final_name env b v patchname message) (\<lambda>patchname.
       let committer =
             (if ea_committer_date_is_author_date a then default_committer\<lparr>sig_time := sig_time author\<rparr> else default_committer);
           unchanged =
             (case eb_patch_commit b of
                Some c \<Rightarrow> same_commit c author committer message tree_id parent_id
              | None \<Rightarrow> False)
       in ebind (if unchanged then known (Ok None)
                 else (\<lambda>repo.
                   case commit_ex g author committer message tree_id [parent_id] repo of
                     (r, repo') \<Rightarrow> Some (obind (omap_err EF_Trans r) (\<lambda>i. Ok (Some i)), repo'))) (\<lambda>new_commit_id.
          known (Ok (Edited (if eb_original_patchname b = Some patchname then None else Some patchname) new_commit_id)))))"

text \<open>The tree of the edited patch; a diff that does not apply is saved with the description.\<close>

definition edited_tree ::
  "('x, 'w) git \<Rightarrow> ('x, 'w) edit_env \<Rightarrow> edit_builder \<Rightarrow> oid \<Rightarrow> oid \<Rightarrow> nat list option \<Rightarrow>
   patch_name option \<Rightarrow> signature \<Rightarrow> rstring \<Rightarrow> nat list option \<Rightarrow> (edit_failure, oid) outcome" where
  "edited_tree g env b tree_id parent_id computed_diff patchname author message diff =
     (case diff of
        None \<Rightarrow> Ok tree_id
      | Some bytes \<Rightarrow>
          if eb_allow_diff_edit b \<and> diff \<noteq> computed_diff then
            (case diff_tree_id g env parent_id bytes of
               Inr tree_id \<Rightarrow> Ok tree_id
             | Inl e \<Rightarrow>
                 let text = write_desc (ee_dates env) (description_of b patchname author message diff)
                 in obind (of_sum EF_Git (ee_write env (str ''.stgit-failed.patch'') text)) (\<lambda>_. Err (EF_NotApplied e text)))
          else Ok tree_id)"

text \<open>\<open>EditBuilder::edit\<close> from the values before the editor.\<close>

definition edit_from ::
  "('x, 'w) git \<Rightarrow> ('x, 'w) edit_env \<Rightarrow> edit_builder \<Rightarrow> edit_args \<Rightarrow> stack_view \<Rightarrow> signature \<Rightarrow> bool \<Rightarrow>
   patch_name option \<Rightarrow> signature \<Rightarrow> rstring \<Rightarrow> oid \<Rightarrow> oid \<Rightarrow> nat list option \<Rightarrow> nat list option \<Rightarrow> ('w, edit_outcome) em" where
  "edit_from g env b a v default_committer need patchname author message tree_id parent_id diff computed_diff =
     (let modified = (case eb_patch_commit b of Some c \<Rightarrow> c_message c \<noteq> message | None \<Rightarrow> True);
          need_hook = (\<not> ea_no_verify a \<and> (need \<or> modified));
          d = description_of b patchname author message diff
      in case (if eb_allow_template_save b then ea_save_template a else None) of
           Some path \<Rightarrow>
             let text = write_desc (ee_dates env) d
             in known (obind (of_sum EF_Git (ee_write env path text)) (\<lambda>_. Ok (TemplateSaved path text)))
         | None \<Rightarrow>
             ebind (known (if need then obind (edit_interactive env d) (edited_values g b d)
                           else Ok (patchname, author, message, diff))) (\<lambda>(patchname, author, message, diff).
             ebind (known (edited_tree g env b tree_id parent_id computed_diff patchname author message diff)) (\<lambda>tree_id.
               finish_edit g env b a v default_committer need_hook patchname author message tree_id parent_id)))"

definition first_parent :: "commit \<Rightarrow> (edit_failure, oid) outcome" where
  "first_parent c = (case c_parents c of p # _ \<Rightarrow> Ok p | [] \<Rightarrow> Panic)"

definition edit ::
  "('x, 'w) git \<Rightarrow> ('x, 'w) edit_env \<Rightarrow> edit_builder \<Rightarrow> edit_args \<Rightarrow> stack_view \<Rightarrow> ('w, edit_outcome) em" where
  "edit g env b a v =
     ebind (known (of_sum EF_Git (g_committer g))) (\<lambda>default_committer.
     ebind (known (case ea_file a of
              Some path \<Rightarrow> obind (of_sum EF_Git (ee_read env path)) (\<lambda>buf. omap_err EF_Description (try_from_desc (ee_dates env) buf))
            | None \<Rightarrow> Ok \<lparr>et_patchname = None, et_author = None, et_message = [], et_diff = None\<rparr>)) (\<lambda>file.
     ebind (known (edit_author g b a (et_author file))) (\<lambda>author.
     ebind (known (start_message env b a (et_message file))) (\<lambda>(message, need).
     ebind (start_name env b v (et_patchname file) message need) (\<lambda>patchname.
     ebind (known (add_trailers env message a default_committer (if eb_allow_autosign b then ee_autosign env else None))) (\<lambda>message.
     ebind (known (case eb_overlay_tree_id b of
              Some i \<Rightarrow> Ok i
            | None \<Rightarrow> (case eb_patch_commit b of Some c \<Rightarrow> Ok (c_tree c) | None \<Rightarrow> Panic))) (\<lambda>tree_id.
     ebind (known (case eb_overlay_parent_id b of
              Some i \<Rightarrow> Ok i
            | None \<Rightarrow> (case eb_patch_commit b of Some c \<Rightarrow> first_parent c | None \<Rightarrow> Panic))) (\<lambda>parent_id.
     ebind (start_diff g env b a (et_diff file) need tree_id parent_id) (\<lambda>(diff, computed_diff).
       edit_from g env b a v default_committer need patchname author message tree_id parent_id diff computed_diff)))))))))"

end
