(* ===== verification/Edit_Commands.thy ===== *)
theory Edit_Commands
  imports Edit Commands
begin

text \<open>
  Commands that edit patches: \<open>edit\<close> (\<open>src/cmd/edit.rs\<close>) and \<open>squash\<close> (\<open>src/cmd/squash.rs\<close>).

  Both call \<open>EditBuilder::edit\<close> before or inside of their transaction, so their plans and closures are partial
  and change the repository.
\<close>

datatype 'p edit_cmd_error = EC_Cmd "'p cmd_error" | EC_Edit edit_failure

section \<open>Edit\<close>

text \<open>The tree of \<open>--set-tree\<close> is given resolved.\<close>

record edit_cmd_args =
  ec_patch :: "patch_locator option"
  ec_set_tree :: "oid option"
  ec_edit :: edit_args

definition edit_target ::
  "'p cmd_env \<Rightarrow> stack_view \<Rightarrow> patch_locator option \<Rightarrow> ('p cmd_error, patch_name) outcome" where
  "edit_target env v loc =
     (case loc of
        Some l \<Rightarrow> omap_err CE_Locator (resolve_name (cm_locator env) l v)
      | None \<Rightarrow> (if v_applied v = [] then Err NoAppliedPatches else Ok (last (v_applied v))))"

definition edit_cmd_builder :: "patch_name \<Rightarrow> commit \<Rightarrow> edit_cmd_args \<Rightarrow> edit_builder" where
  "edit_cmd_builder pn c a =
     (original_patchname (Some pn) default_builder)
       \<lparr>eb_patch_commit := Some c, eb_allow_diff_edit := True, eb_allow_implicit_edit := (ec_set_tree a = None),
        eb_allow_template_save := True,
        eb_overlay_tree_id := Some (case ec_set_tree a of Some i \<Rightarrow> i | None \<Rightarrow> c_tree c)\<rparr>"

definition pop_above :: "patch_name \<Rightarrow> ('w, patch_name list) tm" where
  "pop_above pn =
     sbind (gets tr_applied) (\<lambda>applied.
       case position (\<lambda>q. q = pn) applied of
         Some pos \<Rightarrow>
           let to_pop = drop (Suc pos) applied in
           sbind (pop_patches (\<lambda>q. q \<in> set to_pop)) (\<lambda>popped_extra.
           sthen (sassert (popped_extra = [])) (ret to_pop))
       | None \<Rightarrow> ret [])"

definition edit_closure ::
  "('x, 'w) git \<Rightarrow> bool \<Rightarrow> patch_name \<Rightarrow> patch_name option \<Rightarrow> oid option \<Rightarrow> ('w, unit) tm" where
  "edit_closure g set_tree pn new_patchname new_commit_id =
     sbind (pop_above pn) (\<lambda>popped.
     sbind (case new_patchname of Some n \<Rightarrow> sthen (rename_patch pn n) (ret n) | None \<Rightarrow> ret pn) (\<lambda>pn.
     sthen (case new_commit_id of Some i \<Rightarrow> update_patch pn i | None \<Rightarrow> ret ())
           (if set_tree then push_tree_patches g popped else push_patches g popped False)))"

definition edit_plan ::
  "('x, 'w) git \<Rightarrow> ('x, 'w) edit_env \<Rightarrow> 'p cmd_env \<Rightarrow> stack \<Rightarrow> edit_cmd_args \<Rightarrow> 'w repository \<Rightarrow>
   (('p edit_cmd_error, 'w plan) outcome \<times> 'w repository) option" where
  "edit_plan g eenv env sk a repo =
     (case obind (trans_check (check_head_top_mismatch sk)) (\<lambda>_.
           obind (edit_target env (stack_view_of sk) (ec_patch a)) (\<lambda>pn.
           obind (get_patch_commit (stack_view_of sk) pn) (\<lambda>c. Ok (pn, c)))) of
        Err e \<Rightarrow> Some (Err (EC_Cmd e), repo)
      | Panic \<Rightarrow> Some (Panic, repo)
      | Ok (pn, c) \<Rightarrow>
          (case edit g eenv (edit_cmd_builder pn c a) (ec_edit a) (stack_view_of sk) repo of
             None \<Rightarrow> None
           | Some (Err e, repo') \<Rightarrow> Some (Err (EC_Edit e), repo')
           | Some (Panic, repo') \<Rightarrow> Some (Panic, repo')
           | Some (Ok (TemplateSaved _ _), repo') \<Rightarrow> Some (Ok NothingToDo, repo')
           | Some (Ok (Edited new_patchname new_commit_id), repo') \<Rightarrow>
               if new_patchname = None \<and> new_commit_id = None then Some (Ok NothingToDo, repo')
               else
                 Some (Ok (Transaction
                   (use_index_and_worktree True (allow_conflicts True default_options))
                   (edit_closure g (ec_set_tree a \<noteq> None) pn new_patchname new_commit_id)
                   (str ''edit: '' @ pn_str pn)), repo')))"

section \<open>Closures that call the editor\<close>

text \<open>The text of an error; the reasons of an invalid name are left out.\<close>

primrec edit_error_msg :: "edit_error \<Rightarrow> rstring" where
  "edit_error_msg NonUtf8 = str ''patch description contains non-UTF-8 data''"
| "edit_error_msg EmptyDescription = str ''aborting due to empty patch description''"
| "edit_error_msg (EE_Name _) = str ''invalid patch name''"
| "edit_error_msg NameBrackets = str ''name may not contain `<` or `>`''"
| "edit_error_msg EmailBrackets = str ''email may not contain `<` or `>`''"
| "edit_error_msg (InvalidNameEmail s) = str ''invalid name and email `'' @ s @ str ''`''"
| "edit_error_msg (InvalidDate s) = str ''invalid date `'' @ s @ str ''`''"

primrec failure_error :: "edit_failure \<Rightarrow> trans_error" where
  "failure_error (EF_Git e) = OtherError e"
| "failure_error (EF_Description e) = OtherError (edit_error_msg e)"
| "failure_error (EF_Name _) = OtherError (str ''invalid patch name'')"
| "failure_error (EF_Trans e) = e"
| "failure_error (EF_NotApplied e _) = OtherError (str ''edited patch did not apply due to:'' @ [c_newline] @ e)"

type_synonym ('w, 'a) ptm = "'w transaction \<Rightarrow> ((trans_error, 'a) outcome \<times> 'w transaction) option"

definition pbind :: "('w, 'a) ptm \<Rightarrow> ('a \<Rightarrow> ('w, 'b) ptm) \<Rightarrow> ('w, 'b) ptm" where
  "pbind m f t =
     (case m t of
        None \<Rightarrow> None
      | Some (Ok x, t') \<Rightarrow> f x t'
      | Some (Err e, t') \<Rightarrow> Some (Err e, t')
      | Some (Panic, t') \<Rightarrow> Some (Panic, t'))"

definition total :: "('w, 'a) tm \<Rightarrow> ('w, 'a) ptm" where
  "total m t = Some (m t)"

definition edit_in :: "('w transaction \<Rightarrow> ('w, 'a) em) \<Rightarrow> ('w, 'a) ptm" where
  "edit_in f t = map_option (\<lambda>(r, repo). (omap_err failure_error r, t\<lparr>tr_repo := repo\<rparr>)) (f t (tr_repo t))"

section \<open>Squash\<close>

primrec prepare_message_from :: "nat \<Rightarrow> stack_view \<Rightarrow> patch_name list \<Rightarrow> ('e, rstring) outcome" where
  "prepare_message_from i v [] = Ok []"
| "prepare_message_from i v (pn # pns) =
     obind (get_patch_commit v pn) (\<lambda>c.
     obind (prepare_message_from (Suc i) v pns) (\<lambda>rest.
       Ok (str ''# Commit message from patch #'' @ show_nat (i + 1) @ str '': '' @ pn_str pn @ [c_newline]
           @ trim_end (c_message c) @ [c_newline, c_newline] @ rest)))"

definition prepare_message :: "stack_view \<Rightarrow> patch_name list \<Rightarrow> ('e, rstring) outcome" where
  "prepare_message v pns = prepare_message_from 0 v pns"

text \<open>
  The loop of \<open>try_squash\<close> over the patches after the first; the result says whether all changes were applied to the
  temporary index, and whether all authors are the same.
\<close>

primrec squash_loop ::
  "('x, 'w) git \<Rightarrow> 'w repository \<Rightarrow> stack_view \<Rightarrow> signature \<Rightarrow> patch_name list \<Rightarrow> bool \<Rightarrow> 'x \<Rightarrow>
   (edit_failure, bool \<times> bool \<times> 'x) outcome" where
  "squash_loop g repo v base_author [] use_base x = Ok (True, use_base, x)"
| "squash_loop g repo v base_author (pn # pns) use_base x =
     obind (get_patch_commit v pn) (\<lambda>commit.
     let use_base = (use_base \<and> c_author commit = base_author) in
     obind (omap_err EF_Trans (get_parent_commit repo commit)) (\<lambda>parent.
       if c_tree parent = c_tree commit then squash_loop g repo v base_author pns use_base x
       else
         (case apply_treediff_to_index g (c_tree parent) (c_tree commit) True x of
            (Inl e, _) \<Rightarrow> Err (EF_Git e)
          | (Inr False, x') \<Rightarrow> Ok (False, use_base, x')
          | (Inr True, x') \<Rightarrow> squash_loop g repo v base_author pns use_base x')))"

definition squash_tree ::
  "('x, 'w) git \<Rightarrow> 'w repository \<Rightarrow> stack_view \<Rightarrow> commit \<Rightarrow> patch_name list \<Rightarrow>
   (edit_failure, (oid \<times> bool) option) outcome" where
  "squash_tree g repo v base_commit pns =
     obind (of_sum EF_Git (x_new g)) (\<lambda>x.
     obind (of_sum EF_Git (x_read_tree g (c_tree base_commit) x)) (\<lambda>x.
     obind (squash_loop g repo v (c_author base_commit) pns True x) (\<lambda>(all_applied, use_base, x).
       if \<not> all_applied then Ok None
       else obind (of_sum EF_Git (x_write_tree g x)) (\<lambda>tree_id. Ok (Some (tree_id, use_base))))))"

definition squash_builder ::
  "commit \<Rightarrow> oid \<Rightarrow> oid \<Rightarrow> patch_name option \<Rightarrow> patch_name list \<Rightarrow> signature \<Rightarrow> rstring \<Rightarrow> edit_builder" where
  "squash_builder base_commit parent_id tree_id patchname patchnames author message =
     (extra_allowed_patchnames patchnames default_builder)
       \<lparr>eb_overlay_parent_id := Some parent_id, eb_overlay_tree_id := Some tree_id, eb_allow_implicit_edit := True,
        eb_template_patchname := Some patchname, eb_overlay_author := Some author, eb_overlay_message := Some message\<rparr>"

definition try_squash ::
  "('x, 'w) git \<Rightarrow> ('x, 'w) edit_env \<Rightarrow> edit_args \<Rightarrow> patch_name list \<Rightarrow> patch_name option \<Rightarrow> 'w transaction \<Rightarrow>
   ('w, (patch_name \<times> oid) option) em" where
  "try_squash g eenv a patchnames patchname t repo =
     (let v = trans_view t in
      ebind (known (case patchnames of [] \<Rightarrow> Panic | first # _ \<Rightarrow> get_patch_commit v first)) (\<lambda>base_commit.
      ebind (known (squash_tree g repo v base_commit (tl patchnames))) (\<lambda>tree.
        case tree of
          None \<Rightarrow> known (Ok None)
        | Some (tree_id, use_base) \<Rightarrow>
            ebind (known (first_parent base_commit)) (\<lambda>parent_id.
            ebind (known (if use_base then Ok (c_author base_commit) else of_sum EF_Git (g_author g))) (\<lambda>author.
            ebind (known (prepare_message v patchnames)) (\<lambda>message.
            ebind (edit g eenv (squash_builder base_commit parent_id tree_id patchname patchnames (override_author a author) message) a v)
              (\<lambda>out. known (case out of
                   TemplateSaved _ _ \<Rightarrow> Panic
                 | Edited new_patchname new_commit_id \<Rightarrow>
                     obind (expect new_patchname) (\<lambda>n. obind (expect new_commit_id) (\<lambda>i. Ok (Some (n, i))))))))))) repo)"

text \<open>The second attempt, with the patches pushed on top of the stack.\<close>

definition squash_pushed ::
  "('x, 'w) git \<Rightarrow> ('x, 'w) edit_env \<Rightarrow> edit_args \<Rightarrow> patch_name list \<Rightarrow> patch_name option \<Rightarrow>
   ('w, patch_name \<times> oid \<times> patch_name list) ptm" where
  "squash_pushed g eenv a patchnames patchname =
     (let chosen = (\<lambda>pn. pn \<in> set patchnames) in
      pbind (total (sbind (pop_patches chosen) (\<lambda>to_push. sthen (push_patches g patchnames False) (ret to_push)))) (\<lambda>to_push.
      pbind (edit_in (try_squash g eenv a patchnames patchname)) (\<lambda>squashed.
        case squashed of
          Some (n, i) \<Rightarrow>
            total (sbind (delete_patches chosen) (\<lambda>popped_extra. sthen (sassert (popped_extra = [])) (ret (n, i, to_push))))
        | None \<Rightarrow> total (throw (OtherError (str ''conflicts while squashing''))))))"

text \<open>The name and the commit of the squashed patch, and the patches to push after it.\<close>

definition squash_replace ::
  "('x, 'w) git \<Rightarrow> ('x, 'w) edit_env \<Rightarrow> edit_args \<Rightarrow> patch_name list \<Rightarrow> patch_name option \<Rightarrow>
   ('w, patch_name \<times> oid \<times> patch_name list) ptm" where
  "squash_replace g eenv a patchnames patchname =
     pbind (edit_in (try_squash g eenv a patchnames patchname)) (\<lambda>squashed.
       case squashed of
         Some (n, i) \<Rightarrow> total (sbind (delete_patches (\<lambda>pn. pn \<in> set patchnames)) (\<lambda>to_push. ret (n, i, to_push)))
       | None \<Rightarrow> squash_pushed g eenv a patchnames patchname)"

definition squash ::
  "('x, 'w) git \<Rightarrow> ('x, 'w) edit_env \<Rightarrow> edit_args \<Rightarrow> patch_name list \<Rightarrow> patch_name option \<Rightarrow> bool \<Rightarrow> ('w, patch_name) ptm" where
  "squash g eenv a patchnames patchname should_push_squashed =
     pbind (squash_replace g eenv a patchnames patchname) (\<lambda>(n, i, to_push).
       total (sthen (new_unapplied n i 0)
             (sthen (push_patches g (if should_push_squashed then n # to_push else to_push) False) (ret n))))"

record squash_args =
  sq_ranges :: "patch_range list"
  sq_name :: "patch_name option"
  sq_edit :: edit_args

definition squash_select ::
  "('x, 'w) git \<Rightarrow> 'p cmd_env \<Rightarrow> stack \<Rightarrow> squash_args \<Rightarrow> 'w repository \<Rightarrow> ('p cmd_error, patch_name list) outcome" where
  "squash_select g env sk a repo =
     obind (check_ready g env sk False repo) (\<lambda>_.
     obind (omap_err CE_Range (resolve_names (cm_locator env) (stack_view_of sk) (sq_ranges a) RC_All)) (\<lambda>pns.
     obind (case sq_name a of
              Some n \<Rightarrow>
                if n \<in> set pns then Ok ()
                else (case stack_collides (stack_view_of sk) n of
                        Some q \<Rightarrow> Err (CE_Msg (str ''patch name `'' @ pn_str q @ str ''` already taken''))
                      | None \<Rightarrow> Ok ())
            | None \<Rightarrow> Ok ()) (\<lambda>_.
     if length pns < 2 then Err (CE_Msg (str ''need at least two patches'')) else Ok pns)))"

definition squash_closure ::
  "('x, 'w) git \<Rightarrow> ('x, 'w) edit_env \<Rightarrow> stack \<Rightarrow> squash_args \<Rightarrow> patch_name list \<Rightarrow> ('w, unit) ptm" where
  "squash_closure g eenv sk a pns =
     pbind (squash g eenv (sq_edit a) pns (sq_name a) (list_ex (\<lambda>pn. pn \<in> set pns) (v_applied (stack_view_of sk))))
       (\<lambda>_. total (ret ()))"

text \<open>The template of \<open>--save-template\<close>.\<close>

definition squash_template ::
  "('x, 'w) git \<Rightarrow> ('x, 'w) edit_env \<Rightarrow> stack \<Rightarrow> squash_args \<Rightarrow> patch_name list \<Rightarrow> ('w, unit) em" where
  "squash_template g eenv sk a pns =
     (let v = stack_view_of sk in
      ebind (known (case pns of [] \<Rightarrow> Panic | first # _ \<Rightarrow> get_patch_commit v first)) (\<lambda>c.
      ebind (known (of_sum EF_Git (g_author g))) (\<lambda>author.
      ebind (known (prepare_message v pns)) (\<lambda>message.
      ebind (edit g eenv
               (default_builder\<lparr>eb_patch_commit := Some c, eb_allow_template_save := True,
                  eb_template_patchname := Some (sq_name a),
                  eb_overlay_author := Some (override_author (sq_edit a) author), eb_overlay_message := Some message\<rparr>)
               (sq_edit a) v)
        (\<lambda>out. known (case out of TemplateSaved _ _ \<Rightarrow> Ok () | Edited _ _ \<Rightarrow> Panic))))))"

definition squash_run ::
  "('x, 'w) git \<Rightarrow> bool \<Rightarrow> ('x, 'w) edit_env \<Rightarrow> 'p cmd_env \<Rightarrow> stack \<Rightarrow> squash_args \<Rightarrow> 'w repository \<Rightarrow>
   (('p edit_cmd_error, stack) outcome \<times> 'w repository) option" where
  "squash_run g interrupted eenv env sk a repo =
     (case squash_select g env sk a repo of
        Err e \<Rightarrow> Some (Err (EC_Cmd e), repo)
      | Panic \<Rightarrow> Some (Panic, repo)
      | Ok pns \<Rightarrow>
          if ea_save_template (sq_edit a) \<noteq> None then
            map_option (\<lambda>(r, repo'). (obind (omap_err EC_Edit r) (\<lambda>_. Ok sk), repo')) (squash_template g eenv sk a pns repo)
          else
            map_option (\<lambda>(r, repo'). (omap_err (EC_Cmd \<circ> CE_Trans) r, repo'))
              (run_closure g interrupted sk
                 (committer_date_is_author_date (ea_committer_date_is_author_date (sq_edit a))
                    (use_index_and_worktree True (allow_conflicts True default_options)))
                 (squash_closure g eenv sk a pns) (str ''squash'') repo))"

end
