(* ===== verification/Description_Props.thy ===== *)
theory Description_Props
  imports Description
begin

text \<open>
  A description that is written and not edited is read back: the round trip of the text in which a patch is edited.
\<close>

section \<open>Lines\<close>

definition unlines :: "rstring list \<Rightarrow> rstring" where
  "unlines ls = concat (map (\<lambda>l. l @ [c_newline]) ls)"

lemma unlines_simps [simp]:
  "unlines [] = []" "unlines (l # ls) = l @ [c_newline] @ unlines ls" "unlines (ls @ ms) = unlines ls @ unlines ms"
  by (simp_all add: unlines_def)

lemma split_inclusive_eq_Nil [simp]: "split_inclusive c s = [] \<longleftrightarrow> s = []"
  by (cases s) (auto split: list.split)

lemma split_inclusive_word:
  "c \<notin> set w \<Longrightarrow> w \<noteq> [] \<Longrightarrow>
   split_inclusive c (w @ s) = (case split_inclusive c s of [] \<Rightarrow> [w] | v # vs \<Rightarrow> (w @ v) # vs)"
proof (induction w)
  case (Cons x w)
  then show ?case by (cases "w = []") (auto split: list.split)
qed simp

lemma split_inclusive_line: "c \<notin> set l \<Longrightarrow> split_inclusive c (l @ c # s) = (l @ [c]) # split_inclusive c s"
  by (cases "l = []") (simp_all add: split_inclusive_word)

lemma split_inclusive_append:
  assumes "a = [] \<or> last a = c"
  shows "split_inclusive c (a @ s) = split_inclusive c a @ split_inclusive c s"
  using assms
proof (induction a)
  case (Cons x a)
  then show ?case by (cases "a = []") (auto split: list.split)
qed simp

lemma split_inclusive_unlines:
  "list_all (\<lambda>l. c_newline \<notin> set l) ls \<Longrightarrow> split_inclusive c_newline (unlines ls) = map (\<lambda>l. l @ [c_newline]) ls"
  by (induction ls) (simp_all add: split_inclusive_line)

lemma concat_split_inclusive: "concat (split_inclusive c s) = s"
  by (induction s) (auto split: list.split)

lemma unlines_last: "unlines ls = [] \<or> last (unlines ls) = c_newline"
  by (induction ls rule: rev_induct) auto

lemma split_on_line: "list_all (\<lambda>l. c \<notin> set l) (split_on c s)"
  by (induction s) (auto split: list.split)

lemma split_on_first: "c \<notin> set l \<Longrightarrow> split_on c (l @ c # s) = l # split_on c s"
  by (induction l) auto

lemma split_on_word: "c \<notin> set l \<Longrightarrow> split_on c l = [l]"
  by (induction l) auto

lemma unlines_split_on: "unlines (split_on c_newline s) = s @ [c_newline]"
  by (induction s) (auto split: list.split simp: split_on_ne)

text \<open>Lines of text and of bytes.\<close>

lemma split_inclusive_encode: "split_inclusive c_newline (encode s) = map encode (split_inclusive c_newline s)"
proof (induction s)
  case (Cons c s)
  show ?case
  proof (cases "c = c_newline")
    case True
    then show ?thesis using Cons by (simp add: encode_char_def)
  next
    case False
    then have "c_newline \<notin> set (encode_char c)" by (simp add: ascii_in_encode_char)
    then show ?thesis using False Cons by (simp add: split_inclusive_word split: list.split)
  qed
qed simp

lemma starts_with_encode:
  "list_all (\<lambda>b. b < 128) p \<Longrightarrow> starts_with (encode s) p \<longleftrightarrow> starts_with s p"
proof (induction p arbitrary: s)
  case (Cons b p)
  show ?case
  proof (cases s)
    case (Cons c r)
    have "starts_with (encode_char c @ encode r) (b # p) \<longleftrightarrow> c = b \<and> starts_with (encode r) p"
      using Cons.prems by (auto simp: starts_with_def encode_char_def)
    then show ?thesis using Cons Cons.IH [of r] Cons.prems by (auto simp: starts_with_def)
  qed (simp add: starts_with_def)
qed (simp add: starts_with_def)

section \<open>Trimming\<close>

lemma trim_end_append [simp]: "is_whitespace c \<Longrightarrow> trim_end (s @ [c]) = trim_end s"
  by (simp add: trim_end_def trim_end_matches_def)

lemma newline_space [simp]: "is_whitespace c_newline"
  by (simp add: is_whitespace_def)

lemma trim_end_id: "s \<noteq> [] \<Longrightarrow> \<not> is_whitespace (last s) \<Longrightarrow> trim_end s = s"
  by (cases s rule: rev_cases) (simp_all add: trim_end_def trim_end_matches_def)

lemma trim_end_eq_Nil [simp]: "trim_end s = [] \<longleftrightarrow> list_all is_whitespace s"
  by (simp add: trim_end_def trim_end_matches_def list_all_iff)

lemma trim_eq_Nil [simp]: "trim s = [] \<longleftrightarrow> list_all is_whitespace s"
proof -
  have "trim s = trim_end (dropWhile is_whitespace s)"
    by (simp add: trim_def trim_matches_def trim_start_matches_def trim_end_def)
  moreover have "list_all is_whitespace (dropWhile is_whitespace s) \<longleftrightarrow> list_all is_whitespace s"
    by (induction s) auto
  ultimately show ?thesis by simp
qed

lemma trim_end_trimmed [simp]: "trim_end (trim_end s) = trim_end s"
proof (cases "trim_end s = []")
  case False
  then have "\<not> is_whitespace (last (trim_end s))"
    unfolding trim_end_def using trim_end_matches_last by blast
  then show ?thesis using trim_end_id [OF False] by blast
qed (simp add: trim_end_def trim_end_matches_def)

text \<open>Text without white space at its ends.\<close>

definition trimmed :: "rstring \<Rightarrow> bool" where
  "trimmed s \<longleftrightarrow> s = [] \<or> \<not> is_whitespace (hd s) \<and> \<not> is_whitespace (last s)"

lemma trim_trimmed:
  assumes "trimmed s"
  shows "trim s = s"
proof (cases "s = []")
  case False
  then have "dropWhile is_whitespace s = s" using assms by (cases s) (simp_all add: trimmed_def)
  then have "trim s = trim_end s" by (simp add: trim_def trim_matches_def trim_start_matches_def trim_end_def)
  then show ?thesis using False assms trim_end_id by (simp add: trimmed_def)
qed (simp add: trim_def trim_matches_def trim_start_matches_def trim_end_matches_def)

section \<open>The message\<close>

text \<open>Runs of empty lines become one; the flag says whether the line before was empty.\<close>

fun squeeze :: "bool \<Rightarrow> rstring list \<Rightarrow> rstring list" where
  "squeeze e [] = []"
| "squeeze e (l # ls) =
     (if l = [] then (if e then squeeze True ls else [] # squeeze True ls) else l # squeeze False ls)"

definition is_comment :: "rstring \<Rightarrow> bool" where
  "is_comment l \<longleftrightarrow> starts_with l [c_hash]"

text \<open>The lines of a message that are kept, and the message they make: the specification of reading a message.\<close>

definition visible :: "rstring list \<Rightarrow> rstring list" where
  "visible ls = map trim_end (filter (\<lambda>l. \<not> is_comment l) ls)"

definition message_lines :: "rstring \<Rightarrow> rstring list" where
  "message_lines m = split_on c_newline (trim_end_matches (\<lambda>c. c = c_newline) m)"

definition drop_last_empty :: "rstring list \<Rightarrow> rstring list" where
  "drop_last_empty ls = (if ls \<noteq> [] \<and> last ls = [] then butlast ls else ls)"

definition tidy :: "rstring \<Rightarrow> rstring" where
  "tidy m = unlines (drop_last_empty (squeeze True (visible (message_lines m))))"

definition ends_empty :: "bool \<Rightarrow> rstring list \<Rightarrow> bool" where
  "ends_empty e ls = (if ls = [] then e else last ls = [])"

lemma ends_empty_Cons [simp]: "ends_empty e (l # ls) = ends_empty (l = []) ls"
  by (simp add: ends_empty_def)

lemma squeeze_append: "squeeze e (ls @ ms) = squeeze e ls @ squeeze (ends_empty e ls) ms"
  by (induction e ls rule: squeeze.induct) (auto simp: ends_empty_def)

lemma visible_simps [simp]:
  "visible [] = []" "visible (ls @ ms) = visible ls @ visible ms"
  "visible (l # ls) = (if is_comment l then visible ls else trim_end l # visible ls)"
  by (simp_all add: visible_def)

lemma last_squeeze:
  assumes "squeeze e ls \<noteq> []"
  shows "last (squeeze e ls) = [] \<longleftrightarrow> last ls = []"
  using assms
proof (induction ls rule: rev_induct)
  case (snoc l ls)
  have *: "squeeze b [] = []" for b by simp
  show ?case
  proof (cases "l = [] \<and> ends_empty e ls")
    case True
    then have s: "squeeze e (ls @ [l]) = squeeze e ls" by (simp add: squeeze_append)
    then have "ls \<noteq> []" using snoc.prems by auto
    then show ?thesis using snoc s True by (simp add: ends_empty_def)
  qed (auto simp: squeeze_append)
qed simp

text \<open>No two empty lines follow each other.\<close>

lemma squeeze_no_double: "squeeze e ls = xs @ [[], l] \<Longrightarrow> l \<noteq> []"
proof (induction ls arbitrary: xs rule: rev_induct)
  case (snoc m ls)
  show ?case
  proof (cases "m = []")
    case False
    then show ?thesis using snoc.prems by (simp add: squeeze_append)
  next
    case True
    show ?thesis
    proof (cases "ends_empty e ls")
      case True
      then show ?thesis using snoc \<open>m = []\<close> by (simp add: squeeze_append)
    next
      case False
      then have eq: "squeeze e ls = xs @ [[]]" "ls \<noteq> [] \<or> e = False"
        using snoc.prems \<open>m = []\<close> by (auto simp: squeeze_append ends_empty_def)
      then have "ls \<noteq> []" by auto
      then show ?thesis using last_squeeze [of e ls] eq False by (simp add: ends_empty_def)
    qed
  qed
qed simp

lemma squeeze_starts: "squeeze True ls \<noteq> [] \<Longrightarrow> hd (squeeze True ls) \<noteq> []"
  by (induction ls) auto

lemma drop_last_empty_last:
  assumes "squeeze True ls \<noteq> []"
  shows "drop_last_empty (squeeze True ls) \<noteq> []" "last (drop_last_empty (squeeze True ls)) \<noteq> []"
proof -
  let ?q = "squeeze True ls"
  have "drop_last_empty ?q \<noteq> [] \<and> last (drop_last_empty ?q) \<noteq> []"
  proof (cases "last ?q = []")
    case True
    obtain xs where xs: "?q = xs @ [[]]" using assms True by (metis append_butlast_last_id)
    then have "xs \<noteq> []" using squeeze_starts [OF assms] by auto
    then obtain ys y where "xs = ys @ [y]" by (cases xs rule: rev_cases) auto
    moreover from this have "y \<noteq> []" using xs squeeze_no_double [of True ls ys "[]"] by auto
    moreover have "drop_last_empty ?q = xs" unfolding xs by (simp add: drop_last_empty_def)
    ultimately show ?thesis by simp
  qed (use assms in \<open>simp add: drop_last_empty_def\<close>)
  then show "drop_last_empty ?q \<noteq> []" "last (drop_last_empty ?q) \<noteq> []" by auto
qed

lemma set_squeeze: "set (squeeze e ls) \<subseteq> set ls \<union> {[]}"
  by (induction e ls rule: squeeze.induct) auto

text \<open>What the final steps make of the message that the loop has collected.\<close>

lemma read_message_tidy:
  assumes "list_all (\<lambda>l. trim_end l = l) ls"
  shows "read_message (unlines (squeeze True (ls @ [[]]))) = unlines (drop_last_empty (squeeze True ls))"
proof (cases "squeeze True ls = []")
  case True
  then have "ends_empty True ls" by (induction ls) (auto split: if_splits simp: ends_empty_def)
  then show ?thesis using True by (simp add: squeeze_append read_message_def drop_last_empty_def)
next
  case False
  let ?q = "drop_last_empty (squeeze True ls)"
  have "ls \<noteq> []" using False by auto
  then have full: "squeeze True (ls @ [[]]) = ?q @ [[]]"
    using False last_squeeze [OF False] append_butlast_last_id [OF False]
    by (cases "last ls = []") (simp_all add: squeeze_append ends_empty_def drop_last_empty_def)
  note q = drop_last_empty_last [OF False]
  obtain xs l where xl: "?q = xs @ [l]" "l \<noteq> []" using q by (metis append_butlast_last_id)
  have "set ?q \<subseteq> set (squeeze True ls)" by (auto simp: drop_last_empty_def dest: in_set_butlastD)
  then have "l \<in> set (squeeze True ls)" using xl(1) by simp
  then have "l \<in> set ls" using set_squeeze [of True ls] xl(2) by auto
  then have "trim_end l = l" using assms by (simp add: list_all_iff)
  then have "\<not> list_all is_whitespace l" using xl(2) trim_end_eq_Nil by metis
  then have "trim (unlines ?q) \<noteq> []" using xl by simp
  moreover have "ends_with (unlines ?q @ [c_newline]) [c_newline, c_newline]"
    using xl by (simp add: ends_with_iff)
  ultimately show ?thesis by (simp add: full read_message_def)
qed

section \<open>The loop over the lines\<close>

definition no_cut :: "rstring \<Rightarrow> bool" where
  "no_cut l \<longleftrightarrow> \<not> starts_with (l @ [c_newline]) CUT_LINE"

abbreviation coded :: "rstring list \<Rightarrow> nat list list" where
  "coded ls \<equiv> map (\<lambda>l. encode (l @ [c_newline])) ls"

lemma cut_ascii: "list_all (\<lambda>b. b < 128) CUT_LINE"
  by code_simp

lemma hash_line: "starts_with (l @ [c_newline]) [c_hash] \<longleftrightarrow> is_comment l"
  by (cases l) (simp_all add: starts_with_def is_comment_def)

lemma scalar_newline [simp]: "scalar c_newline"
  by (simp add: scalar_def)

lemma desc_loop_line:
  assumes "list_all scalar l" "no_cut l"
  shows "desc_loop (encode (l @ [c_newline]) # rest) n st =
    (let st = st\<lparr>ds_pos := ds_pos st + length (encode (l @ [c_newline]))\<rparr>
     in desc_loop rest (Suc n) (if is_comment l then st else desc_line n (l @ [c_newline]) st))"
proof -
  have "\<not> starts_with (encode (l @ [c_newline])) CUT_LINE"
    using assms(2) unfolding starts_with_encode [OF cut_ascii] no_cut_def .
  moreover have "starts_with (encode (l @ [c_newline])) [c_hash] \<longleftrightarrow> is_comment l"
    using starts_with_encode [of "[c_hash]" "l @ [c_newline]"] hash_line by simp
  moreover have "decode (encode (l @ [c_newline])) = Some (l @ [c_newline])"
    by (rule decode_encode) (use assms(1) in simp)
  ultimately show ?thesis by (simp add: Let_def del: encode_simps)
qed

definition same_headers :: "desc_state \<Rightarrow> desc_state \<Rightarrow> bool" where
  "same_headers st st' \<longleftrightarrow>
     ds_patchname st' = ds_patchname st \<and> ds_author st' = ds_author st \<and> ds_date st' = ds_date st"

lemma desc_line_consuming:
  assumes "ds_consuming st"
  shows "desc_line n (l @ [c_newline]) st =
    st\<lparr>ds_message := ds_message st @ unlines (squeeze (ds_empty st \<noteq> 0) [trim_end l]),
       ds_empty := if trim_end l = [] then ds_empty st + 1 else 0\<rparr>"
  using assms by (simp add: desc_line_def Let_def del: trim_end_eq_Nil)

lemma desc_loop_message:
  assumes "ds_consuming st" "list_all (\<lambda>l. list_all scalar l \<and> no_cut l) ls"
  shows "\<exists>st'. desc_loop (coded ls @ rest) n st = desc_loop rest (n + length ls) st' \<and> ds_consuming st' \<and> same_headers st st' \<and>
    ds_message st' = ds_message st @ unlines (squeeze (ds_empty st \<noteq> 0) (visible ls)) \<and>
    (ds_empty st' \<noteq> 0 \<longleftrightarrow> ends_empty (ds_empty st \<noteq> 0) (visible ls)) \<and>
    ds_pos st' = ds_pos st + length (concat (coded ls))"
  using assms
proof (induction ls arbitrary: st n)
  case Nil
  then show ?case by (intro exI [of _ st]) (simp add: same_headers_def ends_empty_def)
next
  case (Cons l ls)
  let ?st = "st\<lparr>ds_pos := ds_pos st + length (encode (l @ [c_newline]))\<rparr>"
  define s where "s = (if is_comment l then ?st else desc_line n (l @ [c_newline]) ?st)"
  have run: "desc_loop (coded (l # ls) @ rest) n st = desc_loop (coded ls @ rest) (Suc n) s"
    using desc_loop_line [of l "coded ls @ rest" n st] Cons.prems(2) by (simp add: Let_def s_def)
  have s: "ds_consuming s" "same_headers st s"
    "ds_message s = ds_message st @ unlines (squeeze (ds_empty st \<noteq> 0) (visible [l]))"
    "ds_empty s \<noteq> 0 \<longleftrightarrow> ends_empty (ds_empty st \<noteq> 0) (visible [l])" "ds_pos s = ds_pos ?st"
    using Cons.prems(1) by (simp_all add: s_def desc_line_consuming same_headers_def ends_empty_def del: trim_end_eq_Nil)
  obtain st' where st': "desc_loop (coded ls @ rest) (Suc n) s = desc_loop rest (Suc n + length ls) st'" "ds_consuming st'"
      "same_headers s st'" "ds_message st' = ds_message s @ unlines (squeeze (ds_empty s \<noteq> 0) (visible ls))"
      "ds_empty st' \<noteq> 0 \<longleftrightarrow> ends_empty (ds_empty s \<noteq> 0) (visible ls)" "ds_pos st' = ds_pos s + length (concat (coded ls))"
    using Cons.IH [OF s(1), of "Suc n"] Cons.prems(2) unfolding list.pred_inject(2) by blast
  have v: "visible (l # ls) = visible [l] @ visible ls" by simp
  have e: "ends_empty (ends_empty b (visible [l])) (visible ls) = ends_empty b (visible [l] @ visible ls)" for b
    by (simp add: ends_empty_def)
  have "ds_message st' = ds_message st @ unlines (squeeze (ds_empty st \<noteq> 0) (visible (l # ls)))"
    unfolding st'(4) s(3,4) v squeeze_append by simp
  moreover have "ds_empty st' \<noteq> 0 \<longleftrightarrow> ends_empty (ds_empty st \<noteq> 0) (visible (l # ls))"
    unfolding st'(5) s(4) v e ..
  moreover have "same_headers st st'" using s(2) st'(3) by (simp add: same_headers_def)
  moreover have "ds_pos st' = ds_pos st + length (concat (coded (l # ls)))" using st'(6) s(5) by simp
  ultimately show ?case using run st'(1,2) by (intro exI [of _ st']) simp
qed

text \<open>Text that consists of comment lines.\<close>

definition comment_text :: "rstring \<Rightarrow> bool" where
  "comment_text i \<longleftrightarrow>
     (i = [] \<or> last i = c_newline) \<and>
     list_all (\<lambda>l. starts_with l [c_hash] \<and> \<not> starts_with l CUT_LINE) (split_inclusive c_newline i)"

lemma desc_loop_comments:
  assumes "list_all (\<lambda>l. starts_with l [c_hash] \<and> \<not> starts_with l CUT_LINE) ls"
  shows "desc_loop (map encode ls @ rest) n st =
    desc_loop rest (n + length ls) (st\<lparr>ds_pos := ds_pos st + length (encode (concat ls))\<rparr>)"
  using assms
proof (induction ls arbitrary: st n)
  case (Cons l ls)
  have "\<not> starts_with (encode l) CUT_LINE" "starts_with (encode l) [c_hash]"
    using Cons.prems starts_with_encode [OF cut_ascii] starts_with_encode [of "[c_hash]"] by simp_all
  then show ?case using Cons.IH Cons.prems by (simp add: Let_def add.assoc)
qed simp

section \<open>The headers\<close>

lemma split_once_first: "c \<notin> set k \<Longrightarrow> split_once c (k @ c # v) = Some (k, v)"
proof -
  assume "c \<notin> set k"
  then have "position (\<lambda>x. x = c) (k @ c # v) = Some (length k)" by (induction k) auto
  then show ?thesis by (simp add: split_once_def)
qed

definition plain :: "rstring \<Rightarrow> bool" where
  "plain s \<longleftrightarrow> trimmed s \<and> list_all scalar s \<and> c_newline \<notin> set s \<and> c_less \<notin> set s \<and> c_greater \<notin> set s"

lemma trim_Cons_space [simp]: "is_whitespace c \<Longrightarrow> trim (c # s) = trim s"
  by (simp add: trim_def trim_matches_def trim_start_matches_def)

lemma trim_end_append_if:
  "trim_end (s @ v) = (if list_all is_whitespace v then trim_end s else s @ trim_end v)"
  by (auto simp: trim_end_def trim_end_matches_def list_all_iff dropWhile_append)

lemma trim_as_end: "trim s = trim_end (dropWhile is_whitespace s)"
  by (simp add: trim_def trim_matches_def trim_start_matches_def trim_end_def)

lemma trim_append_space:
  assumes "list_all is_whitespace w"
  shows "trim (s @ w) = trim s"
proof (cases "list_all is_whitespace s")
  case True
  then have "trim (s @ w) = []" "trim s = []" using assms by simp_all
  then show ?thesis by (simp only:)
next
  case False
  then have "dropWhile is_whitespace (s @ w) = dropWhile is_whitespace s @ w"
    by (induction s) auto
  then show ?thesis using assms by (simp add: trim_as_end trim_end_append_if)
qed

lemma trim_snoc_space: "is_whitespace c \<Longrightarrow> trim (s @ [c]) = trim s"
  by (rule trim_append_space) simp

lemma trim_trim_end: "trim (trim_end s) = trim s"
proof -
  obtain w where "s = trim_end s @ w" "list_all is_whitespace w"
    using trim_end_matches_decomp [of s is_whitespace] unfolding trim_end_def by blast
  then show ?thesis using trim_append_space by metis
qed

lemma space_white [simp]: "is_whitespace c_space"
  by (simp add: is_whitespace_def)

lemma parse_name_email_back:
  assumes n: "plain n" and e: "plain e"
  shows "parse_name_email (trim (c_space # n @ [c_space, c_less] @ e @ [c_greater])) = Ok (n, e)"
proof -
  let ?k = "if n = [] then [] else n @ [c_space]"
  have "trimmed (?k @ c_less # e @ [c_greater])"
    using n by (cases n) (auto simp: plain_def trimmed_def is_whitespace_def)
  then have "trim (c_space # n @ [c_space, c_less] @ e @ [c_greater]) = ?k @ c_less # e @ [c_greater]"
    using trim_trimmed by fastforce
  moreover have "split_once c_less (?k @ c_less # e @ [c_greater]) = Some (?k, e @ [c_greater])"
    by (rule split_once_first) (use n in \<open>auto simp: plain_def\<close>)
  moreover have "split_once c_greater (e @ [c_greater]) = Some (e, [])"
    using split_once_first [of c_greater e "[]"] e by (simp add: plain_def)
  moreover have "trim ?k = n" "trim e = e" "trim [] = []"
    using n e by (auto simp: plain_def trim_snoc_space trim_trimmed)
  ultimately show ?thesis using n e by (simp add: parse_name_email_def check_name_def check_email_def plain_def)
qed

lemma header_line_value:
  assumes "key \<in> {str ''Patch'', str ''Author'', str ''Date''}"
    and "n = 0 \<longleftrightarrow> key = str ''Patch''" "n = 1 \<longleftrightarrow> key = str ''Author''" "n = 2 \<longleftrightarrow> key = str ''Date''"
  shows "header_line n (key @ c_colon # v) st =
    Some (if n = 0 then st\<lparr>ds_patchname := Some (raw_value v)\<rparr>
          else if n = 1 then st\<lparr>ds_author := Some (raw_value v)\<rparr> else st\<lparr>ds_date := Some (raw_value v)\<rparr>)"
proof -
  have "c_colon \<notin> set key" using assms(1) by (auto simp: str_def)
  then have "split_once c_colon (key @ c_colon # v) = Some (key, v)" by (rule split_once_first)
  then show ?thesis using assms by (auto simp: header_line_def)
qed

text \<open>A header line in the loop; \<open>v\<close> is what stands after the colon, without white space at its end.\<close>

lemma desc_loop_header:
  assumes st: "\<not> ds_consuming st"
    and key: "key \<in> {str ''Patch'', str ''Author'', str ''Date''}"
      "n = 0 \<longleftrightarrow> key = str ''Patch''" "n = 1 \<longleftrightarrow> key = str ''Author''" "n = 2 \<longleftrightarrow> key = str ''Date''"
    and l: "list_all scalar v"
  shows "desc_loop (encode (key @ c_colon # v @ [c_newline]) # rest) n st =
    desc_loop rest (Suc n)
      (let st = st\<lparr>ds_pos := ds_pos st + length (encode (key @ c_colon # v @ [c_newline]))\<rparr>
       in if n = 0 then st\<lparr>ds_patchname := Some (raw_value v)\<rparr>
          else if n = 1 then st\<lparr>ds_author := Some (raw_value v)\<rparr> else st\<lparr>ds_date := Some (raw_value v)\<rparr>)"
proof -
  let ?l = "key @ c_colon # v"
  have "list_all scalar ?l" using key(1) l by (auto simp: str_def scalar_def)
  moreover have "\<not> is_comment ?l" using key(1) by (auto simp: is_comment_def starts_with_def str_def)
  moreover have "no_cut ?l" using key(1) by (auto simp: no_cut_def starts_with_def CUT_LINE_def str_def)
  moreover have "trim_end (key @ c_colon # v @ [c_newline]) = key @ c_colon # trim_end v"
  proof -
    have "trim_end (key @ c_colon # v @ [c_newline]) = trim_end ?l" using trim_end_append [of c_newline ?l] by simp
    moreover
    have "trim_end (key @ [c_colon]) = key @ [c_colon]" by (rule trim_end_id) (simp_all add: is_whitespace_def)
    moreover have "list_all is_whitespace v \<Longrightarrow> trim_end v = []" by simp
    ultimately show ?thesis using trim_end_append_if [of "key @ [c_colon]" v]
      by (cases "list_all is_whitespace v") (simp_all del: trim_end_eq_Nil)
  qed
  moreover have "raw_value (trim_end v) = raw_value v" by (simp add: raw_value_def trim_trim_end del: trim_eq_Nil)
  ultimately show ?thesis
    using desc_loop_line [of ?l rest n st] header_line_value [OF key, of "trim_end v"] st
    by (simp add: Let_def desc_line_def)
qed


section \<open>A description that is read back\<close>

definition patch_field :: "patch_name option \<Rightarrow> rstring" where
  "patch_field pn = str ''  '' @ (case pn of Some p \<Rightarrow> pn_str p | None \<Rightarrow> [])"

definition author_field :: "signature option \<Rightarrow> rstring" where
  "author_field author =
     c_space # (case author of Some a \<Rightarrow> sig_name a @ [c_space, c_less] @ sig_email a @ [c_greater] | None \<Rightarrow> [])"

definition date_field :: "date_env \<Rightarrow> signature option \<Rightarrow> rstring" where
  "date_field env author = str ''   '' @ (case author of Some a \<Rightarrow> de_format env (sig_time a) | None \<Rightarrow> [])"

lemma headers_lines:
  "patch_header pn @ author_header env author =
     unlines [str ''Patch'' @ c_colon # patch_field pn, str ''Author'' @ c_colon # author_field author,
              str ''Date'' @ c_colon # date_field env author]"
  by (cases author) (simp_all add: patch_header_def author_header_def patch_field_def author_field_def date_field_def str_def)

text \<open>What the round trip needs of a description: values that a line can hold and that trimming leaves as they are.\<close>

definition name_ok :: "patch_name \<Rightarrow> bool" where
  "name_ok p \<longleftrightarrow> valid (pn_str p) \<and> trimmed (pn_str p) \<and> list_all scalar (pn_str p)"

definition date_ok :: "date_env \<Rightarrow> int \<Rightarrow> bool" where
  "date_ok env t \<longleftrightarrow>
     (let s = de_format env t in
      s \<noteq> [] \<and> trimmed s \<and> list_all scalar s \<and> c_newline \<notin> set s \<and> s \<noteq> str ''now'' \<and> de_parse env s = Some t)"

definition author_ok :: "date_env \<Rightarrow> signature \<Rightarrow> bool" where
  "author_ok env a \<longleftrightarrow> plain (sig_name a) \<and> plain (sig_email a) \<and> date_ok env (sig_time a)"

definition desc_ok :: "date_env \<Rightarrow> editable \<Rightarrow> bool" where
  "desc_ok env d \<longleftrightarrow>
     pred_option name_ok (ed_patchname d) \<and> pred_option (author_ok env) (ed_author d) \<and>
     list_all (\<lambda>l. list_all scalar l \<and> no_cut l) (message_lines (ed_message d)) \<and>
     pred_option comment_text (ed_instruction d) \<and> pred_option comment_text (ed_diff_instruction d)"

lemma raw_value_trimmed:
  assumes "list_all is_whitespace w" "trimmed s"
  shows "raw_value (w @ s) = (if s = [] then None else Some s)"
proof -
  have "trim (w @ s) = trim s"
    using assms(1) by (simp add: trim_def trim_matches_def trim_start_matches_def dropWhile_append list_all_iff)
  then show ?thesis using assms(2) by (simp add: raw_value_def trim_trimmed del: trim_eq_Nil)
qed

lemma valid_no_newline: "valid s \<Longrightarrow> c_newline \<notin> set s"
  by (auto simp: valid_iff list_all_iff name_char_def is_ascii_whitespace_def)

lemma patch_field_back:
  assumes "pred_option name_ok pn"
  shows "read_patchname (Some (raw_value (patch_field pn))) = Ok (Some pn)"
    "list_all scalar (patch_field pn)" "c_newline \<notin> set (patch_field pn)"
proof -
  let ?s = "case pn of Some p \<Rightarrow> pn_str p | None \<Rightarrow> []"
  have t: "trimmed ?s" "pn = None \<or> valid ?s"
    using assms by (auto simp: name_ok_def trimmed_def split: option.split)
  have "raw_value (patch_field pn) = (if ?s = [] then None else Some ?s)"
    unfolding patch_field_def by (rule raw_value_trimmed [OF _ t(1)]) (simp add: str_def is_whitespace_def)
  then show "read_patchname (Some (raw_value (patch_field pn))) = Ok (Some pn)"
    using assms by (cases pn) (auto simp: name_ok_def from_str_valid valid_iff)
  show "list_all scalar (patch_field pn)" "c_newline \<notin> set (patch_field pn)"
    using assms valid_no_newline by (cases pn; auto simp: patch_field_def name_ok_def str_def scalar_def)+
qed

lemma date_field_back:
  assumes "date_ok env (sig_time a)"
  shows "raw_value (date_field env (Some a)) = Some (de_format env (sig_time a))"
    "parse_time env (de_format env (sig_time a)) = Ok (sig_time a)"
proof -
  let ?s = "de_format env (sig_time a)"
  note d = assms [unfolded date_ok_def Let_def]
  show "raw_value (date_field env (Some a)) = Some ?s"
    using raw_value_trimmed [of "str ''   ''" ?s] d by (simp add: date_field_def str_def is_whitespace_def)
  show "parse_time env ?s = Ok (sig_time a)"
    using d by (simp add: parse_time_def Let_def trim_trimmed)
qed

lemma author_field_back:
  assumes "pred_option (author_ok env) author"
  shows "read_author env (Some (raw_value (author_field author))) (Some (raw_value (date_field env author))) = Ok (Some author)"
proof (cases author)
  case None
  then show ?thesis by (simp add: author_field_def raw_value_def read_author_def)
next
  case (Some a)
  then have a: "plain (sig_name a)" "plain (sig_email a)" "date_ok env (sig_time a)"
    using assms by (simp_all add: author_ok_def)
  have "\<not> list_all is_whitespace (author_field author)" by (simp add: Some author_field_def is_whitespace_def)
  then have "raw_value (author_field author) = Some (trim (c_space # sig_name a @ [c_space, c_less] @ sig_email a @ [c_greater]))"
    by (simp add: raw_value_def) (simp add: Some author_field_def)
  then show ?thesis
    using parse_name_email_back [OF a(1,2)] date_field_back [OF a(3)] Some by (simp add: read_author_def)
qed

lemma author_fields_line:
  assumes "pred_option (author_ok env) author"
  shows "list_all scalar (author_field author)" "c_newline \<notin> set (author_field author)"
    "list_all scalar (date_field env author)" "c_newline \<notin> set (date_field env author)"
  using assms
  by (cases author; auto simp: author_field_def date_field_def author_ok_def plain_def date_ok_def Let_def str_def scalar_def)+

definition headers :: "date_env \<Rightarrow> editable \<Rightarrow> rstring" where
  "headers env d = patch_header (ed_patchname d) @ author_header env (ed_author d)"

lemma desc_loop_headers:
  assumes "desc_ok env d"
  shows "\<exists>st. desc_loop (map encode (split_inclusive c_newline (headers env d)) @ rest) 0 desc_start = desc_loop rest 3 st \<and>
    \<not> ds_consuming st \<and> ds_message st = [] \<and> ds_empty st = 0 \<and> ds_pos st = length (encode (headers env d)) \<and>
    ds_patchname st \<noteq> None \<and> read_patchname (ds_patchname st) = Ok (Some (ed_patchname d)) \<and>
    read_author env (ds_author st) (ds_date st) = Ok (Some (ed_author d))"
proof -
  let ?p = "patch_field (ed_patchname d)" and ?a = "author_field (ed_author d)" and ?t = "date_field env (ed_author d)"
  let ?ls = "[str ''Patch'' @ c_colon # ?p, str ''Author'' @ c_colon # ?a, str ''Date'' @ c_colon # ?t]"
  note ok = assms [unfolded desc_ok_def]
  note p = patch_field_back [OF conjunct1 [OF ok]] and a = author_fields_line [OF conjunct1 [OF conjunct2 [OF ok]]]
  have h: "headers env d = unlines ?ls" unfolding headers_def by (rule headers_lines)
  have "list_all (\<lambda>l. c_newline \<notin> set l) ?ls" using p(3) a(2,4) by (simp add: str_def)
  then have split: "split_inclusive c_newline (headers env d) = map (\<lambda>l. l @ [c_newline]) ?ls"
    unfolding h by (rule split_inclusive_unlines)
  let ?st = "desc_start\<lparr>ds_patchname := Some (raw_value ?p), ds_author := Some (raw_value ?a), ds_date := Some (raw_value ?t),
    ds_pos := length (encode (headers env d))\<rparr>"
  have key: "str ''Patch'' \<noteq> str ''Author''" "str ''Patch'' \<noteq> str ''Date''" "str ''Author'' \<noteq> str ''Date''"
    by (simp_all add: str_def)
  let ?e = "\<lambda>l. encode (l @ [c_newline])"
  let ?l0 = "str ''Patch'' @ c_colon # ?p" and ?l1 = "str ''Author'' @ c_colon # ?a" and ?l2 = "str ''Date'' @ c_colon # ?t"
  define s1 where "s1 = desc_start\<lparr>ds_pos := length (?e ?l0), ds_patchname := Some (raw_value ?p)\<rparr>"
  define s2 where "s2 = s1\<lparr>ds_pos := ds_pos s1 + length (?e ?l1), ds_author := Some (raw_value ?a)\<rparr>"
  have "desc_loop (?e ?l0 # ls) 0 desc_start = desc_loop ls 1 s1" for ls
    using desc_loop_header [of desc_start "str ''Patch''" 0 ?p ls] key p(2)
    by (simp add: desc_start_def s1_def Let_def del: encode_simps)
  moreover have "desc_loop (?e ?l1 # ls) 1 s1 = desc_loop ls 2 s2" for ls
    using desc_loop_header [of s1 "str ''Author''" 1 ?a ls] key a(1)
    by (simp add: s1_def s2_def Let_def desc_start_def numeral_2_eq_2 del: encode_simps)
  moreover have "desc_loop (?e ?l2 # ls) 2 s2 = desc_loop ls 3
      (s2\<lparr>ds_pos := ds_pos s2 + length (?e ?l2), ds_date := Some (raw_value ?t)\<rparr>)" for ls
    using desc_loop_header [of s2 "str ''Date''" 2 ?t ls] key a(3)
    by (simp add: s1_def s2_def Let_def desc_start_def del: encode_simps)
  moreover have "s2\<lparr>ds_pos := ds_pos s2 + length (?e ?l2), ds_date := Some (raw_value ?t)\<rparr> = ?st"
    by (simp add: s1_def s2_def desc_start_def h)
  ultimately have "desc_loop (map encode (map (\<lambda>l. l @ [c_newline]) ?ls) @ rest) 0 desc_start = desc_loop rest 3 ?st"
    by (simp del: encode_simps append.simps append_assoc add: append_Cons append_Nil)
  then show ?thesis unfolding split
    by (intro exI [of _ ?st]) (use p(1) author_field_back [OF conjunct1 [OF conjunct2 [OF ok]]] in \<open>simp add: desc_start_def\<close>)
qed

text \<open>The body: the empty line, the message, the empty line after it, and the comments of the instruction.\<close>

definition body :: "editable \<Rightarrow> rstring" where
  "body d = unlines ([[]] @ message_lines (ed_message d) @ [[]]) @ (case ed_instruction d of Some i \<Rightarrow> i | None \<Rightarrow> [])"

lemma message_part_body: "message_part (ed_message d) (ed_instruction d) = body d"
  by (simp add: message_part_def body_def message_lines_def unlines_split_on split: option.split)

definition cut_part :: "editable \<Rightarrow> nat list" where
  "cut_part d =
     (case ed_diff d of
        Some diff \<Rightarrow> encode ((case ed_diff_instruction d of Some i \<Rightarrow> i | None \<Rightarrow> []) @ CUT_LINE @ cut_note) @ diff
      | None \<Rightarrow> [])"

lemma write_desc_parts: "write_desc env d = encode (headers env d @ body d) @ cut_part d"
  by (simp add: write_desc_def headers_def cut_part_def message_part_body)

lemma split_inclusive_encode_append:
  assumes "a = [] \<or> last a = c_newline"
  shows "split_inclusive c_newline (encode a @ s) = map encode (split_inclusive c_newline a) @ split_inclusive c_newline s"
proof -
  have "encode a = [] \<or> last (encode a) = c_newline"
    using assms by (cases a rule: rev_cases) (auto simp: encode_char_def)
  then show ?thesis by (simp add: split_inclusive_append split_inclusive_encode)
qed

lemma comment_text_option:
  assumes "pred_option comment_text x" and "i = (case x of Some i \<Rightarrow> i | None \<Rightarrow> [])"
  shows "comment_text i"
  using assms by (cases x) (simp_all add: comment_text_def)

lemma encode_unlines: "encode (unlines ls) = concat (coded ls)"
  by (induction ls) simp_all

lemma desc_loop_body:
  assumes "desc_ok env d" "\<not> ds_consuming st" "ds_message st = []" "ds_empty st = 0"
  shows "\<exists>st' n. desc_loop (map encode (split_inclusive c_newline (body d)) @ rest) 3 st = desc_loop rest n st' \<and>
    same_headers st st' \<and> ds_message st' = unlines (squeeze True (visible (message_lines (ed_message d)) @ [[]])) \<and>
    ds_pos st' = ds_pos st + length (encode (body d))"
proof -
  let ?i = "case ed_instruction d of Some i \<Rightarrow> i | None \<Rightarrow> []" and ?ml = "message_lines (ed_message d) @ [[]]"
  note ok = assms(1) [unfolded desc_ok_def]
  have i: "comment_text ?i" by (rule comment_text_option [OF _ refl]) (use ok in blast)
  have nl: "list_all (\<lambda>l. c_newline \<notin> set l) ([] # ?ml)"
    using split_on_line [of c_newline] by (simp add: message_lines_def)
  have lines: "map encode (split_inclusive c_newline (body d)) =
      encode ([] @ [c_newline]) # coded ?ml @ map encode (split_inclusive c_newline ?i)"
    unfolding body_def
    using split_inclusive_append [OF unlines_last, of "[] # ?ml" ?i] split_inclusive_unlines [OF nl] by simp
  let ?s = "st\<lparr>ds_pos := ds_pos st + length (encode ([] @ [c_newline])), ds_empty := 1, ds_consuming := True\<rparr>"
  have "no_cut []" by code_simp
  then have first: "desc_loop (encode ([] @ [c_newline]) # ls) 3 st = desc_loop ls 4 ?s" for ls
    using desc_loop_line [of "[]" ls 3 st] assms(2,4)
    by (simp add: Let_def is_comment_def starts_with_def desc_line_def header_line_def split_once_def
        trim_end_def trim_end_matches_def is_whitespace_def del: encode_simps)
  have ml: "list_all (\<lambda>l. list_all scalar l \<and> no_cut l) ?ml" using ok \<open>no_cut []\<close> by simp
  let ?rest = "map encode (split_inclusive c_newline ?i) @ rest"
  obtain s' where s': "desc_loop (coded ?ml @ ?rest) 4 ?s = desc_loop ?rest (4 + length ?ml) s'" "same_headers ?s s'"
      "ds_message s' = unlines (squeeze True (visible ?ml))" "ds_pos s' = ds_pos ?s + length (concat (coded ?ml))"
    using desc_loop_message [of ?s ?ml ?rest 4] ml assms(3) by auto
  let ?t = "s'\<lparr>ds_pos := ds_pos s' + length (encode (concat (split_inclusive c_newline ?i)))\<rparr>"
  have "desc_loop ?rest (4 + length ?ml) s' = desc_loop rest (4 + length ?ml + length (split_inclusive c_newline ?i)) ?t"
    by (rule desc_loop_comments) (use i in \<open>simp add: comment_text_def\<close>)
  moreover have "same_headers st ?t" "ds_message ?t = unlines (squeeze True (visible (message_lines (ed_message d)) @ [[]]))"
    using s'(2,3) by (simp_all add: same_headers_def is_comment_def starts_with_def trim_end_def trim_end_matches_def)
  moreover have "ds_pos ?t = ds_pos st + length (encode (body d))"
    using s'(4) by (simp add: body_def concat_split_inclusive encode_unlines)
  ultimately show ?thesis unfolding lines using first s'(1) by fastforce
qed

lemma headers_last: "last (headers env d) = c_newline"
  unfolding headers_def headers_lines by simp

lemma body_last:
  assumes "desc_ok env d"
  shows "last (body d) = c_newline"
proof -
  have "comment_text (case ed_instruction d of Some i \<Rightarrow> i | None \<Rightarrow> [])"
    by (rule comment_text_option [OF _ refl]) (use assms in \<open>simp add: desc_ok_def\<close>)
  then show ?thesis by (auto simp: body_def comment_text_def)
qed

lemma skip_cut_note: "read_diff (encode cut_note @ diff) = read_diff diff"
proof -
  have "split_inclusive c_newline (encode cut_note @ diff) = encode cut_note # split_inclusive c_newline diff"
    using split_inclusive_encode_append [of cut_note diff] by (simp add: cut_note_def str_def)
  moreover have "starts_with (encode cut_note) [c_hash]" by code_simp
  ultimately show ?thesis by (simp add: read_diff_def)
qed

lemma desc_loop_cut:
  assumes "desc_ok env d" "pre = encode s @ cut_part d" "ds_pos st = length (encode s)"
  shows "\<exists>st'. desc_loop (split_inclusive c_newline (cut_part d)) n st = Ok (ed_diff d \<noteq> None, st') \<and>
    same_headers st st' \<and> ds_message st' = ds_message st \<and>
    (if ed_diff d \<noteq> None then read_diff (drop (ds_pos st') pre) else None) = Option.bind (ed_diff d) read_diff"
proof (cases "ed_diff d")
  case None
  then show ?thesis by (intro exI [of _ st]) (simp add: cut_part_def same_headers_def)
next
  case (Some diff)
  let ?i = "case ed_diff_instruction d of Some i \<Rightarrow> i | None \<Rightarrow> []"
  have i: "comment_text ?i"
    by (rule comment_text_option [OF _ refl]) (use assms(1) in \<open>simp add: desc_ok_def\<close>)
  let ?rest = "encode cut_note @ diff"
  have cut: "split_inclusive c_newline CUT_LINE = [CUT_LINE]" "last CUT_LINE = c_newline" "starts_with (encode CUT_LINE) CUT_LINE"
    by code_simp+
  have part: "cut_part d = encode (?i @ CUT_LINE) @ ?rest" by (simp add: cut_part_def Some)
  have lines: "split_inclusive c_newline (cut_part d) =
      map encode (split_inclusive c_newline ?i) @ encode CUT_LINE # split_inclusive c_newline ?rest"
  proof -
    have "split_inclusive c_newline (?i @ CUT_LINE) = split_inclusive c_newline ?i @ [CUT_LINE]"
      using split_inclusive_append [of ?i c_newline CUT_LINE] i cut(1) by (simp add: comment_text_def)
    moreover have "last (?i @ CUT_LINE) = c_newline" using cut(1,2) by (auto simp: last_append)
    ultimately show ?thesis unfolding part
      using split_inclusive_encode_append [of "?i @ CUT_LINE" ?rest] by (simp del: encode_simps)
  qed
  let ?s = "st\<lparr>ds_pos := ds_pos st + length (encode ?i)\<rparr>"
  let ?t = "?s\<lparr>ds_pos := ds_pos ?s + length (encode CUT_LINE)\<rparr>"
  have "desc_loop (split_inclusive c_newline (cut_part d)) n st = Ok (True, ?t)"
    unfolding lines using i cut(3) by (subst desc_loop_comments) (simp_all add: comment_text_def concat_split_inclusive Let_def)
  moreover have "drop (ds_pos ?t) pre = ?rest" using assms(2,3) part by simp
  then have "read_diff (drop (ds_pos ?t) pre) = read_diff diff" by (simp only: skip_cut_note)
  ultimately show ?thesis using Some by (intro exI [of _ ?t]) (simp add: same_headers_def)
qed

lemma description_read_back:
  assumes "desc_ok env d"
  shows "try_from_desc env (write_desc env d) =
    Ok \<lparr>et_patchname = Some (ed_patchname d), et_author = Some (ed_author d), et_message = tidy (ed_message d),
        et_diff = Option.bind (ed_diff d) read_diff\<rparr>"
proof -
  let ?h = "headers env d" and ?b = "body d"
  have lines: "split_inclusive c_newline (write_desc env d) =
      map encode (split_inclusive c_newline ?h) @ map encode (split_inclusive c_newline ?b) @ split_inclusive c_newline (cut_part d)"
    unfolding write_desc_parts
    using split_inclusive_encode_append [of ?h] split_inclusive_encode_append [of ?b] headers_last body_last [OF assms]
    by simp
  obtain s1 where s1: "desc_loop (split_inclusive c_newline (write_desc env d)) 0 desc_start =
        desc_loop (map encode (split_inclusive c_newline ?b) @ split_inclusive c_newline (cut_part d)) 3 s1"
      "\<not> ds_consuming s1" "ds_message s1 = []" "ds_empty s1 = 0" "ds_pos s1 = length (encode ?h)"
      "ds_patchname s1 \<noteq> None" "read_patchname (ds_patchname s1) = Ok (Some (ed_patchname d))"
      "read_author env (ds_author s1) (ds_date s1) = Ok (Some (ed_author d))"
    unfolding lines using desc_loop_headers [OF assms] by blast
  obtain s2 n where s2: "desc_loop (map encode (split_inclusive c_newline ?b) @ split_inclusive c_newline (cut_part d)) 3 s1 =
        desc_loop (split_inclusive c_newline (cut_part d)) n s2" "same_headers s1 s2"
      "ds_message s2 = unlines (squeeze True (visible (message_lines (ed_message d)) @ [[]]))"
      "ds_pos s2 = length (encode (?h @ ?b))"
    using desc_loop_body [OF assms s1(2-4), where rest = "split_inclusive c_newline (cut_part d)"] s1(5) by auto
  obtain s3 where s3: "desc_loop (split_inclusive c_newline (cut_part d)) n s2 = Ok (ed_diff d \<noteq> None, s3)" "same_headers s2 s3"
      "ds_message s3 = ds_message s2"
      "(if ed_diff d \<noteq> None then read_diff (drop (ds_pos s3) (write_desc env d)) else None) = Option.bind (ed_diff d) read_diff"
    using desc_loop_cut [OF assms _ s2(4), of "write_desc env d"] write_desc_parts by blast
  have "read_message (ds_message s3) = tidy (ed_message d)"
    unfolding s3(3) s2(3) tidy_def by (rule read_message_tidy) (simp add: visible_def list_all_iff)
  then show ?thesis
    using s1(1,6,7,8) s2(1,2) s3(1,2,4) by (simp add: try_from_desc_def same_headers_def)
qed

text \<open>A message that is already tidy stays as it is.\<close>

definition clean_message :: "rstring list \<Rightarrow> bool" where
  "clean_message ls \<longleftrightarrow>
     list_all (\<lambda>l. c_newline \<notin> set l \<and> \<not> is_comment l \<and> trim_end l = l) ls \<and> squeeze True ls = ls \<and> ls \<noteq> [] \<and> last ls \<noteq> []"

lemma message_lines_unlines:
  assumes "list_all (\<lambda>l. c_newline \<notin> set l) ls" "ls \<noteq> []" "last ls \<noteq> []"
  shows "message_lines (unlines ls) = ls"
proof -
  have "\<exists>u. unlines ls = u @ [c_newline] \<and> u \<noteq> [] \<and> last u \<noteq> c_newline \<and> split_on c_newline u = ls"
    using assms
  proof (induction ls)
    case (Cons l ls)
    show ?case
    proof (cases "ls = []")
      case True
      then have "l \<noteq> []" "c_newline \<notin> set l" using Cons.prems by simp_all
      moreover from this have "last l \<noteq> c_newline" using last_in_set by metis
      ultimately show ?thesis using True split_on_word [of c_newline l] by simp
    next
      case False
      then obtain u where "unlines ls = u @ [c_newline]" "u \<noteq> []" "last u \<noteq> c_newline" "split_on c_newline u = ls"
        using Cons by auto
      then show ?thesis using Cons.prems(1) by (intro exI [of _ "l @ [c_newline] @ u"]) (simp add: split_on_first)
    qed
  qed simp
  then obtain u where "unlines ls = u @ [c_newline]" "u \<noteq> []" "last u \<noteq> c_newline" "split_on c_newline u = ls" by blast
  then show ?thesis
    by (cases u rule: rev_cases) (simp_all add: message_lines_def trim_end_matches_def)
qed

lemma tidy_clean:
  assumes "clean_message ls"
  shows "tidy (unlines ls) = unlines ls"
proof -
  note c = assms [unfolded clean_message_def]
  have "message_lines (unlines ls) = ls"
    by (rule message_lines_unlines) (use c in \<open>auto simp: list_all_iff\<close>)
  moreover have "visible ls = ls" using c by (auto simp: visible_def list_all_iff intro: map_idI filter_True)
  ultimately show ?thesis using c by (simp add: tidy_def drop_last_empty_def)
qed

definition diff_ok :: "nat list \<Rightarrow> bool" where
  "diff_ok diff \<longleftrightarrow> \<not> starts_with diff [c_hash] \<and> \<not> list_all is_ascii_whitespace diff"

lemma read_diff_ok:
  assumes "diff_ok diff"
  shows "read_diff diff = Some diff"
proof -
  obtain l ls where l: "split_inclusive c_newline diff = l # ls"
    using assms by (cases "split_inclusive c_newline diff") (auto simp: diff_ok_def)
  then have "diff = l @ concat ls" using concat_split_inclusive [of c_newline diff] by simp
  then have "\<not> starts_with l [c_hash]" using assms by (auto simp: diff_ok_def starts_with_iff)
  then show ?thesis using assms l by (auto simp: read_diff_def diff_ok_def)
qed

text \<open>
  C34: A patch description that is written to the file and not edited is read back without a change: name, author with
  the date, message and diff.  The values are such that a line can hold them and that trimming leaves them as they
  are, the message has no comment, no white space at the end of a line and no two empty lines in a row, the date
  is written in a format that the parser reads.
\<close>

theorem description_round_trip:
  assumes "desc_ok env d" "ed_message d = unlines ls" "clean_message ls" "pred_option diff_ok (ed_diff d)"
  shows "try_from_desc env (write_desc env d) =
    Ok \<lparr>et_patchname = Some (ed_patchname d), et_author = Some (ed_author d), et_message = ed_message d,
        et_diff = ed_diff d\<rparr>"
proof -
  have "Option.bind (ed_diff d) read_diff = ed_diff d"
    using assms(4) by (cases "ed_diff d") (simp_all add: read_diff_ok)
  then show ?thesis using description_read_back [OF assms(1)] tidy_clean [OF assms(3)] assms(2) by simp
qed

definition sample_env :: date_env where
  "sample_env = \<lparr>de_parse = (\<lambda>s. if s = str ''2024-05-01 10:00:00 +0000'' then Some 1714557600 else None),
     de_format = (\<lambda>_. str ''2024-05-01 10:00:00 +0000''), de_now = 0, de_zone = str ''+0000'', de_colon_zone = str ''+00:00''\<rparr>"

definition sample_desc :: editable where
  "sample_desc = \<lparr>ed_patchname = Some (PatchName (str ''fix'')),
     ed_author = Some \<lparr>sig_name = str ''A U Thor'', sig_email = str ''a@example.com'', sig_time = 1714557600\<rparr>,
     ed_message = unlines [str ''Fix it'', [], str ''Patch: not a header''],
     ed_instruction = Some (str ''# hint'' @ [c_newline]), ed_diff_instruction = None,
     ed_diff = Some (str ''diff --git a/x b/x'' @ [c_newline, 255])\<rparr>"

theorem description_round_trip_witness:
  "try_from_desc sample_env (write_desc sample_env sample_desc) =
    Ok \<lparr>et_patchname = Some (Some (PatchName (str ''fix''))),
        et_author = Some (Some \<lparr>sig_name = str ''A U Thor'', sig_email = str ''a@example.com'', sig_time = 1714557600\<rparr>),
        et_message = unlines [str ''Fix it'', [], str ''Patch: not a header''],
        et_diff = Some (str ''diff --git a/x b/x'' @ [c_newline, 255])\<rparr>"
proof -
  have "valid (str ''fix'')" "trimmed (str ''fix'')" by code_simp+
  then have "name_ok (PatchName (str ''fix''))" by (simp add: name_ok_def) (simp add: str_def scalar_def)
  moreover have "plain (str ''A U Thor'')" "plain (str ''a@example.com'')" "date_ok sample_env 1714557600"
    by (simp_all add: plain_def date_ok_def trimmed_def is_whitespace_def sample_env_def str_def scalar_def)
  then have "author_ok sample_env \<lparr>sig_name = str ''A U Thor'', sig_email = str ''a@example.com'', sig_time = 1714557600\<rparr>"
    by (simp add: author_ok_def)
  moreover have "message_lines (unlines [str ''Fix it'', [], str ''Patch: not a header'']) =
      [str ''Fix it'', [], str ''Patch: not a header'']" "no_cut (str ''Fix it'')" "no_cut []" "no_cut (str ''Patch: not a header'')"
    by code_simp+
  then have "list_all (\<lambda>l. list_all scalar l \<and> no_cut l) (message_lines (unlines [str ''Fix it'', [], str ''Patch: not a header'']))"
    by (simp del: unlines_simps) (simp add: str_def scalar_def)
  moreover have "comment_text (str ''# hint'' @ [c_newline])" by code_simp
  ultimately have "desc_ok sample_env sample_desc" by (simp add: desc_ok_def sample_desc_def del: unlines_simps)
  moreover have "clean_message [str ''Fix it'', [], str ''Patch: not a header'']" by code_simp
  moreover have "diff_ok (str ''diff --git a/x b/x'' @ [c_newline, 255])" by code_simp
  ultimately show ?thesis
    using description_round_trip [of sample_env sample_desc "[str ''Fix it'', [], str ''Patch: not a header'']"]
    by (simp add: sample_desc_def del: unlines_simps)
qed

section \<open>Messages given as arguments\<close>

lemma prettify_loop_eq:
  "prettify_loop ls blank pretty =
     (pretty @ unlines (squeeze blank (map trim_end ls)), ends_empty blank (map trim_end ls))"
  by (induction ls arbitrary: blank pretty) (auto simp: Let_def ends_empty_def simp del: trim_end_eq_Nil)

lemma last_squeeze_False: "ls \<noteq> [] \<Longrightarrow> squeeze False ls \<noteq> []"
  by (cases ls) auto

text \<open>\<open>prettify\<close> on the lines of a message.\<close>

lemma prettify_eq:
  "prettify m = unlines (drop_last_empty (squeeze False (map trim_end (split_inclusive c_newline m))))"
proof (cases "m = []")
  case False
  let ?ls = "map trim_end (split_inclusive c_newline m)"
  have ne: "squeeze False ?ls \<noteq> []" using False by (simp add: last_squeeze_False)
  then obtain xs l where q: "squeeze False ?ls = xs @ [l]" by (cases "squeeze False ?ls" rule: rev_cases) auto
  have "ends_empty False ?ls \<longleftrightarrow> l = []"
    using last_squeeze [OF ne] q False by (simp add: ends_empty_def)
  then show ?thesis unfolding prettify_def prettify_loop_eq by (simp add: q drop_last_empty_def butlast_append)
qed (simp add: prettify_def drop_last_empty_def)

lemma squeeze_idem: "squeeze e (squeeze e ls) = squeeze e ls"
  by (induction e ls rule: squeeze.induct) auto

lemma length_squeeze: "length (squeeze e ls) \<le> length ls"
  by (induction e ls rule: squeeze.induct) auto

lemma squeeze_butlast:
  assumes "squeeze e ls = ls"
  shows "squeeze e (butlast ls) = butlast ls"
proof (cases ls rule: rev_cases)
  case (snoc xs x)
  then have eq: "squeeze e xs @ squeeze (ends_empty e xs) [x] = xs @ [x]" using assms by (simp add: squeeze_append)
  have "length (squeeze e xs) + length (squeeze (ends_empty e xs) [x]) = length xs + 1"
    using arg_cong [OF eq, of length] by (simp del: squeeze.simps)
  then have "length (squeeze e xs) = length xs"
    using length_squeeze [of e xs] length_squeeze [of "ends_empty e xs" "[x]"] by simp
  then show ?thesis using eq snoc by simp
qed simp

lemma squeeze_drop_last: "squeeze e (drop_last_empty (squeeze e ls)) = drop_last_empty (squeeze e ls)"
  by (simp add: drop_last_empty_def squeeze_idem squeeze_butlast)

lemma drop_last_empty_squeeze: "drop_last_empty (drop_last_empty (squeeze e ls)) = drop_last_empty (squeeze e ls)"
proof (cases "squeeze e ls" rule: rev_cases)
  case (snoc xs x)
  show ?thesis
  proof (cases "x = [] \<and> xs \<noteq> []")
    case True
    then obtain ys y where "xs = ys @ [y]" by (cases xs rule: rev_cases) auto
    then show ?thesis using True snoc squeeze_no_double [of e ls ys "[]"] by (auto simp: drop_last_empty_def butlast_append)
  qed (use snoc in \<open>auto simp: drop_last_empty_def\<close>)
qed (simp add: drop_last_empty_def)

lemma split_inclusive_trim_end:
  assumes "l \<in> set (split_inclusive c_newline s)"
  shows "c_newline \<notin> set (trim_end l)"
proof -
  have "c_newline \<notin> set (butlast l)" using assms by (induction s arbitrary: l) (auto split: list.splits if_splits)
  moreover
  obtain w where w: "l = trim_end l @ w" using trim_end_matches_decomp [of l is_whitespace] unfolding trim_end_def by blast
  moreover have "trim_end l = [] \<or> last (trim_end l) \<noteq> c_newline"
    using trim_end_matches_last [of is_whitespace l] newline_space unfolding trim_end_def by force
  moreover have "set (trim_end l) \<subseteq> set (butlast l)" if "w \<noteq> []" using that w by (metis Un_upper1 butlast_append set_append)
  moreover have "trim_end l = l" if "w = []" using that w by simp
  moreover have "set l \<subseteq> insert (last l) (set (butlast l))" by (cases l rule: rev_cases) auto
  ultimately show ?thesis by (cases "w = []") auto
qed

text \<open>A message that \<open>prettify\<close> has produced is left as it is.\<close>

lemma prettify_idempotent: "prettify (prettify m) = prettify m"
proof -
  define q where "q = drop_last_empty (squeeze False (map trim_end (split_inclusive c_newline m)))"
  have q: "squeeze False q = q" "drop_last_empty q = q"
    unfolding q_def by (rule squeeze_drop_last drop_last_empty_squeeze)+
  have "l \<in> set q \<Longrightarrow> l \<in> trim_end ` set (split_inclusive c_newline m) \<union> {[]}" for l
    using set_squeeze [of False "map trim_end (split_inclusive c_newline m)"]
    by (auto simp: q_def drop_last_empty_def dest!: in_set_butlastD split: if_splits)
  then have l: "list_all (\<lambda>l. c_newline \<notin> set l \<and> trim_end l = l) q"
    using split_inclusive_trim_end by (fastforce simp: list_all_iff trim_end_def trim_end_matches_def)
  then have "map trim_end (split_inclusive c_newline (unlines q)) = q"
    using split_inclusive_unlines [of q] by (simp add: list_all_iff map_idI)
  then show ?thesis unfolding prettify_eq [of m] q_def [symmetric] prettify_eq using q by simp
qed

end
