(* ===== verification/Edit_Props.thy ===== *)
theory Edit_Props
  imports Edit Description_Props Uncommit_Props
begin

text \<open>
  What an edit gives: the name and the commit of the patch, and that an edit in which the user changes nothing
  gives neither.
\<close>

section \<open>Running an edit\<close>

lemma ebind_Ok:
  "ebind m f repo = Some (Ok y, repo') \<longleftrightarrow> (\<exists>x repo1. m repo = Some (Ok x, repo1) \<and> f x repo1 = Some (Ok y, repo'))"
  by (auto simp: ebind_def split: option.splits outcome.splits)

lemma ebindE:
  assumes "ebind m f repo = Some (Ok y, repo')"
  obtains x repo1 where "m repo = Some (Ok x, repo1)" "f x repo1 = Some (Ok y, repo')"
  using assms unfolding ebind_Ok by blast

lemma ebind_prodE:
  assumes "ebind m (\<lambda>(x, y). f x y) repo = Some (Ok z, repo')"
  obtains x y repo1 where "m repo = Some (Ok (x, y), repo1)" "f x y repo1 = Some (Ok z, repo')"
  using assms by (elim ebindE) (auto split: prod.splits)

lemma known_Ok [simp]: "known r repo = Some (Ok x, repo') \<longleftrightarrow> r = Ok x \<and> repo' = repo"
  by (auto simp: known_def)

lemma ebind_known [simp]: "ebind (known (Ok x)) f = f x"
  by (simp add: ebind_def known_def fun_eq_iff)

lemma unique_name_Ok:
  assumes "unique_name env b v pn repo = Some (Ok q, repo')"
  shows "usable (eb_allowed_patchnames b) (all_patches v) q \<and> repo' = repo"
  using assms uniquify_usable by (fastforce simp: unique_name_def named_def)

lemma made_name_Ok:
  assumes "made_name env b v m repo = Some (Ok q, repo')"
  shows "usable (eb_allowed_patchnames b) (all_patches v) q \<and> repo' = repo"
  using assms unique_name_Ok by (fastforce simp: made_name_def ebind_Ok)

lemma final_name_Ok:
  assumes "final_name env b v pn m repo = Some (Ok q, repo')"
  shows "usable (eb_allowed_patchnames b) (all_patches v) q \<and> repo' = repo"
  using assms unique_name_Ok made_name_Ok by (fastforce simp: final_name_def split: option.splits)

text \<open>Steps before the commit change at most the work tree.\<close>

definition kept_objects :: "'w repository \<Rightarrow> 'w repository \<Rightarrow> bool" where
  "kept_objects repo repo' \<longleftrightarrow> (\<exists>w. repo' = repo\<lparr>work := w\<rparr>)"

lemma kept_objects_refl: "kept_objects repo repo"
  by (auto simp: kept_objects_def intro: exI [of _ "work repo"])

lemma start_name_Ok: "start_name env b v fp m need repo = Some (Ok q, repo') \<Longrightarrow> repo' = repo"
  using unique_name_Ok made_name_Ok by (fastforce simp: start_name_def ebind_Ok split: option.splits if_splits)

lemma start_diff_Ok: "start_diff g env b a fd need tree parent repo = Some (Ok q, repo') \<Longrightarrow> kept_objects repo repo'"
  using kept_objects_refl
  by (auto simp: start_diff_def show_diff_def ebind_Ok Let_def kept_objects_def split: if_splits prod.splits sum.splits)

section \<open>The result\<close>

text \<open>The parent that the edited patch gets, and its tree when the diff is not edited.\<close>

definition edit_parent :: "edit_builder \<Rightarrow> oid option" where
  "edit_parent b =
     (case eb_overlay_parent_id b of
        Some i \<Rightarrow> Some i
      | None \<Rightarrow> (case eb_patch_commit b of Some c \<Rightarrow> (case c_parents c of p # _ \<Rightarrow> Some p | [] \<Rightarrow> None) | None \<Rightarrow> None))"

definition edit_tree :: "edit_builder \<Rightarrow> oid option" where
  "edit_tree b = (case eb_overlay_tree_id b of Some i \<Rightarrow> Some i | None \<Rightarrow> map_option c_tree (eb_patch_commit b))"

text \<open>The repository after an edit, with the commit of the edited patch.\<close>

definition edit_wrote :: "edit_builder \<Rightarrow> oid option \<Rightarrow> commit \<Rightarrow> 'w repository \<Rightarrow> 'w repository \<Rightarrow> bool" where
  "edit_wrote b cid c repo repo' \<longleftrightarrow>
     (case cid of
        None \<Rightarrow> eb_patch_commit b = Some c \<and> kept_objects repo repo'
      | Some i \<Rightarrow> c_id c = i \<and> c_parents c \<noteq> [] \<and> (\<exists>w. repo' = repo\<lparr>objects := (objects repo)(i \<mapsto> c), work := w\<rparr>))"

text \<open>The commit of the edited patch: a new one, or the old one that is the same.\<close>

lemma edit_commit_cases:
  assumes "(if (case eb_patch_commit b of Some c \<Rightarrow> same_commit c author committer m tree parent | None \<Rightarrow> False)
      then known (Ok None)
      else (\<lambda>repo. case commit_ex g author committer m tree [parent] repo of
              (r, repo') \<Rightarrow> Some (obind (omap_err EF_Trans r) (\<lambda>i. Ok (Some i)), repo'))) repo = Some (Ok cid, repo')"
  shows "\<exists>c. edit_wrote b cid c repo repo' \<and> c_tree c = tree \<and> c_parents c \<noteq> [] \<and> hd (c_parents c) = parent \<and>
    c_author c = author \<and> c_message c = m"
proof (cases "case eb_patch_commit b of Some c \<Rightarrow> same_commit c author committer m tree parent | None \<Rightarrow> False")
  case True
  then obtain c where "eb_patch_commit b = Some c" "same_commit c author committer m tree parent"
    by (auto split: option.splits)
  then show ?thesis using assms True
    by (intro exI [of _ c]) (auto simp: edit_wrote_def kept_objects_refl same_commit_def split: list.splits)
next
  case False
  obtain r repo1 where r: "commit_ex g author committer m tree [parent] repo = (r, repo1)" by fastforce
  then have *: "obind (omap_err EF_Trans r) (\<lambda>i. Ok (Some i)) = Ok cid" "repo1 = repo'" using assms False by auto
  obtain i where i: "r = Ok i" "cid = Some i" using *(1) by (auto split: outcome.splits)
  let ?c = "\<lparr>c_id = i, c_parents = [parent], c_tree = tree, c_author = author, c_committer = committer, c_message = m\<rparr>"
  have "repo' = repo\<lparr>objects := (objects repo)(i \<mapsto> ?c)\<rparr>"
    using r i(1) *(2) unfolding commit_ex_def by (cases rule: commit_with_options_cases) auto
  then show ?thesis using i(2) by (intro exI [of _ ?c]) (auto simp: edit_wrote_def intro: exI [of _ "work repo"])
qed

lemma finish_edit_Ok:
  assumes "finish_edit g env b a v dc hook pn author m tree parent repo = Some (Ok out, repo')"
  shows "\<exists>q cid c. out = Edited (if eb_original_patchname b = Some q then None else Some q) cid \<and>
    usable (eb_allowed_patchnames b) (all_patches v) q \<and> edit_wrote b cid c repo repo' \<and>
    c_tree c = tree \<and> c_parents c \<noteq> [] \<and> hd (c_parents c) = parent"
  using assms edit_commit_cases final_name_Ok unfolding finish_edit_def
  by (fastforce simp: ebind_Ok Let_def)

lemma edit_wrote_kept: "kept_objects repo repo1 \<Longrightarrow> edit_wrote b cid c repo1 repo' \<Longrightarrow> edit_wrote b cid c repo repo'"
  by (auto simp: edit_wrote_def kept_objects_def split: option.splits)

definition edit_gives :: "edit_builder \<Rightarrow> stack_view \<Rightarrow> edit_outcome \<Rightarrow> patch_name \<Rightarrow> oid option \<Rightarrow> commit \<Rightarrow> 'w repository \<Rightarrow> 'w repository \<Rightarrow> bool" where
  "edit_gives b v out q cid c repo repo' \<longleftrightarrow>
     out = Edited (if eb_original_patchname b = Some q then None else Some q) cid \<and>
     usable (eb_allowed_patchnames b) (all_patches v) q \<and> edit_wrote b cid c repo repo' \<and> c_parents c \<noteq> []"

lemma edited_tree_Ok: "edited_tree g env b tree parent computed pn author m diff = Ok i \<Longrightarrow> eb_allow_diff_edit b \<or> i = tree"
  by (auto simp: edited_tree_def split: option.splits if_splits)

lemma edit_from_Ok:
  assumes "edit_from g env b a v dc need pn author m tree parent diff computed repo = Some (Ok (Edited x y), repo')"
  shows "\<exists>q cid c. edit_gives b v (Edited x y) q cid c repo repo' \<and> hd (c_parents c) = parent \<and>
    (eb_allow_diff_edit b \<or> c_tree c = tree)"
proof -
  obtain hook pn' author' m' tree' where
    "finish_edit g env b a v dc hook pn' author' m' tree' parent repo = Some (Ok (Edited x y), repo')"
    "eb_allow_diff_edit b \<or> tree' = tree"
    using assms edited_tree_Ok unfolding edit_from_def Let_def
    by (cases "if eb_allow_template_save b then ea_save_template a else None") (fastforce simp: ebind_Ok)+
  then show ?thesis using finish_edit_Ok unfolding edit_gives_def by metis
qed

lemma edit_Ok:
  assumes "edit g env b a v repo = Some (Ok (Edited x y), repo')"
  shows "\<exists>q cid c. edit_gives b v (Edited x y) q cid c repo repo' \<and> edit_parent b = Some (hd (c_parents c)) \<and>
    (eb_allow_diff_edit b \<or> edit_tree b = Some (c_tree c))"
proof -
  have tree: "(case eb_overlay_tree_id b of Some i \<Rightarrow> Ok i
      | None \<Rightarrow> (case eb_patch_commit b of Some c \<Rightarrow> Ok (c_tree c) | None \<Rightarrow> Panic)) = Ok i \<longleftrightarrow> edit_tree b = Some i" for i
    by (auto simp: edit_tree_def split: option.splits)
  have parent: "(case eb_overlay_parent_id b of Some i \<Rightarrow> Ok i
      | None \<Rightarrow> (case eb_patch_commit b of Some c \<Rightarrow> first_parent c | None \<Rightarrow> Panic)) = Ok i \<longleftrightarrow> edit_parent b = Some i" for i
    by (auto simp: edit_parent_def first_parent_def split: option.splits list.splits)
  note run = assms [unfolded edit_def]
  obtain dc and fl :: edited and author m need pn m' tree_id parent_id diff computed repo1 repo2 where r:
    "start_name env b v (et_patchname fl) m need repo = Some (Ok pn, repo1)"
    "edit_tree b = Some tree_id" "edit_parent b = Some parent_id"
    "start_diff g env b a (et_diff fl) need tree_id parent_id repo1 = Some (Ok (diff, computed), repo2)"
    "edit_from g env b a v dc need pn author m' tree_id parent_id diff computed repo2 = Some (Ok (Edited x y), repo')"
    using run by (elim ebind_prodE ebindE) (simp only: known_Ok tree parent)
  have kept: "kept_objects repo repo2" using start_diff_Ok [OF r(4)] start_name_Ok [OF r(1)] by simp
  obtain q cid c where "edit_gives b v (Edited x y) q cid c repo2 repo'" "hd (c_parents c) = parent_id"
    "eb_allow_diff_edit b \<or> c_tree c = tree_id"
    using edit_from_Ok [OF r(5)] by blast
  then show ?thesis using edit_wrote_kept [OF kept] r(2,3) unfolding edit_gives_def by blast
qed

end
