(* ===== verification/Edit_Inv.thy ===== *)
theory Edit_Inv
  imports Edit_Commands Edit_Props Commands_Props
begin

text \<open>
  The transactions of \<open>edit\<close> and \<open>squash\<close>: they keep the invariants of the stack, and what they do to its lists.
\<close>

section \<open>Steps of an edit\<close>

lemma position_append: "x \<notin> set xs \<Longrightarrow> position (\<lambda>q. q = x) (xs @ x # ys) = Some (length xs)"
  by (induction xs) auto

lemma pop_above_run:
  assumes ok: "trans_ok t"
  shows "\<exists>t1 B. pop_above pn t = (Ok B, t1) \<and> trans_ok t1 \<and> (chain_ok t \<longrightarrow> chain_ok t1) \<and>
    tr_applied t = tr_applied t1 @ B \<and> tr_unapplied t1 = B @ tr_unapplied t \<and> tr_hidden t1 = tr_hidden t \<and> pn \<notin> set B \<and>
    (pn \<in> set (tr_applied t1) \<longrightarrow> last (tr_applied t1) = pn) \<and>
    trans_get t1 = trans_get t \<and> tr_repo t1 = tr_repo t \<and> tr_stack t1 = tr_stack t \<and> t_base t1 = t_base t"
proof (cases "pn \<in> set (tr_applied t)")
  case False
  then have "position (\<lambda>q. q = pn) (tr_applied t) = None" by (auto simp: position_None_iff)
  then show ?thesis using False ok by (intro exI [of _ t] exI [of _ "[]"]) (simp add: pop_above_def sbind_def gets_def ret_def del: position_None_iff)
next
  case True
  then obtain A B where ab: "tr_applied t = A @ pn # B" by (meson split_list)
  have d: "distinct (A @ pn # B)" using trans_ok_distinct [OF ok] unfolding ab by auto
  have pos: "position (\<lambda>q. q = pn) (tr_applied t) = Some (length A)" unfolding ab using d by (intro position_append) simp
  let ?p = "\<lambda>q. q \<in> set B"
  have of: "popped_of ?p t = B" "takeWhile (\<lambda>pn. \<not> ?p pn) (tr_applied t) = A @ [pn]"
    using d by (cases B; auto simp: popped_of_def ab dropWhile_append takeWhile_append)+
  have sel: "tr_applied (popped ?p t) = A @ [pn]" "tr_unapplied (popped ?p t) = B @ tr_unapplied t"
    by (simp_all add: popped_def of filter_all_in)
  have "pop_above pn t = (Ok B, popped ?p t)"
    using pos of(1) by (simp add: pop_above_def sbind_def sthen_def gets_def ret_def sassert_def pop_patches_run filter_all_in ab)
  then show ?thesis
    using sel ab d popped_ok [OF ok, of ?p] popped_chain [of t ?p]
    by (intro exI [of _ "popped ?p t"] exI [of _ B]) auto
qed

lemma rename_lists_repo: "rename_lists old new t = (r, t') \<Longrightarrow> tr_repo t' = tr_repo t \<and> tr_stack t' = tr_stack t"
  by (auto simp: rename_lists_def sm_defs split: option.splits if_splits)

lemma rename_patch_repo: "rename_patch old new t = (r, t') \<Longrightarrow> tr_repo t' = tr_repo t \<and> tr_stack t' = tr_stack t"
  by (auto simp: rename_patch_def sm_defs set_patch_def print_def split: option.splits if_splits prod.splits outcome.splits
      dest!: rename_lists_repo)

lemma update_patch_run:
  assumes ok: "trans_ok t" and get: "trans_get t pn = Some p" and c: "objects (tr_repo t) i = Some c"
  shows "\<exists>t'. update_patch pn i t = (Ok (), t') \<and> trans_ok t' \<and> tr_applied t' = tr_applied t \<and>
    tr_unapplied t' = tr_unapplied t \<and> tr_hidden t' = tr_hidden t \<and> trans_get t' = (trans_get t)(pn \<mapsto> \<lparr>ps_commit = c\<rparr>) \<and>
    t_base t' = t_base t \<and> tr_stack t' = tr_stack t"
proof -
  define tu where "tu u = t\<lparr>tr_repo := notes_copy (c_id (ps_commit p)) i (tr_repo t),
    tr_updated_patches := bt_insert (tr_updated_patches t) pn (Some \<lparr>ps_commit = c\<rparr>), tr_ui := u\<rparr>" for u
  have run: "update_patch pn i t = (Ok (), tu (print_updated pn (tr_applied t) (tr_ui t)))"
    using get c by (simp add: update_patch_def commit_of_id_def patch_commit_of_def get_patch_commit_def sm_defs
        set_patch_def print_def find_commit_def tu_def)
  have get': "trans_get (tu u) = (trans_get t)(pn \<mapsto> \<lparr>ps_commit = c\<rparr>)" for u
    by (auto simp: trans_get_def tu_def fun_eq_iff split: option.split)
  have "view_ok (trans_view (tu u))" for u
    using trans_okD [OF ok] get unfolding view_ok_trans get' by (auto simp: tu_def trans_ok_def view_ok_trans)
  then have "trans_ok (tu u)" for u
    using trans_okD [OF ok] ok by (auto simp: trans_ok_def tu_def bt_ok_insert split: if_splits)
  moreover have "tr_applied (tu u) = tr_applied t" "tr_unapplied (tu u) = tr_unapplied t" "tr_hidden (tu u) = tr_hidden t"
    "t_base (tu u) = t_base t" "tr_stack (tu u) = tr_stack t" for u
    by (simp_all add: tu_def t_base_def split: option.split)
  ultimately show ?thesis using run get' by blast
qed

text \<open>A patch at the top of the stack, or a patch that is not applied, may get any commit with the same first parent.\<close>

lemma chain_ok_update:
  assumes ch: "chain_ok t" and get: "trans_get t pn = Some p" and parent: "c_parents c \<noteq> []" "hd (c_parents c) = hd (c_parents (ps_commit p))"
    and last: "pn \<in> set (tr_applied t) \<longrightarrow> last (tr_applied t) = pn" and d: "distinct (tr_applied t)"
    and t': "tr_applied t' = tr_applied t" "trans_get t' = (trans_get t)(pn \<mapsto> \<lparr>ps_commit = c\<rparr>)" "t_base t' = t_base t"
  shows "chain_ok t'"
proof (cases "pn \<in> set (tr_applied t)")
  case False
  then have "commits_of (trans_get t') (tr_applied t') = commits_of (trans_get t) (tr_applied t)"
    by (auto simp: commits_of_def t')
  then show ?thesis using ch t' by (simp add: chain_ok_def)
next
  case True
  then obtain A where a: "tr_applied t = A @ [pn]" using last by (metis append_butlast_last_id empty_iff empty_set)
  then have "commits_of (trans_get t') A = commits_of (trans_get t) A" using d by (auto simp: commits_of_def t')
  moreover have "commits_of get' [pn] = [ps_commit (the (get' pn))]" for get' by (simp add: commits_of_def)
  ultimately show ?thesis using ch get parent t'(2,3) unfolding chain_ok_def t'(1) a
    by (simp del: fun_upd_apply) (simp add: commits_of_def)
qed

section \<open>Edit\<close>

lemma renamed_notin: "old \<notin> set xs \<Longrightarrow> renamed old new xs = xs"
  by (induction xs) auto

lemma renamed_same: "renamed old old xs = xs"
  by (induction xs) auto

lemma edit_rename_run:
  assumes ok: "trans_ok t" "chain_ok t" and get: "trans_get t pn = Some p" and orig: "has_patch (stack_view_of (tr_stack t)) pn"
    and n: "new = None \<and> q = pn \<or> new = Some q \<and> trans_get t q = None \<and> stack_collides (stack_view_of (tr_stack t)) q \<in> {None, Some pn}"
  shows "\<exists>t'. (case new of Some n \<Rightarrow> sthen (rename_patch pn n) (ret n) | None \<Rightarrow> ret pn) t = (Ok q, t') \<and> trans_ok t' \<and> chain_ok t' \<and>
    tr_applied t' = renamed pn q (tr_applied t) \<and> tr_unapplied t' = renamed pn q (tr_unapplied t) \<and>
    tr_hidden t' = renamed pn q (tr_hidden t) \<and> trans_get t' = (trans_get t)(pn := None, q := Some p) \<and> tr_repo t' = tr_repo t"
  using n
proof
  assume "new = None \<and> q = pn"
  then have "new = None" and q: "q = pn" by simp_all
  then show ?thesis using ok get unfolding q renamed_same by (intro exI [of _ t]) (simp add: ret_def fun_upd_idem)
next
  assume *: "new = Some q \<and> trans_get t q = None \<and> stack_collides (stack_view_of (tr_stack t)) q \<in> {None, Some pn}"
  obtain t' where t': "rename_patch pn q t = (Ok (), t')" "trans_ok t'" "tr_applied t' = renamed pn q (tr_applied t)"
      "tr_unapplied t' = renamed pn q (tr_unapplied t)" "tr_hidden t' = renamed pn q (tr_hidden t)"
      "trans_get t' = (trans_get t)(pn := None, q := Some p)" "chain_ok t'"
    using rename_patch_run [OF ok(1) get orig] * ok(2) by blast
  moreover have "tr_repo t' = tr_repo t" using rename_patch_repo [OF t'(1)] by simp
  ultimately show ?thesis using * by (intro exI [of _ t']) (simp add: sm_defs)
qed

lemma edit_update_run:
  assumes ok: "trans_ok t" "chain_ok t" and get: "trans_get t q = Some p"
    and c: "cid = None \<and> c = ps_commit p \<or> (\<exists>i. cid = Some i \<and> objects (tr_repo t) i = Some c)"
    and parent: "c_parents c \<noteq> []" "hd (c_parents c) = hd (c_parents (ps_commit p))"
    and last: "q \<in> set (tr_applied t) \<longrightarrow> last (tr_applied t) = q"
  shows "\<exists>t'. (case cid of Some i \<Rightarrow> update_patch q i | None \<Rightarrow> ret ()) t = (Ok (), t') \<and> trans_ok t' \<and> chain_ok t' \<and>
    tr_applied t' = tr_applied t \<and> tr_unapplied t' = tr_unapplied t \<and> tr_hidden t' = tr_hidden t \<and>
    trans_get t' = (trans_get t)(q \<mapsto> \<lparr>ps_commit = c\<rparr>)"
  using c
proof
  assume "cid = None \<and> c = ps_commit p"
  then show ?thesis using ok get by (intro exI [of _ t]) (auto simp: ret_def fun_eq_iff)
next
  assume "\<exists>i. cid = Some i \<and> objects (tr_repo t) i = Some c"
  then obtain i where i: "cid = Some i" "objects (tr_repo t) i = Some c" by blast
  obtain t' where t': "update_patch q i t = (Ok (), t')" "trans_ok t'" "tr_applied t' = tr_applied t"
      "tr_unapplied t' = tr_unapplied t" "tr_hidden t' = tr_hidden t" "trans_get t' = (trans_get t)(q \<mapsto> \<lparr>ps_commit = c\<rparr>)"
      "t_base t' = t_base t"
    using update_patch_run [OF ok(1) get i(2)] by blast
  have "distinct (tr_applied t)" using trans_ok_distinct [OF ok(1)] by simp
  then have "chain_ok t'" using chain_ok_update [OF ok(2) get parent last _ t'(3,6,7)] by blast
  then show ?thesis using t' i(1) by (intro exI [of _ t']) simp
qed

lemma push_tree_patches_trees: "push_tree_patches g pns = push_trees g pns"
  by (induction pns) simp_all

lemma edit_push_outcome:
  assumes "(if st then push_tree_patches g pns else push_patches g pns False) t = (r, t')" "trans_ok t" "pushable t pns"
  shows "push_outcome pns r t t'"
  using assms push_patches_outcome push_trees_outcome by (cases st) (auto simp: push_tree_patches_trees)

text \<open>The lists and the commit that an edit leaves, when all patches above the edited one can be pushed again.\<close>

definition edited_stack :: "patch_name \<Rightarrow> patch_name \<Rightarrow> commit \<Rightarrow> 'w transaction \<Rightarrow> 'w transaction \<Rightarrow> bool" where
  "edited_stack pn q c t t' \<longleftrightarrow>
     tr_applied t' = renamed pn q (tr_applied t) \<and> tr_unapplied t' = renamed pn q (tr_unapplied t) \<and>
     tr_hidden t' = renamed pn q (tr_hidden t) \<and> trans_get t' q = Some \<lparr>ps_commit = c\<rparr>"

lemma edit_closure_outcome:
  assumes run: "edit_closure g st pn new cid t = (r, t')" and good: "good t" and get: "trans_get t pn = Some p"
    and orig: "has_patch (stack_view_of (tr_stack t)) pn"
    and n: "new = None \<and> q = pn \<or> new = Some q \<and> trans_get t q = None \<and> stack_collides (stack_view_of (tr_stack t)) q \<in> {None, Some pn}"
    and c: "cid = None \<and> c = ps_commit p \<or> (\<exists>i. cid = Some i \<and> objects (tr_repo t) i = Some c)"
    and parent: "c_parents c \<noteq> []" "hd (c_parents c) = hd (c_parents (ps_commit p))"
  shows "r \<noteq> Panic \<and> trans_ok t' \<and> chain_ok t' \<and> (r = Ok () \<longrightarrow> edited_stack pn q c t t')"
proof -
  have ok: "trans_ok t" "chain_ok t" using good by (simp_all add: good_def)
  obtain t1 B where t1: "pop_above pn t = (Ok B, t1)" "trans_ok t1" "chain_ok t1" "tr_applied t = tr_applied t1 @ B"
      "tr_unapplied t1 = B @ tr_unapplied t" "tr_hidden t1 = tr_hidden t" "pn \<notin> set B"
      "pn \<in> set (tr_applied t1) \<longrightarrow> last (tr_applied t1) = pn" "trans_get t1 = trans_get t" "tr_repo t1 = tr_repo t" "tr_stack t1 = tr_stack t"
    using pop_above_run [OF ok(1), of pn] ok(2) by blast
  obtain t2 where t2: "(case new of Some n \<Rightarrow> sthen (rename_patch pn n) (ret n) | None \<Rightarrow> ret pn) t1 = (Ok q, t2)"
      "trans_ok t2" "chain_ok t2" "tr_applied t2 = renamed pn q (tr_applied t1)" "tr_unapplied t2 = renamed pn q (tr_unapplied t1)"
      "tr_hidden t2 = renamed pn q (tr_hidden t1)" "trans_get t2 = (trans_get t1)(pn := None, q := Some p)" "tr_repo t2 = tr_repo t1"
    using edit_rename_run [OF t1(2,3), of pn p new q, unfolded t1(9,11), OF get orig n] t1(9) by auto
  have fresh: "q \<noteq> pn \<longrightarrow> q \<notin> set (tr_applied t @ tr_unapplied t @ tr_hidden t)"
    using n trans_ok_get [OF ok(1), of q] by auto
  have last: "q \<in> set (tr_applied t2) \<longrightarrow> last (tr_applied t2) = q"
    using t1(4,8) t2(4) fresh by (cases "tr_applied t1" rule: rev_cases; cases "q = pn") (auto simp: renamed_same)
  obtain t3 where t3: "(case cid of Some i \<Rightarrow> update_patch q i | None \<Rightarrow> ret ()) t2 = (Ok (), t3)" "trans_ok t3" "chain_ok t3"
      "tr_applied t3 = tr_applied t2" "tr_unapplied t3 = tr_unapplied t2" "tr_hidden t3 = tr_hidden t2"
      "trans_get t3 = (trans_get t2)(q \<mapsto> \<lparr>ps_commit = c\<rparr>)"
    using edit_update_run [OF t2(2,3) _ _ parent last, of cid, unfolded t2(7,8) t1(10), OF fun_upd_same c] t2(7) by auto
  have B: "renamed pn q B = B" using t1(7) by (rule renamed_notin)
  have un: "tr_unapplied t3 = B @ renamed pn q (tr_unapplied t)" using t1(5) t2(5) t3(5) B by simp
  have "distinct B" using trans_ok_distinct [OF ok(1)] t1(4) by simp
  then have pushable: "pushable t3 B" using un by (auto simp: pushable_def)
  have "(if st then push_tree_patches g B else push_patches g B False) t3 = (r, t')"
    using run t1(1) t2(1) t3(1) by (simp add: edit_closure_def sbind_def sthen_def [of _ "if st then _ else _"])
  then have out: "push_outcome B r t3 t'" by (rule edit_push_outcome [OF _ t3(2) pushable])
  have "edited_stack pn q c t t'" if "r = Ok ()"
  proof -
    have l: "pushed_list B t3 t'" using out that by (simp add: push_outcome_def)
    have "q \<notin> set B" using fresh t1(4,7) by auto
    moreover have "set B \<inter> set (renamed pn q (tr_unapplied t)) = {}" "set B \<inter> set (tr_hidden t3) = {}"
      using trans_ok_distinct [OF t3(2)] un by auto
    ultimately show ?thesis
      using pushed_list_lists [OF l t3(2)] t1(4,6) t2(4,6) t3(4,6,7) un B
      by (auto simp: edited_stack_def filter_out_prefix filter_out_disjoint)
  qed
  then show ?thesis
    using push_outcome_no_panic [OF out] push_outcome_ok [OF out] push_outcome_chain [OF out t3(3,2) pushable] by blast
qed

lemma edit_target_member: "edit_target env v l = Ok pn \<Longrightarrow> pn \<in> set (all_patches v)"
  by (auto simp: edit_target_def all_patches_def dest!: resolve_name_member split: option.splits if_splits)

lemma edit_wrote_odb: "edit_wrote b cid c repo repo' \<Longrightarrow> odb_ok repo \<Longrightarrow> odb_ok repo'"
  by (auto simp: edit_wrote_def kept_objects_def odb_ok_def split: option.splits if_splits)

lemma edit_plan_cases:
  assumes "edit_plan g eenv env sk a repo = Some (Ok (Transaction opts f msg), repo')"
  obtains pn p x y where "edit_target env (stack_view_of sk) (ec_patch a) = Ok pn"
    "v_get (stack_view_of sk) pn = Some p"
    "edit g eenv (edit_cmd_builder pn (ps_commit p) a) (ec_edit a) (stack_view_of sk) repo = Some (Ok (Edited x y), repo')"
    "f = edit_closure g (ec_set_tree a \<noteq> None) pn x y"
proof -
  let ?s = "obind (trans_check (check_head_top_mismatch sk)) (\<lambda>_.
           obind (edit_target env (stack_view_of sk) (ec_patch a)) (\<lambda>pn.
           obind (get_patch_commit (stack_view_of sk) pn) (\<lambda>c. Ok (pn, c))))"
  obtain pn c where s: "?s = Ok (pn, c)" using assms by (cases ?s) (auto simp: edit_plan_def)
  then obtain p where p: "edit_target env (stack_view_of sk) (ec_patch a) = Ok pn" "v_get (stack_view_of sk) pn = Some p" "c = ps_commit p"
    by (cases "v_get (stack_view_of sk) pn") (auto simp: get_patch_commit_def)
  let ?e = "edit g eenv (edit_cmd_builder pn c a) (ec_edit a) (stack_view_of sk) repo"
  obtain x y where "?e = Some (Ok (Edited x y), repo')" "f = edit_closure g (ec_set_tree a \<noteq> None) pn x y"
    using assms s by (auto simp: edit_plan_def split: option.splits outcome.splits edit_outcome.splits if_splits)
  then show ?thesis using that p by blast
qed

lemma edit_command_outcome:
  assumes r: "ready sk repo" and plan: "edit_plan g eenv env sk a repo = Some (Ok (Transaction opts f msg), repo')"
  shows "ready sk repo' \<and>
    (\<exists>pn p q c. bt_get (st_patches (sk_state sk)) pn = Some p \<and> c_parents c \<noteq> [] \<and> hd (c_parents c) = hd (c_parents (ps_commit p)) \<and>
       (q = pn \<or> (\<forall>pn'\<in>set (all_patches (stack_view_of sk)). \<not> collides q pn')) \<and>
       (\<forall>res t'. f (start_transaction sk opts repo') = (res, t') \<longrightarrow>
          res \<noteq> Panic \<and> trans_ok t' \<and> chain_ok t' \<and> (res = Ok () \<longrightarrow> edited_stack pn q c (start_transaction sk opts repo') t')))"
proof -
  obtain pn p x y where e: "edit_target env (stack_view_of sk) (ec_patch a) = Ok pn" "v_get (stack_view_of sk) pn = Some p"
    "edit g eenv (edit_cmd_builder pn (ps_commit p) a) (ec_edit a) (stack_view_of sk) repo = Some (Ok (Edited x y), repo')"
    "f = edit_closure g (ec_set_tree a \<noteq> None) pn x y"
    by (rule edit_plan_cases [OF plan])
  let ?b = "edit_cmd_builder pn (ps_commit p) a" and ?v = "stack_view_of sk"
  obtain q cid c where give: "edit_gives ?b ?v (Edited x y) q cid c repo repo'" "edit_parent ?b = Some (hd (c_parents c))"
    using edit_Ok [OF e(3)] by blast
  have b: "eb_original_patchname ?b = Some pn" "eb_allowed_patchnames ?b = [pn]" "eb_patch_commit ?b = Some (ps_commit p)"
      "eb_overlay_parent_id ?b = None"
    by (simp_all add: edit_cmd_builder_def original_patchname_def default_builder_def)
  have xy: "x = (if q = pn then None else Some q)" "y = cid" and w: "edit_wrote ?b cid c repo repo'" and c: "c_parents c \<noteq> []"
    and free: "q = pn \<or> (\<forall>pn'\<in>set (all_patches ?v). \<not> collides q pn')"
    using give(1) b(1,2) by (auto simp: edit_gives_def usable_def list_all_iff split: if_splits)
  have r': "ready sk repo'" using r edit_wrote_odb [OF w] by (simp add: ready_def)
  have get: "bt_get (st_patches (sk_state sk)) pn = Some p" using e(2) by (simp add: state_view_def)
  have hd: "hd (c_parents c) = hd (c_parents (ps_commit p))"
    using give(2) b(3,4) by (auto simp: edit_parent_def split: list.splits)
  have new: "x = None \<and> q = pn \<or> x = Some q \<and> trans_get (start_transaction sk opts repo') q = None \<and>
      stack_collides (stack_view_of (tr_stack (start_transaction sk opts repo'))) q \<in> {None, Some pn}"
  proof (cases "q = pn")
    case False
    then have f: "\<forall>pn'\<in>set (all_patches ?v). \<not> collides q pn'" using free by blast
    then have "q \<notin> set (all_patches ?v)" using collides_refl by blast
    then have "\<not> has_patch ?v q" using view_ok_has [OF ready_view [OF r]] by simp
    then show ?thesis using False xy(1) f by (auto simp: stack_collides_def find_None_iff has_patch_def state_view_def)
  qed (use xy(1) in simp)
  have cm: "y = None \<and> c = ps_commit p \<or> (\<exists>i. y = Some i \<and> objects (tr_repo (start_transaction sk opts repo')) i = Some c)"
    using w b(3) xy(2) by (cases cid) (auto simp: edit_wrote_def)
  have "res \<noteq> Panic \<and> trans_ok t' \<and> chain_ok t' \<and> (res = Ok () \<longrightarrow> edited_stack pn q c (start_transaction sk opts repo') t')"
    if "f (start_transaction sk opts repo') = (res, t')" for res t'
    by (rule edit_closure_outcome [OF that [unfolded e(4)] start_good [OF r'] _ _ new cm c hd])
      (use get in \<open>simp_all add: has_patch_def state_view_def\<close>)
  then show ?thesis using r' get c hd free by blast
qed

section \<open>Edits keep the object database\<close>

definition ekeeps :: "('w, 'a) em \<Rightarrow> bool" where
  "ekeeps m \<longleftrightarrow> (\<forall>repo r repo'. m repo = Some (r, repo') \<longrightarrow> odb_ok repo \<longrightarrow> odb_ok repo')"

lemma ekeepsD: "ekeeps m \<Longrightarrow> m repo = Some (r, repo') \<Longrightarrow> odb_ok repo \<Longrightarrow> odb_ok repo'"
  by (auto simp: ekeeps_def)

lemma ekeeps_bind: "ekeeps m \<Longrightarrow> (\<And>x. ekeeps (f x)) \<Longrightarrow> ekeeps (ebind m f)"
  by (auto simp: ekeeps_def ebind_def split: option.splits outcome.splits prod.splits)

lemma ekeeps_known: "ekeeps (known r)"
  by (auto simp: ekeeps_def known_def)

lemma ekeeps_names:
  "ekeeps (unique_name env b v pn)" "ekeeps (made_name env b v m)" "ekeeps (final_name env b v p m)" "ekeeps (start_name env b v fp m need)"
proof -
  show u: "ekeeps (unique_name env b v pn)" for env b v pn by (auto simp: ekeeps_def unique_name_def named_def)
  then show m: "ekeeps (made_name env b v m)" for env b v m unfolding made_name_def by (intro ekeeps_bind ekeeps_known)
  show "ekeeps (final_name env b v p m)" using u m by (auto simp: final_name_def split: option.split)
  show "ekeeps (start_name env b v fp m need)"
    using u m ekeeps_known by (auto simp: start_name_def intro!: ekeeps_bind split: option.split)
qed

lemma ekeeps_commit:
  "ekeeps (\<lambda>repo. case commit_ex g author committer m tree parents repo of (r, repo') \<Rightarrow> Some (h r, repo'))"
  unfolding ekeeps_def by (auto split: prod.splits elim!: commit_ex_cases)

lemma ekeeps_show_diff: "ekeeps (show_diff g env b tree parent)"
  by (auto simp: ekeeps_def show_diff_def ebind_def known_def Let_def
      split: option.splits outcome.splits prod.splits sum.splits if_splits)

lemma ekeeps_edit: "ekeeps (edit g env b a v)"
proof -
  have d: "ekeeps (start_diff g env b a fd need tree parent)" for fd need tree parent
    using ekeeps_show_diff ekeeps_known by (auto simp: start_diff_def intro!: ekeeps_bind)
  have f: "ekeeps (finish_edit g env b a v dc hook p author m tree parent)" for dc hook p author m tree parent
    unfolding finish_edit_def Let_def
    by (intro ekeeps_bind ekeeps_known ekeeps_names) (simp add: ekeeps_known ekeeps_commit)
  have "ekeeps (edit_from g env b a v dc need p author m tree parent diff computed)"
    for dc need p author m tree parent diff computed
    unfolding edit_from_def Let_def using f by (auto split: option.split prod.split intro!: ekeeps_bind ekeeps_known)
  then show ?thesis
    unfolding edit_def using d by (auto split: prod.split intro!: ekeeps_bind ekeeps_known ekeeps_names)
qed

section \<open>Squash\<close>

lemma ekeeps_diag: "(\<And>r. ekeeps (M r)) \<Longrightarrow> ekeeps (\<lambda>repo. M repo repo)"
  by (auto simp: ekeeps_def)

lemma try_squash_keeps: "ekeeps (try_squash g eenv a pns pn t)"
  unfolding try_squash_def Let_def
  by (rule ekeeps_diag) (auto split: option.split prod.split intro!: ekeeps_bind ekeeps_known ekeeps_edit)

lemma try_squash_Ok:
  assumes "try_squash g eenv a pns pn t repo = Some (Ok res, repo')"
  shows "case res of None \<Rightarrow> repo' = repo
    | Some (n, i) \<Rightarrow> usable pns (all_patches (trans_view t)) n \<and> (\<exists>c. objects repo' i = Some c)"
proof (cases res)
  case None
  then show ?thesis using assms
    by (auto simp: try_squash_def Let_def ebind_Ok split: option.splits prod.splits edit_outcome.splits)
      (metis edit_outcome.exhaust)
next
  case (Some z)
  then obtain n i where z: "res = Some (n, i)" by (cases z) auto
  then obtain base parent tree author m where
    e: "edit g eenv (squash_builder base parent tree pn pns author m) a (trans_view t) repo = Some (Ok (Edited (Some n) (Some i)), repo')"
    using assms by (auto simp: try_squash_def Let_def ebind_Ok split: option.splits prod.splits edit_outcome.splits)
      (metis edit_outcome.exhaust)
  let ?b = "squash_builder base parent tree pn pns author m"
  have b: "eb_original_patchname ?b = None" "eb_allowed_patchnames ?b = pns"
    by (simp_all add: squash_builder_def extra_allowed_patchnames_def default_builder_def)
  obtain q cid c where "edit_gives ?b (trans_view t) (Edited (Some n) (Some i)) q cid c repo repo'"
    using edit_Ok [OF e] by blast
  then show ?thesis using z b by (auto simp: edit_gives_def edit_wrote_def)
qed

lemma good_repo:
  assumes "good t" "odb_ok repo"
  shows "good (t\<lparr>tr_repo := repo\<rparr>)"
proof -
  have "same_patches t (t\<lparr>tr_repo := repo\<rparr>)" by (simp add: same_patches_def)
  then show ?thesis using assms trans_ok_same [of t "t\<lparr>tr_repo := repo\<rparr>"] same_patches_chain by (auto simp: good_def)
qed

lemma edit_in_try_squash:
  assumes "edit_in (try_squash g eenv a pns pn) t = Some (r, t')" "good t"
  shows "good t' \<and> (\<exists>repo. t' = t\<lparr>tr_repo := repo\<rparr>) \<and>
    (\<forall>n i. r = Ok (Some (n, i)) \<longrightarrow> usable pns (all_patches (trans_view t)) n \<and> (\<exists>c. objects (tr_repo t') i = Some c))"
proof -
  obtain r0 repo where e: "try_squash g eenv a pns pn t (tr_repo t) = Some (r0, repo)" "r = omap_err failure_error r0" "t' = t\<lparr>tr_repo := repo\<rparr>"
    using assms(1) by (auto simp: edit_in_def)
  have "odb_ok repo" using ekeepsD [OF try_squash_keeps e(1)] assms(2) by (simp add: good_def trans_ok_def)
  then have "good t'" using good_repo assms(2) e(3) by blast
  moreover have "usable pns (all_patches (trans_view t)) n \<and> (\<exists>c. objects (tr_repo t') i = Some c)" if "r = Ok (Some (n, i))" for n i
    using try_squash_Ok [of g eenv a pns pn t "tr_repo t" "Some (n, i)" repo] that e by simp
  ultimately show ?thesis using e(3) by blast
qed

lemma new_unapplied_run:
  assumes good: "good t" and c: "objects (tr_repo t) i = Some c" and n: "trans_get t n = None"
  shows "\<exists>t'. new_unapplied n i 0 t = (Ok (), t') \<and> good t' \<and> tr_applied t' = tr_applied t \<and>
    tr_unapplied t' = n # tr_unapplied t \<and> tr_hidden t' = tr_hidden t \<and> trans_get t' = (trans_get t)(n \<mapsto> \<lparr>ps_commit = c\<rparr>)"
proof -
  define tu where "tu u = t\<lparr>tr_unapplied := n # tr_unapplied t,
    tr_updated_patches := bt_insert (tr_updated_patches t) n (Some \<lparr>ps_commit = c\<rparr>), tr_ui := u\<rparr>" for u
  have run: "new_unapplied n i 0 t = (Ok (), tu (print_popped [n] (tr_ui t)))"
    using c by (simp add: new_unapplied_def commit_of_id_def sm_defs set_patch_def print_def find_commit_def tu_def)
  have ok: "trans_ok t" using good by (simp add: good_def)
  have get': "trans_get (tu u) = (trans_get t)(n \<mapsto> \<lparr>ps_commit = c\<rparr>)" for u
    by (auto simp: trans_get_def tu_def fun_eq_iff split: option.split)
  have fresh: "n \<notin> set (tr_applied t @ tr_unapplied t @ tr_hidden t)" using trans_ok_get [OF ok, of n] n by simp
  then have "view_ok (trans_view (tu u))" for u
    using trans_ok_distinct [OF ok] trans_ok_get [OF ok] unfolding view_ok_trans get' by (auto simp: tu_def)
  then have "trans_ok (tu u)" for u
    using trans_okD [OF ok] ok by (auto simp: trans_ok_def tu_def bt_ok_insert split: if_splits)
  moreover have sel: "tr_applied (tu u) = tr_applied t" "tr_unapplied (tu u) = n # tr_unapplied t" "tr_hidden (tu u) = tr_hidden t"
    "t_base (tu u) = t_base t" for u
    by (simp_all add: tu_def t_base_def split: option.split)
  moreover have "chain_ok (tu u)" for u
    using good fresh unfolding chain_ok_def sel get' by (simp add: good_def chain_ok_def)
  ultimately show ?thesis using run get' by (auto simp: good_def)
qed

text \<open>The stack when the patches are squashed to \<open>n\<close>.\<close>

definition squashed :: "patch_name list \<Rightarrow> bool \<Rightarrow> patch_name \<Rightarrow> 'w transaction \<Rightarrow> 'w transaction \<Rightarrow> bool" where
  "squashed pns push n t t' \<longleftrightarrow>
     (let others = filter (\<lambda>q. q \<notin> set pns) in
      tr_applied t' = takeWhile (\<lambda>q. q \<notin> set pns) (tr_applied t) @ (if push then [n] else [])
        @ others (dropWhile (\<lambda>q. q \<notin> set pns) (tr_applied t)) \<and>
      tr_unapplied t' = (if push then [] else [n]) @ others (tr_unapplied t) \<and>
      tr_hidden t' = others (tr_hidden t) \<and>
      (n \<in> set pns \<or> (\<forall>q\<in>set (all_patches (trans_view t)). \<not> collides n q)))"

text \<open>The stack without the squashed patches, before the new one is added.\<close>

definition taken_out :: "patch_name list \<Rightarrow> 'w transaction \<Rightarrow> 'w transaction \<Rightarrow> bool" where
  "taken_out pns t t' \<longleftrightarrow>
     good t' \<and> tr_applied t' = takeWhile (\<lambda>q. q \<notin> set pns) (tr_applied t) \<and>
     tr_unapplied t' = filter (\<lambda>q. q \<notin> set pns) (popped_of (\<lambda>q. q \<in> set pns) t) @ filter (\<lambda>q. q \<notin> set pns) (tr_unapplied t) \<and>
     tr_hidden t' = filter (\<lambda>q. q \<notin> set pns) (tr_hidden t)"

lemma squash_finish:
  assumes out: "taken_out pns t t2" and c: "objects (tr_repo t2) i = Some c"
    and n: "usable pns (all_patches (trans_view t)) n"
    and run: "sthen (new_unapplied n i 0)
      (sthen (push_patches g (if sp then n # others else others) False) (ret n)) t2 = (r, t')"
    and others: "others = filter (\<lambda>q. q \<notin> set pns) (popped_of (\<lambda>q. q \<in> set pns) t)"
  shows "r \<noteq> Panic \<and> good t' \<and> (\<forall>m. r = Ok m \<longrightarrow> m = n \<and> squashed pns sp n t t')"
proof -
  let ?o = "filter (\<lambda>q. q \<notin> set pns)"
  have good: "good t2" and l2: "tr_applied t2 = takeWhile (\<lambda>q. q \<notin> set pns) (tr_applied t)"
      "tr_unapplied t2 = others @ ?o (tr_unapplied t)" "tr_hidden t2 = ?o (tr_hidden t)"
    using out others by (auto simp: taken_out_def Let_def)
  have free: "n \<in> set pns \<or> (\<forall>q\<in>set (all_patches (trans_view t)). \<not> collides n q)"
    using n by (auto simp: usable_def list_all_iff list_ex_iff)
  have sub: "set (tr_applied t2 @ tr_unapplied t2 @ tr_hidden t2) \<subseteq> set (all_patches (trans_view t)) - set pns"
    unfolding l2 others popped_of_def by (auto dest: set_takeWhileD set_dropWhileD)
  then have "n \<notin> set (tr_applied t2 @ tr_unapplied t2 @ tr_hidden t2)" using free collides_refl by blast
  then have "trans_get t2 n = None" using trans_ok_get [of t2 n] good by (auto simp: good_def)
  then obtain t3 where t3: "new_unapplied n i 0 t2 = (Ok (), t3)" "good t3" "tr_applied t3 = tr_applied t2"
      "tr_unapplied t3 = n # tr_unapplied t2" "tr_hidden t3 = tr_hidden t2"
    using new_unapplied_run [OF good c] by blast
  have ok3: "trans_ok t3" "chain_ok t3" using t3(2) by (simp_all add: good_def)
  let ?ps = "if sp then n # others else others"
  have d: "distinct (n # others @ ?o (tr_unapplied t))" "set (n # others) \<inter> set (tr_hidden t3) = {}"
    using trans_ok_distinct [OF ok3(1)] unfolding t3(4) l2(2) by auto
  then have pushable: "pushable t3 ?ps" unfolding pushable_def t3(4) l2(2) by auto
  obtain q t4 where q: "push_patches g ?ps False t3 = (q, t4)" by fastforce
  have o: "push_outcome ?ps q t3 t4" by (rule push_patches_outcome [OF q ok3(1) pushable])
  have rt: "t' = t4" "r = (case q of Ok _ \<Rightarrow> Ok n | Err e \<Rightarrow> Err e | Panic \<Rightarrow> Panic)"
    using run t3(1) q by (cases q; simp add: sm_defs)+
  have "squashed pns sp n t t4" if "q = Ok ()"
  proof -
    have l: "pushed_list ?ps t3 t4" using o that by (simp add: push_outcome_def)
    define U where "U = ?o (tr_unapplied t)"
    have dU: "distinct (n # others @ U)" using d(1) by (simp only: U_def)
    have "filter (\<lambda>q. q \<notin> set ?ps) (n # others @ U) = (if sp then [] else [n]) @ U"
    proof (cases sp)
      case True
      then show ?thesis using dU filter_out_prefix [of "n # others" U] by auto
    next
      case False
      then show ?thesis using dU filter_out_prefix [of others U] by auto
    qed
    moreover have "filter (\<lambda>q. q \<notin> set ?ps) (tr_hidden t3) = tr_hidden t3"
      by (rule filter_out_disjoint) (use d(2) in \<open>auto split: if_splits\<close>)
    ultimately have "tr_unapplied t4 = (if sp then [] else [n]) @ U" "tr_hidden t4 = tr_hidden t3" "tr_applied t4 = tr_applied t3 @ ?ps"
      using pushed_list_lists(1-3) [OF l ok3(1)] unfolding t3(4) l2(2) U_def [symmetric] by simp_all
    then show ?thesis using free t3(3,5) l2(1,3) unfolding squashed_def Let_def U_def popped_of_def [symmetric]
      by (simp add: others popped_of_def)
  qed
  then show ?thesis
    using rt push_outcome_no_panic [OF o] push_outcome_ok [OF o] push_outcome_chain [OF o ok3(2,1) pushable]
    by (cases q) (auto simp: good_def)
qed

lemma squash_delete:
  assumes "good t" "\<forall>pn\<in>set pns. has_patch (stack_view_of (tr_stack t)) pn"
  obtains t2 where
    "delete_patches (\<lambda>pn. pn \<in> set pns) t = (Ok (filter (\<lambda>q. q \<notin> set pns) (popped_of (\<lambda>q. q \<in> set pns) t)), t2)"
    "taken_out pns t t2" "tr_repo t2 = tr_repo t"
proof -
  obtain t2 where "delete_patches (\<lambda>pn. pn \<in> set pns) t = (Ok (filter (\<lambda>q. q \<notin> set pns) (popped_of (\<lambda>q. q \<in> set pns) t)), t2)"
    "good t2" "tr_applied t2 = takeWhile (\<lambda>q. q \<notin> set pns) (tr_applied t)"
    "tr_unapplied t2 = filter (\<lambda>q. q \<notin> set pns) (popped_of (\<lambda>q. q \<in> set pns) t) @ filter (\<lambda>q. q \<notin> set pns) (tr_unapplied t)"
    "tr_hidden t2 = filter (\<lambda>q. q \<notin> set pns) (tr_hidden t)" "tr_repo t2 = tr_repo t"
    using delete_patches_good [OF assms(1), of "\<lambda>pn. pn \<in> set pns"] assms(2) by metis
  then show ?thesis using that by (simp add: taken_out_def)
qed

text \<open>The stack with the patches on top, when the changes could not be combined directly.\<close>

definition on_top :: "patch_name list \<Rightarrow> 'w transaction \<Rightarrow> 'w transaction \<Rightarrow> bool" where
  "on_top pns t t' \<longleftrightarrow>
     tr_applied t' = takeWhile (\<lambda>q. q \<notin> set pns) (tr_applied t) @ pns \<and>
     tr_unapplied t' = filter (\<lambda>q. q \<notin> set pns) (popped_of (\<lambda>q. q \<in> set pns) t) @ filter (\<lambda>q. q \<notin> set pns) (tr_unapplied t) \<and>
     tr_hidden t' = filter (\<lambda>q. q \<notin> set pns) (tr_hidden t) \<and> tr_stack t' = tr_stack t"

lemma squash_pop_push:
  assumes good: "good t" and pns: "distinct pns" "set pns \<subseteq> set (all_patches (trans_view t))"
    and run: "sbind (pop_patches (\<lambda>pn. pn \<in> set pns)) (\<lambda>to_push. sthen (push_patches g pns False) (ret to_push)) t = (r, t')"
  shows "r \<noteq> Panic \<and> good t' \<and>
    (\<forall>others. r = Ok others \<longrightarrow> others = filter (\<lambda>q. q \<notin> set pns) (popped_of (\<lambda>q. q \<in> set pns) t) \<and> on_top pns t t')"
proof -
  let ?p = "\<lambda>pn. pn \<in> set pns"
  let ?t = "popped ?p t"
  have ok: "trans_ok ?t" "chain_ok ?t" using good popped_ok [of t ?p] popped_chain [of t ?p] by (simp_all add: good_def)
  have "pushable ?t pns"
  proof -
    have "q \<in> set (tr_unapplied ?t) \<union> set (tr_hidden ?t)" if "q \<in> set pns" for q
    proof -
      have "q \<in> set (tr_applied t) \<Longrightarrow> q \<in> set (popped_of ?p t)"
        using that by (metis (mono_tags, lifting) Un_iff popped_of_def set_append set_takeWhileD takeWhile_dropWhile_id)
      then show ?thesis using pns(2) that by (auto simp: popped_def)
    qed
    then show ?thesis using pns(1) by (auto simp: pushable_def)
  qed
  note pushable = this
  obtain q t1 where q: "push_patches g pns False ?t = (q, t1)" by fastforce
  have o: "push_outcome pns q ?t t1" by (rule push_patches_outcome [OF q ok(1) pushable])
  have rt: "t' = t1" "r = (case q of Ok _ \<Rightarrow> Ok (filter (\<lambda>q. q \<notin> set pns) (popped_of ?p t)) | Err e \<Rightarrow> Err e | Panic \<Rightarrow> Panic)"
    using run q by (cases q; simp add: sm_defs pop_patches_run)+
  have "on_top pns t t1" if "q = Ok ()"
  proof -
    have l: "pushed_list pns ?t t1" using o that by (simp add: push_outcome_def)
    show ?thesis using pushed_list_lists(1-4) [OF l ok(1)] by (simp add: on_top_def popped_def)
  qed
  then show ?thesis
    using rt push_outcome_no_panic [OF o] push_outcome_ok [OF o] push_outcome_chain [OF o ok(2,1) pushable]
    by (cases q) (auto simp: good_def)
qed

lemma on_top_taken_out:
  assumes "on_top pns t t1" "taken_out pns t1 t2" "pns \<noteq> []"
  shows "taken_out pns t t2" "filter (\<lambda>q. q \<notin> set pns) (popped_of (\<lambda>q. q \<in> set pns) t1) = []"
proof -
  have drop: "dropWhile (\<lambda>q. q \<notin> set pns) (tr_applied t1) = pns"
  proof -
    have "dropWhile (\<lambda>q. q \<notin> set pns) (takeWhile (\<lambda>q. q \<notin> set pns) (tr_applied t) @ pns) = dropWhile (\<lambda>q. q \<notin> set pns) pns"
      by (rule dropWhile_append2) (auto dest: set_takeWhileD)
    then show ?thesis using assms(1,3) by (cases pns) (auto simp: on_top_def)
  qed
  then show "filter (\<lambda>q. q \<notin> set pns) (popped_of (\<lambda>q. q \<in> set pns) t1) = []" by (simp add: popped_of_def filter_all_in)
  have "takeWhile (\<lambda>q. q \<notin> set pns) (tr_applied t1) @ pns = takeWhile (\<lambda>q. q \<notin> set pns) (tr_applied t) @ pns"
    using assms(1) drop takeWhile_dropWhile_id [of "\<lambda>q. q \<notin> set pns" "tr_applied t1"] unfolding on_top_def by metis
  then show "taken_out pns t t2"
    using assms(1,2) drop by (auto simp: taken_out_def on_top_def Let_def popped_of_def filter_all_in)
qed

lemma pbindE:
  assumes "pbind m f t = Some (r, t')"
  obtains (first) x t1 where "m t = Some (Ok x, t1)" "f x t1 = Some (r, t')"
  | (error) e where "m t = Some (Err e, t')" "r = Err e"
  | (panic) "m t = Some (Panic, t')" "r = Panic"
  using assms by (auto simp: pbind_def split: option.splits outcome.splits)

lemma usable_same: "set xs = set ys \<Longrightarrow> usable allow xs n \<Longrightarrow> usable allow ys n"
  by (auto simp: usable_def list_all_iff)

lemma on_top_all:
  assumes "on_top pns t t1" "set pns \<subseteq> set (all_patches (trans_view t))"
  shows "set (all_patches (trans_view t1)) = set (all_patches (trans_view t))"
proof -
  have "set (tr_applied t) = set (takeWhile (\<lambda>q. q \<notin> set pns) (tr_applied t)) \<union> set (popped_of (\<lambda>q. q \<in> set pns) t)"
    unfolding popped_of_def by (metis set_append takeWhile_dropWhile_id)
  then show ?thesis using assms by (auto simp: on_top_def)
qed

text \<open>The patches are taken out, in one way or the other.\<close>

abbreviation others_of :: "patch_name list \<Rightarrow> 'w transaction \<Rightarrow> patch_name list" where
  "others_of pns t \<equiv> filter (\<lambda>q. q \<notin> set pns) (popped_of (\<lambda>q. q \<in> set pns) t)"

definition replaced ::
  "patch_name list \<Rightarrow> (trans_error, patch_name \<times> oid \<times> patch_name list) outcome \<Rightarrow> 'w transaction \<Rightarrow> 'w transaction \<Rightarrow> bool" where
  "replaced pns r t t' \<longleftrightarrow>
     r \<noteq> Panic \<longrightarrow> good t' \<and> (\<forall>n i tp. r = Ok (n, i, tp) \<longrightarrow> tp = others_of pns t \<and> taken_out pns t t' \<and>
       usable pns (all_patches (trans_view t)) n \<and> (\<exists>c. objects (tr_repo t') i = Some c))"

lemma squash_pushed_replaced:
  assumes good: "good t" and pns: "pns \<noteq> []" "distinct pns" "set pns \<subseteq> set (all_patches (trans_view t))"
    and orig: "\<forall>pn\<in>set pns. has_patch (stack_view_of (tr_stack t)) pn"
    and run: "squash_pushed g eenv a pns pn t = Some (r, t')"
  shows "replaced pns r t t'"
  using run unfolding squash_pushed_def Let_def
proof (cases rule: pbindE)
  case (error e)
  then show ?thesis using squash_pop_push [OF good pns(2,3)] by (auto simp: total_def replaced_def)
next
  case pop: (first tp t2)
  then have top: "good t2" "tp = others_of pns t" "on_top pns t t2"
    using squash_pop_push [OF good pns(2,3)] by (auto simp: total_def)
  from pop(2) show ?thesis
  proof (cases rule: pbindE)
    case (error e)
    then show ?thesis using edit_in_try_squash [OF error(1) top(1)] by (auto simp: replaced_def)
  next
    case second: (first y t3)
    then obtain repo' where t3: "good t3" "t3 = t2\<lparr>tr_repo := repo'\<rparr>"
      and y: "\<And>n i. y = Some (n, i) \<Longrightarrow> usable pns (all_patches (trans_view t2)) n \<and> (\<exists>c. objects (tr_repo t3) i = Some c)"
      using edit_in_try_squash [OF second(1) top(1)] by blast
    have top3: "on_top pns t t3" using top(3) by (simp add: t3(2) on_top_def)
    show ?thesis
    proof (cases y)
      case None
      then show ?thesis using second(2) t3(1) by (auto simp: total_def sm_defs replaced_def)
    next
      case (Some z)
      obtain n i where z: "y = Some (n, i)" using Some by (cases z) auto
      have "\<forall>pn\<in>set pns. has_patch (stack_view_of (tr_stack t3)) pn" using orig top3 by (simp add: on_top_def)
      then obtain t4 where t4: "delete_patches (\<lambda>pn. pn \<in> set pns) t3 = (Ok (others_of pns t3), t4)"
          "taken_out pns t3 t4" "tr_repo t4 = tr_repo t3"
        using squash_delete [OF t3(1)] by metis
      note ot = on_top_taken_out [OF top3 t4(2) pns(1)]
      have "r = Ok (n, i, others_of pns t)" "t' = t4" using second(2) z t4(1) ot(2) top(2) by (auto simp: total_def sm_defs)
      moreover have "usable pns (all_patches (trans_view t)) n"
        using usable_same [OF on_top_all [OF top(3) pns(3)]] y [OF z] by blast
      moreover have "good t4" using t4(2) by (simp add: taken_out_def)
      ultimately show ?thesis using t4(3) y [OF z] ot(1) by (auto simp: replaced_def)
    qed
  qed (simp add: replaced_def)
qed (simp add: replaced_def)

lemma squash_replace_replaced:
  assumes good: "good t" and pns: "pns \<noteq> []" "distinct pns" "set pns \<subseteq> set (all_patches (trans_view t))"
    and orig: "\<forall>pn\<in>set pns. has_patch (stack_view_of (tr_stack t)) pn"
    and run: "squash_replace g eenv a pns pn t = Some (r, t')"
  shows "replaced pns r t t'"
  using run unfolding squash_replace_def
proof (cases rule: pbindE)
  case (first x t1)
  then obtain repo where t1: "good t1" "t1 = t\<lparr>tr_repo := repo\<rparr>"
    and x: "\<And>n i. x = Some (n, i) \<Longrightarrow> usable pns (all_patches (trans_view t)) n \<and> (\<exists>c. objects (tr_repo t1) i = Some c)"
    using edit_in_try_squash [OF first(1) good] by blast
  have orig1: "\<forall>pn\<in>set pns. has_patch (stack_view_of (tr_stack t1)) pn" using orig by (simp add: t1(2))
  have same: "replaced pns r t1 t' \<Longrightarrow> replaced pns r t t'" "taken_out pns t1 u \<Longrightarrow> taken_out pns t u" "others_of pns t1 = others_of pns t" for u
    by (simp_all add: t1(2) replaced_def taken_out_def popped_of_def cong: conj_cong)
  show ?thesis
  proof (cases x)
    case (Some z)
    obtain n i where z: "x = Some (n, i)" using Some by (cases z) auto
    obtain t2 where t2: "delete_patches (\<lambda>pn. pn \<in> set pns) t1 = (Ok (others_of pns t), t2)" "taken_out pns t1 t2" "tr_repo t2 = tr_repo t1"
      using squash_delete [OF t1(1) orig1] same(3) by metis
    then have "r = Ok (n, i, others_of pns t)" "t' = t2" using first(2) z by (auto simp: total_def sm_defs)
    then show ?thesis using t2 x [OF z] same(2) by (auto simp: taken_out_def replaced_def)
  next
    case None
    have "replaced pns r t1 t'"
      by (rule squash_pushed_replaced [OF t1(1) pns(1,2) _ orig1]) (use first(2) None pns(3) t1(2) in auto)
    then show ?thesis by (rule same(1))
  qed
next
  case (error e)
  then show ?thesis using edit_in_try_squash [OF error(1) good] by (simp add: replaced_def)
qed (simp add: replaced_def)

lemma squash_outcome:
  assumes good: "good t" and pns: "pns \<noteq> []" "distinct pns" "set pns \<subseteq> set (all_patches (trans_view t))"
    and orig: "\<forall>pn\<in>set pns. has_patch (stack_view_of (tr_stack t)) pn"
    and run: "squash g eenv a pns pn sp t = Some (r, t')" and r: "r \<noteq> Panic"
  shows "good t' \<and> (\<forall>n. r = Ok n \<longrightarrow> squashed pns sp n t t')"
  using run unfolding squash_def
proof (cases rule: pbindE)
  case (first x t1)
  obtain n i tp where x: "x = (n, i, tp)" by (cases x) auto
  have rp: "replaced pns (Ok (n, i, tp)) t t1" using squash_replace_replaced [OF good pns orig] first(1) x by blast
  then obtain c where "taken_out pns t t1" "tp = others_of pns t" "usable pns (all_patches (trans_view t)) n" "objects (tr_repo t1) i = Some c"
    by (auto simp: replaced_def)
  then show ?thesis using squash_finish [of pns t t1 i c n g sp tp r t'] first(2) x by (auto simp: total_def)
next
  case (error e)
  have "replaced pns (Err e) t t'" by (rule squash_replace_replaced [OF good pns orig error(1)])
  then show ?thesis using error(2) by (auto simp: replaced_def)
qed (use r in simp)

lemma squash_select_ok:
  assumes "ready sk repo" "squash_select g env sk a repo = Ok pns"
  shows "distinct pns" "set pns \<subseteq> set (all_patches (stack_view_of sk))" "pns \<noteq> []"
proof -
  have r: "resolve_names (cm_locator env) (stack_view_of sk) (sq_ranges a) RC_All = Ok pns" "\<not> length pns < 2"
    using assms(2) by (auto simp: squash_select_def split: if_splits)
  show "distinct pns" "set pns \<subseteq> set (all_patches (stack_view_of sk))"
    using resolve_names_ok [OF ready_view [OF assms(1)] r(1)] by (auto simp: get_allowed_def location_of_range.simps)
  show "pns \<noteq> []" using r(2) by auto
qed

lemma squash_command_outcome:
  assumes r: "ready sk repo" and sel: "squash_select g env sk a repo = Ok pns"
    and run: "squash_closure g eenv sk a pns (start_transaction sk opts repo) = Some (res, t')" and np: "res \<noteq> Panic"
  shows "trans_ok t' \<and> chain_ok t' \<and>
    (res = Ok () \<longrightarrow> (\<exists>n. squashed pns (\<exists>pn\<in>set pns. pn \<in> set (st_applied (sk_state sk))) n (start_transaction sk opts repo) t'))"
proof -
  let ?t = "start_transaction sk opts repo" and ?sp = "list_ex (\<lambda>pn. pn \<in> set pns) (v_applied (stack_view_of sk))"
  note s = squash_select_ok [OF r sel]
  obtain q where q: "squash g eenv (sq_edit a) pns (sq_name a) ?sp ?t = Some (q, t')"
      "res = (case q of Ok _ \<Rightarrow> Ok () | Err e \<Rightarrow> Err e | Panic \<Rightarrow> Panic)"
    using run unfolding squash_closure_def
    by (elim pbindE) (auto simp: total_def ret_def)
  have all: "set pns \<subseteq> set (all_patches (trans_view ?t))" using s(2) by (simp add: all_patches_def)
  have orig: "\<forall>pn\<in>set pns. has_patch (stack_view_of (tr_stack ?t)) pn"
    using s(2) view_ok_has [OF ready_view [OF r]] by auto
  have "good t' \<and> (\<forall>n. q = Ok n \<longrightarrow> squashed pns ?sp n ?t t')"
    by (rule squash_outcome [OF start_good [OF r] s(3,1) all orig q(1)]) (use q(2) np in auto)
  moreover have "?sp \<longleftrightarrow> (\<exists>pn\<in>set pns. pn \<in> set (st_applied (sk_state sk)))" by (auto simp: list_ex_iff)
  ultimately show ?thesis using q(2) by (cases q) (auto simp: good_def)
qed

text \<open>When the first attempt combines the changes, the patches are replaced and nothing panics.\<close>

lemma squash_direct:
  assumes good: "good t" and orig: "\<forall>pn\<in>set pns. has_patch (stack_view_of (tr_stack t)) pn"
    and first: "edit_in (try_squash g eenv a pns pn) t = Some (Ok (Some (n, i)), t1)"
  shows "\<exists>r t'. squash g eenv a pns pn sp t = Some (r, t') \<and> r \<noteq> Panic"
proof -
  note e = edit_in_try_squash [OF first good]
  then obtain repo c where t1: "good t1" "t1 = t\<lparr>tr_repo := repo\<rparr>" "usable pns (all_patches (trans_view t)) n" "objects (tr_repo t1) i = Some c"
    by blast
  have "\<forall>pn\<in>set pns. has_patch (stack_view_of (tr_stack t1)) pn" using orig t1(2) by simp
  then obtain t2 where t2: "delete_patches (\<lambda>pn. pn \<in> set pns) t1 = (Ok (others_of pns t1), t2)" "taken_out pns t1 t2" "tr_repo t2 = tr_repo t1"
    using squash_delete [OF t1(1)] by metis
  obtain r t' where fin: "sthen (new_unapplied n i 0)
      (sthen (push_patches g (if sp then n # others_of pns t1 else others_of pns t1) False) (ret n)) t2 = (r, t')" by fastforce
  have "usable pns (all_patches (trans_view t1)) n" using t1(2,3) by simp
  then have "r \<noteq> Panic" using squash_finish [OF t2(2) _ _ fin refl] t1(4) t2(3) by simp
  moreover have "squash g eenv a pns pn sp t = Some (r, t')"
    using first t2(1) fin by (simp add: squash_def squash_replace_def pbind_def total_def sbind_def ret_def)
  ultimately show ?thesis by blast
qed

end
