(* ===== verification/Edit_Cmd_Props.thy ===== *)
theory Edit_Cmd_Props
  imports Edit_Inv
begin

text \<open>
  Properties of the commands \<open>edit\<close> and \<open>squash\<close>: what they do to the stack, and that an edit without changes does nothing.
\<close>

section \<open>An edit without changes\<close>

lemma instructions_comment:
  "comment_text EDIT_INSTRUCTION" "comment_text EDIT_INSTRUCTION_EDITABLE_DIFF" "comment_text EDIT_INSTRUCTION_READ_ONLY_DIFF"
  by code_simp+

text \<open>A commit whose description can be written and read back, and the editor that leaves the file as it is.\<close>

definition readable_commit :: "date_env \<Rightarrow> patch_name \<Rightarrow> commit \<Rightarrow> bool" where
  "readable_commit env pn c \<longleftrightarrow>
     name_ok pn \<and> author_ok env (c_author c) \<and>
     tidy (c_message c) = c_message c \<and> list_all (\<lambda>l. list_all scalar l \<and> no_cut l) (message_lines (c_message c))"

definition idle_editor :: "('x, 'w) edit_env \<Rightarrow> commit \<Rightarrow> bool" where
  "idle_editor env c \<longleftrightarrow> (\<forall>buf. ee_editor env buf = Inr buf) \<and> ee_hook env (c_message c) = Inr (c_message c)"

lemma read_diff_shown:
  assumes "list_all is_ascii_whitespace d \<or> \<not> starts_with d [c_hash]"
  shows "read_diff d \<in> {None, Some d}"
proof (cases "list_all is_ascii_whitespace d")
  case True
  then have "list_all is_ascii_whitespace (drop n d)" for n by (auto simp: list_all_iff dest: in_set_dropD)
  then show ?thesis by (simp add: read_diff_def)
next
  case False
  then show ?thesis using assms read_diff_ok [of d] by (simp add: diff_ok_def)
qed

lemma edit_interactive_idle:
  assumes c: "readable_commit (ee_dates env) pn c" and idle: "idle_editor env c"
  shows "edit_interactive env (description_of b (Some pn) (c_author c) (c_message c) diff) =
    Ok \<lparr>et_patchname = Some (Some pn), et_author = Some (Some (c_author c)), et_message = c_message c,
        et_diff = Option.bind diff read_diff\<rparr>"
proof -
  let ?d = "description_of b (Some pn) (c_author c) (c_message c) diff"
  have "desc_ok (ee_dates env) ?d"
    using c instructions_comment by (simp add: desc_ok_def description_of_def readable_commit_def)
  note rb = description_read_back [OF this]
  then show ?thesis using c idle by (simp add: edit_interactive_def idle_editor_def description_of_def readable_commit_def)
qed

text \<open>The builder of an edit that has an existing patch and leaves its tree and parent.\<close>

definition plain_builder :: "edit_builder \<Rightarrow> patch_name \<Rightarrow> commit \<Rightarrow> bool" where
  "plain_builder b pn c \<longleftrightarrow>
     eb_original_patchname b = Some pn \<and> eb_template_patchname b = None \<and> pn \<in> set (eb_allowed_patchnames b) \<and>
     eb_patch_commit b = Some c \<and> \<not> eb_allow_autosign b \<and> eb_overlay_author b = None \<and> eb_overlay_message b = None \<and>
     eb_overlay_parent_id b = None \<and> eb_overlay_tree_id b \<in> {None, Some (c_tree c)}"

lemma unique_name_allowed: "pn \<in> set (eb_allowed_patchnames b) \<Longrightarrow> unique_name env b v pn = known (Ok pn)"
  by (auto simp: unique_name_def named_def known_def fun_eq_iff uniquify.simps usable_def list_ex_iff)

lemma finish_edit_idle:
  assumes b: "plain_builder b pn c" and cm: "sig_name (c_committer c) = sig_name dc" "sig_email (c_committer c) = sig_email dc"
    and p: "c_parents c = p # ps" and idle: "idle_editor env c"
  shows "finish_edit g env b a v dc hook (Some pn) (c_author c) (c_message c) (c_tree c) p = known (Ok (Edited None None))"
  using b idle unique_name_allowed [of pn b env v] cm p
  by (simp add: finish_edit_def plain_builder_def idle_editor_def final_name_def same_commit_def Let_def)

lemma edit_from_idle:
  assumes b: "plain_builder b pn c" and cm: "sig_name (c_committer c) = sig_name dc" "sig_email (c_committer c) = sig_email dc"
    and p: "c_parents c = p # ps" and idle: "idle_editor env c" and c: "readable_commit (ee_dates env) pn c"
    and save: "ea_save_template a = None"
    and diff: "diff = computed" "\<And>d. diff = Some d \<Longrightarrow> list_all is_ascii_whitespace d \<or> \<not> starts_with d [c_hash]"
  shows "edit_from g env b a v dc need (Some pn) (c_author c) (c_message c) (c_tree c) p diff computed = known (Ok (Edited None None))"
proof -
  let ?diff = "if need then Option.bind diff read_diff else diff"
  have d: "?diff = None \<or> ?diff = computed"
  proof (cases diff)
    case (Some x)
    then show ?thesis using diff read_diff_shown [of x] by auto
  qed simp
  have "(if need then obind (edit_interactive env (description_of b (Some pn) (c_author c) (c_message c) diff))
          (edited_values g b (description_of b (Some pn) (c_author c) (c_message c) diff))
        else Ok (Some pn, c_author c, c_message c, diff)) = Ok (Some pn, c_author c, c_message c, ?diff)"
    using edit_interactive_idle [OF c idle] by (simp add: edited_values_def)
  moreover have "edited_tree g env b (c_tree c) p computed (Some pn) (c_author c) (c_message c) ?diff = Ok (c_tree c)"
    using d by (auto simp: edited_tree_def split: option.split)
  ultimately show ?thesis
    using finish_edit_idle [OF b cm p idle] save by (simp add: edit_from_def Let_def)
qed

lemma edit_idle:
  assumes b: "plain_builder b pn c" and dc: "g_committer g = Inr dc"
    and cm: "sig_name (c_committer c) = sig_name dc" "sig_email (c_committer c) = sig_email dc"
    and p: "c_parents c = p # ps" "objects repo p = Some parent" and idle: "idle_editor env c" and c: "readable_commit (ee_dates env) pn c"
    and a: "no_changes_given a" "ea_save_template a = None" and strict: "g_author_strict g c = Inr (c_author c)"
    and diff: "ee_diff_tree env (c_tree parent) (c_tree c) = Inr d" "list_all is_ascii_whitespace d \<or> \<not> starts_with d [c_hash]"
  shows "edit g env b a v repo = Some (Ok (Edited None None), repo)"
proof -
  note b' = b [unfolded plain_builder_def] and a' = a(1) [unfolded no_changes_given_def]
  have author: "edit_author g b a None = Ok (c_author c)"
    using b' a' strict by (simp add: edit_author_def author_from_args_def override_author_def)
  have msg: "start_message env b a m = Ok (c_message c, wants_editor b a)" for m
    using b' a' by (simp add: start_message_def)
  have trailers: "add_trailers env (c_message c) a dc None = Ok (c_message c)"
    using a' by (simp add: add_trailers_def trailers_of_def)
  have name: "start_name env b v None (c_message c) need = known (Ok (Some pn))" for need
    using b' by (simp add: start_name_def)
  have shown: "show_diff g env b (c_tree c) p repo = known (Ok d) repo"
    using b' p(2) diff(1) by (simp add: show_diff_def find_commit_def)
  have ef: "edit_from g env b a v dc need (Some pn) (c_author c) (c_message c) (c_tree c) p df df = known (Ok (Edited None None))"
    if "df \<in> {None, Some d}" for need df
    by (rule edit_from_idle [OF b cm p(1) idle c a(2)]) (use that diff(2) in auto)
  have sd: "ebind (start_diff g env b a None need (c_tree c) p) f repo = ebind (known (Ok (df, df))) f repo"
    if "df = (if need \<and> (ea_diff a \<or> ee_verbose env = Some True) then Some d else None)" for need f df
    using shown that by (auto simp: start_diff_def ebind_def known_def)
  show ?thesis
    using b' a' dc p(1) by (cases "eb_overlay_tree_id b")
      (simp_all add: edit_def author msg trailers name first_parent_def sd [OF refl] ef known_def [of "Ok (Edited None None)"])
qed

section \<open>Example\<close>

definition ex_edit_env :: "(oid, oid) edit_env" where
  "ex_edit_env =
     \<lparr>ee_dates = \<lparr>de_parse = (\<lambda>_. Some 0), de_format = (\<lambda>_. str ''1970-01-01 00:00:00 +0000''), de_now = 0,
        de_zone = str ''+0000'', de_colon_zone = str ''+00:00''\<rparr>,
       ee_naming = \<lparr>cfg_lower = (\<lambda>s. s), cfg_checks = True, cfg_limit = Some 30\<rparr>,
      ee_read = (\<lambda>_. Inl []), ee_write = (\<lambda>_ _. Inr ()), ee_editor = Inr, ee_template = Inr None,
      ee_interpret_trailers = (\<lambda>m _. Inr m), ee_autosign = None, ee_verbose = None, ee_hook = Inr,
      ee_diff_tree = (\<lambda>_ _. Inr []), ee_diff_index = (\<lambda>_ _. Inr []), ee_apply = (\<lambda>_ x. Inr x)\<rparr>"

definition ex_edit_args :: edit_args where
  "ex_edit_args =
     \<lparr>ea_edit = False, ea_diff = False, ea_message = Some (str ''m''), ea_file = None, ea_no_verify = False,
      ea_signoff = [], ea_sign_by = [], ea_ack = [], ea_ack_by = [], ea_review = [], ea_review_by = [], ea_author = None,
      ea_authname = None, ea_authemail = None, ea_authdate = None, ea_committer_date_is_author_date = False,
      ea_save_template = None\<rparr>"

lemma ex_prettify: "prettify (str ''m'') = [109, 10]"
  by code_simp

lemma ex_commit_of:
  "get_patch_commit (trans_view (start_transaction ex_stack opts ex_repo)) pa = Ok k_a"
  "get_patch_commit (trans_view (start_transaction ex_stack opts ex_repo)) pb = Ok k_b"
  "get_patch_commit (trans_view (start_transaction ex_stack opts ex_repo)) pc = Ok k_c"
  "get_patch_commit (trans_view (start_transaction ex_stack opts ex_repo)) pd = Ok k_d"
  by (simp_all add: get_patch_commit_def, simp_all add: ex_stack_def ex_state_def bt_get_def)

lemma ex_parents: "get_parent_commit ex_repo k_b = Ok k_a" "get_parent_commit ex_repo k_c = Ok k_base" "get_parent_commit ex_repo k_d = Ok k_base"
  by (simp_all add: get_parent_commit_def ex_repo_def ex_commits)

lemma ex_squash_step:
  assumes "(get_patch_commit v pn :: (edit_failure, commit) outcome) = Ok k" "get_parent_commit repo k = Ok p" "c_tree p \<noteq> c_tree k" "c_author k = sig0"
  shows "squash_loop ex_git repo v sig0 (pn # pns) True x = squash_loop ex_git repo v sig0 pns True (x + c_tree k - c_tree p)"
proof -
  have "x_apply ex_git (c_tree p) (c_tree k) True x = (Inr True, x + c_tree k - c_tree p)" by (simp add: ex_git_def)
  then show ?thesis using assms by (simp add: apply_treediff_to_index_def)
qed

lemma ex_squash_tree:
  "squash_tree ex_git ex_repo (trans_view (start_transaction ex_stack opts ex_repo)) k_a [pb, pc, pd] = Ok (Some (25, True))"
proof -
  let ?v = "trans_view (start_transaction ex_stack opts ex_repo)"
  have "squash_loop ex_git ex_repo ?v sig0 [pb, pc, pd] True 11 = Ok (True, True, 25)"
    using ex_squash_step [OF ex_commit_of(2) ex_parents(1)] ex_squash_step [OF ex_commit_of(3) ex_parents(2)]
      ex_squash_step [OF ex_commit_of(4) ex_parents(3)]
    by (simp add: ex_commits del: squash_loop.simps(2))
  moreover have "c_author k_a = sig0" "x_new ex_git = Inr 0" "x_read_tree ex_git (c_tree k_a) 0 = Inr 11" "x_write_tree ex_git 25 = Inr 25"
    by (simp_all add: ex_git_def k_a_def mk_commit_def)
  ultimately show ?thesis by (simp add: squash_tree_def del: squash_loop.simps)
qed

lemma ex_message: "\<exists>m. prepare_message (trans_view (start_transaction ex_stack opts ex_repo)) [pa, pb, pc, pd] = Ok m"
  by (simp add: prepare_message_def ex_commit_of)

lemma ex_edit:
  assumes "pn \<in> set (eb_allowed_patchnames b)" "eb_overlay_tree_id b = Some tree"
    "eb_overlay_author b = Some author \<or> eb_overlay_author b = None \<and> eb_patch_commit b = Some c"
    "eb_overlay_parent_id b = Some parent \<or> eb_overlay_parent_id b = None \<and> eb_patch_commit b = Some c \<and> c_parents c = [parent]"
    "eb_template_patchname b = Some (Some pn) \<or> eb_template_patchname b = None \<and> eb_original_patchname b = Some pn"
    "\<not> eb_allow_autosign b" "eb_patch_commit b = None \<or> eb_patch_commit b = Some c \<and> c_message c \<noteq> [109, 10]"
  shows "\<exists>repo'. edit ex_git ex_edit_env b ex_edit_args v ex_repo =
     Some (Ok (Edited (if eb_original_patchname b = Some pn then None else Some pn) (Some (100 + 10 * tree + parent))), repo')"
  using assms unique_name_allowed [of pn b ex_edit_env v]
  by (auto simp: edit_def edit_author_def start_message_def start_name_def final_name_def add_trailers_def trailers_of_def wants_editor_def
     no_changes_given_def start_diff_def edit_from_def edited_tree_def finish_edit_def ex_edit_args_def ex_prettify Let_def first_parent_def
     author_from_args_def same_commit_def commit_ex_def commit_with_options_def ex_git_def ex_edit_env_def override_author_def known_def ebind_def)

lemma ex_range: "resolve_names ex_env (state_view ex_state) [PR_Range \<lparr>rb_begin = None, rb_end = None\<rparr>] RC_All = Ok [pa, pb, pc, pd]"
  by code_simp

definition ex_squash :: squash_args where
  "ex_squash = \<lparr>sq_ranges = [PR_Range \<lparr>rb_begin = None, rb_end = None\<rparr>], sq_name = Some pa, sq_edit = ex_edit_args\<rparr>"

lemma ex_squash_select: "squash_select ex_git ex_cmd_env ex_stack ex_squash ex_repo = Ok [pa, pb, pc, pd]"
  using ex_check_ready' ex_range by (simp add: squash_select_def ex_squash_def ex_cmd_env_def ex_stack_def)

lemma ex_try_squash:
  "\<exists>t1. edit_in (try_squash ex_git ex_edit_env ex_edit_args [pa, pb, pc, pd] (Some pa)) (start_transaction ex_stack opts ex_repo) =
     Some (Ok (Some (pa, 351)), t1)"
proof -
  let ?t = "start_transaction ex_stack opts ex_repo"
  let ?v = "trans_view ?t"
  obtain m where m: "(prepare_message ?v [pa, pb, pc, pd] :: (edit_failure, rstring) outcome) = Ok m" using ex_message by blast
  let ?b = "squash_builder k_a 1 25 (Some pa) [pa, pb, pc, pd] (override_author ex_edit_args (c_author k_a)) m"
  obtain repo' where "edit ex_git ex_edit_env ?b ex_edit_args ?v ex_repo = Some (Ok (Edited (Some pa) (Some 351)), repo')"
    using ex_edit [of pa ?b 25 _ k_a 1 ?v] by (auto simp: squash_builder_def extra_allowed_patchnames_def default_builder_def)
  moreover have "first_parent k_a = Ok 1" by (simp add: first_parent_def k_a_def mk_commit_def)
  ultimately have "try_squash ex_git ex_edit_env ex_edit_args [pa, pb, pc, pd] (Some pa) ?t ex_repo = Some (Ok (Some (pa, 351)), repo')"
    using m ex_squash_tree [of opts] by (simp add: try_squash_def Let_def ebind_def known_def ex_commit_of)
  then show ?thesis by (simp add: edit_in_def)
qed

section \<open>Properties\<close>


definition ex_edit_cmd :: edit_cmd_args where
  "ex_edit_cmd = \<lparr>ec_patch = None, ec_set_tree = None, ec_edit = ex_edit_args\<rparr>"


text \<open>
  C16: When the user leaves the text of \<open>stg edit\<close> as it is, nothing happens: no transaction is planned and no commit is
  written.  The description of the patch is one that can be read back, the committer is the same person, and the hook
  does not change the message.
\<close>

theorem edit_without_changes:
  assumes "check_head_top_mismatch sk = Ok ()" "edit_target env (stack_view_of sk) (ec_patch a) = Ok pn"
    "v_get (stack_view_of sk) pn = Some \<lparr>ps_commit = c\<rparr>" "ec_set_tree a = None"
    and "g_committer g = Inr dc" "sig_name (c_committer c) = sig_name dc" "sig_email (c_committer c) = sig_email dc"
    and "c_parents c = p # ps" "objects repo p = Some parent"
    and "idle_editor eenv c" "readable_commit (ee_dates eenv) pn c" "g_author_strict g c = Inr (c_author c)"
    and "no_changes_given (ec_edit a)" "ea_save_template (ec_edit a) = None"
    and "ee_diff_tree eenv (c_tree parent) (c_tree c) = Inr d" "list_all is_ascii_whitespace d \<or> \<not> starts_with d [c_hash]"
  shows "edit_plan g eenv env sk a repo = Some (Ok NothingToDo, repo)"
proof -
  let ?b = "edit_cmd_builder pn c a"
  have "plain_builder ?b pn c"
    by (simp add: plain_builder_def edit_cmd_builder_def original_patchname_def default_builder_def assms(4))
  from edit_idle [OF this assms(5-9,10,11,13,14,12,15,16)]
  have "edit g eenv ?b (ec_edit a) (stack_view_of sk) repo = Some (Ok (Edited None None), repo)" .
  then show ?thesis using assms(1-3) by (simp add: edit_plan_def get_patch_commit_def)
qed

definition ex_open_edit :: edit_cmd_args where
  "ex_open_edit = \<lparr>ec_patch = None, ec_set_tree = None, ec_edit = ex_edit_args\<lparr>ea_message := None, ea_diff := True\<rparr>\<rparr>"

theorem edit_without_changes_witness:
  "edit_plan ex_git ex_edit_env ex_cmd_env ex_stack ex_open_edit ex_repo = Some (Ok NothingToDo, ex_repo)"
proof (rule edit_without_changes [where pn = pb and c = k_b and dc = sig0 and p = 2 and ps = "[]" and parent = k_a and d = "[]"])
  show "check_head_top_mismatch ex_stack = Ok ()" using ex_check_ready' by (auto simp: check_ready_def)
  have "valid [98]" "trimmed [98]" by code_simp+
  moreover have "tidy [] = []" "list_all (\<lambda>l. list_all scalar l \<and> no_cut l) (message_lines [])" by code_simp+
  ultimately show "readable_commit (ee_dates ex_edit_env) pb k_b"
    by (simp add: readable_commit_def name_ok_def pb_def scalar_def author_ok_def k_b_def mk_commit_def sig0_def plain_def trimmed_def
        date_ok_def ex_edit_env_def str_def is_whitespace_def)
qed (simp_all add: edit_target_def state_view_def ex_stack_def ex_state_def bt_get_def ex_open_edit_def ex_edit_args_def ex_git_def k_b_def
    mk_commit_def ex_repo_def k_a_def idle_editor_def ex_edit_env_def no_changes_given_def)

text \<open>
  C15: \<open>stg squash\<close> replaces the selected patches by one.  Unless it panics, its transaction keeps the stack well formed and
  chained, whatever its result; when it succeeds, the new patch stands where the first selected one was applied, or on top
  of the unapplied ones if none was, and all other patches keep their order.  The new name is that of a selected patch or
  collides with none.
\<close>

theorem squash_command_spec:
  assumes "ready sk repo" "squash_select g env sk a repo = Ok pns"
    and "squash_closure g eenv sk a pns (start_transaction sk opts repo) = Some (res, t')" "res \<noteq> Panic"
  shows "trans_ok t' \<and> chain_ok t' \<and>
    (res = Ok () \<longrightarrow> (\<exists>n. squashed pns (\<exists>pn\<in>set pns. pn \<in> set (st_applied (sk_state sk))) n (start_transaction sk opts repo) t'))"
  using assms by (rule squash_command_outcome)

theorem squash_command_spec_witness:
  "\<exists>res t'. squash_select ex_git ex_cmd_env ex_stack ex_squash ex_repo = Ok [pa, pb, pc, pd] \<and>
     squash_closure ex_git ex_edit_env ex_stack ex_squash [pa, pb, pc, pd] (start_transaction ex_stack default_options ex_repo) = Some (res, t') \<and>
     res \<noteq> Panic \<and> trans_ok t' \<and> chain_ok t'"
proof -
  let ?t = "start_transaction ex_stack default_options ex_repo" and ?sp = "list_ex (\<lambda>pn. pn \<in> set [pa, pb, pc, pd]) (v_applied (stack_view_of ex_stack))"
  obtain t1 where "edit_in (try_squash ex_git ex_edit_env ex_edit_args [pa, pb, pc, pd] (Some pa)) ?t = Some (Ok (Some (pa, 351)), t1)"
    using ex_try_squash by blast
  moreover have "\<forall>pn\<in>set [pa, pb, pc, pd]. has_patch (stack_view_of (tr_stack ?t)) pn"
    by (simp add: has_patch_def state_view_def) (simp add: ex_stack_def ex_state_def bt_get_def)
  ultimately obtain r t' where r: "squash ex_git ex_edit_env ex_edit_args [pa, pb, pc, pd] (Some pa) ?sp ?t = Some (r, t')" "r \<noteq> Panic"
    using squash_direct [OF start_good [OF ex_ready], of "[pa, pb, pc, pd]" default_options] by blast
  obtain res where run: "squash_closure ex_git ex_edit_env ex_stack ex_squash [pa, pb, pc, pd] ?t = Some (res, t')" "res \<noteq> Panic"
    using r by (cases r) (auto simp: squash_closure_def ex_squash_def pbind_def total_def ret_def)
  from squash_command_spec [OF ex_ready ex_squash_select run] run ex_squash_select show ?thesis by blast
qed

text \<open>
  The message that is prepared for the editor is the message of the squashed patch when an option like \<open>--signoff\<close> or
  \<open>--author\<close> is given, which turns the editor off: its lines that start with \<open>#\<close> become part of the commit.
\<close>

lemma squash_keeps_comments:
  assumes "ea_message a = None" "ea_file a = None" "\<not> ea_edit a" "ea_author a = Some author"
  shows "start_message env (squash_builder c parent tree pn pns s message) a m = Ok (message, False)"
  using assms
  by (simp add: start_message_def squash_builder_def extra_allowed_patchnames_def default_builder_def wants_editor_def no_changes_given_def)

end
