(* ===== verification/Spec2Isabelle.thy ===== *)
theory Spec2Isabelle
  imports Trans_Props Execute_Props Stack_Props Range_Props Undo_Props Uncommit_Props Edit_Cmd_Props
begin

text \<open>
  Verification of StGit, a manager of stacks of patches on top of git.  Paths below are those of the
  repository, whose Rust crate is \<open>src/src\<close>.

  \<^bold>\<open>The program.\<close>  A stack belongs to a branch.  It has three lists of patches (applied, unapplied and
  hidden), each patch is one git commit, and the applied patches form a chain of commits from the base of
  the stack to the head of the branch.  The state of a stack is a JSON document in the tree of a commit,
  named by the reference \<open>refs/stacks/<branch>\<close>; the commits of the successive states form the state log.
  A command of \<open>stg\<close> opens the stack (\<open>stack/stack.rs\<close>, with an upgrade of old metadata by
  \<open>stack/upgrade.rs\<close>), reads patch names from its arguments (\<open>patch/parse\<close>, \<open>patch/locator.rs\<close>,
  \<open>patch/range.rs\<close>), rearranges the stack in a transaction (\<open>stack/transaction\<close>), and executes the
  transaction: the work tree is checked out, the new state is committed, and all references are changed
  at once, or everything is rolled back.

  \<^bold>\<open>Conventions.\<close>  A method that may return an error or panic is a function into \<open>outcome\<close> (\<open>Ok\<close>, \<open>Err\<close> or
  \<open>Panic\<close>), so every \<open>?\<close>, \<open>expect\<close>, \<open>unwrap\<close>, assertion and index out of range is a branch of the model.
  A method with \<open>&mut self\<close> is a state monad over the record it changes (theory \<open>Prelude\<close>), and the record
  is kept also when the method returns an error, as Rust keeps it.  \<open>BTreeMap\<close> is a sorted association
  list.  Integers that may overflow are \<open>int\<close> with the bounds of \<open>isize\<close> and \<open>usize\<close> written out; where a
  build with and one without overflow checks differ, a flag says which is meant.  Strings are lists of
  characters, a colour of the terminal is left out.

  \<^bold>\<open>Parameters.\<close>  What is not in \<open>src/\<close> is an argument:
  \<^item> the record \<open>git\<close> of theory \<open>Repository\<close>: object ids, applying and merging trees, the temporary index,
    the work tree with its checkouts and its status.  The properties that need a law of git name it as a
    hypothesis (\<open>git_ok\<close>, \<open>status_documented\<close> and the like), and theory \<open>Examples\<close> has an instance that satisfies
    them all, in which a tree is a number;
  \<^item> \<open>locator_env\<close> of theory \<open>Locator\<close>: prefixes of commit ids, the similarity of names that only chooses the
    text of an error, and the ancestors of a commit;
  \<^item> \<open>cmd_env\<close> of theory \<open>Commands\<close>: the flags and arguments the command line library has parsed;
  \<^item> the text of a JSON document and of a git object id, with a reader as the inverse of the writer.

  The combinators of the crate \<open>winnow\<close> are functions of theory \<open>Winnow\<close>, by their documented behaviour.

  \<^bold>\<open>Theories, in the order of the imports.\<close>
  \<^item> \<open>Prelude\<close>, \<open>Rust_Std\<close>: outcomes, the monad with its rules, maps, strings and characters.  The locales
    \<open>finite_map\<close> and \<open>map_updates\<close> are the contract of \<open>BTreeMap\<close>, interpreted on sorted association lists.
  \<^item> \<open>Patch_Name\<close> (\<open>patch/name.rs\<close>, \<open>patch/constraint.rs\<close>): validation against the rules for names, the
    construction of a name from a message, with the one way in which it panics, and the loop that makes a
    name unique, a \<open>partial_function\<close> that is shown to return.
  \<^item> \<open>Repository\<close> (\<open>ext/repository.rs\<close>, \<open>ext/commit.rs\<close>, \<open>stupid/context.rs\<close>): commits and references, and
    the calls of git.
  \<^item> \<open>Status\<close>, \<open>Status_Props\<close> (\<open>stupid/status.rs\<close>): the output of \<open>git status\<close> is read back entry by entry, and
    the checks for conflicts and changes say what the entries say.
  \<^item> \<open>Stack_State\<close> (\<open>stack/state.rs\<close>, \<open>stack/access.rs\<close>, \<open>stack/iter.rs\<close>): the three lists.  The locale
    \<open>stack_access\<close> is the trait \<open>StackAccess\<close> and \<open>StackStateAccess\<close>, interpreted on states, stacks and transactions.
  \<^item> \<open>State_Log\<close>, \<open>State_Props\<close> (\<open>stack/state.rs\<close>, \<open>stack/serde.rs\<close>): a state written to a tree is read back,
    and its commit keeps all patches reachable.
  \<^item> \<open>Trans_Ui\<close>, \<open>Transaction\<close>, \<open>Trans_Push\<close> (\<open>stack/transaction/ui.rs\<close>, \<open>mod.rs\<close>): every method of
    \<open>StackTransaction\<close>.  \<open>Trans_Inv\<close>, \<open>Push_Inv\<close>, \<open>Push_List\<close> and \<open>Trans_Ops\<close> show what each method does on every
    outcome and that it keeps the invariants \<open>trans_ok\<close> (every patch in one list, once) and \<open>chained\<close> (the
    applied commits form a chain); \<open>Trans_Props\<close> has the properties.
  \<^item> \<open>Upgrade\<close>, \<open>Stack_Ops\<close>, \<open>Stack_Props\<close> (\<open>stack/upgrade.rs\<close>, \<open>stack/stack.rs\<close>): opening a stack, repairing
    the references of the patches, upgrading metadata of version 4.
  \<^item> \<open>Execute\<close>, \<open>Execute_Inv\<close>, \<open>Execute_Props\<close> (\<open>stack/transaction/builder.rs\<close>, \<open>mod.rs\<close>, \<open>signal.rs\<close>): setting
    up and executing a transaction, all or nothing, and what a held-off \<open>ctrl-c\<close> does.
  \<^item> \<open>Winnow\<close>, \<open>Parse\<close>, \<open>Parse_Props\<close> (\<open>patch/parse\<close>, \<open>patch/offset.rs\<close>, \<open>patch/identifier.rs\<close>): the parsers of names,
    offsets, locators and ranges, and that a printed range is parsed back.
  \<^item> \<open>Locator\<close>, \<open>Range\<close>, \<open>Locator_Props\<close>, \<open>Range_Props\<close> (\<open>patch/locator.rs\<close>, \<open>patch/range.rs\<close>): the patches
    that locators and ranges stand for in a stack, and when their resolution panics.
  \<^item> \<open>Undo\<close>, \<open>Undo_Props\<close> (\<open>cmd/undo.rs\<close>, \<open>cmd/redo.rs\<close>): the search in the state log refines an abstract
    history of past and undone states, and the commands restore the state it names.
  \<^item> \<open>Commands\<close>, \<open>Commands_Inv\<close>, \<open>Commands_Props\<close> (\<open>cmd/push.rs\<close>, \<open>pop.rs\<close>, \<open>goto.rs\<close>, \<open>float.rs\<close>, \<open>sink.rs\<close>, \<open>hide.rs\<close>,
    \<open>unhide.rs\<close>, \<open>delete.rs\<close>, \<open>commit.rs\<close>, \<open>clean.rs\<close>, \<open>rename.rs\<close>, \<open>reset.rs\<close>): each command as a plan, the selected
    patches, the checks, the options and the transaction; \<open>session\<close> is the step relation of a sequence of
    commands, and every reachable repository has a well-formed stack.

  \<^bold>\<open>Loops and bounds.\<close>  Loops over lists are structural recursion.  Two loops follow data that the types
  do not bound, and they are \<open>partial_function (option)\<close>: the loop of \<open>uniquify\<close>, which is shown to end for
  every list of names, and the search of \<open>undo\<close>, which is shown to end on every log that does.  There is no
  fuel in the development.

  \<^bold>\<open>Not modelled.\<close>  The processes of git behind \<open>stupid\<close> and the library \<open>gix\<close>; the definitions of command lines
  for \<open>clap\<close>, the shell completions, manual pages and the text of listings; sending and formatting of email; import
  and export of patch files; hooks and the interactive editor; the configuration of git, with the
  protection of branches; the upgrade of metadata of versions 2 and 3, which reads files below \<open>.git/patches\<close>.
\<close>

end
